(* ===== verification/Prelude.thy ===== *)
theory Prelude
  imports Complex_Main "HOL-Library.Char_ord" "HOL-Library.List_Lexorder"
    "HOL-Library.Product_Lexorder"
begin

text \<open>
  What every component of the development shares: the exception classes of the Python code as
  one datatype of errors, the result type in which every raise is a value, the characters and
  regular expressions the domain objects validate their identifiers with, and the collections
  and list lemmas the component theories use.
\<close>

named_theorems result_simps "reducing the result combinators"
named_theorems dec_intros "signs, bounds and order of context-rounded Decimal results"

section \<open>Errors as values\<close>

text \<open>
  One constructor per exception class the modelled code raises.  The Portuguese and English
  messages carried by the exceptions are not modelled: no code under \<^verbatim>\<open>app/\<close> branches on them.
\<close>

datatype search_error =
    UnknownSearchParameter
  | IncompatibleSearchParameterType
  | DuplicateSearchParameterValue
  | SearchParameterConflict
  | EmptyParameterSearchSpace
  | EmptySearchParameterValues
  | InvalidCombinationLimit
  | SearchCardinalityExceeded
  | InvalidSearchCombination
  | IncompatibleSearchSpaceDocument
  | UnsupportedSearchSpaceSchema
  | SearchSpaceChecksum

datatype walk_forward_error =
    InvalidWalkForwardWindowPolicy
  | InsufficientWalkForwardFolds
  | WalkForwardLimitExceeded
  | IncompatibleWalkForwardFold
  | IncompatibleWalkForwardPlan
  | InvalidWalkForwardSelectionPolicy
  | MissingWalkForwardMetric
  | InvalidWalkForwardMetric
  | InvalidWalkForwardCandidate
  | NoEligibleWalkForwardCandidate
  | IncompatibleWalkForwardSelection
  | InvalidWalkForwardHoldout
  | IncompatibleWalkForwardExecution
  | WalkForwardChecksum
  | WalkForwardIdentifier

datatype error =
    ValueError
  | AssertionError
  | ZeroDivision
  | InvalidOperation
  | InvalidOrderIntent
  | InsufficientCash
  | InsufficientPosition
  | BacktestResultCorrupt
  | StrategyFailure
  | SnapshotInvalid
  | SnapshotChanged
  | MaximumCandlesExceeded
  | MaximumEventsExceeded
  | UnsupportedBacktestMarket
  | MarketDataInconsistency
  | InvalidDataRange
  | UnsupportedTimeframe
  | MarketDataStorage
  | MarketJobNotFound
  | InvalidIndicatorInput
  | FutureDataAccess
  | UnsupportedIndicatorSchema
  | OverflowError
  | OSError
  | InvalidTemporalCoverage
  | InvalidTemporalTimeframe
  | MisalignedTemporalBoundary
  | InvalidTemporalCandleCount
  | TemporalCandleCountMismatch
  | TemporalSegmentOrder
  | TemporalSegmentOverlap
  | TemporalSegmentGap
  | InvalidTemporalWarmup
  | TemporalWarmupUnavailable
  | InsufficientTemporalCoverage
  | TemporalChecksum
  | TemporalIdentifier
  | IncompatibleTemporalSnapshot
  | IncompatibleTemporalDocument
  | UnsupportedTemporalSchema
  | ParameterSearchError search_error
  | WalkForwardError walk_forward_error

type_synonym 'a result = "error + 'a"

text \<open>Sequencing: the first error wins, as an uncaught exception does.\<close>

definition res_bind :: "'a result \<Rightarrow> ('a \<Rightarrow> 'b result) \<Rightarrow> 'b result" where
  "res_bind r f = (case r of Inl e \<Rightarrow> Inl e | Inr x \<Rightarrow> f x)"

text \<open>\<open>if not b: raise e\<close>, then the rest.\<close>

definition require :: "bool \<Rightarrow> error \<Rightarrow> 'a result \<Rightarrow> 'a result" where
  "require b e r = (if b then r else Inl e)"

text \<open>\<open>try: r except Exception: raise e\<close>.\<close>

definition catch_as :: "error \<Rightarrow> 'a result \<Rightarrow> 'a result" where
  "catch_as e r = (case r of Inl _ \<Rightarrow> Inl e | Inr x \<Rightarrow> Inr x)"

lemma res_bind_simps [simp, result_simps]:
  "res_bind (Inl e) f = Inl e"
  "res_bind (Inr x) f = f x"
  by (simp_all add: res_bind_def)

lemma res_bind_Inr_iff [simp, result_simps]:
  "res_bind r f = Inr y \<longleftrightarrow> (\<exists>x. r = Inr x \<and> f x = Inr y)"
  by (cases r) simp_all

lemma res_bind_InrE:
  assumes "res_bind r f = Inr y"
  obtains x where "r = Inr x" and "f x = Inr y"
  using assms by auto

lemma require_Inr_iff [simp, result_simps]:
  "require b e r = Inr y \<longleftrightarrow> b \<and> r = Inr y"
  by (simp add: require_def)

lemma require_True [simp, result_simps]: "require True e r = r"
  by (simp add: require_def)

lemma require_False [simp, result_simps]: "require False e r = Inl e"
  by (simp add: require_def)

lemma require_Inl_iff [result_simps]:
  "require b e r = Inl x \<longleftrightarrow> (if b then r = Inl x else x = e)"
  by (auto simp: require_def)

lemma catch_as_Inr_iff [simp, result_simps]: "catch_as e r = Inr y \<longleftrightarrow> r = Inr y"
  by (cases r) (simp_all add: catch_as_def)

lemma catch_as_Inl [simp]: "catch_as e (Inl x) = Inl e"
  by (simp add: catch_as_def)

lemma catch_as_Inr [simp]: "catch_as e (Inr x) = Inr x"
  by (simp add: catch_as_def)

lemma res_bind_cong [fundef_cong]:
  "r = r' \<Longrightarrow> (\<And>x. r' = Inr x \<Longrightarrow> f x = g x) \<Longrightarrow> res_bind r f = res_bind r' g"
  by (cases r') simp_all

lemma require_cong [fundef_cong]:
  "b = b' \<Longrightarrow> (b' \<Longrightarrow> r = r') \<Longrightarrow> require b e r = require b' e r'"
  by (cases b') simp_all

lemma not_isl_Inr: "\<not> isl r \<longleftrightarrow> (\<exists>x. r = Inr x)"
  by (cases r) simp_all

text \<open>A \<open>for\<close> loop over a list that may raise in its body.\<close>

fun res_fold :: "('a \<Rightarrow> 's \<Rightarrow> 's result) \<Rightarrow> 'a list \<Rightarrow> 's \<Rightarrow> 's result" where
  "res_fold f [] s = Inr s"
| "res_fold f (x # xs) s = res_bind (f x s) (res_fold f xs)"

text \<open>A comprehension whose element may raise.\<close>

fun res_map :: "('a \<Rightarrow> 'b result) \<Rightarrow> 'a list \<Rightarrow> 'b list result" where
  "res_map f [] = Inr []"
| "res_map f (x # xs) = res_bind (f x) (\<lambda>y. res_bind (res_map f xs) (\<lambda>ys. Inr (y # ys)))"

lemma res_map_Inr_iff: "res_map f xs = Inr ys \<longleftrightarrow> list_all2 (\<lambda>x y. f x = Inr y) xs ys"
proof (induction xs arbitrary: ys)
  case (Cons x xs)
  then show ?case by (cases ys) auto
qed auto

lemma res_fold_append:
  "res_fold f (xs @ ys) s = res_bind (res_fold f xs s) (res_fold f ys)"
  by (induction xs arbitrary: s) (simp_all add: res_bind_def split: sum.splits)

lemma res_fold_cong [fundef_cong]:
  assumes "xs = ys" and "s = t" and "\<And>x u. x \<in> set ys \<Longrightarrow> f x u = g x u"
  shows "res_fold f xs s = res_fold g ys t"
proof -
  have "(\<And>x u. x \<in> set zs \<Longrightarrow> f x u = g x u) \<Longrightarrow> res_fold f zs v = res_fold g zs v" for zs v
    by (induction zs arbitrary: v) (simp_all add: res_bind_def split: sum.splits)
  with assms show ?thesis by simp
qed

lemma res_fold_invariant:
  assumes "res_fold f xs s = Inr t" and "P s"
    and "\<And>x u v. x \<in> set xs \<Longrightarrow> P u \<Longrightarrow> f x u = Inr v \<Longrightarrow> P v"
  shows "P t"
  using assms
proof (induction xs arbitrary: s)
  case Nil
  then show ?case by simp
next
  case (Cons x xs)
  from Cons.prems(1) obtain u where u: "f x s = Inr u" "res_fold f xs u = Inr t" by auto
  have "P u" using Cons.prems(2,3) u(1) by (meson list.set_intros(1))
  with u(2) show ?case using Cons.IH Cons.prems(3) by (meson list.set_intros(2))
qed

section \<open>Adjacent pairs\<close>

text \<open>Python's \<open>zip(xs, xs[1:])\<close> and the checks \<open>any(... for left, right in zip(xs, xs[1:]))\<close>.\<close>

definition adjacent :: "'a list \<Rightarrow> ('a \<times> 'a) list" where
  "adjacent xs = zip xs (tl xs)"

fun chain :: "('a \<Rightarrow> 'a \<Rightarrow> bool) \<Rightarrow> 'a list \<Rightarrow> bool" where
  "chain R [] = True"
| "chain R [x] = True"
| "chain R (x # y # ys) = (R x y \<and> chain R (y # ys))"

lemma adjacent_simps [simp]:
  "adjacent [] = []"
  "adjacent [x] = []"
  "adjacent (x # y # ys) = (x, y) # adjacent (y # ys)"
  by (simp_all add: adjacent_def)

lemma list_all_adjacent: "list_all (\<lambda>(x, y). R x y) (adjacent xs) = chain R xs"
  by (induction xs rule: induct_list012) simp_all

lemma chain_Cons: "chain R (x # xs) \<longleftrightarrow> (xs = [] \<or> R x (hd xs)) \<and> chain R xs"
  by (cases xs) auto

lemma chain_snoc: "chain R (xs @ [x]) \<longleftrightarrow> chain R xs \<and> (xs = [] \<or> R (last xs) x)"
proof (induction xs)
  case Nil
  then show ?case by simp
next
  case (Cons y ys)
  then show ?case by (cases ys) (auto simp: chain_Cons)
qed

lemma chain_append:
  "chain R (xs @ ys) \<longleftrightarrow> chain R xs \<and> chain R ys \<and> (xs = [] \<or> ys = [] \<or> R (last xs) (hd ys))"
proof (induction xs)
  case Nil
  then show ?case by simp
next
  case (Cons x xs)
  then show ?case by (cases xs) (auto simp: chain_Cons)
qed

lemma chain_take: "chain R xs \<Longrightarrow> chain R (take n xs)"
proof -
  assume "chain R xs"
  then have "chain R (take n xs @ drop n xs)" by simp
  then show ?thesis by (simp only: chain_append)
qed

lemma chain_imp_sorted_wrt: "transp R \<Longrightarrow> chain R xs \<Longrightarrow> sorted_wrt R xs"
proof (induction xs rule: induct_list012)
  case (3 x y ys)
  then have s: "sorted_wrt R (y # ys)" and xy: "R x y" by auto
  then have "\<forall>z\<in>set ys. R x z" using "3.prems"(1) by (auto dest: transpD)
  with s xy show ?case by simp
qed simp_all

lemma chain_map: "chain R (map f xs) = chain (\<lambda>x y. R (f x) (f y)) xs"
  by (induction xs rule: induct_list012) simp_all

lemma chain_mono:
  "chain R xs \<Longrightarrow> (\<And>x y. x \<in> set xs \<Longrightarrow> y \<in> set xs \<Longrightarrow> R x y \<Longrightarrow> S x y) \<Longrightarrow> chain S xs"
  by (induction xs rule: induct_list012) auto

lemma chain_map_upt:
  "(\<And>j. a \<le> j \<Longrightarrow> Suc j < b \<Longrightarrow> R (f j) (f (Suc j))) \<Longrightarrow> chain R (map f [a ..< b])"
proof (induction b)
  case 0
  then show ?case by simp
next
  case (Suc b)
  show ?case
  proof (cases "a \<le> b")
    case True
    have IH: "chain R (map f [a ..< b])" using Suc by simp
    show ?thesis
    proof (cases "a = b")
      case False
      with True obtain c where c: "b = Suc c" "a \<le> c" by (cases b) auto
      then have "R (last (map f [a ..< b])) (f b)" using Suc.prems by simp
      with IH have "chain R (map f [a ..< b] @ [f b])" by (simp only: chain_snoc) simp
      with True show ?thesis by simp
    qed simp
  qed simp
qed

section \<open>Characters, identifiers and digests\<close>

text \<open>
  Python strings are lists of characters here; a character of code 0 to 255 is the code point
  of the same number.  The identifiers below are ASCII by their regular expressions.
\<close>

definition is_upper :: "char \<Rightarrow> bool" where
  "is_upper c \<longleftrightarrow> 65 \<le> (of_char c :: nat) \<and> (of_char c :: nat) \<le> 90"

definition is_lower :: "char \<Rightarrow> bool" where
  "is_lower c \<longleftrightarrow> 97 \<le> (of_char c :: nat) \<and> (of_char c :: nat) \<le> 122"

definition is_digit :: "char \<Rightarrow> bool" where
  "is_digit c \<longleftrightarrow> 48 \<le> (of_char c :: nat) \<and> (of_char c :: nat) \<le> 57"

definition is_alnum :: "char \<Rightarrow> bool" where
  "is_alnum c \<longleftrightarrow> is_upper c \<or> is_lower c \<or> is_digit c"

text \<open>\<^verbatim>\<open>str.strip()\<close>: the whitespace of code points below 256.\<close>

definition is_space :: "char \<Rightarrow> bool" where
  "is_space c \<longleftrightarrow> (let n = (of_char c :: nat) in (9 \<le> n \<and> n \<le> 13) \<or> (28 \<le> n \<and> n \<le> 32) \<or> n = 133 \<or> n = 160)"

definition strip :: "string \<Rightarrow> string" where
  "strip s = rev (dropWhile is_space (rev (dropWhile is_space s)))"

text \<open>\<^verbatim>\<open>[A-Za-z0-9._:-]\<close>, the tail of the safe identifiers.\<close>

definition is_safe_char :: "char \<Rightarrow> bool" where
  "is_safe_char c \<longleftrightarrow> is_alnum c \<or> c = CHR ''.'' \<or> c = CHR ''_'' \<or> c = CHR '':'' \<or> c = CHR ''-''"

definition safe_identifier :: "nat \<Rightarrow> string \<Rightarrow> bool" where
  "safe_identifier n s \<longleftrightarrow>
     (case s of [] \<Rightarrow> False | c # cs \<Rightarrow> is_alnum c \<and> list_all is_safe_char cs \<and> length cs \<le> n)"

text \<open>Decimal rendering of naturals, and the zero-padded form \<^verbatim>\<open>{n:012d}\<close>.\<close>

definition digit_char :: "nat \<Rightarrow> char" where
  "digit_char d = char_of (48 + d mod 10)"

fun show_nat :: "nat \<Rightarrow> string" where
  "show_nat n = (if n < 10 then [digit_char n] else show_nat (n div 10) @ [digit_char n])"

declare show_nat.simps [simp del]

definition zero_pad :: "nat \<Rightarrow> string \<Rightarrow> string" where
  "zero_pad w s = replicate (w - length s) (CHR ''0'') @ s"

definition show_int :: "int \<Rightarrow> string" where
  "show_int i = (if i < 0 then CHR ''-'' # show_nat (nat (- i)) else show_nat (nat i))"

text \<open>The value of a text of digits.\<close>

definition digits_value :: "string \<Rightarrow> nat" where
  "digits_value s = foldl (\<lambda>a c. 10 * a + (of_char c - 48)) 0 s"

lemma digits_value_snoc: "digits_value (s @ [digit_char d]) = 10 * digits_value s + d mod 10"
  by (simp add: digits_value_def digit_char_def)

lemma digits_value_show_nat: "digits_value (show_nat n) = n"
proof (induction n rule: show_nat.induct)
  case (1 n)
  show ?case
  proof (cases "n < 10")
    case True
    then show ?thesis using digits_value_snoc [of "[]" n]
      by (subst show_nat.simps) (simp add: digits_value_def)
  next
    case False
    with 1 show ?thesis by (subst show_nat.simps) (simp add: digits_value_snoc)
  qed
qed

lemma digits_value_zeros: "digits_value (replicate k (CHR ''0'') @ s) = digits_value s"
proof -
  have "foldl (\<lambda>a c. 10 * a + (of_char c - 48 :: nat)) 0 (replicate k (CHR ''0'')) = 0"
    by (induction k) simp_all
  then show ?thesis by (simp add: digits_value_def)
qed

section \<open>Small list facts\<close>

lemma length_filter_update_le:
  assumes "i < length xs" and "P (xs ! i)" and "\<not> P y"
  shows "Suc (length (filter P (xs[i := y]))) = length (filter P xs)"
proof -
  have "xs = take i xs @ xs ! i # drop (Suc i) xs"
    using assms(1) by (rule id_take_nth_drop)
  then have "filter P xs = filter P (take i xs) @ xs ! i # filter P (drop (Suc i) xs)"
    using assms(2) by (metis filter.simps(2) filter_append)
  moreover have "filter P (xs[i := y]) = filter P (take i xs) @ filter P (drop (Suc i) xs)"
    using assms(1,3) by (simp add: upd_conv_take_nth_drop)
  ultimately show ?thesis by simp
qed

lemma set_update_imp:
  "x \<in> set (xs[i := y]) \<Longrightarrow> x = y \<or> x \<in> set xs"
  by (meson insertE set_update_subset_insert subsetD)

end
