(* ===== verification/Decimal.thy ===== *)
theory Decimal
  imports Prelude
begin

text \<open>
  Python's \<^verbatim>\<open>decimal\<close> module, as far as the program uses it.  A finite \<^verbatim>\<open>Decimal\<close> is modelled by
  its value, a rational: comparison, \<^verbatim>\<open>max\<close>, \<^verbatim>\<open>min\<close> and \<^verbatim>\<open>abs\<close> depend on the value alone, and every
  arithmetic operation returns the exact result rounded, half to even, to the precision of the
  context.  The precision is 28 digits where the code runs in the default context (portfolio,
  execution, sizing, risk, ledger) and 50 in \<^verbatim>\<open>indicator_decimal_context()\<close>.  Not modelled: the
  non-finite values, which the constructors of the domain objects reject, the sign of zero and
  the number of trailing zeros, which no comparison sees, and the exponent range of the context
  (999999 in both directions).
\<close>

type_synonym decimal = rat

section \<open>The adjusted exponent of a value\<close>

fun ndigits :: "nat \<Rightarrow> nat" where
  "ndigits n = (if n < 10 then 1 else Suc (ndigits (n div 10)))"

declare ndigits.simps [simp del]

lemma ndigits_pos: "0 < ndigits n"
  by (subst ndigits.simps) simp

lemma ndigits_upper: "n < 10 ^ ndigits n"
proof (induction n rule: ndigits.induct)
  case (1 n)
  show ?case
  proof (cases "n < 10")
    case True
    then show ?thesis by (subst ndigits.simps) simp
  next
    case False
    with 1 have "n div 10 < 10 ^ ndigits (n div 10)" by simp
    then have "n < 10 * 10 ^ ndigits (n div 10)" by linarith
    with False show ?thesis by (subst ndigits.simps) simp
  qed
qed

lemma ndigits_lower: "0 < n \<Longrightarrow> 10 ^ (ndigits n - 1) \<le> n"
proof (induction n rule: ndigits.induct)
  case (1 n)
  show ?case
  proof (cases "n < 10")
    case True
    with 1 show ?thesis by (subst ndigits.simps) simp
  next
    case False
    let ?k = "ndigits (n div 10)"
    from False 1 have "10 ^ (?k - 1) \<le> n div 10" by simp
    then have "10 * 10 ^ (?k - 1) \<le> n" by linarith
    moreover have "10 * 10 ^ (?k - 1) = (10 :: nat) ^ ?k"
      using ndigits_pos [of "n div 10"] by (simp add: power_eq_if)
    ultimately show ?thesis using False by (subst ndigits.simps) simp
  qed
qed

text \<open>The exponent \<open>e\<close> with \<open>10^e \<le> x < 10^(e+1)\<close>, \<^verbatim>\<open>Decimal.adjusted()\<close>, of a positive value.\<close>

definition adjusted :: "rat \<Rightarrow> int" where
  "adjusted x = (if 1 \<le> x then int (ndigits (nat \<lfloor>x\<rfloor>)) - 1
     else - int (ndigits (nat (\<lceil>1 / x\<rceil> - 1))))"

lemma adjusted_bounds:
  assumes "0 < x"
  shows "10 powi adjusted x \<le> x" and "x < 10 powi (adjusted x + 1)"
proof -
  have "10 powi adjusted x \<le> x \<and> x < 10 powi (adjusted x + 1)"
  proof (cases "1 \<le> x")
    case True
    let ?n = "nat \<lfloor>x\<rfloor>"
    have n: "0 < ?n" "of_nat ?n \<le> x" "x < of_nat ?n + 1"
      using True floor_correct [of x] by (auto simp: le_floor_iff)
    have "rat_of_nat (10 ^ (ndigits ?n - 1)) \<le> of_nat ?n"
      by (rule of_nat_mono [OF ndigits_lower [OF n(1)]])
    then have "(10 :: rat) ^ (ndigits ?n - 1) \<le> of_nat ?n" by (simp only: of_nat_power of_nat_numeral)
    with n(2) have "(10 :: rat) ^ (ndigits ?n - 1) \<le> x" by linarith
    moreover have "rat_of_nat (Suc ?n) \<le> of_nat (10 ^ ndigits ?n)"
      by (rule of_nat_mono [OF Suc_leI [OF ndigits_upper]])
    moreover have "(10 :: rat) powi adjusted x = 10 ^ (ndigits ?n - 1)"
      using True ndigits_pos [of ?n] by (simp add: adjusted_def power_int_def nat_diff_distrib)
    moreover have "(10 :: rat) powi (adjusted x + 1) = 10 ^ ndigits ?n"
      using True by (simp add: adjusted_def power_int_def)
    ultimately show ?thesis using n by simp
  next
    case False
    let ?m = "nat (\<lceil>1 / x\<rceil> - 1)"
    let ?k = "ndigits ?m"
    have one: "1 < 1 / x" using False assms by (simp add: field_simps)
    then have c: "1 < \<lceil>1 / x\<rceil>" by (simp add: less_ceiling_iff)
    then have "int ?m = \<lceil>1 / x\<rceil> - 1" by linarith
    then have "rat_of_nat ?m = of_int \<lceil>1 / x\<rceil> - 1" by (metis of_int_1 of_int_diff of_int_of_nat_eq)
    with c have m: "0 < ?m" "of_nat ?m < 1 / x" "1 / x \<le> of_nat ?m + 1"
      using ceiling_correct [of "1 / x"] by linarith+
    have "rat_of_nat (10 ^ (?k - 1)) \<le> of_nat ?m"
      by (rule of_nat_mono [OF ndigits_lower [OF m(1)]])
    then have "(10 :: rat) ^ (?k - 1) \<le> of_nat ?m" by (simp only: of_nat_power of_nat_numeral)
    with m(2) have lo: "(10 :: rat) ^ (?k - 1) < 1 / x" by linarith
    have "rat_of_nat (Suc ?m) \<le> of_nat (10 ^ ?k)"
      by (rule of_nat_mono [OF Suc_leI [OF ndigits_upper]])
    with m(3) have hi: "1 / x \<le> (10 :: rat) ^ ?k" by simp
    have a: "(10 :: rat) powi adjusted x = 1 / 10 ^ ?k"
      using False by (simp add: adjusted_def power_int_minus divide_inverse power_int_of_nat)
    have "adjusted x + 1 = - int (?k - 1)"
      using False ndigits_pos [of ?m] by (simp add: adjusted_def of_nat_diff)
    then have b: "(10 :: rat) powi (adjusted x + 1) = 1 / 10 ^ (?k - 1)"
      by (simp add: power_int_minus divide_inverse power_int_of_nat)
    have "1 / 10 ^ ?k \<le> x" using hi assms by (simp add: field_simps)
    moreover have "x < 1 / 10 ^ (?k - 1)" using lo assms by (simp add: field_simps)
    ultimately show ?thesis by (simp only: a b)
  qed
  then show "10 powi adjusted x \<le> x" and "x < 10 powi (adjusted x + 1)" by simp_all
qed

lemma powi10_le_iff: "(10 :: rat) powi a \<le> 10 powi b \<longleftrightarrow> a \<le> b"
proof
  assume "(10 :: rat) powi a \<le> 10 powi b"
  then show "a \<le> b" using power_int_strict_increasing [of b a "10 :: rat"] by force
qed (simp add: power_int_increasing)

lemma powi10_less_iff: "(10 :: rat) powi a < 10 powi b \<longleftrightarrow> a < b"
  using powi10_le_iff [of b a] by linarith

lemma adjusted_unique:
  assumes "0 < x" and "10 powi e \<le> x" and "x < 10 powi (e + 1)"
  shows "adjusted x = e"
proof -
  have "10 powi adjusted x < (10 :: rat) powi (e + 1)" "10 powi e < (10 :: rat) powi (adjusted x + 1)"
    using adjusted_bounds [OF assms(1)] assms(2,3) by linarith+
  then show ?thesis by (simp add: powi10_less_iff)
qed

lemma adjusted_mono:
  assumes "0 < x" and "x \<le> y"
  shows "adjusted x \<le> adjusted y"
proof -
  have "10 powi adjusted x < (10 :: rat) powi (adjusted y + 1)"
    using adjusted_bounds(1) [OF assms(1)] adjusted_bounds(2) [of y] assms by linarith
  then show ?thesis by (simp add: powi10_less_iff)
qed

section \<open>Rounding to a precision\<close>

definition round_half_even :: "rat \<Rightarrow> int" where
  "round_half_even y =
     (let f = \<lfloor>y\<rfloor>; d = y - of_int f
      in if d < 1/2 then f else if 1/2 < d then f + 1 else if even f then f else f + 1)"

text \<open>Rounding a value to \<open>p\<close> significant digits: \<^verbatim>\<open>Context(prec=p, rounding=ROUND_HALF_EVEN)\<close>.\<close>

definition rnd :: "nat \<Rightarrow> decimal \<Rightarrow> decimal" where
  "rnd p x = (if x = 0 then 0
     else let s = 10 powi (adjusted \<bar>x\<bar> - int p + 1) in of_int (round_half_even (x / s)) * s)"

lemma round_half_even_of_int [simp]: "round_half_even (of_int n) = n"
  by (simp add: round_half_even_def)

lemma round_half_even_near: "\<bar>of_int (round_half_even y) - y\<bar> \<le> 1/2"
proof -
  define f where "f = rat_of_int \<lfloor>y\<rfloor>"
  have "f \<le> y" "y < f + 1" using floor_correct [of y] by (simp_all add: f_def)
  then show ?thesis unfolding round_half_even_def Let_def
    by (auto simp: abs_if simp flip: f_def)
qed

lemma round_half_even_mono: "x \<le> y \<Longrightarrow> round_half_even x \<le> round_half_even y"
proof (cases "\<lfloor>x\<rfloor> = \<lfloor>y\<rfloor>")
  case True
  then show "x \<le> y \<Longrightarrow> ?thesis" unfolding round_half_even_def Let_def by auto
next
  case False
  assume "x \<le> y"
  with False have "\<lfloor>x\<rfloor> + 1 \<le> \<lfloor>y\<rfloor>" using floor_mono [of x y] by linarith
  then show ?thesis unfolding round_half_even_def Let_def by auto
qed

lemma round_half_even_minus: "round_half_even (- y) = - round_half_even y"
proof (cases "y = of_int \<lfloor>y\<rfloor>")
  case True
  then show ?thesis by (metis of_int_minus round_half_even_of_int)
next
  case False
  let ?f = "\<lfloor>y\<rfloor>" and ?d = "y - of_int \<lfloor>y\<rfloor>"
  have d: "0 < ?d" "?d < 1" using False floor_correct [of y] by linarith+
  have f: "\<lfloor>- y\<rfloor> = - ?f - 1" using d by (intro floor_unique) auto
  show ?thesis unfolding round_half_even_def Let_def f by auto
qed

lemma rnd_0 [simp]: "rnd p 0 = 0"
  by (simp add: rnd_def)

lemma rnd_minus: "rnd p (- x) = - rnd p x"
  by (simp add: rnd_def round_half_even_minus Let_def)

lemma rnd_unfold:
  "x \<noteq> 0 \<Longrightarrow> rnd p x = of_int (round_half_even (x / 10 powi (adjusted \<bar>x\<bar> - int p + 1)))
     * 10 powi (adjusted \<bar>x\<bar> - int p + 1)"
  by (simp add: rnd_def Let_def)

lemma rnd_near:
  assumes "x \<noteq> 0"
  shows "\<bar>rnd p x - x\<bar> \<le> 10 powi (adjusted \<bar>x\<bar> - int p + 1) / 2"
proof -
  let ?s = "(10 :: rat) powi (adjusted \<bar>x\<bar> - int p + 1)"
  have s: "0 < ?s" by simp
  have "\<bar>of_int (round_half_even (x / ?s)) - x / ?s\<bar> * ?s \<le> 1/2 * ?s"
    using round_half_even_near s by (intro mult_right_mono) auto
  moreover have "\<bar>of_int (round_half_even (x / ?s)) - x / ?s\<bar> * ?s = \<bar>rnd p x - x\<bar>"
    using s assms by (simp add: rnd_unfold abs_mult_pos left_diff_distrib)
  ultimately show ?thesis by simp
qed

text \<open>The relative error of one operation: half a unit in the last place.\<close>

lemma rnd_rel_error: "\<bar>rnd p x - x\<bar> \<le> \<bar>x\<bar> * (10 powi (1 - int p) / 2)"
proof (cases "x = 0")
  case False
  have "10 powi (adjusted \<bar>x\<bar> - int p + 1) = 10 powi adjusted \<bar>x\<bar> * (10 :: rat) powi (1 - int p)"
    by (simp add: algebra_simps flip: power_int_add)
  also have "\<dots> \<le> \<bar>x\<bar> * 10 powi (1 - int p)"
    using adjusted_bounds(1) [of "\<bar>x\<bar>"] False by (intro mult_right_mono) auto
  finally show ?thesis using rnd_near [OF False, of p] by simp
qed simp

text \<open>The values of at most \<open>p\<close> significant digits.\<close>

definition fits :: "nat \<Rightarrow> decimal \<Rightarrow> bool" where
  "fits p x \<longleftrightarrow> (\<exists>m e. x = of_int m * 10 powi e \<and> \<bar>m\<bar> < 10 ^ p)"

lemma fitsI: "x = of_int m * 10 powi e \<Longrightarrow> \<bar>m\<bar> < 10 ^ p \<Longrightarrow> fits p x"
  by (auto simp: fits_def)

lemma fits_scaled:
  assumes "x \<noteq> 0" and "fits p x"
  shows "\<exists>n. x / 10 powi (adjusted \<bar>x\<bar> - int p + 1) = of_int n"
proof -
  from assms(2) obtain m e where x: "x = of_int m * 10 powi e" and m: "\<bar>m\<bar> < 10 ^ p"
    by (auto simp: fits_def)
  have "of_int \<bar>m\<bar> < (10 :: rat) ^ p" using m by (metis of_int_less_iff of_int_numeral of_int_power)
  then have "\<bar>x\<bar> < 10 ^ p * 10 powi e" by (simp add: x abs_mult)
  also have "\<dots> = 10 powi (int p + e)" by (simp add: power_int_add)
  finally have "10 powi adjusted \<bar>x\<bar> < (10 :: rat) powi (int p + e)"
    using adjusted_bounds(1) [of "\<bar>x\<bar>"] assms(1) by linarith
  then have e: "0 \<le> e - (adjusted \<bar>x\<bar> - int p + 1)" by (simp add: powi10_less_iff)
  have "x / 10 powi (adjusted \<bar>x\<bar> - int p + 1)
      = of_int m * 10 powi (e - (adjusted \<bar>x\<bar> - int p + 1))"
    by (simp add: x power_int_diff)
  also have "\<dots> = of_int (m * 10 ^ nat (e - (adjusted \<bar>x\<bar> - int p + 1)))"
    using e by (simp add: power_int_def)
  finally show ?thesis by blast
qed

lemma rnd_fits: "fits p x \<Longrightarrow> rnd p x = x"
proof (cases "x = 0")
  case False
  assume "fits p x"
  then obtain n where "x / 10 powi (adjusted \<bar>x\<bar> - int p + 1) = of_int n"
    using fits_scaled False by blast
  then show ?thesis using False by (simp add: rnd_unfold) (simp add: field_simps)
qed simp

lemma fits_minus: "fits p x \<Longrightarrow> fits p (- x)"
  unfolding fits_def by (metis abs_minus_cancel mult_minus_left of_int_minus)

section \<open>Order, sign and idempotence of rounding\<close>

lemma rnd_le_power:
  assumes "0 < x"
  shows "rnd p x \<le> 10 powi (adjusted x + 1)"
proof -
  let ?s = "(10 :: rat) powi (adjusted x - int p + 1)"
  have "x < 10 ^ p * ?s"
    using adjusted_bounds(2) [OF assms] by (simp add: algebra_simps flip: power_int_add power_int_of_nat)
  then have "x / ?s \<le> of_int (10 ^ p)" by (simp add: divide_le_eq)
  then have "round_half_even (x / ?s) \<le> 10 ^ p"
    using round_half_even_mono round_half_even_of_int by metis
  then have "of_int (round_half_even (x / ?s)) * ?s \<le> of_int (10 ^ p) * ?s"
    by (intro mult_right_mono) (simp_all del: of_int_power)
  also have "\<dots> = 10 powi (adjusted x + 1)"
    by (simp add: algebra_simps flip: power_int_add power_int_of_nat)
  finally show ?thesis using assms by (simp add: rnd_unfold)
qed

lemma rnd_ge_power:
  assumes "0 < x" and "0 < p"
  shows "10 powi adjusted x \<le> rnd p x"
proof -
  let ?s = "(10 :: rat) powi (adjusted x - int p + 1)"
  have eq: "10 ^ (p - 1) * ?s = 10 powi adjusted x"
    using assms(2) by (simp add: of_nat_diff algebra_simps flip: power_int_add power_int_of_nat)
  then have "10 ^ (p - 1) * ?s \<le> x" using adjusted_bounds(1) [OF assms(1)] by simp
  then have "of_int (10 ^ (p - 1)) \<le> x / ?s" by (simp add: le_divide_eq)
  then have "10 ^ (p - 1) \<le> round_half_even (x / ?s)"
    using round_half_even_mono round_half_even_of_int by metis
  then have "of_int (10 ^ (p - 1)) * ?s \<le> of_int (round_half_even (x / ?s)) * ?s"
    by (intro mult_right_mono) (simp_all del: of_int_power)
  then have "10 powi adjusted x \<le> of_int (round_half_even (x / ?s)) * ?s"
    by (simp only: of_int_power of_int_numeral eq)
  then show ?thesis using assms by (simp only: rnd_unfold less_irrefl abs_of_pos)
qed

lemma rnd_pos: "0 < p \<Longrightarrow> 0 < x \<Longrightarrow> 0 < rnd p x"
  using rnd_ge_power [of x p] by (meson less_le_trans zero_less_numeral zero_less_power_int)

lemma rnd_nonneg: "0 < p \<Longrightarrow> 0 \<le> x \<Longrightarrow> 0 \<le> rnd p x"
  using rnd_pos [of p x] by (cases "x = 0") auto

lemma rnd_mono_pos:
  assumes "0 < p" and "0 < x" and "x \<le> y"
  shows "rnd p x \<le> rnd p y"
proof (cases "adjusted x = adjusted y")
  case True
  let ?s = "(10 :: rat) powi (adjusted y - int p + 1)"
  have "x / ?s \<le> y / ?s" using assms(3) by (simp add: divide_right_mono)
  then have "of_int (round_half_even (x / ?s)) * ?s \<le> of_int (round_half_even (y / ?s)) * ?s"
    by (intro mult_right_mono) (simp_all add: round_half_even_mono)
  then show ?thesis using assms True by (simp add: rnd_unfold)
next
  case False
  with adjusted_mono [OF assms(2,3)] have "adjusted x + 1 \<le> adjusted y" by simp
  then have "10 powi (adjusted x + 1) \<le> (10 :: rat) powi adjusted y" by (simp add: powi10_le_iff)
  moreover have "0 < y" using assms by simp
  ultimately show ?thesis
    using rnd_le_power [OF assms(2), of p] rnd_ge_power [of y p] assms(1) by linarith
qed

lemma rnd_mono:
  assumes "0 < p" and "x \<le> y"
  shows "rnd p x \<le> rnd p y"
proof -
  consider "0 < x" | "y < 0" | "x \<le> 0" "0 \<le> y" by linarith
  then show ?thesis
  proof cases
    case 1
    then show ?thesis using assms rnd_mono_pos by blast
  next
    case 2
    then have "rnd p (- y) \<le> rnd p (- x)" using assms by (intro rnd_mono_pos) auto
    then show ?thesis by (simp add: rnd_minus)
  next
    case 3
    then have "0 \<le> rnd p (- x)" "0 \<le> rnd p y" using assms(1) by (simp_all add: rnd_nonneg)
    then show ?thesis by (simp add: rnd_minus)
  qed
qed

lemma fits_0: "fits p 0"
  by (rule fitsI [of _ 0 0]) simp_all

lemma fits_rnd:
  assumes "0 < p"
  shows "fits p (rnd p x)"
proof (cases "x = 0")
  case True
  then show ?thesis by (simp add: fits_0)
next
  case False
  let ?e = "adjusted \<bar>x\<bar> - int p + 1"
  let ?n = "round_half_even (x / 10 powi ?e)"
  have "\<bar>rnd p x\<bar> \<le> 10 powi (adjusted \<bar>x\<bar> + 1)"
    using rnd_le_power [of "\<bar>x\<bar>" p] rnd_minus [of p x] rnd_nonneg [OF assms, of "\<bar>x\<bar>"] False
    by (cases "0 < x") (auto simp: abs_if split: if_splits)
  also have "10 powi (adjusted \<bar>x\<bar> + 1) = (10 ^ p * 10 powi ?e :: rat)"
    by (simp add: algebra_simps flip: power_int_add power_int_of_nat)
  finally have "of_int \<bar>?n\<bar> * 10 powi ?e \<le> 10 ^ p * (10 powi ?e :: rat)"
    using False by (simp add: rnd_unfold abs_mult)
  then have "of_int \<bar>?n\<bar> \<le> (10 :: rat) ^ p" by (simp add: mult_le_cancel_right)
  then have le: "\<bar>?n\<bar> \<le> 10 ^ p" by (metis of_int_le_iff of_int_numeral of_int_power)
  show ?thesis
  proof (cases "\<bar>?n\<bar> < 10 ^ p")
    case True
    with False show ?thesis by (intro fitsI [of _ ?n ?e]) (simp_all add: rnd_unfold)
  next
    case eq: False
    with le have n: "?n = sgn ?n * 10 ^ p" by (auto simp: abs_if sgn_if split: if_splits)
    have "rnd p x = of_int (sgn ?n) * (10 ^ p * 10 powi ?e)"
      using False by (subst rnd_unfold) (simp, subst n, simp)
    also have "10 ^ p * 10 powi ?e = (10 :: rat) powi (int p + ?e)"
      by (subst power_int_add) simp_all
    finally show ?thesis using assms by (intro fitsI [of _ "sgn ?n"]) (auto simp: sgn_if)
  qed
qed

lemma rnd_idem: "0 < p \<Longrightarrow> rnd p (rnd p x) = rnd p x"
  by (simp add: rnd_fits fits_rnd)

lemma fits_of_int: "\<bar>n\<bar> < 10 ^ p \<Longrightarrow> fits p (of_int n)"
  by (rule fitsI [of _ n 0]) simp_all

lemma fits_numeral: "numeral n < (10 :: int) ^ p \<Longrightarrow> fits p (numeral n)"
  using fits_of_int [of "numeral n" p] by simp

section \<open>The contract of a rounding context\<close>

text \<open>
  What the clients of \<^verbatim>\<open>decimal\<close> rely on: rounding preserves order, sign and zero, changes nothing
  that was already rounded, and is off by a bounded fraction of the value.
\<close>

locale decimal_context =
  fixes r :: "decimal \<Rightarrow> decimal" and \<epsilon> :: decimal
  assumes r_mono: "x \<le> y \<Longrightarrow> r x \<le> r y"
    and r_minus: "r (- x) = - r x"
    and r_pos: "0 < x \<Longrightarrow> 0 < r x"
    and r_idem: "r (r x) = r x"
    and r_error: "\<bar>r x - x\<bar> \<le> \<bar>x\<bar> * \<epsilon>"
    and eps_nonneg: "0 \<le> \<epsilon>"
    and eps_small: "\<epsilon> \<le> 1 / 1000"
begin

lemma r_0 [simp]: "r 0 = 0"
  using r_minus [of 0] by simp

lemma r_nonneg [dec_intros]: "0 \<le> x \<Longrightarrow> 0 \<le> r x"
  using r_mono [of 0 x] by simp

lemma r_nonpos [dec_intros]: "x \<le> 0 \<Longrightarrow> r x \<le> 0"
  using r_mono [of x 0] by simp

lemma r_neg [dec_intros]: "x < 0 \<Longrightarrow> r x < 0"
  using r_pos [of "- x"] by (simp add: r_minus)

lemma r_eq_0_iff [simp]: "r x = 0 \<longleftrightarrow> x = 0"
  using r_pos [of x] r_neg [of x] by (metis less_irrefl linorder_neqE r_0)

lemma r_abs: "r \<bar>x\<bar> = \<bar>r x\<bar>"
  using r_nonneg [of x] r_neg [of x] by (cases "0 \<le> x") (auto simp: r_minus abs_if)

lemma r_le_fixed: "x \<le> y \<Longrightarrow> r y = y \<Longrightarrow> r x \<le> y"
  using r_mono by metis

lemma r_ge_fixed: "y \<le> x \<Longrightarrow> r y = y \<Longrightarrow> y \<le> r x"
  using r_mono by metis

lemma r_upper: "0 \<le> x \<Longrightarrow> r x \<le> x * (1 + \<epsilon>)"
  using r_error [of x] by (simp add: algebra_simps abs_le_iff)

lemma r_lower: "0 \<le> x \<Longrightarrow> x * (1 - \<epsilon>) \<le> r x"
  using r_error [of x] by (simp add: algebra_simps abs_le_iff)

text \<open>A running sum \<^verbatim>\<open>sum(values, Decimal("0"))\<close> of nonnegative values.\<close>

lemma fold_sum_nonneg:
  "0 \<le> s \<Longrightarrow> list_all (\<lambda>v. 0 \<le> v) vs \<Longrightarrow> 0 \<le> fold (\<lambda>v s. r (s + v)) vs s"
  by (induction vs arbitrary: s) (simp_all add: r_nonneg)

lemma fold_sum_fixed: "r s = s \<Longrightarrow> r (fold (\<lambda>v s. r (s + v)) vs s) = fold (\<lambda>v s. r (s + v)) vs s"
  by (induction vs arbitrary: s) (simp_all add: r_idem)

end

lemma rnd_context:
  assumes "4 \<le> p"
  shows "decimal_context (rnd p) (10 powi (1 - int p) / 2)"
proof
  have "10 powi (1 - int p) \<le> (10 :: rat) powi (- 3)"
    unfolding powi10_le_iff using assms by simp
  also have "(10 :: rat) powi (- 3) = 1 / 1000" by (simp add: power_int_def power3_eq_cube)
  finally show "10 powi (1 - int p) / 2 \<le> (1 / 1000 :: rat)" by linarith
qed (use assms in \<open>auto simp del: times_divide_eq_right intro!: rnd_rel_error simp: rnd_mono rnd_minus rnd_pos rnd_idem\<close>)

section \<open>The two contexts of the program\<close>

text \<open>The default context of the process, \<^verbatim>\<open>prec=28\<close>, and the arithmetic operators in it.\<close>

definition dec28 :: "decimal \<Rightarrow> decimal" where
  "dec28 = rnd 28"

definition eps28 :: decimal where
  "eps28 = 10 powi (- 27) / 2"

interpretation d28: decimal_context dec28 eps28
  using rnd_context [of 28] by (simp add: dec28_def eps28_def)

definition dadd :: "decimal \<Rightarrow> decimal \<Rightarrow> decimal" where
  "dadd a b = dec28 (a + b)"

definition dsub :: "decimal \<Rightarrow> decimal \<Rightarrow> decimal" where
  "dsub a b = dec28 (a - b)"

definition dmul :: "decimal \<Rightarrow> decimal \<Rightarrow> decimal" where
  "dmul a b = dec28 (a * b)"

definition dneg :: "decimal \<Rightarrow> decimal" where
  "dneg a = dec28 (- a)"

text \<open>Division where the code has just tested the divisor, and division that may raise.\<close>

definition ddiv :: "decimal \<Rightarrow> decimal \<Rightarrow> decimal" where
  "ddiv a b = dec28 (a / b)"

definition ddiv_chk :: "decimal \<Rightarrow> decimal \<Rightarrow> decimal result" where
  "ddiv_chk a b = require (b \<noteq> 0) ZeroDivision (Inr (ddiv a b))"

text \<open>\<^verbatim>\<open>to_integral_value(rounding=ROUND_DOWN)\<close>, exact in every context.\<close>

definition trunc_dec :: "decimal \<Rightarrow> decimal" where
  "trunc_dec x = (if 0 \<le> x then of_int \<lfloor>x\<rfloor> else of_int \<lceil>x\<rceil>)"

text \<open>
  \<^verbatim>\<open>a % b\<close>: the remainder of the truncated quotient, with the sign of \<^verbatim>\<open>a\<close>; a quotient that does not
  fit the precision raises \<^verbatim>\<open>InvalidOperation\<close> (division impossible).
\<close>

definition dmod_chk :: "decimal \<Rightarrow> decimal \<Rightarrow> decimal result" where
  "dmod_chk a b =
     require (b \<noteq> 0) InvalidOperation
       (require (\<bar>trunc_dec (a / b)\<bar> < 10 ^ 28) InvalidOperation
          (Inr (dec28 (a - trunc_dec (a / b) * b))))"

lemma dec28_small_int: "\<bar>n\<bar> < 10 ^ 28 \<Longrightarrow> dec28 (of_int n) = of_int n"
  by (simp add: dec28_def rnd_fits fits_of_int)

lemma dec28_numeral [simp]:
  "numeral n < (10 :: int) ^ 28 \<Longrightarrow> dec28 (numeral n) = numeral n"
  "numeral n < (10 :: int) ^ 28 \<Longrightarrow> dec28 (- numeral n) = - numeral n"
  "dec28 1 = 1"
  using dec28_small_int [of "numeral n"] dec28_small_int [of "- numeral n"] dec28_small_int [of 1]
  by simp_all

lemmas dops = dadd_def dsub_def dmul_def dneg_def ddiv_def

lemma dadd_nonneg [dec_intros]: "0 \<le> a \<Longrightarrow> 0 \<le> b \<Longrightarrow> 0 \<le> dadd a b"
  by (simp add: dadd_def d28.r_nonneg)

lemma dadd_pos [dec_intros]: "0 \<le> a \<Longrightarrow> 0 < b \<Longrightarrow> 0 < dadd a b"
  by (simp add: dadd_def d28.r_pos)

lemma dsub_nonneg [dec_intros]: "b \<le> a \<Longrightarrow> 0 \<le> dsub a b"
  by (simp add: dsub_def d28.r_nonneg)

lemma dsub_pos [dec_intros]: "b < a \<Longrightarrow> 0 < dsub a b"
  by (simp add: dsub_def d28.r_pos)

lemma dsub_self [simp]: "dsub a a = 0"
  by (simp add: dsub_def)

lemma dsub_neg_iff: "dsub a b < 0 \<longleftrightarrow> a < b"
  using d28.r_nonneg [of "a - b"] d28.r_neg [of "a - b"]
  by (simp add: dsub_def) (metis diff_ge_0_iff_ge linorder_not_less)

lemma dmul_nonneg [dec_intros]: "0 \<le> a \<Longrightarrow> 0 \<le> b \<Longrightarrow> 0 \<le> dmul a b"
  by (simp add: dmul_def d28.r_nonneg)

lemma dmul_pos [dec_intros]: "0 < a \<Longrightarrow> 0 < b \<Longrightarrow> 0 < dmul a b"
  by (simp add: dmul_def d28.r_pos)

lemma ddiv_nonneg [dec_intros]: "0 \<le> a \<Longrightarrow> 0 \<le> b \<Longrightarrow> 0 \<le> ddiv a b"
  by (simp add: ddiv_def d28.r_nonneg)

lemma ddiv_pos [dec_intros]: "0 < a \<Longrightarrow> 0 < b \<Longrightarrow> 0 < ddiv a b"
  by (simp add: ddiv_def d28.r_pos)

lemma dops_0 [simp]:
  "dmul 0 b = 0" "dmul a 0 = 0" "ddiv 0 b = 0" "dneg 0 = 0"
  by (simp_all add: dops)

lemma trunc_dec_nonneg [dec_intros]: "0 \<le> x \<Longrightarrow> 0 \<le> trunc_dec x"
  by (simp add: trunc_dec_def)

lemma trunc_dec_le: "0 \<le> x \<Longrightarrow> trunc_dec x \<le> x"
  by (simp add: trunc_dec_def)

text \<open>The fixed context of the indicators, \<^verbatim>\<open>prec=50\<close>, and \<^verbatim>\<open>contextual\<close>, the unary plus in it.\<close>

definition contextual :: "decimal \<Rightarrow> decimal" where
  "contextual = rnd 50"

definition eps50 :: decimal where
  "eps50 = 10 powi (- 49) / 2"

interpretation d50: decimal_context contextual eps50
  using rnd_context [of 50] by (simp add: contextual_def eps50_def)

definition cadd :: "decimal \<Rightarrow> decimal \<Rightarrow> decimal" where
  "cadd a b = contextual (a + b)"

definition csub :: "decimal \<Rightarrow> decimal \<Rightarrow> decimal" where
  "csub a b = contextual (a - b)"

definition cmul :: "decimal \<Rightarrow> decimal \<Rightarrow> decimal" where
  "cmul a b = contextual (a * b)"

definition cdiv :: "decimal \<Rightarrow> decimal \<Rightarrow> decimal" where
  "cdiv a b = contextual (a / b)"

definition cneg :: "decimal \<Rightarrow> decimal" where
  "cneg a = contextual (- a)"

definition cabs :: "decimal \<Rightarrow> decimal" where
  "cabs a = contextual \<bar>a\<bar>"

definition csum :: "decimal list \<Rightarrow> decimal" where
  "csum vs = fold (\<lambda>v s. cadd s v) vs 0"

lemmas cops = cadd_def csub_def cmul_def cdiv_def cneg_def cabs_def

lemma contextual_cops [simp]:
  "contextual (cadd a b) = cadd a b" "contextual (csub a b) = csub a b"
  "contextual (cmul a b) = cmul a b" "contextual (cdiv a b) = cdiv a b"
  "contextual (cneg a) = cneg a" "contextual (cabs a) = cabs a"
  by (simp_all add: cops d50.r_idem)

lemma cops_nonneg [dec_intros]:
  "0 \<le> a \<Longrightarrow> 0 \<le> b \<Longrightarrow> 0 \<le> cadd a b"
  "0 \<le> a \<Longrightarrow> 0 \<le> b \<Longrightarrow> 0 \<le> cmul a b"
  "0 \<le> a \<Longrightarrow> 0 \<le> b \<Longrightarrow> 0 \<le> cdiv a b"
  "0 \<le> cabs a"
  "b \<le> a \<Longrightarrow> 0 \<le> csub a b"
  by (simp_all add: cops d50.r_nonneg)

lemma csum_nonneg [dec_intros]: "list_all (\<lambda>v. 0 \<le> v) vs \<Longrightarrow> 0 \<le> csum vs"
  using d50.fold_sum_nonneg [of 0 vs] by (simp add: csum_def cadd_def)

section \<open>Evaluation on literals\<close>

text \<open>
  With these rules the simplifier computes every operation above on rational literals, rounding
  included: the floor of a literal fraction is an integer division.
\<close>

lemma floor_rat_eval:
  "\<lfloor>numeral a / numeral b :: rat\<rfloor> = numeral a div numeral b"
  "\<lfloor>1 / numeral b :: rat\<rfloor> = 1 div numeral b"
  "\<lfloor>- (numeral a / numeral b) :: rat\<rfloor> = - numeral a div numeral b"
  "\<lfloor>- (1 / numeral b) :: rat\<rfloor> = - 1 div numeral b"
  "\<lfloor>- numeral a / numeral b :: rat\<rfloor> = - numeral a div numeral b"
  "\<lfloor>- 1 / numeral b :: rat\<rfloor> = - 1 div numeral b"
  using floor_divide_of_int_eq [of "numeral a" "numeral b", where ?'a = rat]
    floor_divide_of_int_eq [of 1 "numeral b", where ?'a = rat]
    floor_divide_of_int_eq [of "- numeral a" "numeral b", where ?'a = rat]
    floor_divide_of_int_eq [of "- 1" "numeral b", where ?'a = rat]
  by simp_all

lemma ceiling_rat_eval:
  "\<lceil>numeral a / numeral b :: rat\<rceil> = - (- numeral a div numeral b)"
  "\<lceil>1 / numeral b :: rat\<rceil> = - (- 1 div numeral b)"
  "\<lceil>- (numeral a / numeral b) :: rat\<rceil> = - (numeral a div numeral b)"
  "\<lceil>- (1 / numeral b) :: rat\<rceil> = - (1 div numeral b)"
  by (simp_all add: ceiling_def floor_rat_eval)

lemmas dec_eval = dops cops dec28_def contextual_def rnd_def adjusted_def ndigits.simps
  round_half_even_def power_int_def Let_def floor_rat_eval ceiling_rat_eval power_divide
  ddiv_chk_def dmod_chk_def trunc_dec_def csum_def

end
