(* ===== verification/Market_Domain.thy ===== *)
theory Market_Domain
  imports Decimal
begin

text \<open>
  The market-data domain: \<^verbatim>\<open>app/market_data/domain.py\<close>, the timeframe registry of
  \<^verbatim>\<open>timeframes.py\<close> and the continuous calendar of \<^verbatim>\<open>calendars.py\<close>.  Instants are microseconds since
  the Unix epoch, durations are microseconds; both are exact, as \<^verbatim>\<open>datetime\<close> and \<^verbatim>\<open>timedelta\<close> are.
  Only the timezone-aware input of \<^verbatim>\<open>require_utc\<close> keeps its offset; every constructor stores the
  normalised UTC instant.
\<close>

type_synonym instant = int
type_synonym duration = int

section \<open>UTC instants\<close>

text \<open>A \<^verbatim>\<open>datetime\<close>: its wall clock in microseconds, and its UTC offset when it has a timezone.\<close>

datatype py_datetime = Naive int | Aware int int

fun require_utc :: "py_datetime \<Rightarrow> instant result" where
  "require_utc (Naive _) = Inl MarketDataInconsistency"
| "require_utc (Aware wall offset) =
     require (offset = 0) MarketDataInconsistency (Inr (wall - offset))"

definition datetime_to_epoch_milliseconds :: "py_datetime \<Rightarrow> int result" where
  "datetime_to_epoch_milliseconds value =
     res_bind (require_utc value) (\<lambda>normalized.
       require ((normalized mod 1000000) mod 1000 = 0) MarketDataInconsistency
         (let days = normalized div 86400000000;
              seconds = (normalized mod 86400000000) div 1000000;
              microseconds = normalized mod 1000000
          in Inr (days * 86400000 + seconds * 1000 + microseconds div 1000)))"

section \<open>Exchanges, pairs and timeframes\<close>

datatype exchange = BINANCE

datatype market_type = SPOT | FOREX | EQUITY | FUTURES

record trading_pair =
  tp_base :: string
  tp_quote :: string

text \<open>\<^verbatim>\<open>str.upper()\<close> on the code points below 256 whose upper case is below 256.\<close>

definition upper_char :: "char \<Rightarrow> string" where
  "upper_char c = (let n = (of_char c :: nat) in
     if (97 \<le> n \<and> n \<le> 122) \<or> (224 \<le> n \<and> n \<le> 254 \<and> n \<noteq> 247) then [char_of (n - 32)]
     else if n = 223 then ''SS'' else [c])"

definition upper :: "string \<Rightarrow> string" where
  "upper s = concat (map upper_char s)"

definition is_asset_char :: "char \<Rightarrow> bool" where
  "is_asset_char c \<longleftrightarrow> is_upper c \<or> is_digit c \<or> c = CHR ''.'' \<or> c = CHR ''_'' \<or> c = CHR ''-''"

text \<open>\<^verbatim>\<open>^[A-Z0-9][A-Z0-9._-]{0,31}$\<close>\<close>

definition asset_pattern :: "string \<Rightarrow> bool" where
  "asset_pattern s \<longleftrightarrow>
     (case s of [] \<Rightarrow> False
      | c # cs \<Rightarrow> (is_upper c \<or> is_digit c) \<and> list_all is_asset_char cs \<and> length cs \<le> 31)"

definition make_trading_pair :: "string \<Rightarrow> string \<Rightarrow> trading_pair result" where
  "make_trading_pair b q =
     (let base = upper (strip b); quote = upper (strip q)
      in require (asset_pattern base \<and> asset_pattern quote) MarketDataInconsistency
           (require (base \<noteq> quote) MarketDataInconsistency
              (Inr \<lparr>tp_base = base, tp_quote = quote\<rparr>)))"

text \<open>\<^verbatim>\<open>str.split(sep)\<close> for a one-character separator.\<close>

fun split_on :: "char \<Rightarrow> string \<Rightarrow> string list" where
  "split_on sep [] = [[]]"
| "split_on sep (c # cs) =
     (if c = sep then [] # split_on sep cs
      else (case split_on sep cs of [] \<Rightarrow> [[c]] | w # ws \<Rightarrow> (c # w) # ws))"

definition parse_trading_pair :: "string \<Rightarrow> trading_pair result" where
  "parse_trading_pair value =
     (case split_on (CHR ''/'') (strip value) of
        [b, q] \<Rightarrow> make_trading_pair b q
      | _ \<Rightarrow> Inl MarketDataInconsistency)"

definition pair_symbol :: "trading_pair \<Rightarrow> string" where
  "pair_symbol p = tp_base p @ ''/'' @ tp_quote p"

definition safe_path_component :: "trading_pair \<Rightarrow> string" where
  "safe_path_component p = tp_base p @ ''_'' @ tp_quote p"

text \<open>The pairs the constructor can produce.\<close>

definition pair_ok :: "trading_pair \<Rightarrow> bool" where
  "pair_ok p \<longleftrightarrow> asset_pattern (tp_base p) \<and> asset_pattern (tp_quote p) \<and> tp_base p \<noteq> tp_quote p"

record timeframe =
  tf_code :: string
  tf_duration :: duration
  tf_alignment :: duration
  tf_native_codes :: "(exchange \<times> string) list"

text \<open>\<^verbatim>\<open>[1-9][0-9]*[smhdwM]\<close>\<close>

definition timeframe_code_ok :: "string \<Rightarrow> bool" where
  "timeframe_code_ok s \<longleftrightarrow>
     2 \<le> length s \<and> is_digit (hd s) \<and> hd s \<noteq> CHR ''0'' \<and> list_all is_digit (butlast s)
     \<and> last s \<in> set ''smhdwM''"

definition make_timeframe :: "timeframe \<Rightarrow> timeframe result" where
  "make_timeframe tf =
     require (timeframe_code_ok (tf_code tf)) ValueError
       (require (0 < tf_duration tf) ValueError
          (require (0 \<le> tf_alignment tf \<and> tf_alignment tf < tf_duration tf) ValueError (Inr tf)))"

text \<open>The alignment test on a UTC instant; the Unix epoch is instant 0.\<close>

definition validate_open_time :: "timeframe \<Rightarrow> instant \<Rightarrow> bool" where
  "validate_open_time tf open_time \<longleftrightarrow> (open_time - (0 + tf_alignment tf)) mod tf_duration tf = 0"

definition next_open_time :: "timeframe \<Rightarrow> instant \<Rightarrow> instant result" where
  "next_open_time tf open_time =
     require (validate_open_time tf open_time) MarketDataInconsistency
       (Inr (open_time + tf_duration tf))"

definition native_code :: "timeframe \<Rightarrow> exchange \<Rightarrow> string result" where
  "native_code tf ex =
     (case map_of (tf_native_codes tf) ex of None \<Rightarrow> Inl UnsupportedTimeframe | Some c \<Rightarrow> Inr c)"

definition timeframe_ok :: "timeframe \<Rightarrow> bool" where
  "timeframe_ok tf \<longleftrightarrow> timeframe_code_ok (tf_code tf) \<and> 0 < tf_duration tf
     \<and> 0 \<le> tf_alignment tf \<and> tf_alignment tf < tf_duration tf"

section \<open>The registry of timeframes\<close>

definition registry_timeframe :: "string \<Rightarrow> duration \<Rightarrow> string \<Rightarrow> duration \<Rightarrow> timeframe" where
  "registry_timeframe code dur binance_code al =
     \<lparr>tf_code = code, tf_duration = dur, tf_alignment = al, tf_native_codes = [(BINANCE, binance_code)]\<rparr>"

definition minutes :: "int \<Rightarrow> duration" where
  "minutes n = n * 60000000"

definition TIMEFRAMES :: "(string \<times> timeframe) list" where
  "TIMEFRAMES = map (\<lambda>tf. (tf_code tf, tf))
     [registry_timeframe ''1m'' (minutes 1) ''1m'' 0,
      registry_timeframe ''5m'' (minutes 5) ''5m'' 0,
      registry_timeframe ''15m'' (minutes 15) ''15m'' 0,
      registry_timeframe ''30m'' (minutes 30) ''30m'' 0,
      registry_timeframe ''1h'' (minutes 60) ''1h'' 0,
      registry_timeframe ''4h'' (minutes 240) ''4h'' 0,
      registry_timeframe ''12h'' (minutes 720) ''12h'' 0,
      registry_timeframe ''1d'' (minutes 1440) ''1d'' 0,
      registry_timeframe ''1w'' (minutes 10080) ''1w'' (minutes 5760)]"

definition get_timeframe :: "string \<Rightarrow> timeframe result" where
  "get_timeframe code =
     (case map_of TIMEFRAMES code of None \<Rightarrow> Inl UnsupportedTimeframe | Some tf \<Rightarrow> Inr tf)"

section \<open>Instruments, prices, ranges and candles\<close>

record instrument =
  in_exchange :: exchange
  in_market_type :: market_type
  in_pair :: trading_pair
  in_native_symbol :: string
  in_active :: bool
  in_price_precision :: "int option"
  in_quantity_precision :: "int option"

definition precision_ok :: "int option \<Rightarrow> bool" where
  "precision_ok p \<longleftrightarrow> (case p of None \<Rightarrow> True | Some n \<Rightarrow> 0 \<le> n \<and> n \<le> 30)"

definition make_instrument :: "instrument \<Rightarrow> instrument result" where
  "make_instrument i =
     (let native = strip (in_native_symbol i)
      in require (native \<noteq> [] \<and> length native \<le> 64) MarketDataInconsistency
           (require (precision_ok (in_price_precision i)) MarketDataInconsistency
              (require (precision_ok (in_quantity_precision i)) MarketDataInconsistency
                 (Inr (i\<lparr>in_native_symbol := native\<rparr>)))))"

definition instrument_symbol :: "instrument \<Rightarrow> string" where
  "instrument_symbol i = pair_symbol (in_pair i)"

definition validate_instrument :: "instrument \<Rightarrow> instrument result" where
  "validate_instrument i =
     res_bind (make_trading_pair (tp_base (in_pair i)) (tp_quote (in_pair i))) (\<lambda>canonical_pair.
       require (canonical_pair = in_pair i) MarketDataInconsistency
         (require (in_native_symbol i = strip (in_native_symbol i) \<and> in_native_symbol i \<noteq> []
                   \<and> length (in_native_symbol i) \<le> 64) MarketDataInconsistency
            (require (list_all precision_ok [in_price_precision i, in_quantity_precision i])
               MarketDataInconsistency (Inr i))))"

record market_price =
  mp_instrument :: instrument
  mp_price :: decimal
  mp_observed_at :: instant
  mp_source :: string

definition make_market_price ::
    "instrument \<Rightarrow> decimal \<Rightarrow> py_datetime \<Rightarrow> string \<Rightarrow> market_price result" where
  "make_market_price i price observed_at source =
     res_bind (validate_instrument i) (\<lambda>_.
       require (0 < price) MarketDataInconsistency
         (res_bind (require_utc observed_at) (\<lambda>observed.
            require (strip source \<noteq> [] \<and> strip source = source \<and> length (strip source) \<le> 128)
              MarketDataInconsistency
              (Inr \<lparr>mp_instrument = i, mp_price = price, mp_observed_at = observed,
                    mp_source = strip source\<rparr>))))"

record data_range =
  dr_start :: instant
  dr_end :: instant

definition make_data_range :: "py_datetime \<Rightarrow> py_datetime \<Rightarrow> data_range result" where
  "make_data_range s e =
     catch_as InvalidDataRange
       (res_bind (require_utc s) (\<lambda>start. res_bind (require_utc e) (\<lambda>finish.
          require (start < finish) InvalidDataRange (Inr \<lparr>dr_start = start, dr_end = finish\<rparr>))))"

text \<open>The constructor on instants that are UTC already.\<close>

definition data_range_of :: "instant \<Rightarrow> instant \<Rightarrow> data_range result" where
  "data_range_of start finish = make_data_range (Aware start 0) (Aware finish 0)"

definition range_ok :: "data_range \<Rightarrow> bool" where
  "range_ok r \<longleftrightarrow> dr_start r < dr_end r"

record candle =
  c_exchange :: exchange
  c_market_type :: market_type
  c_symbol :: string
  c_timeframe :: timeframe
  c_open_time :: instant
  c_close_time :: instant
  c_open :: decimal
  c_high :: decimal
  c_low :: decimal
  c_close :: decimal
  c_volume :: decimal
  c_quote_volume :: "decimal option"
  c_trade_count :: "int option"
  c_is_closed :: bool
  c_source :: string

text \<open>
  \<^verbatim>\<open>Candle.__post_init__\<close>: \<open>raw\<close> carries the fields as given, \<open>ot\<close> and \<open>ct\<close> the raw datetimes.
\<close>

definition make_candle :: "candle \<Rightarrow> py_datetime \<Rightarrow> py_datetime \<Rightarrow> candle result" where
  "make_candle raw ot ct =
     res_bind (parse_trading_pair (c_symbol raw)) (\<lambda>pair.
     res_bind (require_utc ot) (\<lambda>open_time.
     res_bind (require_utc ct) (\<lambda>close_time.
     res_bind (datetime_to_epoch_milliseconds (Aware open_time 0)) (\<lambda>_.
     res_bind (datetime_to_epoch_milliseconds (Aware close_time 0)) (\<lambda>_.
     require (validate_open_time (c_timeframe raw) open_time) MarketDataInconsistency (
     require (open_time < close_time) MarketDataInconsistency (
     require (\<not> c_high raw < max (c_open raw) (max (c_close raw) (c_low raw))) MarketDataInconsistency (
     require (\<not> min (c_open raw) (min (c_close raw) (c_high raw)) < c_low raw) MarketDataInconsistency (
     require (\<not> (c_volume raw < 0 \<or> (case c_quote_volume raw of None \<Rightarrow> False | Some q \<Rightarrow> q < 0)))
       MarketDataInconsistency (
     require (\<not> (case c_trade_count raw of None \<Rightarrow> False | Some n \<Rightarrow> n < 0)) MarketDataInconsistency (
     require (strip (c_source raw) \<noteq> []) MarketDataInconsistency (
       Inr (raw\<lparr>c_symbol := pair_symbol pair, c_open_time := open_time, c_close_time := close_time\<rparr>)))))))))))))"

text \<open>What the constructor leaves true of a candle.\<close>

definition symbol_ok :: "string \<Rightarrow> bool" where
  "symbol_ok s \<longleftrightarrow> (case parse_trading_pair s of Inl _ \<Rightarrow> False | Inr p \<Rightarrow> pair_symbol p = s)"

definition candle_ok :: "candle \<Rightarrow> bool" where
  "candle_ok c \<longleftrightarrow>
     validate_open_time (c_timeframe c) (c_open_time c) \<and> c_open_time c < c_close_time c
     \<and> c_open_time c mod 1000 = 0 \<and> c_close_time c mod 1000 = 0
     \<and> c_low c \<le> c_open c \<and> c_low c \<le> c_close c \<and> c_open c \<le> c_high c \<and> c_close c \<le> c_high c
     \<and> c_low c \<le> c_high c \<and> 0 \<le> c_volume c
     \<and> (case c_quote_volume c of None \<Rightarrow> True | Some q \<Rightarrow> 0 \<le> q)
     \<and> (case c_trade_count c of None \<Rightarrow> True | Some n \<Rightarrow> 0 \<le> n)
     \<and> symbol_ok (c_symbol c)"

definition candle_key :: "candle \<Rightarrow> exchange \<times> string \<times> string \<times> instant" where
  "candle_key c = (c_exchange c, c_symbol c, tf_code (c_timeframe c), c_open_time c)"

text \<open>\<^verbatim>\<open>(exchange, market_type, symbol, timeframe.code)\<close>, compared by batches, engine and resampler.\<close>

definition candle_identity :: "candle \<Rightarrow> exchange \<times> market_type \<times> string \<times> string" where
  "candle_identity c = (c_exchange c, c_market_type c, c_symbol c, tf_code (c_timeframe c))"

record candle_batch =
  cb_instrument :: instrument
  cb_timeframe :: timeframe
  cb_data_range :: data_range
  cb_candles :: "candle list"
  cb_source_request_count :: int

definition make_candle_batch :: "candle_batch \<Rightarrow> candle_batch result" where
  "make_candle_batch b =
     require (list_all (\<lambda>c. candle_identity c =
         (in_exchange (cb_instrument b), in_market_type (cb_instrument b),
          instrument_symbol (cb_instrument b), tf_code (cb_timeframe b))) (cb_candles b))
       MarketDataInconsistency (Inr b)"

section \<open>The continuous UTC calendar\<close>

definition calendar_validate_pair :: "timeframe \<Rightarrow> timeframe \<Rightarrow> int result" where
  "calendar_validate_pair source target =
     require (\<not> tf_duration target \<le> tf_duration source) MarketDataInconsistency
       (let quotient = tf_duration target div tf_duration source;
            remainder = tf_duration target mod tf_duration source
        in require (\<not> (remainder \<noteq> 0 \<or> quotient < 2)) MarketDataInconsistency
             (require (tf_alignment source = tf_alignment target) MarketDataInconsistency
                (require (\<not> (tf_code target = ''1d'' \<and> tf_alignment target \<noteq> 0))
                   MarketDataInconsistency (Inr quotient))))"

definition group_start :: "instant \<Rightarrow> timeframe \<Rightarrow> instant" where
  "group_start instant target =
     (let epoch = 0 + tf_alignment target;
          periods = (instant - epoch) div tf_duration target
      in epoch + periods * tf_duration target)"

section \<open>Facts about pairs and their canonical symbol\<close>

lemma asset_char_range:
  assumes "is_asset_char c"
  shows "upper_char c = [c]" and "\<not> is_space c" and "c \<noteq> CHR ''/''"
proof -
  have n: "(of_char c :: nat) \<in> {48..57} \<union> {65..90} \<union> {45, 46, 95}"
    using assms by (auto simp: is_asset_char_def is_upper_def is_digit_def)
  then show "upper_char c = [c]" by (auto simp: upper_char_def Let_def)
  from n show "\<not> is_space c" by (auto simp: is_space_def Let_def)
  from n show "c \<noteq> CHR ''/''" by auto
qed

lemma asset_pattern_chars:
  "asset_pattern s \<Longrightarrow> s \<noteq> [] \<and> (\<forall>c\<in>set s. is_asset_char c)"
  by (auto simp: asset_pattern_def is_asset_char_def list_all_iff split: list.splits)

lemma upper_asset: "(\<forall>c\<in>set s. is_asset_char c) \<Longrightarrow> upper s = s"
  by (induction s) (auto simp: upper_def asset_char_range)

lemma strip_no_space: "(\<forall>c\<in>set s. \<not> is_space c) \<Longrightarrow> strip s = s"
proof -
  have "(\<forall>c\<in>set w. \<not> is_space c) \<Longrightarrow> dropWhile is_space w = w" for w by (cases w) auto
  from this [of s] this [of "rev s"]
  show "(\<forall>c\<in>set s. \<not> is_space c) \<Longrightarrow> strip s = s" by (simp only: strip_def set_rev rev_rev_ident)
qed

lemma split_on_no_sep: "sep \<notin> set w \<Longrightarrow> split_on sep w = [w]"
  by (induction w) auto

lemma split_on_append: "sep \<notin> set w \<Longrightarrow> split_on sep (w @ sep # s) = w # split_on sep s"
  by (induction w) auto

lemma make_trading_pair_ok: "make_trading_pair b q = Inr p \<Longrightarrow> pair_ok p"
  by (auto simp: make_trading_pair_def Let_def pair_ok_def)

lemma make_trading_pair_canonical: "pair_ok p \<Longrightarrow> make_trading_pair (tp_base p) (tp_quote p) = Inr p"
proof -
  assume ok: "pair_ok p"
  then have "upper (strip (tp_base p)) = tp_base p" "upper (strip (tp_quote p)) = tp_quote p"
    using asset_pattern_chars upper_asset strip_no_space asset_char_range(2)
    by (metis pair_ok_def)+
  with ok show ?thesis by (simp add: make_trading_pair_def pair_ok_def Let_def)
qed

lemma parse_pair_symbol: "pair_ok p \<Longrightarrow> parse_trading_pair (pair_symbol p) = Inr p"
proof -
  assume ok: "pair_ok p"
  then have chars: "\<forall>c\<in>set (tp_base p). is_asset_char c" "\<forall>c\<in>set (tp_quote p). is_asset_char c"
    using asset_pattern_chars by (auto simp: pair_ok_def)
  have "\<not> is_space (CHR ''/'')" by (simp add: is_space_def)
  with chars have "strip (pair_symbol p) = pair_symbol p"
    by (intro strip_no_space) (auto simp: pair_symbol_def dest: asset_char_range(2))
  moreover have "CHR ''/'' \<notin> set (tp_base p)" "CHR ''/'' \<notin> set (tp_quote p)"
    using chars asset_char_range(3) by blast+
  ultimately show ?thesis
    using make_trading_pair_canonical [OF ok]
    by (simp add: parse_trading_pair_def pair_symbol_def split_on_append split_on_no_sep)
qed

lemma parse_trading_pair_ok: "parse_trading_pair s = Inr p \<Longrightarrow> pair_ok p"
  by (auto simp: parse_trading_pair_def dest: make_trading_pair_ok split: list.splits)

section \<open>Facts about instants, timeframes and the calendar\<close>

lemma require_utc_Inr_iff [simp]: "require_utc d = Inr t \<longleftrightarrow> d = Aware t 0"
  by (cases d) auto

lemma data_range_of_Inr_iff:
  "data_range_of a b = Inr r \<longleftrightarrow> a < b \<and> r = \<lparr>dr_start = a, dr_end = b\<rparr>"
  by (auto simp: data_range_of_def make_data_range_def)

lemma data_range_of_eq:
  "data_range_of a b = (if a < b then Inr \<lparr>dr_start = a, dr_end = b\<rparr> else Inl InvalidDataRange)"
  by (simp add: data_range_of_def make_data_range_def require_def)

lemma timeframe_ok_duration: "timeframe_ok tf \<Longrightarrow> 0 < tf_duration tf"
  by (simp add: timeframe_ok_def)

lemma make_timeframe_iff: "make_timeframe tf = Inr tf' \<longleftrightarrow> tf' = tf \<and> timeframe_ok tf"
  by (auto simp: make_timeframe_def timeframe_ok_def)

lemma aligned_iff: "validate_open_time tf t \<longleftrightarrow> (\<exists>k. t = tf_alignment tf + k * tf_duration tf)"
proof
  assume "validate_open_time tf t"
  then have "tf_duration tf dvd t - tf_alignment tf" by (auto simp: validate_open_time_def)
  then obtain k where "t - tf_alignment tf = tf_duration tf * k" by (auto simp: dvd_def)
  then show "\<exists>k. t = tf_alignment tf + k * tf_duration tf" by (metis add.commute diff_add_cancel mult.commute)
next
  assume "\<exists>k. t = tf_alignment tf + k * tf_duration tf"
  then show "validate_open_time tf t" by (auto simp: validate_open_time_def)
qed

lemma aligned_add: "validate_open_time tf t \<Longrightarrow> validate_open_time tf (t + n * tf_duration tf)"
  unfolding aligned_iff by (metis add.assoc distrib_right)

lemma aligned_diff_div:
  "validate_open_time tf s \<Longrightarrow> validate_open_time tf t \<Longrightarrow>
   s + ((t - s) div tf_duration tf) * tf_duration tf = t"
proof -
  assume "validate_open_time tf s" "validate_open_time tf t"
  then obtain i j where "s = tf_alignment tf + i * tf_duration tf" "t = tf_alignment tf + j * tf_duration tf"
    by (auto simp: aligned_iff)
  moreover from this have "t - s = (j - i) * tf_duration tf" by (simp add: algebra_simps)
  ultimately show ?thesis
    by (cases "tf_duration tf = 0") (simp_all add: algebra_simps)
qed

lemma group_start_aligned: "validate_open_time tf (group_start t tf)"
  by (simp add: group_start_def Let_def validate_open_time_def)

lemma group_start_bounds:
  assumes "0 < tf_duration tf"
  shows "group_start t tf \<le> t" and "t < group_start t tf + tf_duration tf"
proof -
  let ?d = "tf_duration tf" and ?x = "t - tf_alignment tf"
  have x: "?x div ?d * ?d + ?x mod ?d = ?x" by simp
  have m: "0 \<le> ?x mod ?d" "?x mod ?d < ?d" using assms by simp_all
  have g: "group_start t tf = tf_alignment tf + ?x div ?d * ?d" by (simp add: group_start_def Let_def)
  show "group_start t tf \<le> t" using x m(1) unfolding g by linarith
  show "t < group_start t tf + ?d" using x m(2) unfolding g by linarith
qed

lemma group_start_fixed: "validate_open_time tf t \<Longrightarrow> group_start t tf = t"
  using aligned_diff_div [of tf "tf_alignment tf" t]
  by (simp add: group_start_def Let_def validate_open_time_def)

lemma epoch_milliseconds_exact: "datetime_to_epoch_milliseconds (Aware t 0) = Inr m \<Longrightarrow> t mod 1000 = 0"
  by (simp add: datetime_to_epoch_milliseconds_def mod_mod_cancel)

lemma symbol_ok_parsed: "parse_trading_pair s = Inr p \<Longrightarrow> symbol_ok (pair_symbol p)"
  using parse_trading_pair_ok [of s p] by (simp add: symbol_ok_def parse_pair_symbol)

lemma make_candle_ok: "make_candle raw ot ct = Inr c \<Longrightarrow> candle_ok c"
  unfolding make_candle_def res_bind_Inr_iff require_Inr_iff sum.inject
  apply (elim exE conjE)
  apply (drule epoch_milliseconds_exact)+
  apply (drule symbol_ok_parsed)
  apply (hypsubst)
  apply (simp only: candle_ok_def candle.simps not_less max.bounded_iff min.bounded_iff de_Morgan_disj)
  apply (auto split: option.splits)
  done

lemma make_candle_fields:
  assumes "make_candle raw (Aware t 0) (Aware u 0) = Inr c"
  shows "\<exists>s. c = raw\<lparr>c_symbol := s, c_open_time := t, c_close_time := u\<rparr>"
  using assms
  unfolding make_candle_def res_bind_Inr_iff require_Inr_iff sum.inject require_utc_Inr_iff py_datetime.inject
  by (elim exE conjE) (hypsubst, rule exI, rule refl)

lemma epoch_milliseconds_total:
  "t mod 1000 = 0 \<Longrightarrow> \<exists>m. datetime_to_epoch_milliseconds (Aware t 0) = Inr m"
  by (auto simp: datetime_to_epoch_milliseconds_def Let_def mod_mod_cancel)

lemma make_candle_succeeds:
  assumes "parse_trading_pair (c_symbol raw) = Inr p" and "validate_open_time (c_timeframe raw) t"
    and "t < u" and "t mod 1000 = 0" and "u mod 1000 = 0"
    and "c_open raw \<le> c_high raw" and "c_close raw \<le> c_high raw" and "c_low raw \<le> c_high raw"
    and "c_low raw \<le> c_open raw" and "c_low raw \<le> c_close raw" and "0 \<le> c_volume raw"
    and "\<And>q. c_quote_volume raw = Some q \<Longrightarrow> 0 \<le> q" and "\<And>n. c_trade_count raw = Some n \<Longrightarrow> 0 \<le> n"
    and "strip (c_source raw) \<noteq> []"
  shows "\<exists>c. make_candle raw (Aware t 0) (Aware u 0) = Inr c"
proof -
  obtain m1 m2 where "datetime_to_epoch_milliseconds (Aware t 0) = Inr m1"
      "datetime_to_epoch_milliseconds (Aware u 0) = Inr m2"
    using epoch_milliseconds_total [OF assms(4)] epoch_milliseconds_total [OF assms(5)] by blast
  moreover have "\<not> (c_volume raw < 0 \<or> (case c_quote_volume raw of None \<Rightarrow> False | Some q \<Rightarrow> q < 0))"
    "\<not> (case c_trade_count raw of None \<Rightarrow> False | Some n \<Rightarrow> n < 0)"
    using assms(11-13) by (auto simp: not_less split: option.splits)
  ultimately show ?thesis using assms(1-10,14) by (simp add: make_candle_def not_less)
qed

lemma epoch_milliseconds_value:
  assumes "datetime_to_epoch_milliseconds (Aware t 0) = Inr m"
  shows "m * 1000 = t"
proof -
  define d s u where "d = t div 86400000000" and "s = (t mod 86400000000) div 1000000"
    and "u = t mod 1000000"
  have m: "m = d * 86400000 + s * 1000 + u div 1000" and z: "u mod 1000 = 0"
    using assms by (simp_all add: datetime_to_epoch_milliseconds_def Let_def d_def s_def u_def)
  have r: "(t mod 86400000000) mod 1000000 = u" by (simp add: u_def mod_mod_cancel)
  have day: "d * 86400000000 + t mod 86400000000 = t" by (simp add: d_def)
  have sec: "s * 1000000 + u = t mod 86400000000"
    using div_mult_mod_eq [of "t mod 86400000000" 1000000] r by (simp add: s_def)
  have ms: "u div 1000 * 1000 = u" using div_mult_mod_eq [of u 1000] z by simp
  have "m * 1000 = d * 86400000000 + (s * 1000000 + u div 1000 * 1000)"
    by (simp only: m) (simp add: distrib_right)
  then show ?thesis by (simp only: ms sec day)
qed

section \<open>The contract of rounding down to the grid of a timeframe\<close>

text \<open>
  \<^verbatim>\<open>ContinuousUtcCalendar.group_start\<close> and \<^verbatim>\<open>latest_closed_end\<close> both round an instant down to the open
  times of a timeframe; what the resampler and the planner rely on follows from two laws.
\<close>

locale grid_floor =
  fixes fl :: "instant \<Rightarrow> timeframe \<Rightarrow> instant"
  assumes fl_aligned: "validate_open_time tf (fl t tf)"
    and fl_le: "0 < tf_duration tf \<Longrightarrow> fl t tf \<le> t"
    and fl_next: "0 < tf_duration tf \<Longrightarrow> t < fl t tf + tf_duration tf"
begin

lemma fl_unique:
  assumes d: "0 < tf_duration tf" and al: "validate_open_time tf g" and b: "g \<le> t" "t < g + tf_duration tf"
  shows "g = fl t tf"
proof -
  obtain i j where i: "g = tf_alignment tf + i * tf_duration tf" and j: "fl t tf = tf_alignment tf + j * tf_duration tf"
    using al fl_aligned [of tf t] by (auto simp: aligned_iff)
  have "i * tf_duration tf < (j + 1) * tf_duration tf" "j * tf_duration tf < (i + 1) * tf_duration tf"
    using b fl_le [OF d, of t] fl_next [OF d, of t] unfolding i j by (simp_all add: algebra_simps)
  then have "i < j + 1" "j < i + 1" using d by simp_all
  then show ?thesis by (simp add: i j)
qed

lemma fl_fixed_iff: "0 < tf_duration tf \<Longrightarrow> fl t tf = t \<longleftrightarrow> validate_open_time tf t"
  using fl_unique [of tf t t] fl_aligned [of tf t] by auto

lemma fl_mono:
  assumes d: "0 < tf_duration tf" and st: "s \<le> t"
  shows "fl s tf \<le> fl t tf"
proof -
  obtain i j where i: "fl s tf = tf_alignment tf + i * tf_duration tf" and j: "fl t tf = tf_alignment tf + j * tf_duration tf"
    using fl_aligned [of tf s] fl_aligned [of tf t] by (auto simp: aligned_iff)
  have "i * tf_duration tf < (j + 1) * tf_duration tf"
    using fl_le [OF d, of s] fl_next [OF d, of t] st unfolding i j by (simp add: algebra_simps)
  then have "i \<le> j" using d by simp
  then show ?thesis using d by (simp add: i j mult_right_mono)
qed

end

interpretation calendar: grid_floor group_start
  by unfold_locales (use group_start_aligned group_start_bounds in auto)

section \<open>Properties\<close>

text \<open>Printing a constructed trading pair and parsing the text gives the pair back.\<close>

theorem pair_symbol_round_trip:
  assumes "make_trading_pair b q = Inr p"
  shows "parse_trading_pair (pair_symbol p) = Inr p"
  by (rule parse_pair_symbol [OF make_trading_pair_ok [OF assms]])

theorem pair_symbol_round_trip_witness:
  "\<exists>p. make_trading_pair '' btc'' ''usdt '' = Inr p \<and> pair_symbol p = ''BTC/USDT''
     \<and> parse_trading_pair (pair_symbol p) = Inr p"
proof -
  have m: "make_trading_pair '' btc'' ''usdt '' = Inr \<lparr>tp_base = ''BTC'', tp_quote = ''USDT''\<rparr>"
    by code_simp
  from pair_symbol_round_trip [OF this] m show ?thesis by (simp add: pair_symbol_def)
qed

text \<open>C36: a candle the constructor accepts satisfies the whole OHLCV contract: prices nested between low
  and high, volumes and counts nonnegative, aligned open time, canonical symbol, millisecond times.\<close>

theorem make_candle_sound:
  assumes "make_candle raw (Aware t 0) (Aware u 0) = Inr c"
  shows "candle_ok c \<and> c_open_time c = t \<and> c_close_time c = u"
  using make_candle_ok [OF assms] make_candle_fields [OF assms] by auto

definition example_raw_candle :: candle where
  "example_raw_candle =
     \<lparr>c_exchange = BINANCE, c_market_type = SPOT, c_symbol = ''btc/usdt'',
      c_timeframe = registry_timeframe ''1m'' (minutes 1) ''1m'' 0, c_open_time = 0, c_close_time = 0,
      c_open = 10, c_high = 12, c_low = 9, c_close = 11, c_volume = 1, c_quote_volume = None,
      c_trade_count = Some 3, c_is_closed = True, c_source = ''binance''\<rparr>"

theorem make_candle_sound_witness:
  "\<exists>c. make_candle example_raw_candle (Aware 60000000 0) (Aware 119999000 0) = Inr c
     \<and> candle_ok c \<and> c_open_time c = 60000000"
proof -
  have "\<not> isl (make_candle example_raw_candle (Aware 60000000 0) (Aware 119999000 0))" by code_simp
  then obtain c where c: "make_candle example_raw_candle (Aware 60000000 0) (Aware 119999000 0) = Inr c"
    by (auto simp: not_isl_Inr)
  from make_candle_sound [OF c] c show ?thesis by blast
qed

text \<open>The epoch milliseconds of a UTC instant are exact: an instant with a fraction of a millisecond is
  rejected, any other one is divided by a thousand.\<close>

theorem epoch_milliseconds_exactness:
  "datetime_to_epoch_milliseconds (Aware t 0) =
     (if t mod 1000 = 0 then Inr (t div 1000) else Inl MarketDataInconsistency)"
proof (cases "t mod 1000 = 0")
  case True
  then obtain m where m: "datetime_to_epoch_milliseconds (Aware t 0) = Inr m"
    using epoch_milliseconds_total [OF True] by blast
  then have "m * 1000 = t" by (rule epoch_milliseconds_value)
  with m True show ?thesis by auto
next
  case False
  then show ?thesis by (simp add: datetime_to_epoch_milliseconds_def mod_mod_cancel)
qed

text \<open>The group of an instant in the continuous calendar is the only aligned open time whose period
  contains it.\<close>

theorem group_start_unique:
  assumes "0 < tf_duration tf"
  shows "g = group_start t tf \<longleftrightarrow> validate_open_time tf g \<and> g \<le> t \<and> t < g + tf_duration tf"
  using calendar.fl_unique [OF assms] calendar.fl_aligned calendar.fl_le [OF assms] calendar.fl_next [OF assms]
  by blast

theorem group_start_unique_witness:
  "group_start 1000000 (registry_timeframe ''1m'' (minutes 1) ''1m'' 0) = 0"
  using group_start_unique [of "registry_timeframe ''1m'' (minutes 1) ''1m'' 0" 0 1000000]
  by (simp add: registry_timeframe_def minutes_def validate_open_time_def)

end
