(* ===== verification/Planning.thy ===== *)
theory Planning
  imports Market_Domain
begin

text \<open>
  The pure planner of \<^verbatim>\<open>app/market_data/planning.py\<close>: how many candles an interval holds, which
  intervals of it are missing, and how a backfill, an incremental update or a gap repair is cut
  into bounded chunks.  What the planner reads from outside is a parameter: the clock, the fresh
  UUIDs and the answers of the candle store.
\<close>

section \<open>Interval cardinality and gaps\<close>

definition expected_candle_count :: "data_range \<Rightarrow> timeframe \<Rightarrow> int result" where
  "expected_candle_count r tf =
     require (validate_open_time tf (dr_start r) \<and> validate_open_time tf (dr_end r)) InvalidDataRange
       (let delta = dr_end r - dr_start r;
            count = delta div tf_duration tf
        in require (\<not> (count < 1 \<or> dr_start r + count * tf_duration tf \<noteq> dr_end r)) InvalidDataRange
             (Inr count))"

text \<open>
  The loop of \<^verbatim>\<open>find_gap_ranges\<close>.  A timeframe has a positive duration (its constructor checks
  it), which is what makes the loop end; the guard \<open>0 < dur\<close> records that.
\<close>

function gap_loop ::
    "instant list \<Rightarrow> duration \<Rightarrow> instant \<Rightarrow> instant \<Rightarrow> instant option \<Rightarrow> data_range list
     \<Rightarrow> (data_range list \<times> instant option) result" where
  "gap_loop observed dur finish cursor gap_start gaps =
     (if cursor < finish \<and> 0 < dur then
        (let opened = (if cursor \<notin> set observed \<and> gap_start = None then Some cursor else gap_start)
         in (case opened of
               Some g \<Rightarrow>
                 if cursor \<in> set observed
                 then res_bind (data_range_of g cursor) (\<lambda>r.
                        gap_loop observed dur finish (cursor + dur) None (gaps @ [r]))
                 else gap_loop observed dur finish (cursor + dur) opened gaps
             | None \<Rightarrow> gap_loop observed dur finish (cursor + dur) None gaps))
      else Inr (gaps, gap_start))"
  by pat_completeness auto
termination
  by (relation "measure (\<lambda>(observed, dur, finish, cursor, gs, gaps). nat (finish - cursor))") auto

declare gap_loop.simps [simp del]

definition find_gap_ranges :: "instant list \<Rightarrow> timeframe \<Rightarrow> data_range \<Rightarrow> data_range list result" where
  "find_gap_ranges observed_open_times tf r =
     res_bind (expected_candle_count r tf) (\<lambda>_.
     res_bind (gap_loop observed_open_times (tf_duration tf) (dr_end r) (dr_start r) None [])
       (\<lambda>(gaps, gap_start).
          case gap_start of
            None \<Rightarrow> Inr gaps
          | Some g \<Rightarrow> res_bind (data_range_of g (dr_end r)) (\<lambda>tail. Inr (gaps @ [tail]))))"

definition latest_closed_end :: "instant \<Rightarrow> timeframe \<Rightarrow> instant" where
  "latest_closed_end now tf =
     (let epoch = 0 + tf_alignment tf;
          periods = (now - epoch) div tf_duration tf
      in epoch + periods * tf_duration tf)"

section \<open>Plans\<close>

datatype market_job_type = BACKFILL | INCREMENTAL | GAP_REPAIR

record backfill_chunk =
  bc_index :: int
  bc_range :: data_range
  bc_expected :: int

record backfill_plan =
  bp_job_id :: string
  bp_dataset_key :: string
  bp_timeframe :: timeframe
  bp_range :: data_range
  bp_chunks :: "backfill_chunk list"
  bp_expected :: int
  bp_chunk_candles :: int
  bp_job_type :: market_job_type

record incremental_plan =
  ip_action :: string
  ip_backfill :: "backfill_plan option"
  ip_last_open_time :: "instant option"
  ip_latest_closed_end :: instant

record gap_repair_plan =
  gp_backfill :: "backfill_plan option"
  gp_gap_ranges :: "data_range list"
  gp_severity :: string

record planner =
  pl_chunk_candles :: int
  pl_max_total_candles :: int
  pl_max_chunks :: int

definition make_planner :: "int \<Rightarrow> int \<Rightarrow> int \<Rightarrow> int \<Rightarrow> int \<Rightarrow> planner result" where
  "make_planner adapter_request_limit max_fetch_candles chunk_candles max_total_candles max_chunks =
     require (\<not> list_ex (\<lambda>v. v < 1)
         [adapter_request_limit, max_fetch_candles, chunk_candles, max_total_candles, max_chunks])
       ValueError
       (Inr \<lparr>pl_chunk_candles = min (min adapter_request_limit max_fetch_candles) chunk_candles,
             pl_max_total_candles = max_total_candles, pl_max_chunks = max_chunks\<rparr>)"

text \<open>One pass of the chunk loop: the cursor, the candles remaining and the chunks built.\<close>

definition chunk_step ::
    "int \<Rightarrow> duration \<Rightarrow> nat \<Rightarrow> instant \<times> int \<times> backfill_chunk list
     \<Rightarrow> (instant \<times> int \<times> backfill_chunk list) result" where
  "chunk_step limit dur index st =
     (case st of (cursor, remaining, chunks) \<Rightarrow>
        let size = min limit remaining;
            finish = cursor + size * dur
        in res_bind (data_range_of cursor finish) (\<lambda>r.
             Inr (finish, remaining - size,
                  chunks @ [\<lparr>bc_index = int index, bc_range = r, bc_expected = size\<rparr>])))"

definition plan_backfill ::
    "planner \<Rightarrow> string \<Rightarrow> string \<Rightarrow> timeframe \<Rightarrow> data_range \<Rightarrow> market_job_type \<Rightarrow> instant
     \<Rightarrow> backfill_plan result" where
  "plan_backfill pl job_id dataset_key tf r job_type closed_reference =
     res_bind (expected_candle_count r tf) (\<lambda>tot.
     require (\<not> latest_closed_end closed_reference tf < dr_end r) InvalidDataRange (
     require (\<not> pl_max_total_candles pl < tot) InvalidDataRange (
       let chunk_count = (tot + pl_chunk_candles pl - 1) div pl_chunk_candles pl
       in require (\<not> pl_max_chunks pl < chunk_count) InvalidDataRange (
            res_bind (res_fold (chunk_step (pl_chunk_candles pl) (tf_duration tf))
                        [0 ..< nat chunk_count] (dr_start r, tot, []))
              (\<lambda>(cursor, remaining, chunks).
                 require (\<not> (cursor \<noteq> dr_end r \<or> remaining \<noteq> 0)) InvalidDataRange
                   (Inr \<lparr>bp_job_id = job_id, bp_dataset_key = dataset_key, bp_timeframe = tf,
                         bp_range = r, bp_chunks = chunks, bp_expected = tot,
                         bp_chunk_candles = pl_chunk_candles pl, bp_job_type = job_type\<rparr>))))))"

fun exchange_value :: "exchange \<Rightarrow> string" where
  "exchange_value BINANCE = ''binance''"

fun market_type_value :: "market_type \<Rightarrow> string" where
  "market_type_value SPOT = ''spot''"
| "market_type_value FOREX = ''forex''"
| "market_type_value EQUITY = ''equity''"
| "market_type_value FUTURES = ''futures''"

definition planning_key :: "instrument \<Rightarrow> timeframe \<Rightarrow> string" where
  "planning_key i tf = exchange_value (in_exchange i) @ '':'' @ market_type_value (in_market_type i)
     @ '':'' @ instrument_symbol i @ '':'' @ tf_code tf"

text \<open>\<open>first_open\<close> and \<open>last_open\<close> are what \<^verbatim>\<open>store.first_last_count\<close> answered.\<close>

definition plan_incremental ::
    "planner \<Rightarrow> string \<Rightarrow> instant option \<Rightarrow> instant option \<Rightarrow> instrument \<Rightarrow> timeframe \<Rightarrow> instant
     \<Rightarrow> int \<Rightarrow> instant option \<Rightarrow> incremental_plan result" where
  "plan_incremental pl uuid first_open last_open i tf now overlap_candles start =
     require (\<not> overlap_candles < 0) InvalidDataRange (
       let latest_end = latest_closed_end now tf
       in res_bind
            (case last_open of
               None \<Rightarrow> (case start of None \<Rightarrow> Inl InvalidDataRange | Some s \<Rightarrow> Inr s)
             | Some l \<Rightarrow>
                 res_bind (next_open_time tf l) (\<lambda>next_expected.
                   let candidate = next_expected - overlap_candles * tf_duration tf
                   in Inr (case first_open of None \<Rightarrow> candidate | Some f \<Rightarrow> max candidate f)))
            (\<lambda>candidate_start.
               if latest_end \<le> candidate_start
               then Inr \<lparr>ip_action = ''NOOP'', ip_backfill = None, ip_last_open_time = last_open,
                         ip_latest_closed_end = latest_end\<rparr>
               else res_bind (data_range_of candidate_start latest_end) (\<lambda>r.
                    res_bind (plan_backfill pl uuid (planning_key i tf) tf r INCREMENTAL now) (\<lambda>plan.
                      Inr \<lparr>ip_action = ''RUN'', ip_backfill = Some plan, ip_last_open_time = last_open,
                           ip_latest_closed_end = latest_end\<rparr>))))"

text \<open>Re-indexing the chunks of one gap behind those collected so far.\<close>

definition append_chunks :: "backfill_chunk list \<Rightarrow> backfill_chunk list \<Rightarrow> backfill_chunk list" where
  "append_chunks chunks partial =
     fold (\<lambda>c acc. acc @ [c\<lparr>bc_index := int (length acc)\<rparr>]) partial chunks"

text \<open>\<open>clock k\<close> is the clock's reading when the \<open>k\<close>-th gap is planned.\<close>

fun plan_gap_list ::
    "planner \<Rightarrow> string \<Rightarrow> timeframe \<Rightarrow> (nat \<Rightarrow> instant) \<Rightarrow> nat \<Rightarrow> data_range list
     \<Rightarrow> backfill_chunk list \<times> int \<Rightarrow> (backfill_chunk list \<times> int) result" where
  "plan_gap_list pl key tf clock k [] (chunks, tot) = Inr (chunks, tot)"
| "plan_gap_list pl key tf clock k (gap # gaps) (chunks, tot) =
     res_bind (plan_backfill pl [] key tf gap GAP_REPAIR (clock k)) (\<lambda>partial.
       plan_gap_list pl key tf clock (Suc k) gaps
         (append_chunks chunks (bp_chunks partial), tot + bp_expected partial))"

text \<open>\<open>rows\<close> are the candles \<^verbatim>\<open>store.read\<close> returned for the interval.\<close>

definition plan_gaps ::
    "planner \<Rightarrow> string \<Rightarrow> candle list \<Rightarrow> (nat \<Rightarrow> instant) \<Rightarrow> instrument \<Rightarrow> timeframe \<Rightarrow> data_range
     \<Rightarrow> gap_repair_plan result" where
  "plan_gaps pl uuid rows clock i tf r =
     res_bind (expected_candle_count r tf) (\<lambda>requested.
     require (\<not> pl_max_total_candles pl < requested) InvalidDataRange (
     res_bind (find_gap_ranges (map c_open_time rows) tf r) (\<lambda>gaps.
       let key = planning_key i tf
       in if gaps = [] then Inr \<lparr>gp_backfill = None, gp_gap_ranges = [], gp_severity = ''WARNING''\<rparr>
          else res_bind (plan_gap_list pl key tf clock 0 gaps ([], 0)) (\<lambda>(chunks, tot).
               require (\<not> pl_max_total_candles pl < tot) InvalidDataRange (
               require (\<not> pl_max_chunks pl < int (length chunks)) InvalidDataRange (
                 Inr \<lparr>gp_backfill = Some \<lparr>bp_job_id = uuid, bp_dataset_key = key, bp_timeframe = tf,
                        bp_range = r, bp_chunks = chunks, bp_expected = tot,
                        bp_chunk_candles = pl_chunk_candles pl, bp_job_type = GAP_REPAIR\<rparr>,
                      gp_gap_ranges = gaps, gp_severity = ''WARNING''\<rparr>))))))"

section \<open>Cardinality and the latest closed candle\<close>

lemma expected_candle_count_iff:
  "expected_candle_count r tf = Inr n \<longleftrightarrow>
     validate_open_time tf (dr_start r) \<and> validate_open_time tf (dr_end r)
     \<and> 1 \<le> n \<and> n = (dr_end r - dr_start r) div tf_duration tf"
  using aligned_diff_div [of tf "dr_start r" "dr_end r"]
  by (auto simp: expected_candle_count_def Let_def)

lemma expected_candle_count_exact:
  assumes "expected_candle_count r tf = Inr n"
  shows "dr_start r + n * tf_duration tf = dr_end r" and "1 \<le> n"
  using assms aligned_diff_div [of tf "dr_start r" "dr_end r"]
  by (simp_all add: expected_candle_count_iff)

lemma latest_closed_end_group_start: "latest_closed_end now tf = group_start now tf"
  by (simp add: latest_closed_end_def group_start_def)

section \<open>The gaps are exactly the missing intervals\<close>

definition covered :: "data_range list \<Rightarrow> instant \<Rightarrow> bool" where
  "covered gaps t \<longleftrightarrow> list_ex (\<lambda>g. dr_start g \<le> t \<and> t < dr_end g) gaps"

text \<open>Chronological and separated by at least one observed candle.\<close>

definition separated :: "data_range list \<Rightarrow> bool" where
  "separated gaps \<longleftrightarrow> chain (\<lambda>a b. dr_end a < dr_start b) gaps"

text \<open>The loop invariant at the cursor \<open>c = s + n * d\<close>, with the open gap \<open>gs\<close>.\<close>

definition gap_inv ::
    "instant list \<Rightarrow> duration \<Rightarrow> instant \<Rightarrow> int \<Rightarrow> instant option \<Rightarrow> data_range list \<Rightarrow> bool" where
  "gap_inv obs d s n gs gaps \<longleftrightarrow>
     separated gaps \<and> 0 \<le> n
     \<and> (\<forall>g\<in>set gaps. range_ok g \<and> s \<le> dr_start g \<and> dr_end g < s + n * d)
     \<and> (\<forall>g. gs = Some g \<longrightarrow> s \<le> g \<and> g < s + n * d \<and> (\<forall>r\<in>set gaps. dr_end r < g))
     \<and> (\<forall>k. 0 \<le> k \<and> k < n \<longrightarrow>
          (s + k * d \<notin> set obs \<longleftrightarrow> covered gaps (s + k * d) \<or> (\<exists>g. gs = Some g \<and> g \<le> s + k * d)))"

lemma covered_append [simp]: "covered (xs @ ys) t \<longleftrightarrow> covered xs t \<or> covered ys t"
  by (auto simp: covered_def)

lemma covered_before: "\<forall>g\<in>set gaps. dr_end g \<le> c \<Longrightarrow> covered gaps t \<Longrightarrow> t < c"
  by (auto simp: covered_def list_ex_iff)

lemma grid_less: "0 < (d :: int) \<Longrightarrow> s + k * d < s + n * d \<longleftrightarrow> k < n"
  by simp

lemma separated_snoc:
  "separated gaps \<Longrightarrow> \<forall>r\<in>set gaps. dr_end r < dr_start g \<Longrightarrow> separated (gaps @ [g])"
  using last_in_set by (fastforce simp: separated_def chain_snoc)

lemma gap_inv_missing:
  assumes inv: "gap_inv obs d s n gs gaps" and d: "0 < d" and miss: "s + n * d \<notin> set obs"
  shows "gap_inv obs d s (n + 1) (Some (case gs of None \<Rightarrow> s + n * d | Some g \<Rightarrow> g)) gaps"
proof -
  have lt: "g \<in> set gaps \<Longrightarrow> dr_end g < s + n * d" for g using inv by (simp add: gap_inv_def)
  have st: "s + n * d < s + (n + 1) * d" using d by (simp add: algebra_simps)
  have "s + k * d \<notin> set obs \<longleftrightarrow> covered gaps (s + k * d)
      \<or> (case gs of None \<Rightarrow> s + n * d | Some g \<Rightarrow> g) \<le> s + k * d" if "0 \<le> k" "k < n + 1" for k
  proof (cases "k = n")
    case True
    with inv d miss show ?thesis by (auto simp: gap_inv_def split: option.split)
  next
    case False
    with that have "k < n" by simp
    then have "s + k * d < s + n * d" using d by simp
    with inv \<open>k < n\<close> that show ?thesis by (auto simp: gap_inv_def split: option.split)
  qed
  with inv st lt d show ?thesis
    unfolding gap_inv_def by (auto split: option.splits dest!: lt intro: less_trans)
qed

lemma gap_inv_observed:
  assumes inv: "gap_inv obs d s n None gaps" and d: "0 < d" and obs: "s + n * d \<in> set obs"
  shows "gap_inv obs d s (n + 1) None gaps"
proof -
  have lt: "g \<in> set gaps \<Longrightarrow> dr_end g < s + n * d" for g using inv by (simp add: gap_inv_def)
  then have nc: "\<not> covered gaps (s + n * d)"
    using covered_before [of gaps "s + n * d"] by (meson less_imp_le less_irrefl)
  have st: "s + n * d < s + (n + 1) * d" using d by (simp add: algebra_simps)
  have "s + k * d \<notin> set obs \<longleftrightarrow> covered gaps (s + k * d)" if "0 \<le> k" "k < n + 1" for k
    using inv obs nc that by (cases "k = n") (auto simp: gap_inv_def)
  with inv st lt show ?thesis
    unfolding gap_inv_def by (auto dest!: lt intro: less_trans)
qed

lemma gap_inv_close:
  assumes inv: "gap_inv obs d s n (Some g) gaps" and d: "0 < d" and obs: "s + n * d \<in> set obs"
  shows "gap_inv obs d s (n + 1) None (gaps @ [\<lparr>dr_start = g, dr_end = s + n * d\<rparr>])"
proof -
  let ?new = "\<lparr>dr_start = g, dr_end = s + n * d\<rparr>"
  have lt: "r \<in> set gaps \<Longrightarrow> dr_end r < s + n * d" for r using inv by (simp add: gap_inv_def)
  then have nc: "\<not> covered (gaps @ [?new]) (s + n * d)"
    using covered_before [of "gaps @ [?new]" "s + n * d"] by (auto intro: less_imp_le)
  have st: "s + n * d < s + (n + 1) * d" using d by (simp add: algebra_simps)
  have "s + k * d \<notin> set obs \<longleftrightarrow> covered (gaps @ [?new]) (s + k * d)" if "0 \<le> k" "k < n + 1" for k
  proof (cases "k = n")
    case True
    with obs nc show ?thesis by simp
  next
    case False
    with that have "k < n" by simp
    then have "s + k * d < s + n * d" using d by simp
    then have "covered [?new] (s + k * d) \<longleftrightarrow> g \<le> s + k * d" by (simp add: covered_def)
    with inv \<open>k < n\<close> that show ?thesis by (auto simp: gap_inv_def)
  qed
  moreover have "separated (gaps @ [?new])"
    using inv by (intro separated_snoc) (auto simp: gap_inv_def)
  ultimately show ?thesis
    using inv st unfolding gap_inv_def
    by (auto simp: range_ok_def dest!: lt intro: less_trans)
qed

lemma gap_loop_inv:
  assumes "0 < d" and "gap_inv obs d s n gs gaps" and "n \<le> m"
  shows "\<exists>gaps' gs'. gap_loop obs d (s + m * d) (s + n * d) gs gaps = Inr (gaps', gs')
     \<and> gap_inv obs d s m gs' gaps'"
  using assms(2,3)
proof (induction "nat (m - n)" arbitrary: n gs gaps)
  case 0
  then have "m = n" by simp
  with 0 show ?case by (simp add: gap_loop.simps [of obs d "s + n * d" "s + n * d"])
next
  case (Suc j)
  then have nm: "n < m" and j: "j = nat (m - (n + 1))" "n + 1 \<le> m" by simp_all
  then have lt: "s + n * d < s + m * d" using assms(1) by simp
  have next_c: "s + n * d + d = s + (n + 1) * d" by (simp add: algebra_simps)
  note IH = Suc.hyps(1) [OF j(1) _ j(2)]
  show ?case
  proof (cases "s + n * d \<in> set obs")
    case False
    then show ?thesis
      using IH [OF gap_inv_missing [OF Suc.prems(1) assms(1) False]] lt assms(1)
      by (cases gs) (simp_all add: gap_loop.simps [of obs d "s + m * d" "s + n * d"] next_c)
  next
    case True
    show ?thesis
    proof (cases gs)
      case None
      then show ?thesis
        using IH [OF gap_inv_observed [OF _ assms(1) True]] Suc.prems(1) lt assms(1) True
        by (simp add: gap_loop.simps [of obs d "s + m * d" "s + n * d"] next_c)
    next
      case (Some g)
      then have "g < s + n * d" using Suc.prems(1) by (simp add: gap_inv_def)
      with Some show ?thesis
        using IH [OF gap_inv_close [OF _ assms(1) True]] Suc.prems(1) lt assms(1) True
        by (simp add: gap_loop.simps [of obs d "s + m * d" "s + n * d"] next_c data_range_of_eq)
    qed
  qed
qed

lemma find_gap_ranges_spec:
  assumes "0 < tf_duration tf" and "expected_candle_count r tf = Inr m"
  shows "\<exists>gaps. find_gap_ranges obs tf r = Inr gaps \<and> separated gaps
    \<and> (\<forall>g\<in>set gaps. range_ok g \<and> dr_start r \<le> dr_start g \<and> dr_end g \<le> dr_end r)
    \<and> (\<forall>k. 0 \<le> k \<and> k < m \<longrightarrow>
         (dr_start r + k * tf_duration tf \<notin> set obs \<longleftrightarrow> covered gaps (dr_start r + k * tf_duration tf)))"
proof -
  let ?d = "tf_duration tf" and ?s = "dr_start r"
  have e: "dr_end r = ?s + m * ?d" and m: "1 \<le> m"
    using expected_candle_count_exact [OF assms(2)] by simp_all
  have "gap_inv obs ?d ?s 0 None []" by (auto simp: gap_inv_def separated_def)
  then obtain gaps gs where loop: "gap_loop obs ?d (?s + m * ?d) ?s None [] = Inr (gaps, gs)"
    and inv: "gap_inv obs ?d ?s m gs gaps"
    using gap_loop_inv [OF assms(1), of obs ?s 0 None "[]" m] m by auto
  show ?thesis
  proof (cases gs)
    case None
    then show ?thesis using loop inv assms(2)
      by (auto simp: find_gap_ranges_def e gap_inv_def less_imp_le)
  next
    case (Some g)
    let ?new = "\<lparr>dr_start = g, dr_end = dr_end r\<rparr>"
    have g: "?s \<le> g" "g < dr_end r" "\<forall>x\<in>set gaps. dr_end x < g"
      using inv Some by (simp_all add: gap_inv_def e)
    then have "find_gap_ranges obs tf r = Inr (gaps @ [?new])"
      using loop Some assms(2) by (simp add: find_gap_ranges_def e data_range_of_eq)
    moreover have "separated (gaps @ [?new])"
      using inv g by (intro separated_snoc) (auto simp: gap_inv_def)
    moreover have "covered [?new] (?s + k * ?d) \<longleftrightarrow> g \<le> ?s + k * ?d" if "k < m" for k
      using that assms(1) by (simp add: covered_def e)
    ultimately show ?thesis using inv Some g
      by (intro exI [of _ "gaps @ [?new]"]) (auto simp: gap_inv_def e range_ok_def less_imp_le)
  qed
qed

section \<open>A backfill plan partitions its interval into bounded chunks\<close>

definition planner_ok :: "planner \<Rightarrow> bool" where
  "planner_ok pl \<longleftrightarrow> 1 \<le> pl_chunk_candles pl \<and> 1 \<le> pl_max_total_candles pl \<and> 1 \<le> pl_max_chunks pl"

lemma make_planner_ok: "make_planner a b c d e = Inr pl \<Longrightarrow> planner_ok pl"
  by (auto simp: make_planner_def planner_ok_def)

text \<open>The closed form of the \<open>j\<close>-th chunk.\<close>

definition chunk_at :: "instant \<Rightarrow> duration \<Rightarrow> int \<Rightarrow> int \<Rightarrow> nat \<Rightarrow> backfill_chunk" where
  "chunk_at s d limit tot j =
     \<lparr>bc_index = int j,
      bc_range = \<lparr>dr_start = s + int j * limit * d, dr_end = s + min ((int j + 1) * limit) tot * d\<rparr>,
      bc_expected = min limit (tot - int j * limit)\<rparr>"

definition chunk_count :: "int \<Rightarrow> int \<Rightarrow> int" where
  "chunk_count limit tot = (tot + limit - 1) div limit"

lemma chunk_count_less:
  assumes "1 \<le> limit" and "int j < chunk_count limit tot"
  shows "int j * limit < tot"
proof -
  have "(int j + 1) * limit \<le> chunk_count limit tot * limit"
    using assms by (intro mult_right_mono) auto
  also have "\<dots> \<le> tot + limit - 1"
    using div_mult_mod_eq [of "tot + limit - 1" limit] pos_mod_sign [of limit "tot + limit - 1"] assms(1)
    unfolding chunk_count_def by linarith
  finally show ?thesis by (simp add: algebra_simps)
qed

lemma chunk_count_covers:
  assumes "1 \<le> limit"
  shows "tot \<le> chunk_count limit tot * limit"
  using div_mult_mod_eq [of "tot + limit - 1" limit] pos_mod_bound [of limit "tot + limit - 1"] assms
  unfolding chunk_count_def by linarith

lemma chunk_count_pos: "1 \<le> limit \<Longrightarrow> 1 \<le> tot \<Longrightarrow> 1 \<le> chunk_count limit tot"
  using chunk_count_covers [of limit tot]
  by (smt (verit) mult_less_0_iff mult_zero_left zero_less_mult_iff)

lemma chunk_fold:
  assumes "1 \<le> limit" and "0 < d" and "1 \<le> tot" and "int i \<le> chunk_count limit tot"
  shows "res_fold (chunk_step limit d) [0 ..< i] (s, tot, []) =
    Inr (s + min (int i * limit) tot * d, tot - min (int i * limit) tot,
         map (chunk_at s d limit tot) [0 ..< i])"
  using assms(4)
proof (induction i)
  case 0
  then show ?case using assms(3) by simp
next
  case (Suc i)
  have lt: "int i * limit < tot" using Suc.prems assms(1) by (intro chunk_count_less) auto
  let ?c = "int i * limit" and ?size = "min limit (tot - int i * limit)"
  have sum: "?c + ?size = min ((int i + 1) * limit) tot" by (simp add: min_def algebra_simps)
  have pos: "0 < ?size" using lt assms(1) by simp
  then have "s + ?c * d < s + ?c * d + ?size * d" using assms(2) by simp
  moreover have "s + ?c * d + ?size * d = s + min ((int i + 1) * limit) tot * d"
  proof -
    have "s + ?c * d + ?size * d = s + (?c + ?size) * d" by (simp only: distrib_right add.assoc)
    then show ?thesis by (simp only: sum)
  qed
  moreover have "tot - ?c - ?size = tot - min ((int i + 1) * limit) tot"
    using sum by linarith
  ultimately have "chunk_step limit d i (s + ?c * d, tot - ?c, map (chunk_at s d limit tot) [0 ..< i])
      = Inr (s + min ((int i + 1) * limit) tot * d, tot - min ((int i + 1) * limit) tot,
             map (chunk_at s d limit tot) [0 ..< Suc i])"
    by (simp add: chunk_step_def Let_def data_range_of_eq chunk_at_def mult.assoc)
  moreover have "min ?c tot = ?c" using lt by simp
  ultimately show ?case using Suc by (simp add: res_fold_append add.commute)
qed

definition chunks_partition :: "data_range \<Rightarrow> duration \<Rightarrow> int \<Rightarrow> backfill_chunk list \<Rightarrow> bool" where
  "chunks_partition r d limit chunks \<longleftrightarrow>
     chunks \<noteq> [] \<and> dr_start (bc_range (hd chunks)) = dr_start r
     \<and> dr_end (bc_range (last chunks)) = dr_end r
     \<and> chain (\<lambda>a b. dr_end (bc_range a) = dr_start (bc_range b)) chunks
     \<and> list_all (\<lambda>c. 1 \<le> bc_expected c \<and> bc_expected c \<le> limit
          \<and> dr_end (bc_range c) = dr_start (bc_range c) + bc_expected c * d) chunks
     \<and> map bc_index chunks = map int [0 ..< length chunks]"

lemma chunk_at_partition:
  assumes "1 \<le> limit" and "1 \<le> tot" and e: "dr_end r = dr_start r + tot * d"
  shows "chunks_partition r d limit (map (chunk_at (dr_start r) d limit tot) [0 ..< nat (chunk_count limit tot)])"
proof -
  let ?s = "dr_start r" and ?n = "nat (chunk_count limit tot)"
  let ?f = "chunk_at ?s d limit tot"
  have n: "0 < ?n" using chunk_count_pos [OF assms(1,2)] by simp
  have lt: "int j * limit < tot" if "j < ?n" for j
    using that assms(1) by (intro chunk_count_less) auto
  have "tot \<le> int ?n * limit" using chunk_count_covers [OF assms(1), of tot] n by simp
  moreover have "(int (?n - 1) + 1) = int ?n" using n by simp
  ultimately have lst: "dr_end (bc_range (?f (?n - 1))) = dr_end r"
    by (simp add: chunk_at_def e min_def)
  have step: "min ((1 + int j) * limit) tot = (1 + int j) * limit" if "Suc j < ?n" for j
    using lt [OF that] by (simp add: min_def)
  have sz: "1 \<le> bc_expected (?f j) \<and> bc_expected (?f j) \<le> limit
      \<and> dr_end (bc_range (?f j)) = dr_start (bc_range (?f j)) + bc_expected (?f j) * d" if "j < ?n" for j
    using lt [OF that] assms(1) by (auto simp: chunk_at_def min_def algebra_simps)
  have "chain (\<lambda>a b. dr_end (bc_range a) = dr_start (bc_range b)) (map ?f [0 ..< ?n])"
    by (rule chain_map_upt) (simp add: chunk_at_def step mult.assoc add.commute)
  moreover have "list_all (\<lambda>c. 1 \<le> bc_expected c \<and> bc_expected c \<le> limit
      \<and> dr_end (bc_range c) = dr_start (bc_range c) + bc_expected c * d) (map ?f [0 ..< ?n])"
    using sz by (auto simp: list_all_iff)
  ultimately show ?thesis
    using n lst unfolding chunks_partition_def
    by (simp add: hd_map last_map chunk_at_def comp_def)
qed

lemma sum_list_partition:
  "chain (\<lambda>a b. dr_end (bc_range a) = dr_start (bc_range b)) chunks \<Longrightarrow> chunks \<noteq> [] \<Longrightarrow>
   list_all (\<lambda>c. dr_end (bc_range c) = dr_start (bc_range c) + bc_expected c * d) chunks \<Longrightarrow>
   dr_start (bc_range (hd chunks)) + sum_list (map bc_expected chunks) * d = dr_end (bc_range (last chunks))"
proof (induction chunks rule: induct_list012)
  case (3 x y ys)
  then have "dr_start (bc_range y) + sum_list (map bc_expected (y # ys)) * d = dr_end (bc_range (last (y # ys)))"
    by simp
  with 3 show ?case by (simp add: algebra_simps)
qed simp_all

text \<open>What a backfill request needs to be planned, as the code tests it.\<close>

definition backfill_allowed :: "planner \<Rightarrow> timeframe \<Rightarrow> data_range \<Rightarrow> instant \<Rightarrow> int \<Rightarrow> bool" where
  "backfill_allowed pl tf r now tot \<longleftrightarrow>
     dr_end r \<le> latest_closed_end now tf \<and> tot \<le> pl_max_total_candles pl
     \<and> chunk_count (pl_chunk_candles pl) tot \<le> pl_max_chunks pl"

lemma plan_backfill_eq:
  assumes "planner_ok pl" and "0 < tf_duration tf" and "expected_candle_count r tf = Inr tot"
  shows "plan_backfill pl job_id key tf r jt now =
    (if backfill_allowed pl tf r now tot
     then Inr \<lparr>bp_job_id = job_id, bp_dataset_key = key, bp_timeframe = tf, bp_range = r,
               bp_chunks = map (chunk_at (dr_start r) (tf_duration tf) (pl_chunk_candles pl) tot)
                 [0 ..< nat (chunk_count (pl_chunk_candles pl) tot)],
               bp_expected = tot, bp_chunk_candles = pl_chunk_candles pl, bp_job_type = jt\<rparr>
     else Inl InvalidDataRange)"
proof -
  let ?l = "pl_chunk_candles pl" and ?n = "chunk_count (pl_chunk_candles pl) tot"
  have l: "1 \<le> ?l" using assms(1) by (simp add: planner_ok_def)
  have e: "dr_end r = dr_start r + tot * tf_duration tf" "1 \<le> tot"
    using expected_candle_count_exact [OF assms(3)] by simp_all
  have n: "0 \<le> ?n" using chunk_count_pos [OF l e(2)] by simp
  then have "min (int (nat ?n) * ?l) tot = tot" using chunk_count_covers [OF l, of tot] by simp
  then have "res_fold (chunk_step ?l (tf_duration tf)) [0 ..< nat ?n] (dr_start r, tot, []) =
      Inr (dr_end r, 0, map (chunk_at (dr_start r) (tf_duration tf) ?l tot) [0 ..< nat ?n])"
    using chunk_fold [OF l assms(2) e(2), of "nat ?n" "dr_start r"] n by (simp add: e)
  then show ?thesis
    using assms(3)
    by (simp add: plan_backfill_def backfill_allowed_def require_def not_less Let_def
        flip: chunk_count_def)
qed

interpretation closed: grid_floor latest_closed_end
  unfolding latest_closed_end_group_start [abs_def] by unfold_locales
    (use group_start_aligned group_start_bounds in auto)

section \<open>Properties\<close>

text \<open>C34: the gaps found in an interval are separated, lie inside it, and cover exactly the expected open
  times that were not observed.\<close>

theorem find_gap_ranges_exact:
  assumes "timeframe_ok tf" and "expected_candle_count r tf = Inr m"
  shows "\<exists>gaps. find_gap_ranges obs tf r = Inr gaps \<and> separated gaps
    \<and> (\<forall>g\<in>set gaps. range_ok g \<and> dr_start r \<le> dr_start g \<and> dr_end g \<le> dr_end r)
    \<and> (\<forall>k. 0 \<le> k \<and> k < m \<longrightarrow>
         (dr_start r + k * tf_duration tf \<notin> set obs \<longleftrightarrow> covered gaps (dr_start r + k * tf_duration tf)))"
  by (rule find_gap_ranges_spec [OF timeframe_ok_duration [OF assms(1)] assms(2)])

definition example_1m :: timeframe where
  "example_1m = registry_timeframe ''1m'' (minutes 1) ''1m'' 0"

definition example_range :: data_range where
  "example_range = \<lparr>dr_start = 0, dr_end = 300000000\<rparr>"

lemma example_1m_ok: "timeframe_ok example_1m" "expected_candle_count example_range example_1m = Inr 5"
  by code_simp+

theorem find_gap_ranges_exact_witness:
  "\<exists>gaps. find_gap_ranges [0, 60000000, 240000000] example_1m example_range = Inr gaps
     \<and> covered gaps 120000000 \<and> \<not> covered gaps 60000000"
proof -
  have f: "tf_duration example_1m = 60000000" "dr_start example_range = 0"
    by (simp_all add: example_range_def example_1m_def registry_timeframe_def minutes_def)
  from find_gap_ranges_exact [OF example_1m_ok, of "[0, 60000000, 240000000]"] obtain gaps where
    g: "find_gap_ranges [0, 60000000, 240000000] example_1m example_range = Inr gaps"
    and k: "\<forall>k. 0 \<le> k \<and> k < 5 \<longrightarrow>
      (dr_start example_range + k * tf_duration example_1m \<notin> set [0, 60000000, 240000000]
       \<longleftrightarrow> covered gaps (dr_start example_range + k * tf_duration example_1m))"
    by blast
  show ?thesis using k [rule_format, of 1] k [rule_format, of 2] g by (simp add: f)
qed

text \<open>C33: planning a backfill succeeds exactly when the interval is closed and within the limits, and then
  its chunks are indexed in order, contiguous, of bounded size, and partition the whole interval.\<close>

theorem plan_backfill_partitions:
  assumes "make_planner a b c d e = Inr pl" and "timeframe_ok tf"
    and "expected_candle_count r tf = Inr tot"
  shows "if backfill_allowed pl tf r now tot
    then \<exists>p. plan_backfill pl job_id key tf r jt now = Inr p \<and> bp_range p = r \<and> bp_expected p = tot
      \<and> chunks_partition r (tf_duration tf) (pl_chunk_candles pl) (bp_chunks p)
      \<and> sum_list (map bc_expected (bp_chunks p)) = tot
      \<and> int (length (bp_chunks p)) \<le> pl_max_chunks pl
    else plan_backfill pl job_id key tf r jt now = Inl InvalidDataRange"
proof -
  have ok: "planner_ok pl" by (rule make_planner_ok [OF assms(1)])
  then have l: "1 \<le> pl_chunk_candles pl" by (simp add: planner_ok_def)
  have d: "0 < tf_duration tf" by (rule timeframe_ok_duration [OF assms(2)])
  have en: "dr_end r = dr_start r + tot * tf_duration tf" "1 \<le> tot"
    using expected_candle_count_exact [OF assms(3)] by simp_all
  let ?cs = "map (chunk_at (dr_start r) (tf_duration tf) (pl_chunk_candles pl) tot)
      [0 ..< nat (chunk_count (pl_chunk_candles pl) tot)]"
  have p: "chunks_partition r (tf_duration tf) (pl_chunk_candles pl) ?cs"
    by (rule chunk_at_partition [OF l en(2,1)])
  then have "dr_start r + sum_list (map bc_expected ?cs) * tf_duration tf = dr_end r"
    using sum_list_partition [of ?cs "tf_duration tf"]
    unfolding chunks_partition_def by (auto simp: list_all_iff)
  with en d have "sum_list (map bc_expected ?cs) = tot" by simp
  with p plan_backfill_eq [OF ok d assms(3), of job_id key jt now] show ?thesis
    using chunk_count_pos [OF l en(2)] by (auto simp: backfill_allowed_def)
qed

theorem plan_backfill_partitions_witness:
  "\<exists>pl p. make_planner 1000 500 2 10000 100 = Inr pl
     \<and> plan_backfill pl ''job'' ''key'' example_1m example_range BACKFILL 300000000 = Inr p
     \<and> sum_list (map bc_expected (bp_chunks p)) = 5"
proof -
  let ?pl = "\<lparr>pl_chunk_candles = 2, pl_max_total_candles = 10000, pl_max_chunks = 100\<rparr>"
  have pl: "make_planner 1000 500 2 10000 100 = Inr ?pl" by (simp add: make_planner_def)
  have "backfill_allowed ?pl example_1m example_range 300000000 5" by code_simp
  with plan_backfill_partitions [OF pl example_1m_ok, of 300000000 "''job''" "''key''" BACKFILL] pl
  show ?thesis by auto
qed

end
