(* ===== verification/Resampling.thy ===== *)
theory Resampling
  imports Market_Domain
begin

text \<open>
  The deterministic resampler of \<^verbatim>\<open>app/market_data/resampling.py\<close>, with the plan it executes
  (\<^verbatim>\<open>datasets.py\<close>) and the storability check on the source candles (\<^verbatim>\<open>storage.py\<close>).  The checksum
  of the output is a parameter: SHA-256 over the canonical candle encoding.
\<close>

section \<open>Plans and results\<close>

datatype dataset_kind = RAW | DERIVED

datatype gap_policy = STRICT | SKIP_INCOMPLETE | MARK_INCOMPLETE

record dataset_identity =
  di_exchange :: exchange
  di_market_type :: market_type
  di_symbol :: string
  di_timeframe :: string
  di_kind :: dataset_kind
  di_source :: string
  di_construction_policy :: string
  di_schema_version :: int

record resampling_plan =
  rp_source :: dataset_identity
  rp_target :: dataset_identity
  rp_data_range :: data_range
  rp_source_dataset_version :: string
  rp_source_checksum :: string
  rp_source_candles :: int
  rp_expected_groups :: int
  rp_estimated_partitions :: int
  rp_group_size :: int
  rp_gap_policy :: gap_policy
  rp_calendar :: string

record resampling_result =
  rr_plan :: resampling_plan
  rr_candles :: "candle list"
  rr_skipped_ranges :: "data_range list"
  rr_source_count :: nat
  rr_materialized_count :: nat
  rr_checksum :: string

definition SUPPORTED_RESAMPLING :: "(string \<times> string) list" where
  "SUPPORTED_RESAMPLING =
     [(''1m'', ''5m''), (''1m'', ''15m''), (''1m'', ''30m''), (''1m'', ''1h''), (''5m'', ''15m''),
      (''5m'', ''30m''), (''5m'', ''1h''), (''15m'', ''30m''), (''15m'', ''1h''), (''30m'', ''1h''),
      (''1h'', ''4h''), (''1h'', ''1d''), (''4h'', ''1d'')]"

definition validate_timeframes :: "timeframe \<Rightarrow> timeframe \<Rightarrow> int result" where
  "validate_timeframes source target =
     require ((tf_code source, tf_code target) \<in> set SUPPORTED_RESAMPLING) MarketDataInconsistency
       (calendar_validate_pair source target)"

section \<open>Storability of a candle\<close>

text \<open>
  \<^verbatim>\<open>decimal128(38,18)\<close>: at most 18 decimal places, and at most 38 digits once scaled by \<open>10^18\<close>.
\<close>

definition validate_decimal128_38_18 :: "decimal \<Rightarrow> unit result" where
  "validate_decimal128_38_18 v =
     (let scaled = v * 10 ^ 18
      in require (scaled = of_int \<lfloor>scaled\<rfloor>) MarketDataInconsistency
           (require (\<bar>scaled\<bar> < 10 ^ 38) MarketDataInconsistency (Inr ())))"

definition candle_decimals :: "candle \<Rightarrow> decimal list" where
  "candle_decimals c = [c_open c, c_high c, c_low c, c_close c, c_volume c]
     @ (case c_quote_volume c of None \<Rightarrow> [] | Some q \<Rightarrow> [q])"

definition validate_candle_serialization :: "candle \<Rightarrow> bool \<Rightarrow> unit result" where
  "validate_candle_serialization c require_closed =
     require (\<not> (require_closed \<and> \<not> c_is_closed c)) MarketDataInconsistency
       (res_bind (res_fold (\<lambda>v _. validate_decimal128_38_18 v) (candle_decimals c) ()) (\<lambda>_.
        res_bind (datetime_to_epoch_milliseconds (Aware (c_open_time c) 0)) (\<lambda>_.
        res_bind (datetime_to_epoch_milliseconds (Aware (c_close_time c) 0)) (\<lambda>_. Inr ()))))"

section \<open>Grouping\<close>

type_synonym groups = "instant \<rightharpoonup> candle list"

text \<open>\<^verbatim>\<open>groups.setdefault(start, []).append(candle)\<close>\<close>

definition group_add :: "groups \<Rightarrow> instant \<Rightarrow> candle \<Rightarrow> groups" where
  "group_add gs start c = gs(start \<mapsto> (case gs start of None \<Rightarrow> [] | Some cs \<Rightarrow> cs) @ [c])"

definition group_step ::
    "resampling_plan \<Rightarrow> timeframe \<Rightarrow> timeframe \<Rightarrow> candle
     \<Rightarrow> groups \<times> candle option \<times> nat \<Rightarrow> (groups \<times> candle option \<times> nat) result" where
  "group_step plan source target c st =
     (case st of (gs, previous, source_count) \<Rightarrow>
        res_bind (validate_candle_serialization c False) (\<lambda>_.
        require (candle_identity c =
            (di_exchange (rp_source plan), di_market_type (rp_source plan),
             di_symbol (rp_source plan), tf_code source)) MarketDataInconsistency (
        require (dr_start (rp_data_range plan) \<le> c_open_time c
            \<and> c_open_time c < dr_end (rp_data_range plan)) MarketDataInconsistency (
        require (\<not> (case previous of None \<Rightarrow> False | Some p \<Rightarrow> c_open_time c \<le> c_open_time p))
          MarketDataInconsistency (
          Inr (group_add gs (group_start (c_open_time c) target) c, Some c, Suc source_count))))))"

fun complete_from :: "candle list \<Rightarrow> instant \<Rightarrow> duration \<Rightarrow> instant option" where
  "complete_from [] expected d = Some expected"
| "complete_from (c # cs) expected d =
     (if c_open_time c \<noteq> expected \<or> c_close_time c \<noteq> expected + d - 1000 then None
      else complete_from cs (expected + d) d)"

definition complete_group :: "candle list \<Rightarrow> instant \<Rightarrow> timeframe \<Rightarrow> timeframe \<Rightarrow> int \<Rightarrow> bool" where
  "complete_group candles start source target group_size \<longleftrightarrow>
     (if int (length candles) \<noteq> group_size \<or> list_ex (\<lambda>c. \<not> c_is_closed c) candles then False
      else complete_from candles start (tf_duration source) = Some (start + tf_duration target))"

section \<open>Aggregation\<close>

definition dsum :: "decimal list \<Rightarrow> decimal" where
  "dsum vs = fold (\<lambda>v s. dadd s v) vs 0"

text \<open>Python's \<^verbatim>\<open>max\<close> and \<^verbatim>\<open>min\<close> of a nonempty sequence.\<close>

fun max_list :: "decimal \<Rightarrow> decimal list \<Rightarrow> decimal" where
  "max_list m [] = m"
| "max_list m (v # vs) = max_list (max m v) vs"

fun min_list :: "decimal \<Rightarrow> decimal list \<Rightarrow> decimal" where
  "min_list m [] = m"
| "min_list m (v # vs) = min_list (min m v) vs"

definition aggregate :: "candle list \<Rightarrow> instant \<Rightarrow> timeframe \<Rightarrow> string \<Rightarrow> candle result" where
  "aggregate candles start tf source =
     (case candles of
        [] \<Rightarrow> Inl ValueError
      | first # rest \<Rightarrow>
          let quote_volume =
                (if list_all (\<lambda>c. c_quote_volume c \<noteq> None) candles
                 then Some (dsum (map (\<lambda>c. the (c_quote_volume c)) candles)) else None);
              trade_count =
                (if list_all (\<lambda>c. c_trade_count c \<noteq> None) candles
                 then Some (sum_list (map (\<lambda>c. the (c_trade_count c)) candles)) else None)
          in make_candle
               (first\<lparr>c_timeframe := tf,
                  c_high := max_list (c_high first) (map c_high rest),
                  c_low := min_list (c_low first) (map c_low rest),
                  c_close := c_close (last candles),
                  c_volume := dsum (map c_volume candles),
                  c_quote_volume := quote_volume,
                  c_trade_count := trade_count,
                  c_is_closed := list_all c_is_closed candles,
                  c_source := source\<rparr>)
               (Aware start 0) (Aware (start + tf_duration tf - 1000) 0))"

section \<open>The resampler\<close>

text \<open>One target group: its candle, or its range among the skipped ones.\<close>

definition emit_group ::
    "resampling_plan \<Rightarrow> timeframe \<Rightarrow> timeframe \<Rightarrow> int \<Rightarrow> groups \<Rightarrow> instant
     \<Rightarrow> candle list \<times> data_range list \<Rightarrow> (candle list \<times> data_range list) result" where
  "emit_group plan source target group_size gs start out =
     (case out of (output, skipped) \<Rightarrow>
        let components = (case gs start of None \<Rightarrow> [] | Some cs \<Rightarrow> cs)
        in if \<not> complete_group components start source target group_size
           then res_bind (data_range_of start (start + tf_duration target)) (\<lambda>group_range.
                  if rp_gap_policy plan = STRICT then Inl MarketDataInconsistency
                  else Inr (output, skipped @ [group_range]))
           else res_bind (aggregate components start target (di_source (rp_target plan))) (\<lambda>c.
                  Inr (output @ [c], skipped)))"

function emit_loop ::
    "resampling_plan \<Rightarrow> timeframe \<Rightarrow> timeframe \<Rightarrow> int \<Rightarrow> groups \<Rightarrow> instant
     \<Rightarrow> candle list \<times> data_range list \<Rightarrow> (candle list \<times> data_range list) result" where
  "emit_loop plan source target group_size gs start out =
     (if start < dr_end (rp_data_range plan) \<and> 0 < tf_duration target then
        res_bind (emit_group plan source target group_size gs start out)
          (emit_loop plan source target group_size gs (start + tf_duration target))
      else Inr out)"
  by pat_completeness auto
termination
  by (relation "measure (\<lambda>(plan, source, target, n, gs, start, out). nat (dr_end (rp_data_range plan) - start))")
    auto

declare emit_loop.simps [simp del]

definition resample ::
    "(candle list \<Rightarrow> string) \<Rightarrow> candle list \<Rightarrow> resampling_plan \<Rightarrow> timeframe \<Rightarrow> timeframe
     \<Rightarrow> resampling_result result" where
  "resample digest candles plan source target =
     res_bind (validate_timeframes source target) (\<lambda>group_size.
     require (group_size = rp_group_size plan) MarketDataInconsistency (
     res_bind (res_fold (group_step plan source target) candles (Map.empty, None, 0))
       (\<lambda>(gs, _, source_count).
     res_bind (emit_loop plan source target group_size gs (dr_start (rp_data_range plan)) ([], []))
       (\<lambda>(output, skipped).
          Inr \<lparr>rr_plan = plan, rr_candles = output, rr_skipped_ranges = skipped,
               rr_source_count = source_count, rr_materialized_count = length output,
               rr_checksum = digest output\<rparr>))))"

section \<open>What the groups hold\<close>

definition members :: "timeframe \<Rightarrow> instant \<Rightarrow> candle list \<Rightarrow> candle list" where
  "members target start candles = filter (\<lambda>c. group_start (c_open_time c) target = start) candles"

lemma group_step_Inr:
  "group_step plan source target c (gs, p, n) = Inr st \<Longrightarrow>
     st = (group_add gs (group_start (c_open_time c) target) c, Some c, Suc n)
     \<and> dr_start (rp_data_range plan) \<le> c_open_time c \<and> c_open_time c < dr_end (rp_data_range plan)
     \<and> (\<forall>q. p = Some q \<longrightarrow> c_open_time q < c_open_time c)
     \<and> candle_identity c = (di_exchange (rp_source plan), di_market_type (rp_source plan),
             di_symbol (rp_source plan), tf_code source)"
  by (auto simp: group_step_def split: option.splits)

lemma group_fold_members:
  assumes "res_fold (group_step plan source target) candles (gs, p, n) = Inr (gs', p', n')"
  shows "(case gs' s of None \<Rightarrow> [] | Some cs \<Rightarrow> cs) =
      (case gs s of None \<Rightarrow> [] | Some cs \<Rightarrow> cs) @ members target s candles \<and> n' = n + length candles"
  using assms
proof (induction candles arbitrary: gs p n)
  case Nil
  then show ?case by (simp add: members_def)
next
  case (Cons c cs)
  then obtain st where st: "group_step plan source target c (gs, p, n) = Inr st"
    and rest: "res_fold (group_step plan source target) cs st = Inr (gs', p', n')"
    by auto
  have eq: "st = (group_add gs (group_start (c_open_time c) target) c, Some c, Suc n)"
    using group_step_Inr [OF st] by simp
  show ?case using Cons.IH [OF rest [unfolded eq]]
    by (auto simp: group_add_def members_def)
qed

lemma group_fold_sorted:
  assumes "res_fold (group_step plan source target) candles (gs, p, n) = Inr st"
  shows "chain (\<lambda>a b. c_open_time a < c_open_time b) (case p of None \<Rightarrow> candles | Some q \<Rightarrow> q # candles)"
  using assms
proof (induction candles arbitrary: gs p n)
  case Nil
  then show ?case by (simp split: option.splits)
next
  case (Cons c cs)
  then obtain u where st: "group_step plan source target c (gs, p, n) = Inr u"
    and rest: "res_fold (group_step plan source target) cs u = Inr st"
    by auto
  note eq = group_step_Inr [OF st]
  then have "res_fold (group_step plan source target) cs
      (group_add gs (group_start (c_open_time c) target) c, Some c, Suc n) = Inr st"
    using rest by simp
  from Cons.IH [OF this] eq show ?case by (auto split: option.splits simp: chain_Cons)
qed

section \<open>One result per target group\<close>

text \<open>The specification of one group over the whole source.\<close>

definition group_result ::
    "candle list \<Rightarrow> resampling_plan \<Rightarrow> timeframe \<Rightarrow> timeframe \<Rightarrow> int \<Rightarrow> instant
     \<Rightarrow> candle list \<times> data_range list \<Rightarrow> (candle list \<times> data_range list) result" where
  "group_result candles plan source target n start =
     emit_group plan source target n (\<lambda>s. Some (members target s candles)) start"

definition group_starts :: "resampling_plan \<Rightarrow> timeframe \<Rightarrow> nat \<Rightarrow> instant list" where
  "group_starts plan target k =
     map (\<lambda>j. dr_start (rp_data_range plan) + int j * tf_duration target) [0 ..< k]"

lemma emit_loop_fold:
  assumes "0 < tf_duration target"
    and "dr_end (rp_data_range plan) = s + int k * tf_duration target"
  shows "emit_loop plan source target n gs s out =
    res_fold (emit_group plan source target n gs) (map (\<lambda>j. s + int j * tf_duration target) [0 ..< k]) out"
  using assms(2)
proof (induction k arbitrary: s out)
  case 0
  then show ?case by (simp add: emit_loop.simps [of plan source target n gs s])
next
  case (Suc k)
  let ?d = "tf_duration target"
  have "s < dr_end (rp_data_range plan)" using Suc.prems assms(1) by (simp add: add_pos_nonneg)
  then have "emit_loop plan source target n gs s out =
      res_bind (emit_group plan source target n gs s out) (emit_loop plan source target n gs (s + ?d))"
    using assms(1) by (simp add: emit_loop.simps [of plan source target n gs s])
  moreover have "emit_loop plan source target n gs (s + ?d) v =
      res_fold (emit_group plan source target n gs) (map (\<lambda>j. s + ?d + int j * ?d) [0 ..< k]) v" for v
    using Suc.IH [of "s + ?d" v] Suc.prems by (simp add: algebra_simps)
  moreover have "map (\<lambda>j. s + int j * ?d) [0 ..< Suc k] = s # map (\<lambda>j. s + ?d + int j * ?d) [0 ..< k]"
    by (simp add: upt_conv_Cons map_Suc_upt [symmetric] comp_def algebra_simps del: upt_Suc)
  ultimately show ?case by (simp add: res_bind_def split: sum.splits)
qed

lemma emit_group_counts:
  "emit_group plan source target n gs s (out, sk) = Inr (out', sk') \<Longrightarrow>
     length out' + length sk' = Suc (length out + length sk)"
  by (auto simp: emit_group_def Let_def split: if_splits)

lemma emit_fold_counts:
  "res_fold (emit_group plan source target n gs) ss (out, sk) = Inr (out', sk') \<Longrightarrow>
     length out' + length sk' = length ss + length out + length sk"
proof (induction ss arbitrary: out sk)
  case (Cons s ss)
  then show ?case by (force dest: emit_group_counts)
qed simp

lemma emit_group_strict:
  assumes "rp_gap_policy plan = STRICT"
    and "emit_group plan source target n gs s (out, sk) = Inr (out', sk')"
  shows "sk' = sk \<and> (\<exists>c. out' = out @ [c]
    \<and> complete_group (case gs s of None \<Rightarrow> [] | Some cs \<Rightarrow> cs) s source target n
    \<and> aggregate (case gs s of None \<Rightarrow> [] | Some cs \<Rightarrow> cs) s target (di_source (rp_target plan)) = Inr c)"
  using assms by (auto simp: emit_group_def Let_def split: if_splits)

lemma aggregate_fields:
  assumes "aggregate (c0 # rest) start tf src = Inr c"
  shows "candle_ok c \<and> c_open c = c_open c0 \<and> c_close c = c_close (last (c0 # rest))
    \<and> c_high c = max_list (c_high c0) (map c_high rest)
    \<and> c_low c = min_list (c_low c0) (map c_low rest)
    \<and> c_volume c = dsum (map c_volume (c0 # rest))
    \<and> c_open_time c = start \<and> c_close_time c = start + tf_duration tf - 1000
    \<and> c_timeframe c = tf \<and> c_is_closed c = list_all c_is_closed (c0 # rest)"
proof -
  have "candle_ok c" using assms by (auto simp: aggregate_def Let_def intro: make_candle_ok)
  moreover from assms obtain q n where
    "make_candle (c0\<lparr>c_timeframe := tf, c_high := max_list (c_high c0) (map c_high rest),
        c_low := min_list (c_low c0) (map c_low rest), c_close := c_close (last (c0 # rest)),
        c_volume := dsum (map c_volume (c0 # rest)), c_quote_volume := q, c_trade_count := n,
        c_is_closed := list_all c_is_closed (c0 # rest), c_source := src\<rparr>)
      (Aware start 0) (Aware (start + tf_duration tf - 1000) 0) = Inr c"
    unfolding aggregate_def Let_def list.case by blast
  ultimately show ?thesis using make_candle_fields by fastforce
qed

lemma Max_insert_max: "finite A \<Longrightarrow> Max (insert (max m v) A) = Max (insert m (insert v A))"
  by (cases "A = {}") (simp_all add: max.assoc)

lemma Min_insert_min: "finite A \<Longrightarrow> Min (insert (min m v) A) = Min (insert m (insert v A))"
  by (cases "A = {}") (simp_all add: min.assoc)

lemma max_list_Max: "max_list m vs = Max (set (m # vs))"
  by (induction vs arbitrary: m) (simp_all only: max_list.simps list.set Max_insert_max List.finite_set Max_singleton)

lemma min_list_Min: "min_list m vs = Min (set (m # vs))"
  by (induction vs arbitrary: m) (simp_all only: min_list.simps list.set Min_insert_min List.finite_set Min_singleton)

lemma complete_from_last:
  "complete_from cs t d = Some e \<Longrightarrow> cs \<noteq> [] \<Longrightarrow>
     c_open_time (hd cs) = t \<and> c_open_time (last cs) = e - d \<and> c_close_time (last cs) = e - 1000
     \<and> e = t + int (length cs) * d"
proof (induction cs arbitrary: t)
  case (Cons c cs)
  show ?case
  proof (cases "cs = []")
    case True
    then show ?thesis using Cons.prems by (auto split: if_splits)
  next
    case False
    with Cons.IH [of "t + d"] Cons.prems(1) show ?thesis
      by (auto simp: algebra_simps split: if_splits)
  qed
qed simp

lemma dsum_nonneg: "list_all (\<lambda>v. 0 \<le> v) vs \<Longrightarrow> 0 \<le> dsum vs"
  using d28.fold_sum_nonneg [of 0 vs] by (simp add: dsum_def dadd_def)

lemma emit_strict_all:
  assumes "rp_gap_policy plan = STRICT"
    and "res_fold (emit_group plan source target n gs) (map f [0 ..< k]) ([], []) = Inr (out, sk)"
  shows "sk = [] \<and> length out = k \<and> (\<forall>j<k.
      complete_group (case gs (f j) of None \<Rightarrow> [] | Some cs \<Rightarrow> cs) (f j) source target n
      \<and> aggregate (case gs (f j) of None \<Rightarrow> [] | Some cs \<Rightarrow> cs) (f j) target (di_source (rp_target plan))
          = Inr (out ! j))"
  using assms(2)
proof (induction k arbitrary: out sk)
  case (Suc k)
  then obtain o1 s1 where a: "res_fold (emit_group plan source target n gs) (map f [0 ..< k]) ([], []) = Inr (o1, s1)"
    and b: "emit_group plan source target n gs (f k) (o1, s1) = Inr (out, sk)"
    by (auto simp: res_fold_append)
  show ?case using Suc.IH [OF a] emit_group_strict [OF assms(1) b]
    by (auto simp: nth_append less_Suc_eq)
qed simp

lemma max_list_ge: "m \<le> max_list m vs \<and> (\<forall>v\<in>set vs. v \<le> max_list m vs)"
  by (simp only: max_list_Max) simp

lemma min_list_le: "min_list m vs \<le> m \<and> (\<forall>v\<in>set vs. min_list m vs \<le> v)"
  by (simp only: min_list_Min) simp

lemma sum_list_nonneg_int: "(\<forall>x\<in>set xs. 0 \<le> f x) \<Longrightarrow> 0 \<le> sum_list (map f xs :: int list)"
  by (induction xs) auto

lemma candle_okD:
  assumes "candle_ok c"
  shows "c_open_time c < c_close_time c" "c_open_time c mod 1000 = 0" "c_close_time c mod 1000 = 0"
    "c_low c \<le> c_open c" "c_low c \<le> c_close c" "c_open c \<le> c_high c" "c_close c \<le> c_high c"
    "c_low c \<le> c_high c" "0 \<le> c_volume c" "c_quote_volume c = Some q \<Longrightarrow> 0 \<le> q"
    "c_trade_count c = Some n \<Longrightarrow> 0 \<le> n" "\<exists>p. parse_trading_pair (c_symbol c) = Inr p"
  using assms by (auto simp: candle_ok_def symbol_ok_def split: option.splits sum.splits)

lemma aggregate_total:
  assumes grp: "complete_group cs start source target n" and n: "1 \<le> n"
    and ok: "list_all candle_ok cs" and al: "validate_open_time target start" and src: "strip src \<noteq> []"
  shows "\<exists>c. aggregate cs start target src = Inr c"
proof (cases cs)
  case Nil
  with grp n show ?thesis by (simp add: complete_group_def)
next
  case (Cons c0 rest)
  have cf: "complete_from cs start (tf_duration source) = Some (start + tf_duration target)"
    using grp by (simp add: complete_group_def split: if_splits)
  note L = complete_from_last [OF cf]
  have lastok: "candle_ok (last cs)" and firstok: "candle_ok c0"
    using ok Cons by (auto simp: list_all_iff)
  have d: "0 \<le> tf_duration source" using L candle_okD(1) [OF lastok] Cons by simp
  have "int 1 * tf_duration source \<le> int (length cs) * tf_duration source"
    using Cons d by (intro mult_right_mono) auto
  with L Cons have "start \<le> c_open_time (last cs)" by simp
  then have lt: "start < start + tf_duration target - 1000"
    using candle_okD(1) [OF lastok] L Cons by (metis le_less_trans list.distinct(1))
  have ms: "start mod 1000 = 0" "(start + tf_duration target - 1000) mod 1000 = 0"
    using candle_okD(2) [OF firstok] candle_okD(3) [OF lastok] L Cons by simp_all
  let ?h = "max_list (c_high c0) (map c_high rest)" and ?l = "min_list (c_low c0) (map c_low rest)"
  have h: "c_high c \<le> ?h" "?l \<le> c_low c" if "c \<in> set cs" for c
    using that Cons max_list_ge [of "c_high c0" "map c_high rest"] min_list_le [of "c_low c0" "map c_low rest"] by auto
  have c0: "c0 \<in> set cs" and lst: "last (c0 # rest) \<in> set cs"
    using Cons last_in_set [of "c0 # rest"] by simp_all
  have lst': "candle_ok (last (c0 # rest))" using lastok Cons by simp
  have px: "c_open c0 \<le> ?h" "c_close (last (c0 # rest)) \<le> ?h" "?l \<le> ?h" "?l \<le> c_open c0"
    "?l \<le> c_close (last (c0 # rest))"
    using h [OF c0] h [OF lst] candle_okD [OF firstok] candle_okD [OF lst'] by linarith+
  have vol: "0 \<le> dsum (map c_volume (c0 # rest))"
    by (rule dsum_nonneg) (use ok Cons candle_okD(9) in \<open>auto simp: list_all_iff\<close>)
  have qv: "0 \<le> dsum (map (\<lambda>c. the (c_quote_volume c)) (c0 # rest))" if "list_all (\<lambda>c. c_quote_volume c \<noteq> None) (c0 # rest)"
    by (rule dsum_nonneg) (use that ok Cons candle_okD(10) in \<open>fastforce simp: list_all_iff\<close>)
  have tc: "0 \<le> sum_list (map (\<lambda>c. the (c_trade_count c)) (c0 # rest))" if "list_all (\<lambda>c. c_trade_count c \<noteq> None) (c0 # rest)"
    by (rule sum_list_nonneg_int) (use that ok Cons candle_okD(11) in \<open>fastforce simp: list_all_iff\<close>)
  obtain p where p: "parse_trading_pair (c_symbol c0) = Inr p" using candle_okD(12) [OF firstok] by blast
  show ?thesis
    unfolding aggregate_def Cons list.case Let_def
    by (rule make_candle_succeeds) (use p al lt ms px vol qv tc src in \<open>auto simp del: last.simps not_None_eq split: if_splits\<close>)
qed

section \<open>A concrete resampling\<close>

text \<open>Two quarter-hour candles of one half hour.\<close>

definition example_15m :: timeframe where
  "example_15m = registry_timeframe ''15m'' (minutes 15) ''15m'' 0"

definition example_30m :: timeframe where
  "example_30m = registry_timeframe ''30m'' (minutes 30) ''30m'' 0"

definition example_candle :: "int \<Rightarrow> candle" where
  "example_candle i =
     \<lparr>c_exchange = BINANCE, c_market_type = SPOT, c_symbol = ''BTC/USDT'', c_timeframe = example_15m,
      c_open_time = i * 900000000, c_close_time = i * 900000000 + 899999000, c_open = 10, c_high = 12,
      c_low = 9, c_close = 11, c_volume = 1, c_quote_volume = None, c_trade_count = Some 3,
      c_is_closed = True, c_source = ''binance''\<rparr>"

definition example_candles :: "candle list" where
  "example_candles = [example_candle 0, example_candle 1]"

definition example_identity :: "string \<Rightarrow> dataset_kind \<Rightarrow> dataset_identity" where
  "example_identity code kind =
     \<lparr>di_exchange = BINANCE, di_market_type = SPOT, di_symbol = ''BTC/USDT'', di_timeframe = code,
      di_kind = kind, di_source = ''binance'', di_construction_policy = ''ohlcv-v1'', di_schema_version = 1\<rparr>"

definition example_plan :: resampling_plan where
  "example_plan =
     \<lparr>rp_source = example_identity ''15m'' RAW, rp_target = example_identity ''30m'' DERIVED,
      rp_data_range = \<lparr>dr_start = 0, dr_end = 1800000000\<rparr>, rp_source_dataset_version = ''v1'',
      rp_source_checksum = ''c'', rp_source_candles = 2, rp_expected_groups = 1,
      rp_estimated_partitions = 1, rp_group_size = 2, rp_gap_policy = STRICT, rp_calendar = ''continuous''\<rparr>"

lemma example_facts:
  "rp_gap_policy example_plan = STRICT" "tf_duration example_30m = 1800000000"
  "dr_end (rp_data_range example_plan) = 1800000000" "dr_start (rp_data_range example_plan) = 0"
  by (simp_all add: example_plan_def example_30m_def registry_timeframe_def minutes_def)

lemma example_resampled: "\<not> isl (resample (\<lambda>_. ''d'') example_candles example_plan example_15m example_30m)"
  by code_simp

lemma example_group:
  "complete_group example_candles 0 example_15m example_30m 2" "list_all candle_ok example_candles"
  by code_simp+

section \<open>Properties\<close>

text \<open>C16: under the STRICT policy a successful resampling materialises one candle per target group,
  in order, each the aggregate of exactly the source candles of its group, which is complete; nothing
  is skipped.\<close>

theorem resample_strict_groups:
  assumes "resample digest candles plan source target = Inr res"
    and "rp_gap_policy plan = STRICT" and "0 < tf_duration target"
    and "dr_end (rp_data_range plan) = dr_start (rp_data_range plan) + int k * tf_duration target"
  shows "rr_skipped_ranges res = [] \<and> length (rr_candles res) = k
    \<and> (\<forall>j<k. let start = dr_start (rp_data_range plan) + int j * tf_duration target in
         complete_group (members target start candles) start source target (rp_group_size plan)
         \<and> aggregate (members target start candles) start target (di_source (rp_target plan))
             = Inr (rr_candles res ! j))"
proof -
  from assms(1) obtain gs p n out sk where
    f: "res_fold (group_step plan source target) candles (Map.empty, None, 0) = Inr (gs, p, n)"
    and e: "emit_loop plan source target (rp_group_size plan) gs (dr_start (rp_data_range plan)) ([], []) = Inr (out, sk)"
    and r: "rr_candles res = out" "rr_skipped_ranges res = sk"
    by (auto simp: resample_def)
  have m: "(case gs s of None \<Rightarrow> [] | Some cs \<Rightarrow> cs) = members target s candles" for s
    using group_fold_members [OF f, of s] by simp
  show ?thesis
    using emit_strict_all [OF assms(2) e [unfolded emit_loop_fold [OF assms(3,4)]]]
    by (simp add: r m Let_def)
qed

theorem resample_strict_groups_witness:
  "\<exists>res. resample (\<lambda>_. ''d'') example_candles example_plan example_15m example_30m = Inr res
     \<and> length (rr_candles res) = 1"
proof -
  obtain res where r: "resample (\<lambda>_. ''d'') example_candles example_plan example_15m example_30m = Inr res"
    using example_resampled by (auto simp: not_isl_Inr)
  from resample_strict_groups [OF r, of 1] show ?thesis using r by (simp add: example_facts)
qed

text \<open>Whatever the policy, every target group is accounted for once: materialised and skipped
  groups add up to the number of groups of the interval, and every source candle is counted.\<close>

theorem resample_accounts_for_every_group:
  assumes "resample digest candles plan source target = Inr res" and "0 < tf_duration target"
    and "dr_end (rp_data_range plan) = dr_start (rp_data_range plan) + int k * tf_duration target"
  shows "rr_materialized_count res + length (rr_skipped_ranges res) = k
    \<and> rr_materialized_count res = length (rr_candles res) \<and> rr_source_count res = length candles"
proof -
  from assms(1) obtain gs p n out sk where
    f: "res_fold (group_step plan source target) candles (Map.empty, None, 0) = Inr (gs, p, n)"
    and e: "emit_loop plan source target (rp_group_size plan) gs (dr_start (rp_data_range plan)) ([], []) = Inr (out, sk)"
    and r: "rr_candles res = out" "rr_skipped_ranges res = sk" "rr_materialized_count res = length out"
      "rr_source_count res = n"
    by (auto simp: resample_def)
  show ?thesis
    using emit_fold_counts [OF e [unfolded emit_loop_fold [OF assms(2,3)]]] group_fold_members [OF f]
    by (simp add: r)
qed

theorem resample_accounts_for_every_group_witness:
  "\<exists>res. resample (\<lambda>_. ''d'') example_candles example_plan example_15m example_30m = Inr res
     \<and> rr_materialized_count res + length (rr_skipped_ranges res) = 1"
proof -
  obtain res where r: "resample (\<lambda>_. ''d'') example_candles example_plan example_15m example_30m = Inr res"
    using example_resampled by (auto simp: not_isl_Inr)
  from resample_accounts_for_every_group [OF r, of 1] show ?thesis using r by (simp add: example_facts)
qed

text \<open>C32: the aggregation of a complete group of valid candles never fails, and its candle is valid,
  opens with the first, closes with the last, spans their extremes and carries their volume.\<close>

theorem aggregate_complete_group:
  assumes "complete_group cs start source target n" and "1 \<le> n" and "list_all candle_ok cs"
    and "validate_open_time target start" and "strip src \<noteq> []"
  shows "\<exists>c. aggregate cs start target src = Inr c \<and> candle_ok c
    \<and> c_open c = c_open (hd cs) \<and> c_close c = c_close (last cs)
    \<and> c_high c = Max (c_high ` set cs) \<and> c_low c = Min (c_low ` set cs)
    \<and> c_volume c = dsum (map c_volume cs)
    \<and> c_open_time c = start \<and> c_close_time c = start + tf_duration target - 1000"
proof -
  from aggregate_total [OF assms] obtain c where c: "aggregate cs start target src = Inr c" by blast
  obtain c0 rest where cs: "cs = c0 # rest"
    using assms(1,2) by (cases cs) (simp_all add: complete_group_def)
  show ?thesis
    using aggregate_fields [OF c [unfolded cs]] c
    by (intro exI [of _ c]) (simp add: cs max_list_Max min_list_Min del: last.simps)
qed

theorem aggregate_complete_group_witness:
  "\<exists>c. aggregate example_candles 0 example_30m ''derived'' = Inr c \<and> candle_ok c"
  using aggregate_complete_group [of example_candles 0 example_15m example_30m 2 "''derived''"] example_group
  by (auto simp: validate_open_time_def example_30m_def registry_timeframe_def strip_def is_space_def)

end
