(* ===== verification/Jobs.thy ===== *)
theory Jobs
  imports Planning "HOL-Library.AList"
begin

text \<open>
  The durable job checkpoints of \<^verbatim>\<open>app/market_data/jobs.py\<close>: the record, its validation, and the
  operations of \<^verbatim>\<open>MarketJobCatalog\<close> on the catalog, an ordered dictionary from job ids to records
  (the decoded \<^verbatim>\<open>jobs.json\<close>).  ISO timestamps are instants.  Parameters: the clock reading \<open>now\<close>,
  the digest \<open>H\<close> (SHA-256 of the joined plan fields) and which dataset locks can be taken.  Not
  modelled: the JSON text, the temporary file and the file lock around each catalog access.
\<close>

section \<open>Records\<close>

datatype market_job_status = PLANNED | RUNNING | PAUSED | COMPLETED | FAILED | CANCELLED

record market_job =
  mj_job_id :: string
  mj_dataset_key :: string
  mj_job_type :: market_job_type
  mj_status :: market_job_status
  mj_timeframe :: string
  mj_start :: instant
  mj_end :: instant
  mj_chunk_ranges :: "(instant \<times> instant) list"
  mj_plan_checksum :: string
  mj_next_chunk_index :: int
  mj_chunks_completed :: int
  mj_candles_expected :: int
  mj_chunk_candles :: int
  mj_candles_fetched :: int
  mj_candles_stored :: int
  mj_duplicates :: int
  mj_request_count :: int
  mj_started_at :: instant
  mj_updated_at :: instant
  mj_finished_at :: "instant option"
  mj_error_code :: "string option"

type_synonym catalog = "(string \<times> market_job) list"

type_synonym plan_payload =
  "string \<times> market_job_type \<times> string \<times> instant \<times> instant \<times> int \<times> int \<times> (instant \<times> instant) list"

definition plan_ranges :: "backfill_plan \<Rightarrow> (instant \<times> instant) list" where
  "plan_ranges p = map (\<lambda>c. (dr_start (bc_range c), dr_end (bc_range c))) (bp_chunks p)"

definition backfill_plan_checksum :: "(plan_payload \<Rightarrow> string) \<Rightarrow> backfill_plan \<Rightarrow> string" where
  "backfill_plan_checksum H p =
     H (bp_dataset_key p, bp_job_type p, tf_code (bp_timeframe p), dr_start (bp_range p),
        dr_end (bp_range p), bp_expected p, bp_chunk_candles p, plan_ranges p)"

definition record_checksum :: "(plan_payload \<Rightarrow> string) \<Rightarrow> market_job \<Rightarrow> string" where
  "record_checksum H r =
     H (mj_dataset_key r, mj_job_type r, mj_timeframe r, mj_start r, mj_end r,
        mj_candles_expected r, mj_chunk_candles r, mj_chunk_ranges r)"

section \<open>Identifiers and error codes\<close>

definition is_hex :: "char \<Rightarrow> bool" where
  "is_hex c \<longleftrightarrow> is_digit c \<or> (let n = (of_char c :: nat) in (65 \<le> n \<and> n \<le> 70) \<or> (97 \<le> n \<and> n \<le> 102))"

text \<open>\<^verbatim>\<open>s.replace(w, "")\<close> for a nonempty \<open>w\<close>.\<close>

fun remove_all :: "nat \<Rightarrow> string \<Rightarrow> string \<Rightarrow> string" where
  "remove_all 0 w s = s"
| "remove_all (Suc n) w [] = []"
| "remove_all (Suc n) w (c # cs) =
     (if take (length w) (c # cs) = w then remove_all n w (drop (length w) (c # cs))
      else c # remove_all n w cs)"

definition replace_empty :: "string \<Rightarrow> string \<Rightarrow> string" where
  "replace_empty w s = remove_all (length s) w s"

definition strip_chars :: "string \<Rightarrow> string \<Rightarrow> string" where
  "strip_chars ws s = rev (dropWhile (\<lambda>c. c \<in> set ws) (rev (dropWhile (\<lambda>c. c \<in> set ws) s)))"

text \<open>Digits accepted by \<^verbatim>\<open>int(s, 16)\<close>: single underscores may separate them.\<close>

fun hex_digits :: "string \<Rightarrow> bool" where
  "hex_digits [] = False"
| "hex_digits [c] = is_hex c"
| "hex_digits (c # d # cs) =
     (is_hex c \<and> (if d = CHR ''_'' then hex_digits cs else hex_digits (d # cs)))"

definition int16_ok :: "string \<Rightarrow> bool" where
  "int16_ok s =
     (let t = strip s;
          u = (case t of [] \<Rightarrow> [] | c # cs \<Rightarrow> if c = CHR ''+'' \<or> c = CHR ''-'' then cs else t);
          v = (if take 2 u = ''0x'' \<or> take 2 u = ''0X''
               then (let w = drop 2 u in if take 1 w = ''_'' then drop 1 w else w) else u)
      in hex_digits v)"

definition valid_uuid :: "string \<Rightarrow> bool" where
  "valid_uuid value =
     (let hex = replace_empty ''-'' (strip_chars ''{}'' (replace_empty ''uuid:'' (replace_empty ''urn:'' value)))
      in length hex = 32 \<and> int16_ok hex)"

definition require_uuid :: "string \<Rightarrow> unit result" where
  "require_uuid value = require (valid_uuid value) MarketJobNotFound (Inr ())"

text \<open>\<^verbatim>\<open>str.isalnum()\<close> on the code points below 256.\<close>

definition py_isalnum :: "char \<Rightarrow> bool" where
  "py_isalnum c \<longleftrightarrow> is_alnum c \<or>
     (let n = (of_char c :: nat) in n \<in> {170, 178, 179, 181, 185, 186, 188, 189, 190}
        \<or> (192 \<le> n \<and> n \<noteq> 215 \<and> n \<noteq> 247))"

definition sanitize_error_code :: "string \<Rightarrow> string" where
  "sanitize_error_code value =
     (let sanitized = filter (\<lambda>c. py_isalnum c \<or> c = CHR ''_'') value
      in take 64 (if sanitized = [] then ''job_failed'' else sanitized))"

section \<open>Validation of a record\<close>

definition terminal_status :: "market_job_status \<Rightarrow> bool" where
  "terminal_status s \<longleftrightarrow> s = COMPLETED \<or> s = FAILED \<or> s = CANCELLED"

definition chunk_data_ranges :: "(instant \<times> instant) list \<Rightarrow> data_range list result" where
  "chunk_data_ranges rs =
     res_fold (\<lambda>(s, e) acc. res_bind (data_range_of s e) (\<lambda>r. Inr (acc @ [r]))) rs []"

definition expected_total :: "timeframe \<Rightarrow> data_range list \<Rightarrow> int result" where
  "expected_total tf rs =
     res_fold (\<lambda>r acc. res_bind (expected_candle_count r tf) (\<lambda>n. Inr (acc + n))) rs 0"

definition counters_ok :: "market_job \<Rightarrow> bool" where
  "counters_ok r \<longleftrightarrow>
     list_all (\<lambda>v. 0 \<le> v)
       [mj_next_chunk_index r, mj_chunks_completed r, mj_candles_expected r, mj_chunk_candles r,
        mj_candles_fetched r, mj_candles_stored r, mj_duplicates r, mj_request_count r]
     \<and> mj_chunk_ranges r \<noteq> [] \<and> 1 \<le> mj_chunk_candles r
     \<and> mj_next_chunk_index r = mj_chunks_completed r
     \<and> mj_next_chunk_index r \<le> int (length (mj_chunk_ranges r))
     \<and> mj_candles_stored r + mj_duplicates r \<le> mj_candles_fetched r"

definition coverage_ok :: "market_job \<Rightarrow> data_range \<Rightarrow> data_range list \<Rightarrow> bool" where
  "coverage_ok r whole ranges \<longleftrightarrow>
     (if mj_job_type r = BACKFILL \<or> mj_job_type r = INCREMENTAL
      then dr_start (hd ranges) = dr_start whole \<and> dr_end (last ranges) = dr_end whole
           \<and> chain (\<lambda>a b. dr_end a = dr_start b) ranges
      else list_all (\<lambda>x. dr_start whole \<le> dr_start x \<and> dr_end x \<le> dr_end whole) ranges)"

definition lifecycle_ok :: "market_job \<Rightarrow> bool" where
  "lifecycle_ok r \<longleftrightarrow>
     (terminal_status (mj_status r) \<longleftrightarrow> mj_finished_at r \<noteq> None)
     \<and> \<not> (mj_status r = COMPLETED \<and> mj_next_chunk_index r \<noteq> int (length (mj_chunk_ranges r)))
     \<and> \<not> (mj_status r = COMPLETED \<and> (mj_job_type r = BACKFILL \<or> mj_job_type r = INCREMENTAL)
          \<and> mj_candles_fetched r \<noteq> mj_candles_expected r)
     \<and> (mj_status r = FAILED \<longleftrightarrow> mj_error_code r \<noteq> None)"

definition validate_record :: "market_job \<Rightarrow> unit result" where
  "validate_record r =
     require (counters_ok r) MarketDataStorage (
     res_bind (catch_as MarketDataStorage (get_timeframe (mj_timeframe r))) (\<lambda>tf.
     res_bind (catch_as MarketDataStorage (chunk_data_ranges (mj_chunk_ranges r))) (\<lambda>ranges.
     require (chain (\<lambda>a b. \<not> dr_start b < dr_end a) ranges) MarketDataStorage (
     res_bind (catch_as MarketDataStorage (data_range_of (mj_start r) (mj_end r))) (\<lambda>whole.
     require (coverage_ok r whole ranges) MarketDataStorage (
     res_bind (catch_as MarketDataStorage (expected_total tf ranges)) (\<lambda>expected.
     require (expected = mj_candles_expected r) MarketDataStorage (
     require (lifecycle_ok r) MarketDataStorage (Inr ())))))))))"

section \<open>Operations of the catalog\<close>

definition decode_record :: "(plan_payload \<Rightarrow> string) \<Rightarrow> market_job \<Rightarrow> market_job result" where
  "decode_record H r =
     res_bind (require_uuid (mj_job_id r)) (\<lambda>_.
     require (mj_plan_checksum r = record_checksum H r) MarketDataStorage (
     res_bind (validate_record r) (\<lambda>_. Inr r)))"

text \<open>\<^verbatim>\<open>_load\<close>: every external key is the id of its record.\<close>

definition load_catalog :: "catalog \<Rightarrow> catalog result" where
  "load_catalog cat = require (list_all (\<lambda>(k, r). mj_job_id r = k) cat) MarketDataStorage (Inr cat)"

definition job_get :: "(plan_payload \<Rightarrow> string) \<Rightarrow> catalog \<Rightarrow> string \<Rightarrow> market_job result" where
  "job_get H cat job_id =
     res_bind (require_uuid job_id) (\<lambda>_. res_bind (load_catalog cat) (\<lambda>state.
       case map_of state job_id of None \<Rightarrow> Inl MarketJobNotFound | Some r \<Rightarrow> decode_record H r))"

definition new_record :: "(plan_payload \<Rightarrow> string) \<Rightarrow> backfill_plan \<Rightarrow> instant \<Rightarrow> market_job" where
  "new_record H p now =
     \<lparr>mj_job_id = bp_job_id p, mj_dataset_key = bp_dataset_key p, mj_job_type = bp_job_type p,
      mj_status = PLANNED, mj_timeframe = tf_code (bp_timeframe p), mj_start = dr_start (bp_range p),
      mj_end = dr_end (bp_range p), mj_chunk_ranges = plan_ranges p,
      mj_plan_checksum = backfill_plan_checksum H p, mj_next_chunk_index = 0,
      mj_chunks_completed = 0, mj_candles_expected = bp_expected p,
      mj_chunk_candles = bp_chunk_candles p, mj_candles_fetched = 0, mj_candles_stored = 0,
      mj_duplicates = 0, mj_request_count = 0, mj_started_at = now, mj_updated_at = now,
      mj_finished_at = None, mj_error_code = None\<rparr>"

definition job_create ::
    "(plan_payload \<Rightarrow> string) \<Rightarrow> catalog \<Rightarrow> backfill_plan \<Rightarrow> instant \<Rightarrow> (catalog \<times> market_job) result" where
  "job_create H cat p now = res_bind (load_catalog cat) (\<lambda>state.
     (case map_of state (bp_job_id p) of
        Some raw \<Rightarrow>
          res_bind (decode_record H raw) (\<lambda>existing.
            require (mj_plan_checksum existing = backfill_plan_checksum H p) MarketDataInconsistency
              (Inr (state, existing)))
      | None \<Rightarrow>
          let r = new_record H p now
          in res_bind (validate_record r) (\<lambda>_. Inr (AList.update (mj_job_id r) r state, r))))"

text \<open>
  \<^verbatim>\<open>_replace\<close>: a compare-and-set.  \<open>cat\<close> is the catalog found under the file lock, \<open>r\<close> the record
  the operation had read before taking it.
\<close>

definition job_replace ::
    "(plan_payload \<Rightarrow> string) \<Rightarrow> catalog \<Rightarrow> market_job \<Rightarrow> market_job \<Rightarrow> (catalog \<times> market_job) result" where
  "job_replace H cat r updated =
     res_bind (validate_record updated) (\<lambda>_. res_bind (load_catalog cat) (\<lambda>state.
       case map_of state (mj_job_id r) of
         None \<Rightarrow> Inl MarketDataInconsistency
       | Some raw \<Rightarrow>
           res_bind (decode_record H raw) (\<lambda>current.
             require (current = r) MarketDataInconsistency
               (Inr (AList.update (mj_job_id r) updated state, updated)))))"

definition start_record :: "market_job \<Rightarrow> instant \<Rightarrow> market_job result" where
  "start_record r now =
     require (mj_status r = PLANNED \<or> mj_status r = PAUSED \<or> mj_status r = FAILED) MarketDataInconsistency
       (Inr (r\<lparr>mj_status := RUNNING, mj_updated_at := now, mj_finished_at := None,
               mj_error_code := None\<rparr>))"

definition advance_record ::
    "market_job \<Rightarrow> int \<Rightarrow> int \<Rightarrow> int \<Rightarrow> int \<Rightarrow> int \<Rightarrow> instant \<Rightarrow> market_job result" where
  "advance_record r chunk_index fetched stored duplicates requests now =
     require (\<not> (\<not> (mj_status r = RUNNING \<or> mj_status r = PAUSED \<or> mj_status r = CANCELLED)
              \<or> chunk_index \<noteq> mj_next_chunk_index r)) MarketDataInconsistency
       (let next_index = chunk_index + 1;
            completed = (next_index = int (length (mj_chunk_ranges r)));
            status = (if completed \<and> mj_status r \<noteq> CANCELLED then COMPLETED else mj_status r)
        in Inr (r\<lparr>mj_status := status, mj_next_chunk_index := next_index,
                  mj_chunks_completed := next_index,
                  mj_candles_fetched := mj_candles_fetched r + fetched,
                  mj_candles_stored := mj_candles_stored r + stored,
                  mj_duplicates := mj_duplicates r + duplicates,
                  mj_request_count := mj_request_count r + requests,
                  mj_updated_at := now,
                  mj_finished_at := (if completed then Some now else mj_finished_at r)\<rparr>))"

definition pause_record :: "market_job \<Rightarrow> instant \<Rightarrow> market_job result" where
  "pause_record r now =
     require (mj_status r = RUNNING) MarketDataInconsistency
       (Inr (r\<lparr>mj_status := PAUSED, mj_updated_at := now\<rparr>))"

definition cancel_record :: "market_job \<Rightarrow> instant \<Rightarrow> market_job result" where
  "cancel_record r now =
     require (mj_status r = PLANNED \<or> mj_status r = RUNNING \<or> mj_status r = PAUSED \<or> mj_status r = FAILED)
       MarketDataInconsistency
       (Inr (r\<lparr>mj_status := CANCELLED, mj_updated_at := now, mj_finished_at := Some now\<rparr>))"

definition fail_record :: "market_job \<Rightarrow> string \<Rightarrow> instant \<Rightarrow> market_job" where
  "fail_record r error_code now =
     r\<lparr>mj_status := FAILED, mj_updated_at := now, mj_finished_at := Some now,
       mj_error_code := Some (sanitize_error_code error_code)\<rparr>"

definition job_start ::
    "(plan_payload \<Rightarrow> string) \<Rightarrow> catalog \<Rightarrow> string \<Rightarrow> instant \<Rightarrow> (catalog \<times> market_job) result" where
  "job_start H cat job_id now =
     res_bind (job_get H cat job_id) (\<lambda>r. res_bind (start_record r now) (job_replace H cat r))"

definition job_advance ::
    "(plan_payload \<Rightarrow> string) \<Rightarrow> catalog \<Rightarrow> string \<Rightarrow> int \<Rightarrow> int \<Rightarrow> int \<Rightarrow> int \<Rightarrow> int \<Rightarrow> instant
     \<Rightarrow> (catalog \<times> market_job) result" where
  "job_advance H cat job_id chunk_index fetched stored duplicates requests now =
     require (\<not> (list_ex (\<lambda>v. v < 0) [fetched, stored, duplicates, requests]
              \<or> fetched < stored + duplicates)) MarketDataInconsistency
       (res_bind (job_get H cat job_id) (\<lambda>r.
        res_bind (advance_record r chunk_index fetched stored duplicates requests now)
          (job_replace H cat r)))"

definition job_pause ::
    "(plan_payload \<Rightarrow> string) \<Rightarrow> catalog \<Rightarrow> string \<Rightarrow> instant \<Rightarrow> (catalog \<times> market_job) result" where
  "job_pause H cat job_id now =
     res_bind (job_get H cat job_id) (\<lambda>r. res_bind (pause_record r now) (job_replace H cat r))"

definition job_cancel ::
    "(plan_payload \<Rightarrow> string) \<Rightarrow> catalog \<Rightarrow> string \<Rightarrow> instant \<Rightarrow> (catalog \<times> market_job) result" where
  "job_cancel H cat job_id now =
     res_bind (job_get H cat job_id) (\<lambda>r. res_bind (cancel_record r now) (job_replace H cat r))"

definition job_fail ::
    "(plan_payload \<Rightarrow> string) \<Rightarrow> catalog \<Rightarrow> string \<Rightarrow> string \<Rightarrow> instant \<Rightarrow> (catalog \<times> market_job) result" where
  "job_fail H cat job_id error_code now =
     res_bind (job_get H cat job_id) (\<lambda>r.
       if mj_status r = COMPLETED \<or> mj_status r = CANCELLED then Inr (cat, r)
       else job_replace H cat r (fail_record r error_code now))"

text \<open>\<^verbatim>\<open>recover_abandoned\<close>: one record of the snapshot, then all of them.\<close>

definition interrupted :: "market_job \<Rightarrow> instant \<Rightarrow> market_job" where
  "interrupted r now = r\<lparr>mj_status := FAILED, mj_updated_at := now, mj_finished_at := Some now,
     mj_error_code := Some ''interrupted_job''\<rparr>"

definition recover_one ::
    "(plan_payload \<Rightarrow> string) \<Rightarrow> (string \<Rightarrow> bool) \<Rightarrow> instant \<Rightarrow> market_job \<Rightarrow> catalog \<times> nat
     \<Rightarrow> (catalog \<times> nat) result" where
  "recover_one H can_lock now r st =
     (case st of (cat, changed) \<Rightarrow>
        if \<not> can_lock (mj_dataset_key r) then Inr (cat, changed)
        else res_bind (load_catalog cat) (\<lambda>state.
             case map_of state (mj_job_id r) of
                None \<Rightarrow> Inr (cat, changed)
              | Some raw \<Rightarrow>
                  res_bind (decode_record H raw) (\<lambda>current.
                    if current \<noteq> r \<or> mj_status current \<noteq> RUNNING then Inr (cat, changed)
                    else Inr (AList.update (mj_job_id r) (interrupted current now) cat, Suc changed))))"

definition recover_abandoned ::
    "(plan_payload \<Rightarrow> string) \<Rightarrow> (string \<Rightarrow> bool) \<Rightarrow> instant \<Rightarrow> catalog \<Rightarrow> (catalog \<times> nat) result" where
  "recover_abandoned H can_lock now cat =
     res_bind (load_catalog cat) (\<lambda>state.
     res_bind (res_fold (\<lambda>(_, raw) acc. res_bind (decode_record H raw) (\<lambda>r. Inr (acc @ [r]))) state [])
       (\<lambda>snapshot.
          res_fold (recover_one H can_lock now) (filter (\<lambda>r. mj_status r = RUNNING) snapshot) (cat, 0)))"

record backfill_progress =
  pg_job_id :: string
  pg_status :: market_job_status
  pg_chunks_completed :: int
  pg_total_chunks :: int
  pg_next_start :: instant
  pg_fetched :: int
  pg_stored :: int
  pg_duplicates :: int

definition job_progress ::
    "(plan_payload \<Rightarrow> string) \<Rightarrow> catalog \<Rightarrow> string \<Rightarrow> backfill_progress result" where
  "job_progress H cat job_id =
     res_bind (job_get H cat job_id) (\<lambda>r.
       Inr \<lparr>pg_job_id = mj_job_id r, pg_status = mj_status r,
            pg_chunks_completed = mj_chunks_completed r,
            pg_total_chunks = int (length (mj_chunk_ranges r)),
            pg_next_start =
              (if mj_next_chunk_index r < int (length (mj_chunk_ranges r))
               then fst (mj_chunk_ranges r ! nat (mj_next_chunk_index r)) else mj_end r),
            pg_fetched = mj_candles_fetched r, pg_stored = mj_candles_stored r,
            pg_duplicates = mj_duplicates r\<rparr>)"

section \<open>Catalog steps and their invariant\<close>

inductive job_step :: "(plan_payload \<Rightarrow> string) \<Rightarrow> catalog \<Rightarrow> catalog \<Rightarrow> bool" for H where
  create: "job_create H cat p now = Inr (cat', r) \<Longrightarrow> job_step H cat cat'"
| start: "job_start H cat i now = Inr (cat', r) \<Longrightarrow> job_step H cat cat'"
| advance: "job_advance H cat i k f st du rq now = Inr (cat', r) \<Longrightarrow> job_step H cat cat'"
| pause: "job_pause H cat i now = Inr (cat', r) \<Longrightarrow> job_step H cat cat'"
| cancel: "job_cancel H cat i now = Inr (cat', r) \<Longrightarrow> job_step H cat cat'"
| fail: "job_fail H cat i e now = Inr (cat', r) \<Longrightarrow> job_step H cat cat'"
| recover: "recover_abandoned H can_lock now cat = Inr (cat', n) \<Longrightarrow> job_step H cat cat'"

inductive reachable_catalog :: "(plan_payload \<Rightarrow> string) \<Rightarrow> catalog \<Rightarrow> bool" for H where
  empty: "reachable_catalog H []"
| step: "reachable_catalog H cat \<Longrightarrow> job_step H cat cat' \<Longrightarrow> reachable_catalog H cat'"

text \<open>
  A stored record is valid, carries the digest of its own plan, and has a chunk left unless it is
  completed or cancelled.
\<close>

definition record_inv :: "(plan_payload \<Rightarrow> string) \<Rightarrow> market_job \<Rightarrow> bool" where
  "record_inv H r \<longleftrightarrow> validate_record r = Inr () \<and> mj_plan_checksum r = record_checksum H r
     \<and> (mj_status r = COMPLETED \<or> mj_status r = CANCELLED
        \<or> mj_next_chunk_index r < int (length (mj_chunk_ranges r)))"

definition catalog_inv :: "(plan_payload \<Rightarrow> string) \<Rightarrow> catalog \<Rightarrow> bool" where
  "catalog_inv H cat \<longleftrightarrow> distinct (map fst cat)
     \<and> (\<forall>k r. map_of cat k = Some r \<longrightarrow> mj_job_id r = k \<and> record_inv H r)"

text \<open>How a stored record may change.\<close>

definition plan_of :: "market_job \<Rightarrow> string \<times> plan_payload \<times> string" where
  "plan_of r = (mj_job_id r, (mj_dataset_key r, mj_job_type r, mj_timeframe r, mj_start r, mj_end r,
     mj_candles_expected r, mj_chunk_candles r, mj_chunk_ranges r), mj_plan_checksum r)"

definition same_plan :: "market_job \<Rightarrow> market_job \<Rightarrow> bool" where
  "same_plan r r' \<longleftrightarrow> plan_of r' = plan_of r"

lemma same_planD:
  assumes "same_plan r r'"
  shows "mj_job_id r' = mj_job_id r" "mj_chunk_ranges r' = mj_chunk_ranges r"
    "mj_plan_checksum r' = mj_plan_checksum r" "record_checksum H r' = record_checksum H r"
  using assms by (simp_all add: same_plan_def plan_of_def record_checksum_def)

definition job_evolves :: "market_job \<Rightarrow> market_job \<Rightarrow> bool" where
  "job_evolves r r' \<longleftrightarrow> same_plan r r' \<and> mj_next_chunk_index r \<le> mj_next_chunk_index r'
     \<and> (mj_status r = COMPLETED \<longrightarrow> r' = r) \<and> (mj_status r = CANCELLED \<longrightarrow> mj_status r' = CANCELLED)"

lemma job_evolves_refl [simp]: "job_evolves r r"
  by (simp add: job_evolves_def same_plan_def)

lemma job_evolves_trans: "job_evolves r r' \<Longrightarrow> job_evolves r' r'' \<Longrightarrow> job_evolves r r''"
  unfolding job_evolves_def same_plan_def by (metis order_trans)

definition catalog_evolves :: "catalog \<Rightarrow> catalog \<Rightarrow> bool" where
  "catalog_evolves cat cat' \<longleftrightarrow>
     (\<forall>k r. map_of cat k = Some r \<longrightarrow> (\<exists>r'. map_of cat' k = Some r' \<and> job_evolves r r'))"

lemma catalog_evolves_refl [simp]: "catalog_evolves cat cat"
  by (simp add: catalog_evolves_def)

lemma catalog_evolves_trans:
  "catalog_evolves a b \<Longrightarrow> catalog_evolves b c \<Longrightarrow> catalog_evolves a c"
  unfolding catalog_evolves_def by (meson job_evolves_trans)

lemma catalog_invD:
  "catalog_inv H cat \<Longrightarrow> map_of cat k = Some r \<Longrightarrow> mj_job_id r = k"
  "catalog_inv H cat \<Longrightarrow> map_of cat k = Some r \<Longrightarrow> record_inv H r"
  by (simp_all add: catalog_inv_def)

lemma load_catalog_Inr [simp]: "load_catalog cat = Inr state \<Longrightarrow> state = cat"
  by (simp add: load_catalog_def)

lemma load_catalog_inv: "catalog_inv H cat \<Longrightarrow> load_catalog cat = Inr cat"
  by (auto simp: catalog_inv_def load_catalog_def list_all_iff)

lemma decode_record_Inr: "decode_record H raw = Inr r \<Longrightarrow> r = raw"
  by (simp add: decode_record_def)

lemma job_get_Inr: "job_get H cat i = Inr r \<Longrightarrow> map_of cat i = Some r"
  by (auto simp: job_get_def dest: decode_record_Inr load_catalog_Inr split: option.splits)

text \<open>Storing a record: the two facts every operation uses.\<close>

lemma store_inv:
  assumes "catalog_inv H cat" and "record_inv H u"
  shows "catalog_inv H (AList.update (mj_job_id u) u cat)"
  using assms by (auto simp: catalog_inv_def distinct_update update_conv')

lemma store_evolves:
  assumes "map_of cat (mj_job_id u) = Some r \<or> map_of cat (mj_job_id u) = None"
    and "map_of cat (mj_job_id u) = Some r \<Longrightarrow> job_evolves r u"
  shows "catalog_evolves cat (AList.update (mj_job_id u) u cat)"
  using assms by (auto simp: catalog_evolves_def update_conv')

lemma job_replace_Inr:
  assumes "job_replace H cat r u = Inr (cat', v)"
  shows "map_of cat (mj_job_id r) = Some r \<and> validate_record u = Inr () \<and> v = u
    \<and> cat' = AList.update (mj_job_id r) u cat"
  using assms by (auto simp: job_replace_def dest!: decode_record_Inr load_catalog_Inr split: option.splits)

lemma replace_preserves:
  assumes inv: "catalog_inv H cat" and rep: "job_replace H cat r u = Inr (cat', v)"
    and ev: "job_evolves r u"
    and left: "mj_status u = COMPLETED \<or> mj_status u = CANCELLED
      \<or> mj_next_chunk_index u < int (length (mj_chunk_ranges u))"
  shows "catalog_inv H cat' \<and> catalog_evolves cat cat'"
proof -
  note R = job_replace_Inr [OF rep]
  have sp: "same_plan r u" using ev by (simp add: job_evolves_def)
  note id = same_planD(1) [OF sp]
  have "record_inv H r" using catalog_invD(2) [OF inv] R by blast
  then have "record_inv H u" using R left same_planD(3,4) [OF sp] by (simp add: record_inv_def)
  then show ?thesis
    using store_inv [OF inv, of u] store_evolves [of cat u r] R ev by (simp add: id)
qed

lemma record_left:
  "catalog_inv H cat \<Longrightarrow> map_of cat k = Some r \<Longrightarrow>
     mj_status r = COMPLETED \<or> mj_status r = CANCELLED
     \<or> mj_next_chunk_index r < int (length (mj_chunk_ranges r))"
  by (simp add: catalog_inv_def record_inv_def)

section \<open>Every operation preserves the invariant and evolves the catalog\<close>

lemma new_record_checksum: "mj_plan_checksum (new_record H p now) = record_checksum H (new_record H p now)"
  by (simp add: new_record_def backfill_plan_checksum_def record_checksum_def)

lemma validate_counters: "validate_record r = Inr () \<Longrightarrow> counters_ok r"
  by (simp add: validate_record_def)

lemma job_create_preserves:
  assumes inv: "catalog_inv H cat" and op: "job_create H cat p now = Inr (cat', r)"
  shows "catalog_inv H cat' \<and> catalog_evolves cat cat'"
proof (cases "map_of cat (bp_job_id p)")
  case (Some raw)
  then show ?thesis using inv op by (auto simp: job_create_def load_catalog_inv dest: load_catalog_Inr)
next
  case None
  let ?r = "new_record H p now"
  have op': "validate_record ?r = Inr ()" "cat' = AList.update (mj_job_id ?r) ?r cat"
    using None op load_catalog_inv [OF inv] by (auto simp: job_create_def Let_def)
  have "record_inv H ?r"
    using op'(1) validate_counters [OF op'(1)] new_record_checksum
    by (auto simp: record_inv_def counters_ok_def new_record_def)
  with None op'(2) show ?thesis
    using store_inv [OF inv, of ?r] by (auto simp: catalog_evolves_def update_conv' new_record_def)
qed

lemma job_start_preserves:
  assumes inv: "catalog_inv H cat" and op: "job_start H cat i now = Inr (cat', r)"
  shows "catalog_inv H cat' \<and> catalog_evolves cat cat'"
proof -
  from op obtain q u where q: "job_get H cat i = Inr q" and u: "start_record q now = Inr u"
    and rep: "job_replace H cat q u = Inr (cat', r)" by (auto simp: job_start_def)
  from u record_left [OF inv job_get_Inr [OF q]] show ?thesis
    by (intro replace_preserves [OF inv rep])
      (auto simp: start_record_def job_evolves_def same_plan_def plan_of_def)
qed

lemma job_pause_preserves:
  assumes inv: "catalog_inv H cat" and op: "job_pause H cat i now = Inr (cat', r)"
  shows "catalog_inv H cat' \<and> catalog_evolves cat cat'"
proof -
  from op obtain q u where q: "job_get H cat i = Inr q" and u: "pause_record q now = Inr u"
    and rep: "job_replace H cat q u = Inr (cat', r)" by (auto simp: job_pause_def)
  from u record_left [OF inv job_get_Inr [OF q]] show ?thesis
    by (intro replace_preserves [OF inv rep])
      (auto simp: pause_record_def job_evolves_def same_plan_def plan_of_def)
qed

lemma job_cancel_preserves:
  assumes inv: "catalog_inv H cat" and op: "job_cancel H cat i now = Inr (cat', r)"
  shows "catalog_inv H cat' \<and> catalog_evolves cat cat'"
proof -
  from op obtain q u where q: "job_get H cat i = Inr q" and u: "cancel_record q now = Inr u"
    and rep: "job_replace H cat q u = Inr (cat', r)" by (auto simp: job_cancel_def)
  from u show ?thesis
    by (intro replace_preserves [OF inv rep])
      (auto simp: cancel_record_def job_evolves_def same_plan_def plan_of_def)
qed

lemma job_fail_preserves:
  assumes inv: "catalog_inv H cat" and op: "job_fail H cat i e now = Inr (cat', r)"
  shows "catalog_inv H cat' \<and> catalog_evolves cat cat'"
proof -
  from op obtain q where q: "job_get H cat i = Inr q" by (auto simp: job_fail_def)
  show ?thesis
  proof (cases "mj_status q = COMPLETED \<or> mj_status q = CANCELLED")
    case True
    then show ?thesis using op q inv by (simp add: job_fail_def)
  next
    case False
    then have rep: "job_replace H cat q (fail_record q e now) = Inr (cat', r)"
      using op q by (simp add: job_fail_def)
    from False record_left [OF inv job_get_Inr [OF q]] show ?thesis
      by (intro replace_preserves [OF inv rep])
        (auto simp: fail_record_def job_evolves_def same_plan_def plan_of_def)
  qed
qed

lemma advance_record_evolves:
  assumes "advance_record q k f st du rq now = Inr u"
  shows "job_evolves q u"
  using assms by (auto simp: advance_record_def Let_def job_evolves_def same_plan_def plan_of_def)

lemma job_advance_preserves:
  assumes inv: "catalog_inv H cat" and op: "job_advance H cat i k f st du rq now = Inr (cat', r)"
  shows "catalog_inv H cat' \<and> catalog_evolves cat cat'"
proof -
  from op obtain q u where u: "advance_record q k f st du rq now = Inr u"
    and rep: "job_replace H cat q u = Inr (cat', r)" by (auto simp: job_advance_def)
  have c: "counters_ok u" using job_replace_Inr [OF rep] validate_counters by blast
  have "mj_status u = COMPLETED \<or> mj_status u = CANCELLED
      \<or> mj_next_chunk_index u < int (length (mj_chunk_ranges u))"
    using u c by (auto simp: advance_record_def Let_def counters_ok_def)
  then show ?thesis by (rule replace_preserves [OF inv rep advance_record_evolves [OF u]])
qed

lemma interrupted_valid:
  assumes "record_inv H r" and "mj_status r = RUNNING"
  shows "record_inv H (interrupted r now)"
proof -
  let ?i = "interrupted r now"
  have same: "mj_timeframe ?i = mj_timeframe r" "mj_chunk_ranges ?i = mj_chunk_ranges r"
    "mj_start ?i = mj_start r" "mj_end ?i = mj_end r" "mj_candles_expected ?i = mj_candles_expected r"
    "counters_ok ?i = counters_ok r" "coverage_ok ?i = coverage_ok r" "lifecycle_ok ?i"
    by (simp_all add: interrupted_def counters_ok_def coverage_ok_def lifecycle_ok_def
        terminal_status_def fun_eq_iff)
  have v: "validate_record r = Inr ()" using assms by (simp add: record_inv_def)
  then have "lifecycle_ok r" by (simp add: validate_record_def) blast
  with same have "validate_record ?i = validate_record r" by (simp only: validate_record_def)
  with v assms show ?thesis
    by (simp add: record_inv_def interrupted_def record_checksum_def)
qed

lemma recover_one_preserves:
  assumes inv: "catalog_inv H cat" and op: "recover_one H can_lock now r (cat, n) = Inr (cat', m)"
  shows "catalog_inv H cat' \<and> catalog_evolves cat cat'"
proof (cases "cat' = cat")
  case True
  with inv show ?thesis by simp
next
  case False
  with op load_catalog_inv [OF inv] have m: "map_of cat (mj_job_id r) = Some r" "mj_status r = RUNNING"
    and c: "cat' = AList.update (mj_job_id (interrupted r now)) (interrupted r now) cat"
    by (auto simp: recover_one_def interrupted_def dest!: decode_record_Inr split: if_splits option.splits)
  note ri = interrupted_valid [OF catalog_invD(2) [OF inv m(1)] m(2), of now]
  have ev: "job_evolves r (interrupted r now)" using m(2)
    by (simp add: job_evolves_def same_plan_def plan_of_def interrupted_def)
  have id: "mj_job_id (interrupted r now) = mj_job_id r" by (simp add: interrupted_def)
  show ?thesis unfolding c
  proof (intro conjI)
    show "catalog_inv H (AList.update (mj_job_id (interrupted r now)) (interrupted r now) cat)"
      by (rule store_inv [OF inv ri])
    show "catalog_evolves cat (AList.update (mj_job_id (interrupted r now)) (interrupted r now) cat)"
      by (rule store_evolves [of _ _ r]) (use m ev id in auto)
  qed
qed

lemma recover_preserves:
  assumes inv: "catalog_inv H cat" and op: "recover_abandoned H can_lock now cat = Inr (cat', m)"
  shows "catalog_inv H cat' \<and> catalog_evolves cat cat'"
proof -
  from op load_catalog_inv [OF inv] obtain rs where
    f: "res_fold (recover_one H can_lock now) rs (cat, 0) = Inr (cat', m)"
    by (auto simp: recover_abandoned_def)
  have "(\<lambda>st. catalog_inv H (fst st) \<and> catalog_evolves cat (fst st)) (cat', m)"
  proof (rule res_fold_invariant [OF f])
    show "catalog_inv H (fst (cat, 0)) \<and> catalog_evolves cat (fst (cat, 0))" using inv by simp
  next
    fix x :: market_job and u v :: "catalog \<times> nat"
    assume u: "catalog_inv H (fst u) \<and> catalog_evolves cat (fst u)"
      and v: "recover_one H can_lock now x u = Inr v"
    obtain a n b k where uv: "u = (a, n)" "v = (b, k)" by (cases u, cases v) auto
    from recover_one_preserves [of H a can_lock now x n b k] u v uv
    have "catalog_inv H b" "catalog_evolves a b" by simp_all
    with u uv catalog_evolves_trans [of cat a b]
    show "catalog_inv H (fst v) \<and> catalog_evolves cat (fst v)" by simp
  qed
  then show ?thesis by simp
qed

lemma job_step_preserves:
  "job_step H cat cat' \<Longrightarrow> catalog_inv H cat \<Longrightarrow> catalog_inv H cat' \<and> catalog_evolves cat cat'"
  by (induction rule: job_step.induct)
    (blast dest: job_create_preserves job_start_preserves job_advance_preserves job_pause_preserves
      job_cancel_preserves job_fail_preserves recover_preserves)+

lemma reachable_catalog_inv: "reachable_catalog H cat \<Longrightarrow> catalog_inv H cat"
proof (induction rule: reachable_catalog.induct)
  case empty
  show ?case by (simp add: catalog_inv_def)
next
  case (step cat cat')
  then show ?case using job_step_preserves by blast
qed

section \<open>Progress\<close>

lemma decode_record_ok:
  "record_inv H r \<Longrightarrow> valid_uuid (mj_job_id r) \<Longrightarrow> decode_record H r = Inr r"
  by (simp add: decode_record_def require_uuid_def record_inv_def)

lemma job_get_ok:
  assumes inv: "catalog_inv H cat" and m: "map_of cat i = Some r" and u: "valid_uuid i"
  shows "job_get H cat i = Inr r"
  using load_catalog_inv [OF inv] decode_record_ok [OF catalog_invD(2) [OF inv m]]
    catalog_invD(1) [OF inv m] m u
  by (simp add: job_get_def require_uuid_def)

lemma job_replace_ok:
  assumes inv: "catalog_inv H cat" and m: "map_of cat (mj_job_id r) = Some r"
    and u: "valid_uuid (mj_job_id r)" and v: "validate_record w = Inr ()"
  shows "job_replace H cat r w = Inr (AList.update (mj_job_id r) w cat, w)"
  using load_catalog_inv [OF inv] decode_record_ok [OF catalog_invD(2) [OF inv m] u] m v
  by (simp add: job_replace_def)

text \<open>The report of a chunk the catalog accepts: counters in order, and the count right at the end.\<close>

definition report_ok :: "market_job \<Rightarrow> int \<Rightarrow> int \<Rightarrow> int \<Rightarrow> int \<Rightarrow> bool" where
  "report_ok r f st du rq \<longleftrightarrow> 0 \<le> f \<and> 0 \<le> st \<and> 0 \<le> du \<and> 0 \<le> rq \<and> st + du \<le> f
     \<and> (mj_next_chunk_index r + 1 = int (length (mj_chunk_ranges r))
        \<longrightarrow> mj_job_type r = BACKFILL \<or> mj_job_type r = INCREMENTAL
        \<longrightarrow> mj_candles_fetched r + f = mj_candles_expected r)"

lemma advance_record_valid:
  assumes inv: "record_inv H r" and run: "mj_status r = RUNNING" and rep: "report_ok r f st du rq"
    and u: "advance_record r (mj_next_chunk_index r) f st du rq now = Inr u"
  shows "validate_record u = Inr ()"
proof -
  have v: "validate_record r = Inr ()" using inv by (simp add: record_inv_def)
  then have l: "lifecycle_ok r" by (simp add: validate_record_def) blast
  note c = validate_counters [OF v]
  have same: "mj_timeframe u = mj_timeframe r" "mj_chunk_ranges u = mj_chunk_ranges r"
    "mj_start u = mj_start r" "mj_end u = mj_end r" "mj_candles_expected u = mj_candles_expected r"
    "coverage_ok u = coverage_ok r"
    using u run by (auto simp: advance_record_def Let_def coverage_ok_def fun_eq_iff)
  have cu: "counters_ok u"
    using u run c rep inv
    by (auto simp: advance_record_def Let_def counters_ok_def report_ok_def record_inv_def)
  have lu: "lifecycle_ok u"
  proof (cases "mj_next_chunk_index r + 1 = int (length (mj_chunk_ranges r))")
    case True
    have e: "mj_error_code r = None" using l run by (simp add: lifecycle_ok_def)
    have "u = r\<lparr>mj_status := COMPLETED, mj_next_chunk_index := int (length (mj_chunk_ranges r)),
        mj_chunks_completed := int (length (mj_chunk_ranges r)),
        mj_candles_fetched := mj_candles_fetched r + f, mj_candles_stored := mj_candles_stored r + st,
        mj_duplicates := mj_duplicates r + du, mj_request_count := mj_request_count r + rq,
        mj_updated_at := now, mj_finished_at := Some now\<rparr>"
      using u run True by (simp add: advance_record_def Let_def)
    moreover have "mj_job_type r = BACKFILL \<or> mj_job_type r = INCREMENTAL
        \<longrightarrow> mj_candles_fetched r + f = mj_candles_expected r"
      using rep True by (simp add: report_ok_def)
    ultimately show ?thesis using e by (simp add: lifecycle_ok_def terminal_status_def) blast
  next
    case False
    with u run have "mj_status u = RUNNING" "mj_finished_at u = mj_finished_at r"
      "mj_error_code u = mj_error_code r" by (auto simp: advance_record_def Let_def)
    with l run show ?thesis by (simp add: lifecycle_ok_def terminal_status_def)
  qed
  from cu lu c l same have "validate_record u = validate_record r" by (simp only: validate_record_def)
  with v show ?thesis by simp
qed

lemma job_advance_ok:
  assumes inv: "catalog_inv H cat" and m: "map_of cat i = Some r" and u: "valid_uuid i"
    and run: "mj_status r = RUNNING" and rep: "report_ok r f st du rq"
  shows "\<exists>w. advance_record r (mj_next_chunk_index r) f st du rq now = Inr w
    \<and> job_advance H cat i (mj_next_chunk_index r) f st du rq now = Inr (AList.update i w cat, w)"
proof -
  from run obtain w where w: "advance_record r (mj_next_chunk_index r) f st du rq now = Inr w"
    by (simp add: advance_record_def Let_def)
  have id: "mj_job_id r = i" by (rule catalog_invD(1) [OF inv m])
  have "validate_record w = Inr ()"
    by (rule advance_record_valid [OF catalog_invD(2) [OF inv m] run rep w])
  then have "job_replace H cat r w = Inr (AList.update i w cat, w)"
    using job_replace_ok [OF inv, of r w] m u id by simp
  moreover have "\<not> (list_ex (\<lambda>v. v < 0) [f, st, du, rq] \<or> f < st + du)"
    using rep by (auto simp: report_ok_def)
  ultimately show ?thesis using w job_get_ok [OF inv m u] by (simp add: job_advance_def)
qed

text \<open>The nominal run of a started job: one report after the other, each at the next chunk index.\<close>

definition advance_next ::
    "(plan_payload \<Rightarrow> string) \<Rightarrow> string \<Rightarrow> int \<times> int \<times> int \<times> int \<times> instant \<Rightarrow> catalog \<Rightarrow> catalog result" where
  "advance_next H i rep cat =
     (case rep of (f, st, du, rq, now) \<Rightarrow>
        res_bind (job_get H cat i) (\<lambda>r.
          res_bind (job_advance H cat i (mj_next_chunk_index r) f st du rq now) (\<lambda>(cat', _). Inr cat')))"

definition reports_ok :: "(int \<times> int \<times> int \<times> int \<times> instant) list \<Rightarrow> bool" where
  "reports_ok reps \<longleftrightarrow> list_all (\<lambda>(f, st, du, rq, now).
     0 \<le> f \<and> 0 \<le> st \<and> 0 \<le> du \<and> 0 \<le> rq \<and> st + du \<le> f) reps"

lemma advance_next_ok:
  assumes inv: "catalog_inv H cat" and m: "map_of cat i = Some r" and u: "valid_uuid i"
    and run: "mj_status r = RUNNING" and rep: "report_ok r f st du rq"
  shows "\<exists>cat' w. advance_next H i (f, st, du, rq, now) cat = Inr cat' \<and> catalog_inv H cat'
    \<and> map_of cat' i = Some w \<and> same_plan r w
    \<and> mj_next_chunk_index w = mj_next_chunk_index r + 1
    \<and> mj_candles_fetched w = mj_candles_fetched r + f
    \<and> mj_status w = (if mj_next_chunk_index r + 1 = int (length (mj_chunk_ranges r)) then COMPLETED else RUNNING)"
proof -
  from job_advance_ok [OF inv m u run rep] obtain w where
    w: "advance_record r (mj_next_chunk_index r) f st du rq now = Inr w"
    and a: "job_advance H cat i (mj_next_chunk_index r) f st du rq now = Inr (AList.update i w cat, w)"
    by blast
  have "catalog_inv H (AList.update i w cat)" using job_advance_preserves [OF inv a] by simp
  moreover have "advance_next H i (f, st, du, rq, now) cat = Inr (AList.update i w cat)"
    using a job_get_ok [OF inv m u] by (simp add: advance_next_def)
  moreover have "same_plan r w" using advance_record_evolves [OF w] by (simp add: job_evolves_def)
  moreover have "map_of (AList.update i w cat) i = Some w" by (simp add: update_conv')
  moreover have "mj_next_chunk_index w = mj_next_chunk_index r + 1"
    "mj_candles_fetched w = mj_candles_fetched r + f"
    "mj_status w = (if mj_next_chunk_index r + 1 = int (length (mj_chunk_ranges r)) then COMPLETED else RUNNING)"
    using w run by (auto simp: advance_record_def Let_def)
  ultimately show ?thesis by (intro exI [of _ "AList.update i w cat"] exI [of _ w] conjI)
qed

lemma advance_next_run:
  assumes "catalog_inv H cat" and "map_of cat i = Some r" and "valid_uuid i"
    and "mj_status r = RUNNING" and "reports_ok reps" and "reps \<noteq> []"
    and "int (length reps) = int (length (mj_chunk_ranges r)) - mj_next_chunk_index r"
    and "mj_candles_fetched r + sum_list (map fst reps) = mj_candles_expected r"
  shows "\<exists>cat' w. res_fold (advance_next H i) reps cat = Inr cat' \<and> map_of cat' i = Some w
    \<and> mj_status w = COMPLETED \<and> mj_candles_fetched w = mj_candles_expected r"
  using assms
proof (induction reps arbitrary: cat r)
  case Nil
  then show ?case by simp
next
  case (Cons rep reps)
  obtain f st du rq now where rep: "rep = (f, st, du, rq, now)" by (cases rep) auto
  have ok: "report_ok r f st du rq"
    using Cons.prems(5,7,8) by (cases reps) (auto simp: rep report_ok_def reports_ok_def)
  from advance_next_ok [OF Cons.prems(1-4) ok, of now] obtain cat' w where
    a: "advance_next H i rep cat = Inr cat'" and inv: "catalog_inv H cat'" and m: "map_of cat' i = Some w"
    and sp: "same_plan r w" and nx: "mj_next_chunk_index w = mj_next_chunk_index r + 1"
    and fw: "mj_candles_fetched w = mj_candles_fetched r + f"
    and sw: "mj_status w = (if mj_next_chunk_index r + 1 = int (length (mj_chunk_ranges r)) then COMPLETED else RUNNING)"
    unfolding rep by blast
  have ex: "mj_candles_expected w = mj_candles_expected r" "mj_chunk_ranges w = mj_chunk_ranges r"
    using sp by (simp_all add: same_plan_def plan_of_def)
  show ?case
  proof (cases "reps = []")
    case True
    then show ?thesis using a m sw fw Cons.prems(7,8) by (simp add: rep)
  next
    case False
    have "mj_status w = RUNNING" using sw False Cons.prems(7) by (cases reps) auto
    from Cons.IH [OF inv m Cons.prems(3) this _ False] Cons.prems(5,7,8) nx fw ex
    show ?thesis using a by (simp add: reports_ok_def rep)
  qed
qed

section \<open>Cancelling a failed job\<close>

text \<open>The only error of the validation.\<close>

lemma validate_record_error: "validate_record r = Inl e \<Longrightarrow> e = MarketDataStorage"
  by (auto simp: validate_record_def require_def res_bind_def catch_as_def split: if_splits sum.splits)

lemma cancel_failed_record:
  assumes "record_inv H r" and "mj_status r = FAILED" and "cancel_record r now = Inr u"
  shows "validate_record u = Inl MarketDataStorage"
proof -
  have "lifecycle_ok r" using assms(1) by (simp add: record_inv_def validate_record_def) blast
  then have e: "mj_error_code r \<noteq> None" using assms(2) by (simp add: lifecycle_ok_def)
  have u: "u = r\<lparr>mj_status := CANCELLED, mj_updated_at := now, mj_finished_at := Some now\<rparr>"
    using assms(2,3) by (simp add: cancel_record_def)
  have "\<not> lifecycle_ok u" using e by (simp add: u lifecycle_ok_def)
  then have "validate_record u \<noteq> Inr ()" by (simp add: validate_record_def)
  then obtain x where x: "validate_record u = Inl x" by (cases "validate_record u") auto
  with validate_record_error [OF x] show ?thesis by simp
qed

section \<open>A concrete job\<close>

definition example_job_plan :: backfill_plan where
  "example_job_plan =
     \<lparr>bp_job_id = ''00000000000040008000000000000001'', bp_dataset_key = ''binance:spot:BTC/USDT:1m'',
      bp_timeframe = example_1m, bp_range = example_range,
      bp_chunks = map (chunk_at 0 60000000 3 5) [0 ..< 2], bp_expected = 5, bp_chunk_candles = 3,
      bp_job_type = BACKFILL\<rparr>"

definition example_record :: market_job where
  "example_record = new_record (\<lambda>_. ''h'') example_job_plan 0"

definition example_running :: market_job where
  "example_running = example_record\<lparr>mj_status := RUNNING, mj_updated_at := 1\<rparr>"

lemma example_steps:
  "job_create (\<lambda>_. ''h'') [] example_job_plan 0 = Inr ([(mj_job_id example_record, example_record)], example_record)"
  "job_start (\<lambda>_. ''h'') [(mj_job_id example_record, example_record)] (mj_job_id example_record) 1
     = Inr ([(mj_job_id example_record, example_running)], example_running)"
  by code_simp+

lemma example_reachable:
  "reachable_catalog (\<lambda>_. ''h'') [(mj_job_id example_record, example_record)]"
  "job_step (\<lambda>_. ''h'') [(mj_job_id example_record, example_record)] [(mj_job_id example_record, example_running)]"
  by (rule reachable_catalog.step [OF reachable_catalog.empty job_step.create [OF example_steps(1)]])
    (rule job_step.start [OF example_steps(2)])

section \<open>Properties\<close>

text \<open>C4: in every reachable catalog each stored job sits under its own id, passes the full record
  validation, carries the checksum of its own plan, and has a chunk left unless it is completed or
  cancelled.\<close>

theorem reachable_jobs_valid:
  assumes "reachable_catalog H cat" and "map_of cat k = Some r"
  shows "mj_job_id r = k \<and> validate_record r = Inr () \<and> mj_plan_checksum r = record_checksum H r
    \<and> counters_ok r \<and> lifecycle_ok r
    \<and> (mj_status r = COMPLETED \<or> mj_status r = CANCELLED
       \<or> mj_next_chunk_index r < int (length (mj_chunk_ranges r)))"
proof -
  note inv = reachable_catalog_inv [OF assms(1)]
  have v: "validate_record r = Inr ()" using catalog_invD(2) [OF inv assms(2)] by (simp add: record_inv_def)
  then have "lifecycle_ok r" by (simp add: validate_record_def) blast
  with v validate_counters [OF v] catalog_invD [OF inv assms(2)] show ?thesis
    by (simp add: record_inv_def)
qed

theorem reachable_jobs_valid_witness: "counters_ok example_record \<and> lifecycle_ok example_record"
  using reachable_jobs_valid [OF example_reachable(1), of "mj_job_id example_record" example_record] by simp

text \<open>C15: no operation loses a job or rewrites its plan: its progress never goes back, a completed job
  never changes again, and a cancelled one stays cancelled.\<close>

theorem job_step_monotone:
  assumes "reachable_catalog H cat" and "job_step H cat cat'" and "map_of cat k = Some r"
  shows "\<exists>r'. map_of cat' k = Some r' \<and> same_plan r r'
    \<and> mj_next_chunk_index r \<le> mj_next_chunk_index r'
    \<and> (mj_status r = COMPLETED \<longrightarrow> r' = r) \<and> (mj_status r = CANCELLED \<longrightarrow> mj_status r' = CANCELLED)"
  using job_step_preserves [OF assms(2) reachable_catalog_inv [OF assms(1)]] assms(3)
  by (auto simp: catalog_evolves_def job_evolves_def)

theorem job_step_monotone_witness: "same_plan example_record example_running"
  using job_step_monotone [OF example_reachable, of "mj_job_id example_record" example_record] by simp

text \<open>The compare-and-set loses no update: of two operations that read the same record, the second
  to write is rejected once the first has changed it.\<close>

theorem stale_write_rejected:
  assumes "job_replace H cat r u = Inr (cat', v)" and "mj_job_id u = mj_job_id r" and "u \<noteq> r"
  shows "\<exists>e. job_replace H cat' r w = Inl e"
proof -
  have cat': "cat' = AList.update (mj_job_id r) u cat" using job_replace_Inr [OF assms(1)] by simp
  have "\<not> (\<exists>cat'' x. job_replace H cat' r w = Inr (cat'', x))"
    using job_replace_Inr [of H cat' r w] assms(3) by (auto simp: cat' update_conv')
  then show ?thesis by (cases "job_replace H cat' r w") auto
qed

theorem stale_write_rejected_witness:
  "\<exists>e. job_replace (\<lambda>_. ''h'') [(mj_job_id example_record, example_running)] example_record
     (example_record\<lparr>mj_status := CANCELLED, mj_finished_at := Some 2\<rparr>) = Inl e"
proof -
  have "job_replace (\<lambda>_. ''h'') [(mj_job_id example_record, example_record)] example_record example_running
      = Inr ([(mj_job_id example_record, example_running)], example_running)" by code_simp
  then show ?thesis
    by (rule stale_write_rejected) (simp_all add: example_running_def example_record_def new_record_def)
qed

text \<open>A running job whose remaining chunks are reported one after the other, with coherent counters that
  add up to the expected candles, is accepted at every report and ends COMPLETED.\<close>

theorem reported_job_completes:
  assumes "reachable_catalog H cat" and "map_of cat i = Some r" and "valid_uuid i"
    and "mj_status r = RUNNING" and "reports_ok reps" and "reps \<noteq> []"
    and "int (length reps) = int (length (mj_chunk_ranges r)) - mj_next_chunk_index r"
    and "mj_candles_fetched r + sum_list (map fst reps) = mj_candles_expected r"
  shows "\<exists>cat' w. res_fold (advance_next H i) reps cat = Inr cat' \<and> map_of cat' i = Some w
    \<and> mj_status w = COMPLETED \<and> mj_candles_fetched w = mj_candles_expected r"
  by (rule advance_next_run [OF reachable_catalog_inv [OF assms(1)] assms(2-8)])

theorem reported_job_completes_witness:
  "\<exists>cat' w. res_fold (advance_next (\<lambda>_. ''h'') (mj_job_id example_record)) [(3, 3, 0, 1, 2), (2, 2, 0, 1, 3)]
      [(mj_job_id example_record, example_running)] = Inr cat'
    \<and> map_of cat' (mj_job_id example_record) = Some w \<and> mj_status w = COMPLETED"
proof -
  have r: "reachable_catalog (\<lambda>_. ''h'') [(mj_job_id example_record, example_running)]"
    by (rule reachable_catalog.step [OF example_reachable])
  have u: "valid_uuid (mj_job_id example_record)" by code_simp
  have f: "mj_status example_running = RUNNING" "length (mj_chunk_ranges example_running) = 2"
    "mj_next_chunk_index example_running = 0" "mj_candles_fetched example_running = 0"
    "mj_candles_expected example_running = 5" by code_simp+
  from reported_job_completes [OF r _ u f(1), of "[(3, 3, 0, 1, 2), (2, 2, 0, 1, 3)]"]
  show ?thesis by (simp add: f reports_ok_def) blast
qed

text \<open>C37: cancelling a failed job is always rejected by the validation of the record it would store: the
  guard of the operation admits FAILED, but the error code is kept, and only FAILED may carry one.\<close>

theorem cancel_of_failed_job_rejected:
  assumes "reachable_catalog H cat" and "map_of cat i = Some r" and "valid_uuid i" and "mj_status r = FAILED"
  shows "job_cancel H cat i now = Inl MarketDataStorage"
proof -
  note inv = reachable_catalog_inv [OF assms(1)]
  obtain u where u: "cancel_record r now = Inr u" using assms(4) by (simp add: cancel_record_def)
  from cancel_failed_record [OF catalog_invD(2) [OF inv assms(2)] assms(4) u] job_get_ok [OF inv assms(2,3)] u
  show ?thesis by (simp add: job_cancel_def job_replace_def)
qed

theorem cancel_of_failed_job_rejected_witness:
  "job_cancel (\<lambda>_. ''h'') [(mj_job_id example_record, fail_record example_running ''boom'' 2)]
     (mj_job_id example_record) 3 = Inl MarketDataStorage"
proof -
  have f: "job_fail (\<lambda>_. ''h'') [(mj_job_id example_record, example_running)] (mj_job_id example_record) ''boom'' 2
      = Inr ([(mj_job_id example_record, fail_record example_running ''boom'' 2)], fail_record example_running ''boom'' 2)"
    and u: "valid_uuid (mj_job_id example_record)" by code_simp+
  have r: "reachable_catalog (\<lambda>_. ''h'') [(mj_job_id example_record, fail_record example_running ''boom'' 2)]"
    by (rule reachable_catalog.step [OF reachable_catalog.step [OF example_reachable] job_step.fail [OF f]])
  show ?thesis by (rule cancel_of_failed_job_rejected [OF r _ u])
    (simp, simp add: fail_record_def market_job.simps)
qed

end
