(* ===== verification/Indicators.thy ===== *)
theory Indicators
  imports Decimal Market_Domain
begin

text \<open>
  The technical indicators of \<^verbatim>\<open>app/indicators\<close>: the series contracts of \<^verbatim>\<open>domain.py\<close>, and the EMA,
  RSI, true range, ATR and MACD of \<^verbatim>\<open>ema.py\<close>, \<^verbatim>\<open>rsi.py\<close>, \<^verbatim>\<open>atr.py\<close> and \<^verbatim>\<open>macd.py\<close>, computed in the
  fixed 50-digit context.  Event times are instants: the candle constructor has validated them as
  UTC already.  The smoothing indicators share one shape (no value during warm-up, a seed from the
  first \<open>period\<close> inputs, then one step per input), stated as the locale \<open>seeded_series\<close>.
\<close>

section \<open>Descriptors and series\<close>

datatype param_value = P_None | P_Bool bool | P_Int int | P_Str string | P_Decimal decimal | P_Float

type_synonym parameters = "(string \<times> param_value) list"

record descriptor =
  ds_name :: string
  ds_version :: string
  ds_parameters :: parameters
  ds_schema_version :: int

definition normalize_parameters :: "parameters \<Rightarrow> parameters result" where
  "normalize_parameters ps =
     res_fold (\<lambda>(raw_key, value) acc.
       let key = strip raw_key in
       require (safe_identifier 127 key \<and> key \<notin> set (map fst acc)) InvalidIndicatorInput (
       require (value \<noteq> P_Float) InvalidIndicatorInput (Inr (acc @ [(key, value)])))) ps []"

definition make_descriptor :: "string \<Rightarrow> string \<Rightarrow> parameters \<Rightarrow> int \<Rightarrow> descriptor result" where
  "make_descriptor raw_name raw_version parameters schema_version =
     (let name = strip raw_name; version = strip raw_version in
      require (safe_identifier 127 name \<and> safe_identifier 127 version) InvalidIndicatorInput (
      require (schema_version \<in> {1}) UnsupportedIndicatorSchema (
      res_bind (normalize_parameters parameters) (\<lambda>normalized.
        Inr \<lparr>ds_name = name, ds_version = version, ds_parameters = sort_key fst normalized,
             ds_schema_version = schema_version\<rparr>))))"

record series_point =
  sp_time :: instant
  sp_value :: decimal

type_synonym decimal_series = "series_point list"

definition make_series :: "series_point list \<Rightarrow> decimal_series result" where
  "make_series points =
     require (chain (\<lambda>l r. sp_time l < sp_time r) points) InvalidIndicatorInput (Inr points)"

definition require_existing_index :: "int \<Rightarrow> nat \<Rightarrow> unit result" where
  "require_existing_index index n =
     require (0 \<le> index \<and> index < int n) InvalidIndicatorInput (Inr ())"

definition require_visible_index :: "int \<Rightarrow> int \<Rightarrow> nat \<Rightarrow> unit result" where
  "require_visible_index index as_of n =
     require (0 \<le> index \<and> index < int n) InvalidIndicatorInput (
     require (\<not> as_of < index) FutureDataAccess (Inr ()))"

definition series_at :: "'a list \<Rightarrow> int \<Rightarrow> 'a result" where
  "series_at points index =
     res_bind (require_existing_index index (length points)) (\<lambda>_. Inr (points ! nat index))"

definition series_prefix :: "decimal_series \<Rightarrow> int \<Rightarrow> decimal_series result" where
  "series_prefix points as_of =
     res_bind (require_existing_index as_of (length points)) (\<lambda>_.
       make_series (take (nat (as_of + 1)) points))"

text \<open>The bounded views, common to decimal, candle and indicator series.\<close>

record 'a series_view =
  sv_source :: "'a list"
  sv_as_of :: int

definition series_through :: "'a list \<Rightarrow> int \<Rightarrow> 'a series_view result" where
  "series_through points as_of =
     res_bind (require_existing_index as_of (length points)) (\<lambda>_.
       Inr \<lparr>sv_source = points, sv_as_of = as_of\<rparr>)"

definition view_points :: "'a series_view \<Rightarrow> 'a list" where
  "view_points v = take (nat (sv_as_of v + 1)) (sv_source v)"

definition view_latest :: "'a series_view \<Rightarrow> 'a" where
  "view_latest v = sv_source v ! nat (sv_as_of v)"

definition view_at :: "'a series_view \<Rightarrow> int \<Rightarrow> 'a result" where
  "view_at v index =
     res_bind (require_visible_index index (sv_as_of v) (length (sv_source v))) (\<lambda>_.
       Inr (sv_source v ! nat index))"

text \<open>Candle series: closed candles of one instrument and timeframe, in order.\<close>

definition series_identity :: "candle \<Rightarrow> exchange \<times> market_type \<times> string \<times> timeframe" where
  "series_identity c = (c_exchange c, c_market_type c, c_symbol c, c_timeframe c)"

definition make_candle_series :: "candle list \<Rightarrow> candle list result" where
  "make_candle_series candles =
     require (list_all c_is_closed candles) InvalidIndicatorInput (
     require (candles = [] \<or> list_all (\<lambda>c. series_identity c = series_identity (hd candles)) (tl candles))
       InvalidIndicatorInput (
     require (chain (\<lambda>l r. \<not> (c_open_time r \<le> c_open_time l \<or> c_close_time r \<le> c_close_time l)) candles)
       InvalidIndicatorInput (Inr candles)))"

definition candle_series_prefix :: "candle list \<Rightarrow> int \<Rightarrow> candle list result" where
  "candle_series_prefix candles as_of =
     res_bind (require_existing_index as_of (length candles)) (\<lambda>_.
       make_candle_series (take (nat (as_of + 1)) candles))"

datatype candle_field = F_open | F_high | F_low | F_close | F_volume

fun candle_value :: "candle \<Rightarrow> candle_field \<Rightarrow> decimal" where
  "candle_value c F_open = c_open c"
| "candle_value c F_high = c_high c"
| "candle_value c F_low = c_low c"
| "candle_value c F_close = c_close c"
| "candle_value c F_volume = c_volume c"

definition series_from_candles :: "candle list \<Rightarrow> candle_field \<Rightarrow> decimal_series result" where
  "series_from_candles candles field =
     res_bind (make_candle_series candles) (\<lambda>validated.
       make_series (map (\<lambda>c. \<lparr>sp_time = c_close_time c, sp_value = candle_value c field\<rparr>) validated))"

record indicator_point =
  ip_time :: instant
  ip_value :: "decimal option"

record indicator_series =
  is_descriptor :: descriptor
  is_warmup :: int
  is_points :: "indicator_point list"

definition make_indicator_series ::
    "descriptor \<Rightarrow> int \<Rightarrow> indicator_point list \<Rightarrow> indicator_series result" where
  "make_indicator_series d warmup points =
     require (0 \<le> warmup) InvalidIndicatorInput (
     require (chain (\<lambda>l r. ip_time l < ip_time r) points) InvalidIndicatorInput (
     (let unavailable = nat (min warmup (int (length points))) in
      require (list_all (\<lambda>p. ip_value p = None) (take unavailable points)) InvalidIndicatorInput (
      require (list_all (\<lambda>p. ip_value p \<noteq> None) (drop unavailable points)) InvalidIndicatorInput
        (Inr \<lparr>is_descriptor = d, is_warmup = warmup, is_points = points\<rparr>)))))"

record indicator_bundle =
  ib_descriptor :: descriptor
  ib_components :: "(string \<times> indicator_series) list"

definition check_components ::
    "(string \<times> indicator_series) list \<Rightarrow> (string list \<times> instant list option) result" where
  "check_components components =
     res_fold (\<lambda>(raw_name, series) (seen, reference).
       let name = strip raw_name; ts = map ip_time (is_points series) in
       require (safe_identifier 127 name \<and> name \<notin> set seen) InvalidIndicatorInput (
       require (case reference of None \<Rightarrow> True | Some r \<Rightarrow> ts = r) InvalidIndicatorInput
         (Inr (name # seen, Some (case reference of None \<Rightarrow> ts | Some r \<Rightarrow> r))))) components ([], None)"

definition make_bundle ::
    "descriptor \<Rightarrow> (string \<times> indicator_series) list \<Rightarrow> indicator_bundle result" where
  "make_bundle d components =
     require (components \<noteq> []) InvalidIndicatorInput (
     res_bind (check_components components) (\<lambda>_.
       Inr \<lparr>ib_descriptor = d, ib_components = map (\<lambda>(name, s). (strip name, s)) components\<rparr>))"

definition bundle_warmup :: "indicator_bundle \<Rightarrow> int" where
  "bundle_warmup b = fold (\<lambda>(_, s) m. max m (is_warmup s)) (ib_components b) 0"

definition bundle_component :: "indicator_bundle \<Rightarrow> string \<Rightarrow> indicator_series result" where
  "bundle_component b name =
     (case map_of (ib_components b) name of None \<Rightarrow> Inl InvalidIndicatorInput | Some s \<Rightarrow> Inr s)"

text \<open>\<^verbatim>\<open>zip(..., strict=True)\<close> raises when the lengths differ.\<close>

definition zip_strict :: "'a list \<Rightarrow> 'b list \<Rightarrow> ('a \<times> 'b) list result" where
  "zip_strict xs ys = require (length xs = length ys) ValueError (Inr (zip xs ys))"

definition aligned_series ::
    "descriptor \<Rightarrow> int \<Rightarrow> instant list \<Rightarrow> decimal option list \<Rightarrow> indicator_series result" where
  "aligned_series d warmup ts values =
     res_bind (zip_strict ts values) (\<lambda>ps.
       make_indicator_series d warmup (map (\<lambda>(t, v). \<lparr>ip_time = t, ip_value = v\<rparr>) ps))"

section \<open>Exponential moving average\<close>

record ema =
  ema_period :: int
  ema_descriptor :: descriptor

definition make_ema :: "int \<Rightarrow> ema result" where
  "make_ema period =
     require (1 \<le> period) InvalidIndicatorInput (
     res_bind (make_descriptor ''ema'' ''1'' [(''period'', P_Int period)] 1) (\<lambda>d.
       Inr \<lparr>ema_period = period, ema_descriptor = d\<rparr>))"

definition warmup_prefix :: "int \<Rightarrow> nat \<Rightarrow> decimal option list" where
  "warmup_prefix warmup n = replicate (nat (min warmup (int n))) None"

definition ema_step :: "int \<Rightarrow> decimal \<Rightarrow> decimal \<Rightarrow> decimal" where
  "ema_step period v previous =
     (let alpha = contextual (cdiv 2 (of_int (period + 1)))
      in contextual (cadd previous (cmul alpha (csub v previous))))"

text \<open>The body of a smoothing loop: the value after each input.\<close>

fun smooth_loop :: "('x \<Rightarrow> 's \<Rightarrow> 's) \<Rightarrow> 's \<Rightarrow> 'x list \<Rightarrow> 's list" where
  "smooth_loop step s [] = []"
| "smooth_loop step s (x # xs) = (let t = step x s in t # smooth_loop step t xs)"

text \<open>\<^verbatim>\<open>contextual(sum(values, Decimal("0")) / period_decimal)\<close>.\<close>

definition mean_seed :: "int \<Rightarrow> decimal list \<Rightarrow> decimal" where
  "mean_seed period xs = contextual (cdiv (csum xs) (of_int period))"

definition ema_values :: "int \<Rightarrow> decimal list \<Rightarrow> decimal option list" where
  "ema_values period vs =
     warmup_prefix (period - 1) (length vs) @
     (if period \<le> int (length vs)
      then (let seed = mean_seed period (take (nat period) vs)
            in map Some (seed # smooth_loop (ema_step period) seed (drop (nat period) vs)))
      else [])"

definition ema_calculate :: "ema \<Rightarrow> decimal_series \<Rightarrow> indicator_series result" where
  "ema_calculate e source =
     aligned_series (ema_descriptor e) (ema_period e - 1) (map sp_time source)
       (ema_values (ema_period e) (map sp_value source))"

section \<open>Wilder's relative strength index\<close>

record rsi =
  rsi_period :: int
  rsi_descriptor :: descriptor

definition make_rsi :: "int \<Rightarrow> rsi result" where
  "make_rsi period =
     require (1 \<le> period) InvalidIndicatorInput (
     res_bind (make_descriptor ''rsi'' ''1'' [(''period'', P_Int period)] 1) (\<lambda>d.
       Inr \<lparr>rsi_period = period, rsi_descriptor = d\<rparr>))"

definition rsi_value :: "decimal \<Rightarrow> decimal \<Rightarrow> decimal" where
  "rsi_value average_gain average_loss =
     (if average_gain = 0 \<and> average_loss = 0 then 50
      else if average_loss = 0 then 100
      else if average_gain = 0 then 0
      else (let relative_strength = contextual (cdiv average_gain average_loss)
            in contextual (csub 100 (cdiv 100 (cadd 1 relative_strength)))))"

definition changes :: "decimal list \<Rightarrow> decimal list" where
  "changes vs = map (\<lambda>(l, r). csub r l) (adjacent vs)"

definition rsi_seed :: "int \<Rightarrow> decimal list \<Rightarrow> decimal \<times> decimal" where
  "rsi_seed period cs =
     (contextual (cdiv (csum (map (\<lambda>c. max c 0) cs)) (of_int period)),
      contextual (cdiv (csum (map (\<lambda>c. max (cneg c) 0) cs)) (of_int period)))"

definition rsi_step :: "int \<Rightarrow> decimal \<Rightarrow> decimal \<times> decimal \<Rightarrow> decimal \<times> decimal" where
  "rsi_step period change averages =
     (case averages of (average_gain, average_loss) \<Rightarrow>
        let gain = max change 0; loss = max (cneg change) 0 in
        (contextual (cdiv (cadd (cmul average_gain (of_int (period - 1))) gain) (of_int period)),
         contextual (cdiv (cadd (cmul average_loss (of_int (period - 1))) loss) (of_int period))))"

definition rsi_values :: "int \<Rightarrow> decimal list \<Rightarrow> decimal option list" where
  "rsi_values period vs =
     warmup_prefix period (length vs) @
     (if period < int (length vs)
      then (let cs = changes vs; seed = rsi_seed period (take (nat period) cs)
            in map (\<lambda>(g, l). Some (rsi_value g l))
                 (seed # smooth_loop (rsi_step period) seed (drop (nat period) cs)))
      else [])"

definition rsi_calculate :: "rsi \<Rightarrow> decimal_series \<Rightarrow> indicator_series result" where
  "rsi_calculate r source =
     aligned_series (rsi_descriptor r) (rsi_period r) (map sp_time source)
       (rsi_values (rsi_period r) (map sp_value source))"

section \<open>True range and average true range\<close>

fun true_range_loop :: "decimal option \<Rightarrow> candle list \<Rightarrow> decimal list" where
  "true_range_loop previous_close [] = []"
| "true_range_loop previous_close (c # cs) =
     (let intrabar_range = csub (c_high c) (c_low c);
          true_range = (case previous_close of None \<Rightarrow> intrabar_range
            | Some p \<Rightarrow> max intrabar_range (max (cabs (csub (c_high c) p)) (cabs (csub (c_low c) p))))
      in contextual true_range # true_range_loop (Some (c_close c)) cs)"

definition true_ranges :: "candle list \<Rightarrow> decimal list" where
  "true_ranges source = true_range_loop None source"

definition true_range_calculate :: "candle list \<Rightarrow> indicator_series result" where
  "true_range_calculate source =
     res_bind (make_descriptor ''true_range'' ''1'' [] 1) (\<lambda>d.
       aligned_series d 0 (map c_close_time source) (map Some (true_ranges source)))"

record atr =
  atr_period :: int
  atr_descriptor :: descriptor

definition make_atr :: "int \<Rightarrow> atr result" where
  "make_atr period =
     require (1 \<le> period) InvalidIndicatorInput (
     res_bind (make_descriptor ''atr'' ''1'' [(''period'', P_Int period)] 1) (\<lambda>d.
       Inr \<lparr>atr_period = period, atr_descriptor = d\<rparr>))"

definition atr_step :: "int \<Rightarrow> decimal \<Rightarrow> decimal \<Rightarrow> decimal" where
  "atr_step period true_range previous =
     contextual (cdiv (cadd (cmul previous (of_int (period - 1))) true_range) (of_int period))"

definition atr_values :: "int \<Rightarrow> candle list \<Rightarrow> decimal option list" where
  "atr_values period source =
     warmup_prefix (period - 1) (length source) @
     (if period \<le> int (length source)
      then (let trs = true_ranges source;
                seed = mean_seed period (take (nat period) trs)
            in map Some (seed # smooth_loop (atr_step period) seed (drop (nat period) trs)))
      else [])"

definition atr_calculate :: "atr \<Rightarrow> candle list \<Rightarrow> indicator_series result" where
  "atr_calculate a source =
     aligned_series (atr_descriptor a) (atr_period a - 1) (map c_close_time source)
       (atr_values (atr_period a) source)"

section \<open>Moving average convergence divergence\<close>

record macd =
  macd_fast :: int
  macd_slow :: int
  macd_signal :: int
  macd_descriptor :: descriptor

definition make_macd :: "int \<Rightarrow> int \<Rightarrow> int \<Rightarrow> macd result" where
  "make_macd fast slow signal =
     require (1 \<le> fast \<and> 1 \<le> slow \<and> 1 \<le> signal) InvalidIndicatorInput (
     require (\<not> slow \<le> fast) InvalidIndicatorInput (
     res_bind (make_descriptor ''macd'' ''1''
       [(''fast_period'', P_Int fast), (''slow_period'', P_Int slow), (''signal_period'', P_Int signal)] 1)
       (\<lambda>d. Inr \<lparr>macd_fast = fast, macd_slow = slow, macd_signal = signal, macd_descriptor = d\<rparr>)))"

definition required :: "decimal option \<Rightarrow> decimal result" where
  "required v = (case v of None \<Rightarrow> Inl AssertionError | Some x \<Rightarrow> Inr x)"

text \<open>\<^verbatim>\<open>None if b is None else contextual(_required(a) - b)\<close> over two aligned columns.\<close>

definition subtract_columns :: "(decimal option \<times> decimal option) list \<Rightarrow> decimal option list result" where
  "subtract_columns ps =
     res_fold (\<lambda>(a, b) acc. case b of None \<Rightarrow> Inr (acc @ [None])
       | Some y \<Rightarrow> res_bind (required a) (\<lambda>x. Inr (acc @ [Some (contextual (csub x y))]))) ps []"

definition macd_calculate :: "macd \<Rightarrow> decimal_series \<Rightarrow> indicator_bundle result" where
  "macd_calculate m source =
     res_bind (make_ema (macd_fast m)) (\<lambda>fast_ema. res_bind (ema_calculate fast_ema source) (\<lambda>fast.
     res_bind (make_ema (macd_slow m)) (\<lambda>slow_ema. res_bind (ema_calculate slow_ema source) (\<lambda>slow.
     res_bind (zip_strict (map ip_value (is_points fast)) (map ip_value (is_points slow))) (\<lambda>fs.
     res_bind (subtract_columns fs) (\<lambda>macd_values.
     res_bind (zip_strict source macd_values) (\<lambda>sm.
     res_bind (make_series (map (\<lambda>(p, v). \<lparr>sp_time = sp_time p, sp_value = the v\<rparr>)
                 (filter (\<lambda>(p, v). v \<noteq> None) sm))) (\<lambda>compact_macd.
     res_bind (make_ema (macd_signal m)) (\<lambda>signal_ema.
     res_bind (ema_calculate signal_ema compact_macd) (\<lambda>compact_signal.
     (let unavailable_prefix = nat (min (macd_slow m - 1) (int (length source)));
          signal_values = replicate unavailable_prefix None @ map ip_value (is_points compact_signal)
      in res_bind (zip_strict macd_values signal_values) (\<lambda>ms.
     res_bind (subtract_columns ms) (\<lambda>histogram_values.
     res_bind (make_descriptor ''macd_line'' ''1'' (ds_parameters (macd_descriptor m)) 1) (\<lambda>d1.
     res_bind (aligned_series d1 (macd_slow m - 1) (map sp_time source) macd_values) (\<lambda>macd_line.
     res_bind (make_descriptor ''macd_signal'' ''1'' (ds_parameters (macd_descriptor m)) 1) (\<lambda>d2.
     res_bind (aligned_series d2 (macd_slow m + macd_signal m - 2) (map sp_time source) signal_values) (\<lambda>signal_line.
     res_bind (make_descriptor ''macd_histogram'' ''1'' (ds_parameters (macd_descriptor m)) 1) (\<lambda>d3.
     res_bind (aligned_series d3 (macd_slow m + macd_signal m - 2) (map sp_time source) histogram_values) (\<lambda>histogram.
       make_bundle (macd_descriptor m)
         [(''macd'', macd_line), (''signal'', signal_line), (''histogram'', histogram)])))))))))))))))))))"

section \<open>The contract of a smoothed indicator\<close>

text \<open>
  An indicator that smooths causally computed inputs: nothing during warm-up, a value from the seed
  of the first \<open>warm + 1\<close> inputs, then one value per step.  Causality is the law \<open>inputs_take\<close>: what
  is computed from a prefix of the source is a prefix of what is computed from all of it.
\<close>

definition last_value :: "'a option list \<Rightarrow> 'a option" where
  "last_value vs = (if vs = [] then None else last vs)"

locale smoothed_indicator =
  fixes vals :: "'c list \<Rightarrow> 'v option list"
    and warm :: nat
    and inputs :: "'c list \<Rightarrow> 'x list"
    and seed :: "'x list \<Rightarrow> 's"
    and step :: "'x \<Rightarrow> 's \<Rightarrow> 's"
    and out :: "'s \<Rightarrow> 'v"
  assumes inputs_length: "length (inputs cs) = length cs"
    and inputs_take: "inputs (take n cs) = take n (inputs cs)"
    and vals_eq: "vals cs = replicate (min warm (length cs)) None @
      (if warm < length cs
       then map (\<lambda>s. Some (out s)) (seed (take (Suc warm) (inputs cs)) #
              smooth_loop step (seed (take (Suc warm) (inputs cs))) (drop (Suc warm) (inputs cs)))
       else [])"
begin

definition state_after :: "'c list \<Rightarrow> 's" where
  "state_after cs = fold step (drop (Suc warm) (inputs cs)) (seed (take (Suc warm) (inputs cs)))"

lemma smooth_loop_length: "length (smooth_loop step s xs) = length xs"
  by (induction xs arbitrary: s) (simp_all add: Let_def)

lemma smooth_loop_snoc: "smooth_loop step s (xs @ [x]) = smooth_loop step s xs @ [step x (fold step xs s)]"
  by (induction xs arbitrary: s) (simp_all add: Let_def)

lemma vals_length [simp]: "length (vals cs) = length cs"
  by (auto simp: vals_eq smooth_loop_length inputs_length)

lemma inputs_snoc: "inputs (cs @ [c]) = inputs cs @ [last (inputs (cs @ [c]))]"
proof -
  have "inputs (cs @ [c]) \<noteq> []" using inputs_length [of "cs @ [c]"] by auto
  then have "inputs (cs @ [c]) = butlast (inputs (cs @ [c])) @ [last (inputs (cs @ [c]))]" by simp
  also have "butlast (inputs (cs @ [c])) = inputs (take (length cs) (cs @ [c]))"
    by (simp only: butlast_conv_take inputs_length inputs_take) simp
  finally show ?thesis by simp
qed

lemma vals_snoc:
  "vals (cs @ [c]) = vals cs @
     [if length cs < warm then None else Some (out (state_after (cs @ [c])))]"
proof -
  obtain x where x: "inputs (cs @ [c]) = inputs cs @ [x]" using inputs_snoc by blast
  consider "length cs < warm" | "length cs = warm" | "warm < length cs" by linarith
  then show ?thesis
  proof cases
    case 1
    then show ?thesis by (simp add: vals_eq replicate_append_same flip: replicate_Suc)
  next
    case 2
    then show ?thesis by (simp add: vals_eq state_after_def x inputs_length)
  next
    case 3
    then show ?thesis
      by (simp add: vals_eq state_after_def x inputs_length smooth_loop_snoc)
  qed
qed

lemma state_after_snoc:
  assumes "warm < length cs"
  shows "state_after (cs @ [c]) = step (last (inputs (cs @ [c]))) (state_after cs)"
proof -
  obtain x where "inputs (cs @ [c]) = inputs cs @ [x]" using inputs_snoc by blast
  then show ?thesis using assms by (simp add: state_after_def inputs_length)
qed

lemma state_after_first:
  assumes "length cs = Suc warm"
  shows "state_after cs = seed (inputs cs)"
  using assms by (simp add: state_after_def inputs_length)

lemma vals_take: "vals (take n cs) = take n (vals cs)"
proof (induction cs rule: rev_induct)
  case Nil
  show ?case by simp
next
  case (snoc c cs)
  then show ?case by (cases "n \<le> length cs") (simp_all add: vals_snoc)
qed

lemma vals_nth:
  "i < length cs \<Longrightarrow> vals cs ! i = (if i < warm then None else Some (out (state_after (take (Suc i) cs))))"
proof -
  assume i: "i < length cs"
  have "vals cs ! i = vals (take (Suc i) cs) ! i" using i by (simp add: vals_take)
  also have "take (Suc i) cs = take i cs @ [cs ! i]" using i by (rule take_Suc_conv_app_nth)
  also have "vals \<dots> ! i = (if i < warm then None else Some (out (state_after (take i cs @ [cs ! i]))))"
    using i by (simp add: vals_snoc nth_append min_def)
  finally show ?thesis using i by (simp add: take_Suc_conv_app_nth)
qed

lemma last_vals:
  "last_value (vals cs) = (if length cs \<le> warm then None else Some (out (state_after cs)))"
proof (cases cs rule: rev_cases)
  case Nil
  have "vals [] = []" by (metis length_0_conv vals_length)
  with Nil show ?thesis by (simp add: last_value_def)
next
  case (snoc ds d)
  then show ?thesis by (simp add: last_value_def vals_snoc)
qed

lemma last_value_take: "i < length cs \<Longrightarrow> last_value (vals (take (Suc i) cs)) = vals cs ! i"
  by (simp add: last_vals vals_nth not_less_eq_eq)

lemma warm_up: "i < length cs \<Longrightarrow> vals cs ! i = None \<longleftrightarrow> i < warm"
  by (simp add: vals_nth)

lemma warm_split:
  "list_all (\<lambda>v. v = None) (take (min warm (length cs)) (vals cs))"
  "list_all (\<lambda>v. v \<noteq> None) (drop (min warm (length cs)) (vals cs))"
  by (auto simp: list_all_length vals_nth min_def)

text \<open>A predicate the seed establishes and every step keeps holds of every state.\<close>

lemma state_invariant:
  assumes "warm < length cs" and "list_all P (inputs cs)"
    and seed: "\<And>xs. length xs = Suc warm \<Longrightarrow> list_all P xs \<Longrightarrow> Q (seed xs)"
    and step: "\<And>x s. P x \<Longrightarrow> Q s \<Longrightarrow> Q (step x s)"
  shows "Q (state_after cs)"
proof -
  have "list_all P xs \<Longrightarrow> Q s \<Longrightarrow> Q (fold step xs s)" for xs s
    by (induction xs arbitrary: s) (simp_all add: step)
  moreover have "list_all P (take (Suc warm) (inputs cs))" "list_all P (drop (Suc warm) (inputs cs))"
    using assms(2) by (auto simp: list_all_iff dest: in_set_takeD in_set_dropD)
  ultimately show ?thesis using seed assms(1) by (simp add: state_after_def inputs_length)
qed

lemma vals_invariant:
  assumes "list_all P (inputs cs)"
    and "\<And>xs. length xs = Suc warm \<Longrightarrow> list_all P xs \<Longrightarrow> Q (seed xs)"
    and "\<And>x s. P x \<Longrightarrow> Q s \<Longrightarrow> Q (step x s)" and "\<And>s. Q s \<Longrightarrow> R (out s)"
    and "i < length cs" and "vals cs ! i = Some v"
  shows "R v"
proof -
  have w: "warm \<le> i" and v: "v = out (state_after (take (Suc i) cs))"
    using assms(5,6) by (auto simp: vals_nth split: if_splits)
  have "list_all P (inputs (take (Suc i) cs))"
    using assms(1) by (simp only: inputs_take) (auto simp: list_all_iff dest: in_set_takeD)
  then show ?thesis unfolding v
    using w assms(5) by (intro assms(4) state_invariant [of _ P Q]) (simp_all add: assms(2,3))
qed

end

lemma true_range_loop_length [simp]: "length (true_range_loop p cs) = length cs"
  by (induction cs arbitrary: p) (simp_all add: Let_def)

lemma true_range_loop_take: "true_range_loop p (take n cs) = take n (true_range_loop p cs)"
  by (induction cs arbitrary: p n) (simp_all add: Let_def take_Cons' )

lemma adjacent_take: "adjacent (take n xs) = take (n - 1) (adjacent xs)"
  by (rule nth_equalityI) (auto simp: adjacent_def tl_take)

lemma warmup_prefix_nat [simp]: "warmup_prefix (int w) n = replicate (min w n) None"
  by (simp add: warmup_prefix_def flip: of_nat_min)

interpretation ema: smoothed_indicator "ema_values (1 + int k)" k "\<lambda>vs. vs"
  "mean_seed (1 + int k)" "ema_step (1 + int k)" "\<lambda>v. v" for k
  by unfold_locales (auto simp: ema_values_def Let_def nat_add_distrib)

interpretation atr: smoothed_indicator "atr_values (1 + int k)" k true_ranges
  "mean_seed (1 + int k)" "atr_step (1 + int k)" "\<lambda>v. v" for k
  by unfold_locales (auto simp: atr_values_def true_ranges_def true_range_loop_take Let_def nat_add_distrib)

interpretation rsi: smoothed_indicator "rsi_values (1 + int k)" "Suc k"
  "\<lambda>vs. if vs = [] then [] else 0 # changes vs" "\<lambda>xs. rsi_seed (1 + int k) (tl xs)"
  "rsi_step (1 + int k)" "\<lambda>(g, l). rsi_value g l" for k
proof unfold_locales
  fix vs :: "decimal list" and n
  show "length (if vs = [] then [] else 0 # changes vs) = length vs"
    by (cases vs) (simp_all add: changes_def adjacent_def)
  show "(if take n vs = [] then [] else 0 # changes (take n vs)) = take n (if vs = [] then [] else 0 # changes vs)"
    by (cases n) (auto simp: changes_def adjacent_take take_map)
  have "warmup_prefix (1 + int k) (length vs) = replicate (min (Suc k) (length vs)) None"
    using warmup_prefix_nat [of "Suc k" "length vs"] by simp
  then show "rsi_values (1 + int k) vs = replicate (min (Suc k) (length vs)) None @
      (if Suc k < length vs
       then map (\<lambda>s. Some (case s of (g, l) \<Rightarrow> rsi_value g l))
          (rsi_seed (1 + int k) (tl (take (Suc (Suc k)) (if vs = [] then [] else 0 # changes vs))) #
           smooth_loop (rsi_step (1 + int k))
            (rsi_seed (1 + int k) (tl (take (Suc (Suc k)) (if vs = [] then [] else 0 # changes vs))))
            (drop (Suc (Suc k)) (if vs = [] then [] else 0 # changes vs)))
       else [])"
    by (auto simp: rsi_values_def Let_def nat_add_distrib case_prod_unfold)
qed

section \<open>Calculation of a prefix\<close>

text \<open>\<^verbatim>\<open>protocols.py\<close>: evaluation as of an index, on the materialized prefix.\<close>

definition calculate_as_of ::
    "(decimal_series \<Rightarrow> 'r result) \<Rightarrow> decimal_series \<Rightarrow> int \<Rightarrow> 'r result" where
  "calculate_as_of calculate source as_of = res_bind (series_prefix source as_of) calculate"

definition calculate_candles_as_of ::
    "(candle list \<Rightarrow> 'r result) \<Rightarrow> candle list \<Rightarrow> int \<Rightarrow> 'r result" where
  "calculate_candles_as_of calculate source as_of = res_bind (candle_series_prefix source as_of) calculate"

lemma make_descriptor_period:
  "make_descriptor ''ema'' ''1'' [(''period'', P_Int p)] 1 = Inr \<lparr>ds_name = ''ema'', ds_version = ''1'',
     ds_parameters = [(''period'', P_Int p)], ds_schema_version = 1\<rparr>"
  by (simp add: make_descriptor_def normalize_parameters_def Let_def strip_def safe_identifier_def
      is_space_def is_alnum_def is_safe_char_def is_upper_def is_lower_def is_digit_def)

lemma make_ema_iff:
  "make_ema p = Inr e \<longleftrightarrow> 1 \<le> p \<and> e = \<lparr>ema_period = p, ema_descriptor = \<lparr>ds_name = ''ema'', ds_version = ''1'',
     ds_parameters = [(''period'', P_Int p)], ds_schema_version = 1\<rparr>\<rparr>"
  by (auto simp: make_ema_def make_descriptor_period)

lemma make_series_iff [simp]:
  "make_series ps = Inr qs \<longleftrightarrow> qs = ps \<and> chain (\<lambda>l r. sp_time l < sp_time r) ps"
  by (auto simp: make_series_def)

lemma make_candle_series_Inr:
  "make_candle_series cs = Inr ds \<Longrightarrow> ds = cs \<and> chain (\<lambda>l r. c_close_time l < c_close_time r) cs"
  by (auto simp: make_candle_series_def elim!: chain_mono)

lemma make_candle_series_take:
  assumes "make_candle_series cs = Inr cs"
  shows "make_candle_series (take n cs) = Inr (take n cs)"
proof (cases cs)
  case (Cons c ds)
  with assms show ?thesis
    by (cases n) (auto simp: make_candle_series_def list_all_iff simp del: not_le
        dest: in_set_takeD chain_take [of _ "c # ds" "Suc _"])
qed (use assms in simp)

lemma aligned_series_ok:
  assumes "length ts = length vs" and "chain (<) ts"
    and "list_all (\<lambda>v. v = None) (take (min w (length vs)) vs)"
    and "list_all (\<lambda>v. v \<noteq> None) (drop (min w (length vs)) vs)"
  shows "aligned_series d (int w) ts vs =
    Inr \<lparr>is_descriptor = d, is_warmup = int w,
         is_points = map (\<lambda>(t, v). \<lparr>ip_time = t, ip_value = v\<rparr>) (zip ts vs)\<rparr>"
proof -
  let ?ps = "map (\<lambda>(t, v). \<lparr>ip_time = t, ip_value = v\<rparr>) (zip ts vs)"
  have t: "map ip_time ?ps = ts" and v: "map ip_value ?ps = vs"
    using assms(1) by (simp_all add: comp_def case_prod_unfold)
  have "chain (\<lambda>l r. ip_time l < ip_time r) ?ps"
    using assms(2) t chain_map [of "(<)" ip_time ?ps] by simp
  moreover have "list_all (\<lambda>p. ip_value p = None) (take (min w (length vs)) ?ps)"
    using assms(3) by (subst (asm) v [symmetric]) (simp add: take_map list.pred_map comp_def)
  moreover have "list_all (\<lambda>p. ip_value p \<noteq> None) (drop (min w (length vs)) ?ps)"
    using assms(4) by (subst (asm) v [symmetric]) (simp add: drop_map list.pred_map comp_def)
  ultimately show ?thesis
    using assms(1) by (simp add: aligned_series_def zip_strict_def make_indicator_series_def Let_def flip: of_nat_min)
qed

lemma aligned_series_take:
  assumes "length ts = length vs" and "chain (<) ts"
    and "list_all (\<lambda>v. v = None) (take (min w (length vs)) vs)"
    and "list_all (\<lambda>v. v \<noteq> None) (drop (min w (length vs)) vs)"
  shows "\<exists>s. aligned_series d (int w) ts vs = Inr s
    \<and> map ip_time (is_points s) = ts \<and> map ip_value (is_points s) = vs
    \<and> aligned_series d (int w) (take n ts) (take n vs) = Inr (s\<lparr>is_points := take n (is_points s)\<rparr>)"
proof -
  have a: "list_all (\<lambda>v. v = None) (take (min w (length (take n vs))) (take n vs))"
    using assms(3) by (auto simp: list_all_length min_def split: if_splits)
  have b: "list_all (\<lambda>v. v \<noteq> None) (drop (min w (length (take n vs))) (take n vs))"
    using assms(4) by (auto simp: list_all_length min_def split: if_splits)
  have "length (take n ts) = length (take n vs)" using assms(1) by simp
  from aligned_series_ok [OF this chain_take [OF assms(2)] a b] aligned_series_ok [OF assms]
  show ?thesis using assms(1) by (auto simp: take_zip take_map comp_def case_prod_unfold)
qed

lemma series_times: "chain (\<lambda>l r. sp_time l < sp_time r) ps \<Longrightarrow> chain (<) (map sp_time ps)"
  by (simp add: chain_map)

lemma ema_calculate_prefix:
  assumes "make_ema p = Inr e" and "make_series source = Inr source" and "0 \<le> i" and "i < int (length source)"
  shows "\<exists>s. ema_calculate e source = Inr s
    \<and> map ip_time (is_points s) = map sp_time source
    \<and> map ip_value (is_points s) = ema_values p (map sp_value source)
    \<and> calculate_as_of (ema_calculate e) source i = Inr (s\<lparr>is_points := take (nat (i + 1)) (is_points s)\<rparr>)"
proof -
  obtain k where p: "p = 1 + int k" using assms(1) by (auto simp: make_ema_iff) (metis zle_iff_zadd)
  have e: "ema_period e = p" using assms(1) by (auto simp: make_ema_iff)
  have "\<exists>s. aligned_series (ema_descriptor e) (int k) (map sp_time source) (ema_values p (map sp_value source)) = Inr s
    \<and> map ip_time (is_points s) = map sp_time source
    \<and> map ip_value (is_points s) = ema_values p (map sp_value source)
    \<and> aligned_series (ema_descriptor e) (int k) (take (nat (i + 1)) (map sp_time source))
        (take (nat (i + 1)) (ema_values p (map sp_value source)))
      = Inr (s\<lparr>is_points := take (nat (i + 1)) (is_points s)\<rparr>)"
    by (rule aligned_series_take)
      (use assms(2) ema.warm_split [of k "map sp_value source"] in \<open>simp_all add: p series_times\<close>)
  then show ?thesis using assms(2-4) ema.vals_take [of k "nat (i + 1)" "map sp_value source"]
    by (simp add: e p ema_calculate_def calculate_as_of_def series_prefix_def require_existing_index_def
        chain_take take_map)
qed

section \<open>Ranges of the values\<close>

lemma contextual_of_nat_fits [simp]: "contextual 0 = 0" "contextual 1 = 1" "contextual 100 = 100"
  using rnd_fits [OF fits_of_int [of 1 50]] rnd_fits [OF fits_numeral [of "num.Bit0 (num.Bit0 (num.Bit1 (num.Bit0 (num.Bit0 (num.Bit1 num.One)))))" 50]]
  by (simp_all add: contextual_def)

lemma rsi_value_bounds:
  assumes "0 \<le> g" and "0 \<le> l"
  shows "0 \<le> rsi_value g l \<and> rsi_value g l \<le> 100"
proof (cases "g = 0 \<or> l = 0")
  case True
  then show ?thesis by (auto simp: rsi_value_def)
next
  case False
  define rs where "rs = contextual (cdiv g l)"
  have "0 \<le> rs" using assms by (simp add: rs_def dec_intros)
  then have "1 \<le> cadd 1 rs" using d50.r_ge_fixed [of 1 "1 + rs"] by (simp add: cadd_def)
  then have q: "0 \<le> 100 / cadd 1 rs" "100 / cadd 1 rs \<le> 100" by (simp_all add: divide_le_eq)
  then have "0 \<le> cdiv 100 (cadd 1 rs)" "cdiv 100 (cadd 1 rs) \<le> 100"
    using d50.r_le_fixed [of "100 / cadd 1 rs" 100] by (simp_all add: cdiv_def d50.r_nonneg)
  then have "0 \<le> csub 100 (cdiv 100 (cadd 1 rs))" "csub 100 (cdiv 100 (cadd 1 rs)) \<le> 100"
    using d50.r_le_fixed [of "100 - cdiv 100 (cadd 1 rs)" 100] by (simp_all add: csub_def d50.r_nonneg)
  then show ?thesis using False by (simp add: rsi_value_def Let_def rs_def)
qed

lemma rsi_states_nonneg:
  "(case rsi_seed (1 + int k) xs of (g, l) \<Rightarrow> 0 \<le> g \<and> 0 \<le> l)"
  "(case s of (g, l) \<Rightarrow> 0 \<le> g \<and> 0 \<le> l) \<Longrightarrow> (case rsi_step (1 + int k) x s of (g, l) \<Rightarrow> 0 \<le> g \<and> 0 \<le> l)"
  by (auto simp: rsi_seed_def rsi_step_def Let_def list_all_iff intro!: dec_intros split: prod.splits)

lemma rsi_values_bounds:
  assumes "1 \<le> p" and "i < length vs" and "rsi_values p vs ! i = Some v"
  shows "0 \<le> v \<and> v \<le> 100"
proof -
  obtain k where p: "p = 1 + int k" using assms(1) by (metis zle_iff_zadd)
  show ?thesis
    by (rule rsi.vals_invariant [of "\<lambda>_. True" vs k "\<lambda>(g, l). 0 \<le> g \<and> 0 \<le> l" "\<lambda>v. 0 \<le> v \<and> v \<le> 100" i])
      (use assms(2,3) rsi_states_nonneg rsi_value_bounds in \<open>auto simp: p list_all_iff\<close>)
qed

lemma true_range_loop_nonneg:
  "list_all (\<lambda>c. c_low c \<le> c_high c) cs \<Longrightarrow> list_all (\<lambda>v. 0 \<le> v) (true_range_loop p cs)"
  by (induction cs arbitrary: p)
    (auto simp: Let_def le_max_iff_disj intro!: d50.r_nonneg dec_intros split: option.splits)

lemma atr_values_nonneg:
  assumes "1 \<le> p" and "list_all (\<lambda>c. c_low c \<le> c_high c) cs"
    and "i < length cs" and "atr_values p cs ! i = Some v"
  shows "0 \<le> v"
proof -
  obtain k where p: "p = 1 + int k" using assms(1) by (metis zle_iff_zadd)
  show ?thesis
    by (rule atr.vals_invariant [of "\<lambda>v. 0 \<le> v" cs k "\<lambda>v. 0 \<le> v" "\<lambda>v. 0 \<le> v" i])
      (use assms(2-4) true_range_loop_nonneg in
        \<open>auto simp: p true_ranges_def atr_step_def mean_seed_def intro!: dec_intros d50.r_nonneg\<close>)
qed

text \<open>One EMA step stays between the previous value and the new input, once both fit the context.\<close>

lemma ema_alpha:
  assumes "2 \<le> p"
  shows "0 \<le> contextual (cdiv 2 (of_int (p + 1)))" "contextual (cdiv 2 (of_int (p + 1))) \<le> 7 / 10"
proof -
  have "2 / of_int (p + 1) \<le> (7 / 10 :: rat)" using assms by (simp add: divide_le_eq)
  moreover have "contextual (7 / 10) = 7 / 10"
    unfolding contextual_def by (rule rnd_fits) (rule fitsI [of _ 7 "- 1"], simp_all add: power_int_def)
  ultimately have "contextual (2 / of_int (p + 1)) \<le> 7 / 10" by (rule d50.r_le_fixed)
  then show "contextual (cdiv 2 (of_int (p + 1))) \<le> 7 / 10" by (simp only: cdiv_def d50.r_idem)
  show "0 \<le> contextual (cdiv 2 (of_int (p + 1)))" using assms by (simp add: cdiv_def d50.r_nonneg)
qed

lemma scaled_rounding:
  assumes "0 \<le> a" and "a \<le> 7 / 10" and "0 \<le> d"
  shows "0 \<le> cmul a (contextual d)" and "cmul a (contextual d) \<le> d"
proof -
  have e: "eps50 \<le> 1 / 1000" "0 \<le> eps50" by (rule d50.eps_small, rule d50.eps_nonneg)
  have d: "0 \<le> contextual d" "contextual d \<le> d * (1 + 1 / 1000)"
    using d50.r_nonneg [OF assms(3)] d50.r_upper [OF assms(3)] mult_left_mono [OF e(1) assms(3)]
    by (simp_all add: algebra_simps)
  have "a * contextual d \<le> 7 / 10 * (d * (1 + 1 / 1000))"
    using assms d by (intro mult_mono) simp_all
  then have m: "a * contextual d \<le> d * (3 / 4)" using assms(3) by simp
  have nn: "0 \<le> a * contextual d" using assms d by simp
  then show "0 \<le> cmul a (contextual d)" by (simp add: cmul_def d50.r_nonneg)
  have "contextual (a * contextual d) \<le> a * contextual d * (1 + 1 / 1000)"
    using d50.r_upper [OF nn] mult_left_mono [OF e(1) nn] by (simp add: algebra_simps)
  also have "\<dots> \<le> d" using m assms(3) by simp
  finally show "cmul a (contextual d) \<le> d" by (simp add: cmul_def)
qed

lemma ema_step_between:
  assumes "2 \<le> p" and prev: "contextual prev = prev" and v: "contextual v = v"
  shows "min prev v \<le> ema_step p v prev \<and> ema_step p v prev \<le> max prev v"
proof -
  define a where "a = contextual (cdiv 2 (of_int (p + 1)))"
  note al = ema_alpha [OF assms(1), folded a_def]
  have step: "ema_step p v prev = contextual (prev + cmul a (csub v prev))"
    by (simp add: ema_step_def Let_def a_def cadd_def d50.r_idem)
  show ?thesis
  proof (cases "prev \<le> v")
    case True
    then have "0 \<le> v - prev" by simp
    from scaled_rounding [OF al this]
    have "prev \<le> prev + cmul a (csub v prev)" "prev + cmul a (csub v prev) \<le> v" by (simp_all add: csub_def)
    then show ?thesis unfolding step
      using d50.r_ge_fixed [OF _ prev] d50.r_le_fixed [OF _ v] True by simp
  next
    case False
    then have d: "0 \<le> prev - v" by simp
    have "cmul a (csub v prev) = - cmul a (contextual (prev - v))"
      using d50.r_minus [of "prev - v"] d50.r_minus [of "a * contextual (prev - v)"]
      by (simp add: csub_def cmul_def)
    with scaled_rounding [OF al d]
    have "prev + cmul a (csub v prev) \<le> prev" "v \<le> prev + cmul a (csub v prev)" by simp_all
    then show ?thesis unfolding step
      using d50.r_ge_fixed [OF _ v] d50.r_le_fixed [OF _ prev] False by simp
  qed
qed

section \<open>MACD never fails on a chronological series\<close>

definition macd_parameters :: "int \<Rightarrow> int \<Rightarrow> int \<Rightarrow> parameters" where
  "macd_parameters fast slow signal =
     [(''fast_period'', P_Int fast), (''signal_period'', P_Int signal), (''slow_period'', P_Int slow)]"

lemmas descriptor_eval = make_descriptor_def normalize_parameters_def Let_def strip_def safe_identifier_def
  is_space_def is_alnum_def is_safe_char_def is_upper_def is_lower_def is_digit_def

lemma make_macd_iff:
  "make_macd f sl g = Inr m \<longleftrightarrow> 1 \<le> f \<and> f < sl \<and> 1 \<le> g \<and>
     m = \<lparr>macd_fast = f, macd_slow = sl, macd_signal = g, macd_descriptor = \<lparr>ds_name = ''macd'',
            ds_version = ''1'', ds_parameters = macd_parameters f sl g, ds_schema_version = 1\<rparr>\<rparr>"
proof -
  have "make_descriptor ''macd'' ''1'' [(''fast_period'', P_Int f), (''slow_period'', P_Int sl), (''signal_period'', P_Int g)] 1
      = Inr \<lparr>ds_name = ''macd'', ds_version = ''1'', ds_parameters = macd_parameters f sl g, ds_schema_version = 1\<rparr>"
    by (simp add: descriptor_eval macd_parameters_def sort_key_def insort_key_def less_char_def less_eq_char_def)
  then show ?thesis by (auto simp: make_macd_def)
qed

lemma macd_descriptors:
  "make_descriptor ''macd_line'' ''1'' (macd_parameters f sl g) 1 = Inr \<lparr>ds_name = ''macd_line'',
     ds_version = ''1'', ds_parameters = macd_parameters f sl g, ds_schema_version = 1\<rparr>"
  "make_descriptor ''macd_signal'' ''1'' (macd_parameters f sl g) 1 = Inr \<lparr>ds_name = ''macd_signal'',
     ds_version = ''1'', ds_parameters = macd_parameters f sl g, ds_schema_version = 1\<rparr>"
  "make_descriptor ''macd_histogram'' ''1'' (macd_parameters f sl g) 1 = Inr \<lparr>ds_name = ''macd_histogram'',
     ds_version = ''1'', ds_parameters = macd_parameters f sl g, ds_schema_version = 1\<rparr>"
  by (simp_all add: descriptor_eval macd_parameters_def less_char_def less_eq_char_def)

lemma subtract_columns_ok:
  assumes "list_all (\<lambda>(a, b). b \<noteq> None \<longrightarrow> a \<noteq> None) ps"
  shows "subtract_columns ps =
    Inr (map (\<lambda>(a, b). case b of None \<Rightarrow> None | Some y \<Rightarrow> Some (contextual (csub (the a) y))) ps)"
proof -
  let ?f = "\<lambda>(a, b) acc. case b of None \<Rightarrow> Inr (acc @ [None])
       | Some y \<Rightarrow> res_bind (required a) (\<lambda>x. Inr (acc @ [Some (contextual (csub x y))]))"
  have "res_fold ?f ps acc = Inr (acc @
      map (\<lambda>(a, b). case b of None \<Rightarrow> None | Some y \<Rightarrow> Some (contextual (csub (the a) y))) ps)" for acc
    using assms by (induction ps arbitrary: acc) (auto simp: required_def split: option.splits)
  then show ?thesis by (simp add: subtract_columns_def)
qed

lemma filter_suffix:
  assumes "length xs = length ys"
    and "\<And>i. i < length ys \<Longrightarrow> P (ys ! i) \<longleftrightarrow> n \<le> i"
  shows "filter (\<lambda>(x, y). P y) (zip xs ys) = drop n (zip xs ys)"
  using assms
proof (induction xs ys arbitrary: n rule: list_induct2)
  case Nil
  then show ?case by simp
next
  case (Cons x xs y ys)
  have P: "i < length ys \<Longrightarrow> P (ys ! i) \<longleftrightarrow> n - 1 \<le> i" for i using Cons.prems [of "Suc i"] by auto
  have y: "P y \<longleftrightarrow> n = 0" using Cons.prems [of 0] by simp
  from Cons.IH [OF P] y show ?case by (cases n) auto
qed

definition column_difference :: "decimal option list \<Rightarrow> decimal option list \<Rightarrow> decimal option list" where
  "column_difference xs ys =
     map (\<lambda>(a, b). case b of None \<Rightarrow> None | Some y \<Rightarrow> Some (contextual (csub (the a) y))) (zip xs ys)"

lemma column_difference_length [simp]: "length xs = length ys \<Longrightarrow> length (column_difference xs ys) = length ys"
  by (simp add: column_difference_def)

lemma column_difference_None:
  "length xs = length ys \<Longrightarrow> i < length ys \<Longrightarrow> column_difference xs ys ! i = None \<longleftrightarrow> ys ! i = None"
  by (auto simp: column_difference_def split: option.splits)

lemma subtract_zip_ok:
  assumes "length xs = length ys"
    and "\<And>i. i < length ys \<Longrightarrow> ys ! i \<noteq> None \<Longrightarrow> xs ! i \<noteq> None"
  shows "subtract_columns (zip xs ys) = Inr (column_difference xs ys)"
  unfolding column_difference_def
  by (rule subtract_columns_ok) (use assms in \<open>auto simp: list_all_length\<close>)

lemma warm_column:
  assumes "length ts = length vs" and "chain (<) ts" and "\<And>i. i < length vs \<Longrightarrow> vs ! i = None \<longleftrightarrow> i < w"
  shows "\<exists>s. aligned_series d (int w) ts vs = Inr s \<and> map ip_time (is_points s) = ts
    \<and> map ip_value (is_points s) = vs \<and> is_warmup s = int w"
proof -
  have "list_all (\<lambda>v. v = None) (take (min w (length vs)) vs)"
    "list_all (\<lambda>v. v \<noteq> None) (drop (min w (length vs)) vs)"
    using assms(3) by (auto simp: list_all_length min_def simp del: not_None_eq)
  from aligned_series_ok [OF assms(1,2) this] assms(1) show ?thesis
    by (simp add: comp_def case_prod_unfold)
qed

lemma ema_calculate_ok:
  assumes "chain (\<lambda>l r. sp_time l < sp_time r) source"
  shows "\<exists>e s. make_ema (1 + int k) = Inr e \<and> ema_calculate e source = Inr s
    \<and> map ip_value (is_points s) = ema_values (1 + int k) (map sp_value source)"
proof -
  obtain e where e: "make_ema (1 + int k) = Inr e" by (simp add: make_ema_iff)
  have "\<exists>s. aligned_series (ema_descriptor e) (int k) (map sp_time source)
        (ema_values (1 + int k) (map sp_value source)) = Inr s
      \<and> map ip_time (is_points s) = map sp_time source
      \<and> map ip_value (is_points s) = ema_values (1 + int k) (map sp_value source) \<and> is_warmup s = int k"
    by (rule warm_column) (use assms ema.warm_up [of _ "map sp_value source" k] in \<open>simp_all add: series_times\<close>)
  with e show ?thesis by (auto simp: make_ema_iff ema_calculate_def)
qed

text \<open>The three columns of MACD on a column of values.\<close>

definition macd_line_of :: "nat \<Rightarrow> nat \<Rightarrow> decimal list \<Rightarrow> decimal option list" where
  "macd_line_of kf ks vs = column_difference (ema_values (1 + int kf) vs) (ema_values (1 + int ks) vs)"

definition macd_signal_of :: "nat \<Rightarrow> nat \<Rightarrow> nat \<Rightarrow> decimal list \<Rightarrow> decimal option list" where
  "macd_signal_of kf ks kg vs =
     replicate (min ks (length vs)) None @ ema_values (1 + int kg) (map the (drop ks (macd_line_of kf ks vs)))"

lemma macd_line_None: "i < length vs \<Longrightarrow> macd_line_of kf ks vs ! i = None \<longleftrightarrow> i < ks"
  by (simp add: macd_line_of_def column_difference_None ema.vals_length ema.warm_up)

lemma macd_line_length [simp]: "length (macd_line_of kf ks vs) = length vs"
  by (simp add: macd_line_of_def)

lemma macd_signal_length [simp]: "length (macd_signal_of kf ks kg vs) = length vs"
  by (simp add: macd_signal_of_def)

lemma macd_signal_None:
  "i < length vs \<Longrightarrow> macd_signal_of kf ks kg vs ! i = None \<longleftrightarrow> i < ks + kg"
  by (auto simp: macd_signal_of_def nth_append ema.warm_up min_def)

lemma compact_columns:
  assumes "length ps = length vs"
  shows "map sp_time (map (\<lambda>(p, v). \<lparr>sp_time = sp_time p, sp_value = the v\<rparr>) (zip ps vs)) = map sp_time ps"
    and "map sp_value (map (\<lambda>(p, v). \<lparr>sp_time = sp_time p, sp_value = the v\<rparr>) (zip ps vs)) = map the vs"
  using assms by (induction ps vs rule: list_induct2) simp_all

lemma macd_bundle:
  assumes "map ip_time (is_points b) = map ip_time (is_points a)"
    and "map ip_time (is_points c) = map ip_time (is_points a)"
  shows "make_bundle d [(''macd'', a), (''signal'', b), (''histogram'', c)] =
    Inr \<lparr>ib_descriptor = d, ib_components = [(''macd'', a), (''signal'', b), (''histogram'', c)]\<rparr>"
  using assms by (simp add: make_bundle_def check_components_def descriptor_eval)

lemma zip_strict_ok: "length xs = length ys \<Longrightarrow> zip_strict xs ys = Inr (zip xs ys)"
  by (simp add: zip_strict_def)

lemma macd_calculate_ok:
  assumes m: "make_macd (1 + int kf) (1 + int ks) (1 + int kg) = Inr m"
    and c: "chain (\<lambda>l r. sp_time l < sp_time r) source"
  shows "\<exists>b ml sg hs. macd_calculate m source = Inr b
    \<and> ib_components b = [(''macd'', ml), (''signal'', sg), (''histogram'', hs)]
    \<and> map ip_value (is_points ml) = macd_line_of kf ks (map sp_value source)
    \<and> map ip_value (is_points sg) = macd_signal_of kf ks kg (map sp_value source)
    \<and> map ip_value (is_points hs) =
        column_difference (macd_line_of kf ks (map sp_value source)) (macd_signal_of kf ks kg (map sp_value source))"
proof -
  let ?vs = "map sp_value source" and ?ts = "map sp_time source"
  let ?ml = "macd_line_of kf ks ?vs" and ?sg = "macd_signal_of kf ks kg ?vs"
  let ?hs = "column_difference ?ml ?sg"
  let ?compact = "map (\<lambda>(p, v). \<lparr>sp_time = sp_time p, sp_value = the v\<rparr>) (filter (\<lambda>(p, v). v \<noteq> None) (zip source ?ml))"
  have lt: "kf < ks" and mm: "macd_fast m = 1 + int kf" "macd_slow m = 1 + int ks"
    "macd_signal m = 1 + int kg"
    "ds_parameters (macd_descriptor m) = macd_parameters (1 + int kf) (1 + int ks) (1 + int kg)"
    using m by (auto simp: make_macd_iff)
  obtain e1 s1 where e1: "make_ema (1 + int kf) = Inr e1" "ema_calculate e1 source = Inr s1"
      "map ip_value (is_points s1) = ema_values (1 + int kf) ?vs" using ema_calculate_ok [OF c] by blast
  obtain e2 s2 where e2: "make_ema (1 + int ks) = Inr e2" "ema_calculate e2 source = Inr s2"
      "map ip_value (is_points s2) = ema_values (1 + int ks) ?vs" using ema_calculate_ok [OF c] by blast
  have line: "subtract_columns (zip (ema_values (1 + int kf) ?vs) (ema_values (1 + int ks) ?vs)) = Inr ?ml"
    unfolding macd_line_of_def by (rule subtract_zip_ok) (use lt in \<open>auto simp: ema.warm_up\<close>)
  have suffix: "filter (\<lambda>(p, v). v \<noteq> None) (zip source ?ml) = drop ks (zip source ?ml)"
    by (rule filter_suffix) (auto simp: macd_line_None)
  have ct: "map sp_time ?compact = drop ks ?ts" and cv: "map sp_value ?compact = map the (drop ks ?ml)"
    unfolding suffix drop_zip by (simp_all only: compact_columns length_drop macd_line_length length_map drop_map)
  have "chain (<) (drop ks ?ts)"
    using series_times [OF c] chain_append [of "(<)" "take ks ?ts" "drop ks ?ts"] by (simp del: take_map drop_map)
  then have cc: "chain (\<lambda>l r. sp_time l < sp_time r) ?compact" by (simp only: ct flip: chain_map)
  obtain e3 s3 where e3: "make_ema (1 + int kg) = Inr e3" "ema_calculate e3 ?compact = Inr s3"
      "map ip_value (is_points s3) = ema_values (1 + int kg) (map the (drop ks ?ml))"
    using ema_calculate_ok [OF cc, of kg] unfolding cv by blast
  have signal: "replicate (nat (min (int ks) (int (length source)))) None @
      ema_values (1 + int kg) (map the (drop ks ?ml)) = ?sg"
    by (simp add: macd_signal_of_def flip: of_nat_min)
  have hist: "subtract_columns (zip ?ml ?sg) = Inr ?hs"
    by (rule subtract_zip_ok) (auto simp: macd_line_None macd_signal_None)
  have n: "length ?ml = length source" "length ?sg = length source" "length ?hs = length source" by simp_all
  obtain ml where ml: "aligned_series d (int ks) ?ts ?ml = Inr (ml d)" "map ip_value (is_points (ml d)) = ?ml"
      "map ip_time (is_points (ml d)) = ?ts" for d
    using warm_column [OF _ series_times [OF c], of ?ml ks] by (simp add: macd_line_None) metis
  obtain sg where sg: "aligned_series d (int ks + int kg) ?ts ?sg = Inr (sg d)" "map ip_value (is_points (sg d)) = ?sg"
      "map ip_time (is_points (sg d)) = ?ts" for d
    using warm_column [OF _ series_times [OF c], of ?sg "ks + kg"] by (simp add: macd_signal_None) metis
  obtain hs where hs: "aligned_series d (int ks + int kg) ?ts ?hs = Inr (hs d)" "map ip_value (is_points (hs d)) = ?hs"
      "map ip_time (is_points (hs d)) = ?ts" for d
    using warm_column [OF _ series_times [OF c], of ?hs "ks + kg"]
    by (simp add: macd_signal_None column_difference_None) metis
  have warm: "macd_slow m - 1 = int ks" "macd_slow m + macd_signal m - 2 = int ks + int kg" by (simp_all add: mm)
  note zips = zip_strict_ok [of source ?ml] zip_strict_ok [of ?ml ?sg]
    zip_strict_ok [of "ema_values (1 + int kf) ?vs" "ema_values (1 + int ks) ?vs"]
  show ?thesis
    unfolding macd_calculate_def
    by (simp add: warm mm e1 e2 e3 line zips hist signal macd_descriptors ml hs cc sg macd_bundle
        del: map_map not_None_eq)
qed

lemma aligned_series_values:
  assumes "aligned_series d w ts vs = Inr s"
  shows "map ip_value (is_points s) = vs"
proof -
  have "length ts = length vs" and "is_points s = map (\<lambda>(t, v). \<lparr>ip_time = t, ip_value = v\<rparr>) (zip ts vs)"
    using assms by (auto simp: aligned_series_def zip_strict_def make_indicator_series_def Let_def)
  then show ?thesis by (simp add: comp_def case_prod_unfold)
qed

lemma rsi_values_length: "1 \<le> p \<Longrightarrow> length (rsi_values p vs) = length vs"
  using rsi.vals_length [of "nat (p - 1)" vs] by simp

lemma atr_values_length: "1 \<le> p \<Longrightarrow> length (atr_values p cs) = length cs"
  using atr.vals_length [of "nat (p - 1)" cs] by simp

lemma atr_calculate_ok:
  assumes "make_candle_series cs = Inr cs"
  shows "\<exists>a s. make_atr (1 + int k) = Inr a \<and> atr_calculate a cs = Inr s
    \<and> map ip_value (is_points s) = atr_values (1 + int k) cs"
proof -
  obtain d where d: "make_descriptor ''atr'' ''1'' [(''period'', P_Int (1 + int k))] 1 = Inr d"
    by (simp add: descriptor_eval)
  have t: "chain (<) (map c_close_time cs)"
    using make_candle_series_Inr [OF assms] by (simp add: chain_map)
  have "\<exists>s. aligned_series d (int k) (map c_close_time cs) (atr_values (1 + int k) cs) = Inr s
      \<and> map ip_time (is_points s) = map c_close_time cs
      \<and> map ip_value (is_points s) = atr_values (1 + int k) cs \<and> is_warmup s = int k"
    by (rule warm_column) (use t atr.warm_up [of _ cs k] in simp_all)
  with d show ?thesis by (auto simp: make_atr_def atr_calculate_def)
qed

section \<open>Properties\<close>

text \<open>The EMA never looks ahead: on a chronological series the calculation succeeds, is aligned with the
  source, and evaluated as of an index it gives exactly the prefix of the full result.\<close>

theorem ema_no_look_ahead:
  assumes "make_ema p = Inr e" and "make_series source = Inr source" and "0 \<le> i" and "i < int (length source)"
  shows "\<exists>s. ema_calculate e source = Inr s
    \<and> map ip_time (is_points s) = map sp_time source
    \<and> (\<forall>j<length source. ip_value (is_points s ! j) = None \<longleftrightarrow> int j < p - 1)
    \<and> calculate_as_of (ema_calculate e) source i = Inr (s\<lparr>is_points := take (nat (i + 1)) (is_points s)\<rparr>)"
proof -
  obtain k where p: "p = 1 + int k" using assms(1) by (auto simp: make_ema_iff) (metis zle_iff_zadd)
  from ema_calculate_prefix [OF assms] obtain s where s: "ema_calculate e source = Inr s"
    "map ip_time (is_points s) = map sp_time source"
    "map ip_value (is_points s) = ema_values p (map sp_value source)"
    "calculate_as_of (ema_calculate e) source i = Inr (s\<lparr>is_points := take (nat (i + 1)) (is_points s)\<rparr>)" by blast
  have "ip_value (is_points s ! j) = None \<longleftrightarrow> int j < p - 1" if "j < length source" for j
  proof -
    have "length (is_points s) = length source" using s(2) by (metis length_map)
    then have "ip_value (is_points s ! j) = ema_values p (map sp_value source) ! j"
      using that s(3) by (metis nth_map)
    then show ?thesis using that ema.warm_up [of j "map sp_value source" k] by (simp add: p)
  qed
  with s show ?thesis by blast
qed

theorem ema_no_look_ahead_witness:
  "\<exists>e s. make_ema 2 = Inr e
     \<and> ema_calculate e [\<lparr>sp_time = 1, sp_value = 10\<rparr>, \<lparr>sp_time = 2, sp_value = 20\<rparr>] = Inr s
     \<and> ip_value (is_points s ! 0) = None"
proof -
  obtain e where e: "make_ema 2 = Inr e" by (simp add: make_ema_iff)
  from ema_no_look_ahead [OF e, of "[\<lparr>sp_time = 1, sp_value = 10\<rparr>, \<lparr>sp_time = 2, sp_value = 20\<rparr>]" 0] e
  show ?thesis by fastforce
qed

text \<open>Every available RSI value lies between 0 and 100.\<close>

theorem rsi_between_0_and_100:
  assumes "make_rsi p = Inr r" and "rsi_calculate r source = Inr s"
    and "pt \<in> set (is_points s)" and "ip_value pt = Some v"
  shows "0 \<le> v \<and> v \<le> 100"
proof -
  have p: "1 \<le> p" "rsi_period r = p" using assms(1) by (auto simp: make_rsi_def)
  have "map ip_value (is_points s) = rsi_values p (map sp_value source)"
    using assms(2) aligned_series_values by (simp add: rsi_calculate_def p)
  then have "Some v \<in> set (rsi_values p (map sp_value source))"
    using assms(3,4) by (metis image_eqI list.set_map)
  then obtain j where "j < length (rsi_values p (map sp_value source))" "rsi_values p (map sp_value source) ! j = Some v"
    by (auto simp: in_set_conv_nth)
  then show ?thesis using rsi_values_bounds [OF p(1)] rsi_values_length [OF p(1)] by metis
qed

definition example_closes :: decimal_series where
  "example_closes = [\<lparr>sp_time = 1, sp_value = 10\<rparr>, \<lparr>sp_time = 2, sp_value = 10\<rparr>]"

lemma example_rsi_values: "rsi_values 1 (map sp_value example_closes) = [None, Some 50]"
  by (simp add: example_closes_def rsi_values_def warmup_prefix_def changes_def rsi_seed_def
      rsi_value_def cops csum_def Let_def)

theorem rsi_between_0_and_100_witness:
  "\<exists>r s pt. make_rsi 1 = Inr r \<and> rsi_calculate r example_closes = Inr s \<and> pt \<in> set (is_points s)
     \<and> ip_value pt = Some 50 \<and> 0 \<le> (50 :: decimal) \<and> (50 :: decimal) \<le> 100"
proof -
  obtain r where r: "make_rsi 1 = Inr r" by (simp add: make_rsi_def descriptor_eval)
  have p: "rsi_period r = 1" using r by (auto simp: make_rsi_def)
  define s where "s = \<lparr>is_descriptor = rsi_descriptor r, is_warmup = 1,
      is_points = [\<lparr>ip_time = 1, ip_value = None\<rparr>, \<lparr>ip_time = 2, ip_value = Some 50\<rparr>]\<rparr>"
  have t: "map sp_time example_closes = [1, 2]" by (simp add: example_closes_def)
  have s: "rsi_calculate r example_closes = Inr s"
    unfolding rsi_calculate_def p example_rsi_values t
    by (simp add: aligned_series_def zip_strict_def make_indicator_series_def s_def)
  have pt: "\<lparr>ip_time = 2, ip_value = Some 50\<rparr> \<in> set (is_points s)" by (simp add: s_def)
  from rsi_between_0_and_100 [OF r s pt, of 50] show ?thesis
    using r s pt by (intro exI [of _ r] exI [of _ s] exI [of _ "\<lparr>ip_time = 2, ip_value = Some 50\<rparr>"]) simp
qed

text \<open>Every available ATR value of a series of valid candles is nonnegative.\<close>

theorem atr_nonnegative:
  assumes "make_atr p = Inr a" and "list_all candle_ok cs" and "atr_calculate a cs = Inr s"
    and "pt \<in> set (is_points s)" and "ip_value pt = Some v"
  shows "0 \<le> v"
proof -
  have p: "1 \<le> p" "atr_period a = p" using assms(1) by (auto simp: make_atr_def)
  have "map ip_value (is_points s) = atr_values p cs"
    using assms(3) aligned_series_values by (simp add: atr_calculate_def p)
  then have "Some v \<in> set (atr_values p cs)" using assms(4,5) by (metis image_eqI list.set_map)
  then obtain j where "j < length (atr_values p cs)" "atr_values p cs ! j = Some v"
    by (auto simp: in_set_conv_nth)
  moreover have "list_all (\<lambda>c. c_low c \<le> c_high c) cs" using assms(2) by (auto simp: list_all_iff candle_ok_def)
  ultimately show ?thesis using atr_values_nonneg [OF p(1)] atr_values_length [OF p(1)] by metis
qed

theorem atr_nonnegative_witness:
  "\<exists>a s. make_atr 1 = Inr a \<and> atr_calculate a [example_raw_candle\<lparr>c_symbol := ''BTC/USDT'', c_close_time := 59999000\<rparr>] = Inr s
     \<and> (\<forall>pt\<in>set (is_points s). \<forall>v. ip_value pt = Some v \<longrightarrow> 0 \<le> v)"
proof -
  let ?c = "example_raw_candle\<lparr>c_symbol := ''BTC/USDT'', c_close_time := 59999000\<rparr>"
  obtain a where a: "make_atr 1 = Inr a" by (simp add: make_atr_def descriptor_eval)
  have ok: "list_all candle_ok [?c]" by code_simp
  have "make_candle_series [?c] = Inr [?c]" by (simp add: make_candle_series_def example_raw_candle_def)
  then obtain s where "atr_calculate a [?c] = Inr s"
    using atr_calculate_ok [of "[?c]" 0] a by auto
  with a atr_nonnegative [OF a ok] show ?thesis by blast
qed

text \<open>MACD never fails on a chronological series, its lines become available exactly when their slowest
  input does, and its histogram is the rounded difference of the other two columns.\<close>

theorem macd_total_and_aligned:
  assumes "make_macd f sl g = Inr m" and "make_series source = Inr source"
  shows "\<exists>b ml sg hs. macd_calculate m source = Inr b
    \<and> ib_components b = [(''macd'', ml), (''signal'', sg), (''histogram'', hs)]
    \<and> map ip_value (is_points hs) = column_difference (map ip_value (is_points ml)) (map ip_value (is_points sg))
    \<and> (\<forall>i<length source. (map ip_value (is_points ml) ! i = None \<longleftrightarrow> int i < sl - 1)
        \<and> (map ip_value (is_points sg) ! i = None \<longleftrightarrow> int i < sl + g - 2))"
proof -
  have "1 \<le> f" "1 \<le> sl" "1 \<le> g" using assms(1) by (auto simp: make_macd_iff)
  then obtain kf ks kg where k: "f = 1 + int kf" "sl = 1 + int ks" "g = 1 + int kg" by (metis zle_iff_zadd)
  have ch: "chain (\<lambda>l r. sp_time l < sp_time r) source" using assms(2) by simp
  from macd_calculate_ok [OF assms(1) [unfolded k] ch] obtain b ml sg hs where
    b: "macd_calculate m source = Inr b" "ib_components b = [(''macd'', ml), (''signal'', sg), (''histogram'', hs)]"
      "map ip_value (is_points ml) = macd_line_of kf ks (map sp_value source)"
      "map ip_value (is_points sg) = macd_signal_of kf ks kg (map sp_value source)"
      "map ip_value (is_points hs) =
        column_difference (macd_line_of kf ks (map sp_value source)) (macd_signal_of kf ks kg (map sp_value source))"
    by blast
  show ?thesis
    by (rule exI [of _ b], rule exI [of _ ml], rule exI [of _ sg], rule exI [of _ hs])
      (auto simp: b macd_line_None macd_signal_None k)
qed

theorem macd_total_and_aligned_witness:
  "\<exists>m b. make_macd 1 2 1 = Inr m \<and> macd_calculate m example_closes = Inr b"
proof -
  obtain m where m: "make_macd 1 2 1 = Inr m" by (simp add: make_macd_iff)
  from macd_total_and_aligned [OF m, of example_closes] m show ?thesis by (auto simp: example_closes_def)
qed

text \<open>One EMA step of period at least two stays between the previous value and the new input, rounding
  included.\<close>

theorem ema_step_stays_between:
  assumes "2 \<le> p" and "contextual prev = prev" and "contextual v = v"
  shows "min prev v \<le> ema_step p v prev \<and> ema_step p v prev \<le> max prev v"
  by (rule ema_step_between [OF assms])

theorem ema_step_stays_between_witness: "1 \<le> ema_step 2 100 1 \<and> ema_step 2 100 1 \<le> 100"
  using ema_step_stays_between [of 2 1 100] by simp

end
