(* ===== verification/Regime.thy ===== *)
theory Regime
  imports Indicators
begin

text \<open>
  Market-regime classification: the batch detector of \<^verbatim>\<open>app/indicators/regime.py\<close> and the
  fixed-memory accumulator of \<^verbatim>\<open>app/indicators/regime_incremental.py\<close>, and the proof that feeding the
  accumulator one candle at a time gives exactly the points of the batch detector.
\<close>

section \<open>Policy, points and series\<close>

datatype regime_kind = WARMUP | TREND | RANGE | VOLATILE

datatype trend_direction = NO_DIRECTION | UP | DOWN

record regime_policy =
  rp_fast :: int
  rp_slow :: int
  rp_atr :: int
  rp_volatile_ratio :: decimal
  rp_trend_threshold :: decimal
  rp_schema_version :: int
  rp_descriptor :: descriptor

definition make_policy :: "int \<Rightarrow> int \<Rightarrow> int \<Rightarrow> decimal \<Rightarrow> decimal \<Rightarrow> int \<Rightarrow> regime_policy result" where
  "make_policy fast slow atr_p volatile_ratio trend_threshold schema_version =
     require (1 \<le> fast \<and> 1 \<le> slow \<and> 1 \<le> atr_p) InvalidIndicatorInput (
     require (\<not> slow \<le> fast) InvalidIndicatorInput (
     require (\<not> (volatile_ratio \<le> 0 \<or> trend_threshold \<le> 0)) InvalidIndicatorInput (
     require (schema_version \<in> {1}) InvalidIndicatorInput (
     res_bind (make_descriptor ''market_regime'' ''1''
       [(''atr_period'', P_Int atr_p), (''fast_ema_period'', P_Int fast), (''slow_ema_period'', P_Int slow),
        (''trend_strength_threshold'', P_Decimal trend_threshold),
        (''volatile_atr_ratio'', P_Decimal volatile_ratio)] 1) (\<lambda>d.
       Inr \<lparr>rp_fast = fast, rp_slow = slow, rp_atr = atr_p, rp_volatile_ratio = volatile_ratio,
            rp_trend_threshold = trend_threshold, rp_schema_version = schema_version,
            rp_descriptor = d\<rparr>)))))"

definition regime_warmup :: "regime_policy \<Rightarrow> int" where
  "regime_warmup p = max (rp_slow p - 1) (rp_atr p - 1)"

record regime_point =
  gp_time :: instant
  gp_regime :: regime_kind
  gp_direction :: trend_direction
  gp_fast :: "decimal option"
  gp_slow :: "decimal option"
  gp_atr :: "decimal option"
  gp_ratio :: "decimal option"
  gp_strength :: "decimal option"

definition make_regime_point :: "regime_point \<Rightarrow> regime_point result" where
  "make_regime_point p =
     (let metrics = [gp_fast p, gp_slow p, gp_atr p, gp_ratio p, gp_strength p] in
      if gp_regime p = WARMUP then
        require (gp_direction p = NO_DIRECTION \<and> list_all (\<lambda>v. v = None) metrics) InvalidIndicatorInput (Inr p)
      else
        require (list_all (\<lambda>v. v \<noteq> None) metrics) InvalidIndicatorInput (
        res_bind (required (gp_atr p)) (\<lambda>a. require (\<not> a < 0) InvalidIndicatorInput (
        res_bind (required (gp_ratio p)) (\<lambda>r. res_bind (required (gp_strength p)) (\<lambda>s.
        require (\<not> (r < 0 \<or> s < 0)) InvalidIndicatorInput (
        require (if gp_regime p = TREND then gp_direction p = UP \<or> gp_direction p = DOWN
                 else gp_direction p = NO_DIRECTION) InvalidIndicatorInput (Inr p))))))))"

record regime_series =
  gs_policy :: regime_policy
  gs_points :: "regime_point list"

definition make_regime_series :: "regime_policy \<Rightarrow> regime_point list \<Rightarrow> regime_series result" where
  "make_regime_series policy points =
     require (chain (\<lambda>l r. gp_time l < gp_time r) points) InvalidIndicatorInput (
     (let unavailable = nat (min (regime_warmup policy) (int (length points))) in
      require (list_all (\<lambda>p. gp_regime p = WARMUP) (take unavailable points)) InvalidIndicatorInput (
      require (list_all (\<lambda>p. gp_regime p \<noteq> WARMUP) (drop unavailable points)) InvalidIndicatorInput
        (Inr \<lparr>gs_policy = policy, gs_points = points\<rparr>))))"

section \<open>The batch detector\<close>

definition classify ::
    "decimal \<Rightarrow> decimal \<Rightarrow> decimal \<Rightarrow> decimal \<Rightarrow> regime_policy \<Rightarrow> regime_kind \<times> trend_direction" where
  "classify fast_ema slow_ema atr_ratio trend_strength policy =
     (if rp_volatile_ratio policy \<le> atr_ratio then (VOLATILE, NO_DIRECTION)
      else if rp_trend_threshold policy \<le> trend_strength \<and> fast_ema \<noteq> slow_ema
      then (TREND, if slow_ema < fast_ema then UP else DOWN)
      else (RANGE, NO_DIRECTION))"

definition warmup_point :: "candle \<Rightarrow> regime_point" where
  "warmup_point c = \<lparr>gp_time = c_close_time c, gp_regime = WARMUP, gp_direction = NO_DIRECTION,
     gp_fast = None, gp_slow = None, gp_atr = None, gp_ratio = None, gp_strength = None\<rparr>"

definition detect_point ::
    "regime_policy \<Rightarrow> candle \<Rightarrow> decimal option \<Rightarrow> decimal option \<Rightarrow> decimal option \<Rightarrow> regime_point result" where
  "detect_point policy c fast slow atr_v =
     (case (fast, slow, atr_v) of
        (Some f, Some s, Some a) \<Rightarrow>
          (let atr_ratio = contextual (cdiv a (c_close c));
               trend_strength = (if a = 0 then 0 else contextual (cdiv (cabs (csub f s)) a));
               (regime, direction) = classify f s atr_ratio trend_strength policy
           in make_regime_point \<lparr>gp_time = c_close_time c, gp_regime = regime, gp_direction = direction,
                gp_fast = Some f, gp_slow = Some s, gp_atr = Some a, gp_ratio = Some atr_ratio,
                gp_strength = Some trend_strength\<rparr>)
      | _ \<Rightarrow> make_regime_point (warmup_point c))"

definition regime_calculate :: "regime_policy \<Rightarrow> candle list \<Rightarrow> regime_series result" where
  "regime_calculate policy source =
     require (list_all (\<lambda>c. \<not> c_close c \<le> 0) source) InvalidIndicatorInput (
     res_bind (series_from_candles source F_close) (\<lambda>closes.
     res_bind (make_ema (rp_fast policy)) (\<lambda>e1. res_bind (ema_calculate e1 closes) (\<lambda>fast.
     res_bind (make_ema (rp_slow policy)) (\<lambda>e2. res_bind (ema_calculate e2 closes) (\<lambda>slow.
     res_bind (make_atr (rp_atr policy)) (\<lambda>a. res_bind (atr_calculate a source) (\<lambda>atr_s.
     res_bind (zip_strict source (map ip_value (is_points fast))) (\<lambda>cf.
     res_bind (zip_strict (map ip_value (is_points slow)) (map ip_value (is_points atr_s))) (\<lambda>sa.
     res_bind (zip_strict cf sa) (\<lambda>rows.
     res_bind (res_fold (\<lambda>((c, f), (s, a)) points.
        res_bind (detect_point policy c f s a) (\<lambda>p. Inr (points @ [p]))) rows []) (\<lambda>points.
     make_regime_series policy points))))))))))))"

definition regime_calculate_as_of :: "regime_policy \<Rightarrow> candle list \<Rightarrow> int \<Rightarrow> regime_series result" where
  "regime_calculate_as_of policy source as_of =
     res_bind (candle_series_prefix source as_of) (regime_calculate policy)"

section \<open>The accumulator\<close>

record accumulator =
  ra_policy :: regime_policy
  ra_count :: int
  ra_previous :: "candle option"
  ra_fast_seed :: decimal
  ra_slow_seed :: decimal
  ra_atr_seed :: decimal
  ra_fast :: "decimal option"
  ra_slow :: "decimal option"
  ra_atr :: "decimal option"

definition new_accumulator :: "regime_policy \<Rightarrow> accumulator result" where
  "new_accumulator policy =
     res_bind (make_policy (rp_fast policy) (rp_slow policy) (rp_atr policy) (rp_volatile_ratio policy)
        (rp_trend_threshold policy) (rp_schema_version policy)) (\<lambda>candidate.
     require (candidate = policy) InvalidIndicatorInput
       (Inr \<lparr>ra_policy = policy, ra_count = 0, ra_previous = None, ra_fast_seed = 0, ra_slow_seed = 0,
             ra_atr_seed = 0, ra_fast = None, ra_slow = None, ra_atr = None\<rparr>))"

definition point_for ::
    "regime_policy \<Rightarrow> candle \<Rightarrow> decimal option \<Rightarrow> decimal option \<Rightarrow> decimal option \<Rightarrow> regime_point result" where
  "point_for policy c fast slow atr_v =
     (if fast = None \<or> slow = None \<or> atr_v = None then make_regime_point (warmup_point c)
      else
        (let f = the fast; s = the slow; a = the atr_v;
             atr_ratio = contextual (cdiv a (c_close c));
             trend_strength = (if a = 0 then 0 else contextual (cdiv (cabs (csub f s)) a));
             (regime, direction) =
               (if rp_volatile_ratio policy \<le> atr_ratio then (VOLATILE, NO_DIRECTION)
                else if rp_trend_threshold policy \<le> trend_strength \<and> f \<noteq> s
                then (TREND, if s < f then UP else DOWN)
                else (RANGE, NO_DIRECTION))
         in make_regime_point \<lparr>gp_time = c_close_time c, gp_regime = regime, gp_direction = direction,
              gp_fast = fast, gp_slow = slow, gp_atr = atr_v, gp_ratio = Some atr_ratio,
              gp_strength = Some trend_strength\<rparr>))"

definition next_true_range :: "candle \<Rightarrow> candle option \<Rightarrow> decimal" where
  "next_true_range c previous =
     (let intrabar = csub (c_high c) (c_low c) in
      case previous of
        None \<Rightarrow> contextual intrabar
      | Some p \<Rightarrow> contextual (max intrabar
          (max (cabs (csub (c_high c) (c_close p))) (cabs (csub (c_low c) (c_close p))))))"

definition next_ema ::
    "decimal \<Rightarrow> int \<Rightarrow> int \<Rightarrow> decimal \<Rightarrow> decimal option \<Rightarrow> (decimal option \<times> decimal) result" where
  "next_ema close count period seed previous =
     (let seed' = (if count \<le> period then contextual (cadd seed close) else seed) in
      if count < period then Inr (None, seed')
      else if count = period then Inr (Some (contextual (cdiv seed' (of_int period))), seed')
      else case previous of
          None \<Rightarrow> Inl AssertionError
        | Some p \<Rightarrow>
            (let alpha = contextual (cdiv 2 (of_int (period + 1)))
             in Inr (Some (contextual (cadd p (cmul alpha (csub close p)))), seed')))"

definition next_atr ::
    "decimal \<Rightarrow> int \<Rightarrow> int \<Rightarrow> decimal \<Rightarrow> decimal option \<Rightarrow> (decimal option \<times> decimal) result" where
  "next_atr true_range count period seed previous =
     (let seed' = (if count \<le> period then contextual (cadd seed true_range) else seed) in
      if count < period then Inr (None, seed')
      else if count = period then Inr (Some (contextual (cdiv seed' (of_int period))), seed')
      else case previous of
          None \<Rightarrow> Inl AssertionError
        | Some p \<Rightarrow>
            Inr (Some (contextual (cdiv (cadd (cmul p (of_int (period - 1))) true_range) (of_int period))), seed'))"

definition accumulator_update :: "accumulator \<Rightarrow> candle \<Rightarrow> (accumulator \<times> regime_point) result" where
  "accumulator_update acc c =
     (let source = (case ra_previous acc of None \<Rightarrow> [c] | Some p \<Rightarrow> [p, c]) in
      res_bind (make_candle_series source) (\<lambda>_.
      require (\<not> c_close c \<le> 0) InvalidIndicatorInput (
      (let count = ra_count acc + 1;
           policy = ra_policy acc;
           true_range = next_true_range c (ra_previous acc)
       in res_bind (next_ema (c_close c) count (rp_fast policy) (ra_fast_seed acc) (ra_fast acc))
            (\<lambda>(fast_ema, fast_seed).
          res_bind (next_ema (c_close c) count (rp_slow policy) (ra_slow_seed acc) (ra_slow acc))
            (\<lambda>(slow_ema, slow_seed).
          res_bind (next_atr true_range count (rp_atr policy) (ra_atr_seed acc) (ra_atr acc))
            (\<lambda>(atr_v, atr_seed).
          res_bind (point_for policy c fast_ema slow_ema atr_v) (\<lambda>point.
            Inr (acc\<lparr>ra_count := count, ra_previous := Some c, ra_fast_seed := fast_seed,
                     ra_slow_seed := slow_seed, ra_atr_seed := atr_seed, ra_fast := fast_ema,
                     ra_slow := slow_ema, ra_atr := atr_v\<rparr>, point)))))))))"

text \<open>A stream of candles through one accumulator.\<close>

definition accumulate :: "regime_policy \<Rightarrow> candle list \<Rightarrow> (accumulator \<times> regime_point list) result" where
  "accumulate policy cs =
     res_bind (new_accumulator policy) (\<lambda>acc.
       res_fold (\<lambda>c (a, points). res_bind (accumulator_update a c) (\<lambda>(a', p). Inr (a', points @ [p])))
         cs (acc, []))"

section \<open>Both classify alike\<close>

lemma point_for_eq_detect: "point_for policy c f s a = detect_point policy c f s a"
  by (cases f; cases s; cases a)
    (auto simp: point_for_def detect_point_def classify_def Let_def)

definition plain_point ::
    "regime_policy \<Rightarrow> candle \<Rightarrow> decimal option \<Rightarrow> decimal option \<Rightarrow> decimal option \<Rightarrow> regime_point" where
  "plain_point policy c fast slow atr_v =
     (case (fast, slow, atr_v) of
        (Some f, Some s, Some a) \<Rightarrow>
          (let atr_ratio = contextual (cdiv a (c_close c));
               trend_strength = (if a = 0 then 0 else contextual (cdiv (cabs (csub f s)) a));
               (regime, direction) = classify f s atr_ratio trend_strength policy
           in \<lparr>gp_time = c_close_time c, gp_regime = regime, gp_direction = direction,
                gp_fast = Some f, gp_slow = Some s, gp_atr = Some a, gp_ratio = Some atr_ratio,
                gp_strength = Some trend_strength\<rparr>)
      | _ \<Rightarrow> warmup_point c)"

lemma detect_point_ok:
  assumes "0 < c_close c" and "\<And>v. a = Some v \<Longrightarrow> 0 \<le> v"
  shows "detect_point policy c f s a = Inr (plain_point policy c f s a)"
proof (cases "f = None \<or> s = None \<or> a = None")
  case True
  then show ?thesis
    by (auto simp: detect_point_def plain_point_def make_regime_point_def warmup_point_def split: option.splits)
next
  case False
  then obtain x y v where fsa: "f = Some x" "s = Some y" "a = Some v" by auto
  then have v: "0 \<le> v" using assms(2) by simp
  have "0 \<le> contextual (cdiv v (c_close c))" "0 \<le> contextual (cdiv (cabs (csub x y)) v)"
    using assms(1) v by (simp_all add: dec_intros)
  then show ?thesis using v
    by (auto simp: fsa detect_point_def plain_point_def make_regime_point_def required_def classify_def
        Let_def not_less)
qed

lemma plain_point_regime:
  "gp_regime (plain_point policy c f s a) = WARMUP \<longleftrightarrow> f = None \<or> s = None \<or> a = None"
  by (cases f; cases s; cases a) (auto simp: plain_point_def warmup_point_def classify_def Let_def)

lemma plain_point_time [simp]: "gp_time (plain_point policy c f s a) = c_close_time c"
  by (cases f; cases s; cases a) (auto simp: plain_point_def warmup_point_def classify_def Let_def)

section \<open>The state of the accumulator after a stream\<close>

definition policy_ok :: "regime_policy \<Rightarrow> bool" where
  "policy_ok p \<longleftrightarrow> make_policy (rp_fast p) (rp_slow p) (rp_atr p) (rp_volatile_ratio p)
     (rp_trend_threshold p) (rp_schema_version p) = Inr p"

lemma policy_okE:
  assumes "policy_ok p"
  obtains kf ks ka where "rp_fast p = 1 + int kf" "rp_slow p = 1 + int ks" "rp_atr p = 1 + int ka" "kf < ks"
proof -
  have f: "1 \<le> rp_fast p" "1 \<le> rp_slow p" "1 \<le> rp_atr p" "rp_fast p < rp_slow p"
    using assms by (auto simp: policy_ok_def make_policy_def)
  show ?thesis
    by (rule that [of "nat (rp_fast p - 1)" "nat (rp_slow p - 1)" "nat (rp_atr p - 1)"]) (use f in auto)
qed

lemma csum_snoc: "csum (vs @ [v]) = cadd (csum vs) v"
  by (simp add: csum_def)

lemma contextual_csum: "contextual (csum vs) = csum vs"
  by (induction vs rule: rev_induct) (simp_all add: csum_snoc, simp add: csum_def)

lemma next_ema_step:
  "next_ema v (1 + int (length vs)) (1 + int k) (csum (take (Suc k) vs)) (last_value (ema_values (1 + int k) vs)) =
     Inr (last_value (ema_values (1 + int k) (vs @ [v])), csum (take (Suc k) (vs @ [v])))"
proof -
  have l: "last_value (ema_values (1 + int k) (vs @ [v])) =
      (if length vs < k then None else Some (ema.state_after k (vs @ [v])))"
    by (simp add: ema.last_vals)
  consider "length vs < k" | "length vs = k" | "k < length vs" by linarith
  then show ?thesis
  proof cases
    case 1
    then show ?thesis unfolding l by (simp add: next_ema_def csum_snoc)
  next
    case 2
    then show ?thesis unfolding l by (simp add: next_ema_def csum_snoc ema.state_after_first mean_seed_def Let_def)
  next
    case 3
    then have "last_value (ema_values (1 + int k) vs) = Some (ema.state_after k vs)"
      by (simp add: ema.last_vals)
    with 3 show ?thesis unfolding l
      by (simp add: next_ema_def ema.state_after_snoc ema_step_def Let_def)
  qed
qed

definition last_candle :: "candle list \<Rightarrow> candle option" where
  "last_candle cs = (if cs = [] then None else Some (last cs))"

lemma true_ranges_snoc: "true_ranges (cs @ [c]) = true_ranges cs @ [next_true_range c (last_candle cs)]"
proof -
  have "true_range_loop p (cs @ [c]) = true_range_loop p cs @
      [if cs = [] then contextual (case p of None \<Rightarrow> csub (c_high c) (c_low c)
          | Some x \<Rightarrow> max (csub (c_high c) (c_low c)) (max (cabs (csub (c_high c) x)) (cabs (csub (c_low c) x))))
       else next_true_range c (Some (last cs))]" for p
    by (induction cs arbitrary: p) (auto simp: Let_def next_true_range_def)
  then show ?thesis by (auto simp: true_ranges_def last_candle_def next_true_range_def Let_def)
qed

lemma next_atr_step:
  "next_atr (next_true_range c (last_candle cs)) (1 + int (length cs)) (1 + int k)
       (csum (take (Suc k) (true_ranges cs))) (last_value (atr_values (1 + int k) cs)) =
     Inr (last_value (atr_values (1 + int k) (cs @ [c])), csum (take (Suc k) (true_ranges (cs @ [c]))))"
proof -
  let ?t = "next_true_range c (last_candle cs)"
  have n: "length (true_ranges cs) = length cs" by (simp add: true_ranges_def)
  have l: "last_value (atr_values (1 + int k) (cs @ [c])) =
      (if length cs < k then None else Some (atr.state_after k (cs @ [c])))"
    by (simp add: atr.last_vals)
  consider "length cs < k" | "length cs = k" | "k < length cs" by linarith
  then show ?thesis
  proof cases
    case 1
    then show ?thesis unfolding l by (simp add: next_atr_def csum_snoc true_ranges_snoc n)
  next
    case 2
    then show ?thesis unfolding l by (simp add: next_atr_def csum_snoc true_ranges_snoc n atr.state_after_first mean_seed_def Let_def)
  next
    case 3
    then have "last_value (atr_values (1 + int k) cs) = Some (atr.state_after k cs)"
      by (simp add: atr.last_vals)
    with 3 show ?thesis unfolding l
      by (simp add: next_atr_def atr.state_after_snoc atr_step_def Let_def true_ranges_snoc n)
  qed
qed

definition closes :: "candle list \<Rightarrow> decimal list" where
  "closes cs = map c_close cs"

definition accumulator_after :: "regime_policy \<Rightarrow> candle list \<Rightarrow> accumulator" where
  "accumulator_after p cs =
     \<lparr>ra_policy = p, ra_count = int (length cs), ra_previous = last_candle cs,
      ra_fast_seed = csum (take (nat (rp_fast p)) (closes cs)),
      ra_slow_seed = csum (take (nat (rp_slow p)) (closes cs)),
      ra_atr_seed = csum (take (nat (rp_atr p)) (true_ranges cs)),
      ra_fast = last_value (ema_values (rp_fast p) (closes cs)),
      ra_slow = last_value (ema_values (rp_slow p) (closes cs)),
      ra_atr = last_value (atr_values (rp_atr p) cs)\<rparr>"

definition stream_point :: "regime_policy \<Rightarrow> candle list \<Rightarrow> regime_point" where
  "stream_point p cs = plain_point p (last cs) (last_value (ema_values (rp_fast p) (closes cs)))
     (last_value (ema_values (rp_slow p) (closes cs))) (last_value (atr_values (rp_atr p) cs))"

lemma new_accumulator_ok: "policy_ok p \<Longrightarrow> new_accumulator p = Inr (accumulator_after p [])"
proof -
  assume p: "policy_ok p"
  then obtain kf ks ka where k: "rp_fast p = 1 + int kf" "rp_slow p = 1 + int ks" "rp_atr p = 1 + int ka"
    by (rule policy_okE)
  have "accumulator_after p [] = \<lparr>ra_policy = p, ra_count = 0, ra_previous = None, ra_fast_seed = 0,
      ra_slow_seed = 0, ra_atr_seed = 0, ra_fast = None, ra_slow = None, ra_atr = None\<rparr>"
    by (simp add: accumulator_after_def k last_candle_def closes_def true_ranges_def csum_def
        ema.last_vals atr.last_vals)
  then show ?thesis using p by (simp add: new_accumulator_def policy_ok_def)
qed

text \<open>A stream the classification accepts.\<close>

definition stream_ok :: "candle list \<Rightarrow> bool" where
  "stream_ok cs \<longleftrightarrow> make_candle_series cs = Inr cs \<and> list_all (\<lambda>c. 0 < c_close c) cs"

lemma chain_same: "chain (\<lambda>l r. f r = f l) (d # es) \<longleftrightarrow> list_all (\<lambda>c. f c = f d) es"
proof (induction es arbitrary: d)
  case (Cons e es)
  then show ?case by (cases "f e = f d") simp_all
qed simp

lemma make_candle_series_iff:
  "make_candle_series cs = Inr ds \<longleftrightarrow> ds = cs \<and> list_all c_is_closed cs
     \<and> chain (\<lambda>l r. series_identity r = series_identity l) cs
     \<and> chain (\<lambda>l r. c_open_time l < c_open_time r \<and> c_close_time l < c_close_time r) cs"
proof -
  have id: "(cs = [] \<or> list_all (\<lambda>c. series_identity c = series_identity (hd cs)) (tl cs))
      \<longleftrightarrow> chain (\<lambda>l r. series_identity r = series_identity l) cs"
    by (cases cs) (simp_all only: chain_same list.sel chain.simps simp_thms list.distinct)
  show ?thesis
    unfolding make_candle_series_def require_Inr_iff id not_le de_Morgan_disj sum.inject by blast
qed

lemma stream_ok_snoc:
  "stream_ok (cs @ [c]) \<longleftrightarrow> stream_ok cs \<and> 0 < c_close c
     \<and> make_candle_series (case last_candle cs of None \<Rightarrow> [c] | Some p \<Rightarrow> [p, c]) =
        Inr (case last_candle cs of None \<Rightarrow> [c] | Some p \<Rightarrow> [p, c])"
  by (auto simp: stream_ok_def make_candle_series_iff chain_snoc last_candle_def list_all_iff)

lemma last_atr_nonneg:
  assumes "policy_ok p" and "list_all candle_ok cs" and "last_value (atr_values (rp_atr p) cs) = Some v"
  shows "0 \<le> v"
proof -
  obtain ka where p: "rp_atr p = 1 + int ka" by (rule policy_okE [OF assms(1)])
  have lh: "list_all (\<lambda>c. c_low c \<le> c_high c) cs" using assms(2) by (auto simp: list_all_iff candle_ok_def)
  have "atr_values (rp_atr p) cs \<noteq> [] \<and> last (atr_values (rp_atr p) cs) = Some v"
    using assms(3) by (simp add: last_value_def split: if_splits)
  moreover from this have "cs \<noteq> []" using atr.vals_length [of ka "[]"] unfolding p by (metis length_0_conv)
  ultimately show ?thesis
    using atr_values_nonneg [of "rp_atr p" cs "length cs - 1" v] lh
    by (auto simp: last_conv_nth p atr.vals_length)
qed

lemma accumulator_update_ok:
  assumes p: "policy_ok p" and ok: "stream_ok (cs @ [c])" and cs: "list_all candle_ok (cs @ [c])"
  shows "accumulator_update (accumulator_after p cs) c =
    Inr (accumulator_after p (cs @ [c]), stream_point p (cs @ [c]))"
proof -
  obtain kf ks ka where k: "rp_fast p = 1 + int kf" "rp_slow p = 1 + int ks" "rp_atr p = 1 + int ka"
    using policy_okE [OF p] by metis
  have n: "nat (1 + int m) = Suc m" for m by simp
  have cl: "closes (cs @ [c]) = closes cs @ [c_close c]" "length (closes cs) = length cs"
    by (simp_all add: closes_def)
  note fast = next_ema_step [of "c_close c" "closes cs" kf, unfolded cl]
  note slow = next_ema_step [of "c_close c" "closes cs" ks, unfolded cl]
  have pt: "point_for p c (last_value (ema_values (1 + int kf) (closes cs @ [c_close c])))
      (last_value (ema_values (1 + int ks) (closes cs @ [c_close c])))
      (last_value (atr_values (1 + int ka) (cs @ [c]))) = Inr (stream_point p (cs @ [c]))"
    unfolding point_for_eq_detect stream_point_def k cl(1) last_snoc
    by (rule detect_point_ok) (use ok stream_ok_snoc last_atr_nonneg [OF p cs] k in auto)
  have src: "make_candle_series (case last_candle cs of None \<Rightarrow> [c] | Some p \<Rightarrow> [p, c]) =
      Inr (case last_candle cs of None \<Rightarrow> [c] | Some p \<Rightarrow> [p, c])" and pos: "0 < c_close c"
    using ok by (simp_all add: stream_ok_snoc)
  have acc: "accumulator_after p cs =
     \<lparr>ra_policy = p, ra_count = int (length cs), ra_previous = last_candle cs,
      ra_fast_seed = csum (take (Suc kf) (closes cs)), ra_slow_seed = csum (take (Suc ks) (closes cs)),
      ra_atr_seed = csum (take (Suc ka) (true_ranges cs)),
      ra_fast = last_value (ema_values (1 + int kf) (closes cs)),
      ra_slow = last_value (ema_values (1 + int ks) (closes cs)),
      ra_atr = last_value (atr_values (1 + int ka) cs)\<rparr>" for cs
    by (simp only: accumulator_after_def k n)
  show ?thesis
    unfolding acc accumulator_update_def Let_def accumulator.simps accumulator.update_convs src
      res_bind_simps k add.commute [of "int (length cs)" 1] fast slow next_atr_step prod.case pt cl(1)
    using pos by (simp add: last_candle_def add.commute)
qed

lemma accumulator_update_fails:
  assumes "\<not> stream_ok (cs @ [c])" and "stream_ok cs"
  shows "\<exists>e. accumulator_update (accumulator_after p cs) c = Inl e"
proof -
  let ?src = "case last_candle cs of None \<Rightarrow> [c] | Some p \<Rightarrow> [p, c]"
  have "\<not> (make_candle_series ?src = Inr ?src \<and> 0 < c_close c)" using assms by (auto simp: stream_ok_snoc)
  then consider e where "make_candle_series ?src = Inl e" | x where "make_candle_series ?src = Inr x" "c_close c \<le> 0"
    using make_candle_series_iff [of ?src] by (cases "make_candle_series ?src") (auto simp: not_less)
  then show ?thesis
    by cases (simp_all add: accumulator_update_def accumulator_after_def Let_def)
qed

definition stream_points :: "regime_policy \<Rightarrow> candle list \<Rightarrow> regime_point list" where
  "stream_points p cs = map (\<lambda>i. stream_point p (take (Suc i) cs)) [0 ..< length cs]"

lemma stream_points_snoc: "stream_points p (cs @ [c]) = stream_points p cs @ [stream_point p (cs @ [c])]"
  by (simp add: stream_points_def)

lemma accumulate_ok:
  assumes p: "policy_ok p" and "list_all candle_ok cs"
  shows "if stream_ok cs then accumulate p cs = Inr (accumulator_after p cs, stream_points p cs)
    else (\<exists>e. accumulate p cs = Inl e)"
  using assms(2)
proof (induction cs rule: rev_induct)
  case Nil
  then show ?case
    by (simp add: accumulate_def new_accumulator_ok [OF p] stream_points_def stream_ok_def make_candle_series_iff)
next
  case (snoc c cs)
  let ?f = "\<lambda>c (a, points). res_bind (accumulator_update a c) (\<lambda>(a', q). Inr (a', points @ [q]))"
  have acc: "accumulate p (cs @ [c]) = res_bind (accumulate p cs) (?f c)"
    by (simp add: accumulate_def new_accumulator_ok [OF p] res_fold_append res_bind_def split: sum.splits)
  show ?case
  proof (cases "stream_ok cs")
    case True
    then have IH: "accumulate p cs = Inr (accumulator_after p cs, stream_points p cs)"
      using snoc by simp
    show ?thesis
    proof (cases "stream_ok (cs @ [c])")
      case True
      from accumulator_update_ok [OF p True snoc.prems] True show ?thesis
        by (simp add: acc IH stream_points_snoc)
    next
      case False
      from accumulator_update_fails [OF False \<open>stream_ok cs\<close>, of p] False show ?thesis
        by (auto simp: acc IH)
    qed
  next
    case False
    then have "\<not> stream_ok (cs @ [c])" by (simp add: stream_ok_snoc)
    with False snoc show ?thesis by (auto simp: acc)
  qed
qed

lemma res_fold_collect:
  assumes "\<And>x. x \<in> set xs \<Longrightarrow> f x = Inr (g x)"
  shows "res_fold (\<lambda>x acc. res_bind (f x) (\<lambda>p. Inr (acc @ [p]))) xs acc = Inr (acc @ map g xs)"
  using assms by (induction xs arbitrary: acc) simp_all

lemma stream_points_nth:
  assumes "policy_ok p" and "i < length cs"
  shows "stream_points p cs ! i = plain_point p (cs ! i) (ema_values (rp_fast p) (closes cs) ! i)
    (ema_values (rp_slow p) (closes cs) ! i) (atr_values (rp_atr p) cs ! i)"
proof -
  obtain kf ks ka where k: "rp_fast p = 1 + int kf" "rp_slow p = 1 + int ks" "rp_atr p = 1 + int ka"
    using policy_okE [OF assms(1)] by metis
  have "closes (take (Suc i) cs) = take (Suc i) (closes cs)" by (simp add: closes_def take_map)
  moreover have "i < length (closes cs)" using assms(2) by (simp add: closes_def)
  moreover have l: "last (take (Suc i) cs) = cs ! i" using assms(2) by (simp add: take_Suc_conv_app_nth)
  ultimately show ?thesis
    using assms(2)
    by (simp add: stream_points_def stream_point_def k ema.last_value_take atr.last_value_take l)
qed

lemma stream_points_length [simp]: "length (stream_points p cs) = length cs"
  by (simp add: stream_points_def)

lemma make_stream_series:
  assumes p: "policy_ok p" and cs: "make_candle_series cs = Inr cs"
  shows "make_regime_series p (stream_points p cs) = Inr \<lparr>gs_policy = p, gs_points = stream_points p cs\<rparr>"
proof -
  obtain kf ks ka where k: "rp_fast p = 1 + int kf" "rp_slow p = 1 + int ks" "rp_atr p = 1 + int ka"
    and lt: "kf < ks" using policy_okE [OF p] by metis
  have cl: "length (closes cs) = length cs" by (simp add: closes_def)
  have "map gp_time (stream_points p cs) = map c_close_time cs"
    by (rule nth_equalityI) (simp_all add: stream_points_nth [OF p])
  moreover have "chain (<) (map c_close_time cs)"
    using make_candle_series_Inr [OF cs] by (simp add: chain_map)
  ultimately have "chain (<) (map gp_time (stream_points p cs))" by (simp only:)
  then have t: "chain (\<lambda>l r. gp_time l < gp_time r) (stream_points p cs)" by (simp only: chain_map)
  have w: "gp_regime (stream_points p cs ! i) = WARMUP \<longleftrightarrow> i < max ks ka" if "i < length cs" for i
    using that lt by (auto simp: stream_points_nth [OF p] plain_point_regime k ema.warm_up atr.warm_up cl)
  have m: "nat (min (regime_warmup p) (int (length (stream_points p cs)))) = min (max ks ka) (length cs)"
    by (simp add: regime_warmup_def k flip: of_nat_max of_nat_min)
  have "list_all (\<lambda>q. gp_regime q = WARMUP) (take (min (max ks ka) (length cs)) (stream_points p cs))"
    "list_all (\<lambda>q. gp_regime q \<noteq> WARMUP) (drop (min (max ks ka) (length cs)) (stream_points p cs))"
    using w by (auto simp: list_all_length min_def)
  then show ?thesis using t by (simp add: make_regime_series_def m Let_def del: stream_points_length)
qed

lemma regime_calculate_ok:
  assumes p: "policy_ok p" and ok: "list_all candle_ok cs" and cs: "make_candle_series cs = Inr cs"
    and pos: "list_all (\<lambda>c. 0 < c_close c) cs"
  shows "regime_calculate p cs = Inr \<lparr>gs_policy = p, gs_points = stream_points p cs\<rparr>"
proof -
  obtain kf ks ka where k: "rp_fast p = 1 + int kf" "rp_slow p = 1 + int ks" "rp_atr p = 1 + int ka"
    using policy_okE [OF p] by metis
  let ?src = "map (\<lambda>c. \<lparr>sp_time = c_close_time c, sp_value = c_close c\<rparr>) cs"
  have ch: "chain (\<lambda>l r. sp_time l < sp_time r) ?src"
    using make_candle_series_Inr [OF cs] by (simp add: chain_map)
  then have src: "series_from_candles cs F_close = Inr ?src" using cs by (simp add: series_from_candles_def)
  have cl: "map sp_value ?src = closes cs" by (simp add: closes_def comp_def)
  obtain e1 s1 where e1: "make_ema (rp_fast p) = Inr e1" "ema_calculate e1 ?src = Inr s1"
      "map ip_value (is_points s1) = ema_values (rp_fast p) (closes cs)"
    using ema_calculate_ok [OF ch, of kf] unfolding k cl by blast
  obtain e2 s2 where e2: "make_ema (rp_slow p) = Inr e2" "ema_calculate e2 ?src = Inr s2"
      "map ip_value (is_points s2) = ema_values (rp_slow p) (closes cs)"
    using ema_calculate_ok [OF ch, of ks] unfolding k cl by blast
  obtain a s3 where a: "make_atr (rp_atr p) = Inr a" "atr_calculate a cs = Inr s3"
      "map ip_value (is_points s3) = atr_values (rp_atr p) cs"
    using atr_calculate_ok [OF cs, of ka] unfolding k by blast
  define fv sv av where "fv = ema_values (rp_fast p) (closes cs)" and "sv = ema_values (rp_slow p) (closes cs)"
    and "av = atr_values (rp_atr p) cs"
  have len: "length fv = length cs" "length sv = length cs" "length av = length cs"
    by (simp_all add: fv_def sv_def av_def k closes_def ema.vals_length atr.vals_length)
  let ?rows = "zip (zip cs fv) (zip sv av)"
  have low: "list_all (\<lambda>c. c_low c \<le> c_high c) cs" using ok by (auto simp: list_all_iff candle_ok_def)
  have pt: "(case x of ((c, f), (s, a)) \<Rightarrow> detect_point p c f s a) =
      Inr (case x of ((c, f), (s, a)) \<Rightarrow> plain_point p c f s a)" if x: "x \<in> set ?rows" for x
  proof -
    from x obtain i where i: "i < length cs" "x = ((cs ! i, fv ! i), (sv ! i, av ! i))"
      by (auto simp: in_set_conv_nth len)
    have "detect_point p (cs ! i) (fv ! i) (sv ! i) (av ! i) = Inr (plain_point p (cs ! i) (fv ! i) (sv ! i) (av ! i))"
      by (rule detect_point_ok)
        (use pos i(1) atr_values_nonneg [of "rp_atr p" cs i] low k in \<open>auto simp: list_all_length av_def\<close>)
    then show ?thesis by (simp add: i(2))
  qed
  have rows: "map (\<lambda>((c, f), (s, a)). plain_point p c f s a) ?rows = stream_points p cs"
    by (rule nth_equalityI)
      (simp_all add: len stream_points_nth [OF p], simp add: fv_def sv_def av_def)
  have "res_fold (\<lambda>((c, f), (s, a)) points. res_bind (detect_point p c f s a) (\<lambda>q. Inr (points @ [q]))) ?rows []
      = Inr (stream_points p cs)"
    using res_fold_collect [of ?rows "\<lambda>((c, f), (s, a)). detect_point p c f s a"
        "\<lambda>((c, f), (s, a)). plain_point p c f s a" "[]"] pt
    by (simp add: rows [unfolded case_prod_unfold] case_prod_unfold)
  moreover have "list_all (\<lambda>c. \<not> c_close c \<le> 0) cs" using pos by (auto simp: list_all_iff)
  ultimately show ?thesis
    by (simp add: regime_calculate_def src e1(1,2) e2(1,2) a(1,2) e1(3) [folded fv_def] e2(3) [folded sv_def]
        a(3) [folded av_def] zip_strict_ok len make_stream_series [OF p cs])
qed

lemma make_policy_ok: "make_policy f sl a vr tt sv = Inr p \<Longrightarrow> policy_ok p"
  by (auto simp: policy_ok_def make_policy_def)

lemma stream_points_take: "stream_points p (take n cs) = take n (stream_points p cs)"
  by (rule nth_equalityI) (auto simp: stream_points_def min_def split: if_splits)

text \<open>The incremental classification is the batch classification, failures included.\<close>

lemma accumulate_eq_batch:
  assumes p: "policy_ok p" and ok: "list_all candle_ok cs"
  shows "(\<exists>a. accumulate p cs = Inr (a, points)) \<longleftrightarrow>
     res_bind (make_candle_series cs) (regime_calculate p) = Inr \<lparr>gs_policy = p, gs_points = points\<rparr>"
proof (cases "stream_ok cs")
  case True
  then show ?thesis
    using accumulate_ok [OF p ok] regime_calculate_ok [OF p ok] by (auto simp: stream_ok_def)
next
  case False
  then have "\<nexists>s. res_bind (make_candle_series cs) (regime_calculate p) = Inr s"
    using make_candle_series_iff [of cs]
    by (auto simp: stream_ok_def regime_calculate_def list_all_iff not_le)
  with False show ?thesis using accumulate_ok [OF p ok] by auto
qed

section \<open>Properties\<close>

text \<open>C3: feeding closed candles one at a time to the fixed-memory accumulator yields exactly the points of
  the batch detector on the whole series, and fails exactly when the batch computation does.\<close>

theorem incremental_regime_equals_batch:
  assumes "make_policy f sl a vr tt sv = Inr p" and "list_all candle_ok cs"
  shows "(\<exists>acc. accumulate p cs = Inr (acc, points)) \<longleftrightarrow>
     res_bind (make_candle_series cs) (regime_calculate p) = Inr \<lparr>gs_policy = p, gs_points = points\<rparr>"
  by (rule accumulate_eq_batch [OF make_policy_ok [OF assms(1)] assms(2)])

lemma example_policy: "\<not> isl (make_policy 1 2 1 (3 / 100) 1 1)"
  by code_simp

definition example_stream :: "candle list" where
  "example_stream = [example_raw_candle\<lparr>c_symbol := ''BTC/USDT'', c_close_time := 59999000\<rparr>]"

lemma example_stream_ok:
  "list_all candle_ok example_stream" "make_candle_series example_stream = Inr example_stream"
  "list_all (\<lambda>c. 0 < c_close c) example_stream"
  by code_simp (simp_all add: example_stream_def example_raw_candle_def make_candle_series_def)

theorem incremental_regime_equals_batch_witness:
  "\<exists>p acc points. make_policy 1 2 1 (3 / 100) 1 1 = Inr p \<and> accumulate p example_stream = Inr (acc, points)"
proof -
  obtain p where p: "make_policy 1 2 1 (3 / 100) 1 1 = Inr p" using example_policy by (auto simp: not_isl_Inr)
  have "res_bind (make_candle_series example_stream) (regime_calculate p) =
      Inr \<lparr>gs_policy = p, gs_points = stream_points p example_stream\<rparr>"
    using regime_calculate_ok [OF make_policy_ok [OF p] example_stream_ok] by (simp add: example_stream_ok(2))
  with incremental_regime_equals_batch [OF p example_stream_ok(1)] p show ?thesis by blast
qed

text \<open>A valid stream of positive closes is always classified, one point per candle, warm-up exactly where
  an input is missing; classifying a prefix gives the prefix of the points.\<close>

theorem regime_total_no_look_ahead:
  assumes "make_policy f sl a vr tt sv = Inr p" and "list_all candle_ok cs"
    and "make_candle_series cs = Inr cs" and "list_all (\<lambda>c. 0 < c_close c) cs"
    and "0 \<le> i" and "i < int (length cs)"
  shows "\<exists>s. regime_calculate p cs = Inr s \<and> length (gs_points s) = length cs
    \<and> regime_calculate_as_of p cs i = Inr (s\<lparr>gs_points := take (nat (i + 1)) (gs_points s)\<rparr>)"
proof -
  note ok = make_policy_ok [OF assms(1)]
  let ?n = "nat (i + 1)"
  have t: "make_candle_series (take ?n cs) = Inr (take ?n cs)" by (rule make_candle_series_take [OF assms(3)])
  have "list_all candle_ok (take ?n cs)" "list_all (\<lambda>c. 0 < c_close c) (take ?n cs)"
    using assms(2,4) by (auto simp: list_all_iff dest: in_set_takeD)
  from regime_calculate_ok [OF ok this(1) t this(2)] regime_calculate_ok [OF ok assms(2-4)] t assms(5,6)
  show ?thesis
    by (simp add: regime_calculate_as_of_def candle_series_prefix_def require_existing_index_def stream_points_take)
qed

theorem regime_total_no_look_ahead_witness:
  "\<exists>p s. make_policy 1 2 1 (3 / 100) 1 1 = Inr p \<and> regime_calculate p example_stream = Inr s
     \<and> length (gs_points s) = length example_stream"
proof -
  obtain p where p: "make_policy 1 2 1 (3 / 100) 1 1 = Inr p" using example_policy by (auto simp: not_isl_Inr)
  from regime_total_no_look_ahead [OF p example_stream_ok, of 0] p show ?thesis
    by (auto simp: example_stream_def)
qed

end
