(* ===== verification/Backtest_Domain.thy ===== *)
theory Backtest_Domain
  imports Decimal Market_Domain Regime
begin

text \<open>
  The contracts of \<^verbatim>\<open>app/backtesting/domain.py\<close>: enumerations, policies, orders, fills, portfolio
  snapshots, equity points, the run configuration and closed trades, each with the validation of its
  constructor.  The subclasses of the Python code that add one field (position-sized execution,
  stop-loss limits, evaluation and regime-aware configurations) are optional fields here.
\<close>

section \<open>Enumerations\<close>

datatype backtest_status = RUN_PLANNED | RUN_RUNNING | RUN_COMPLETE | RUN_FAILED

datatype order_side = BUY | SELL

datatype order_type = MARKET | LIMIT | STOP_MARKET

datatype order_status = O_CREATED | O_OPEN | O_FILLED | O_CANCELLED | O_REJECTED | O_EXPIRED

definition is_terminal :: "order_status \<Rightarrow> bool" where
  "is_terminal s \<longleftrightarrow> s = O_FILLED \<or> s = O_CANCELLED \<or> s = O_REJECTED \<or> s = O_EXPIRED"

datatype time_in_force = GTC | IOC | DAY

datatype fill_reason = MARKET_OPEN | LIMIT_TOUCHED | LIMIT_GAP | STOP_TRIGGERED | STOP_GAP | FORCE_CLOSE

datatype fill_liquidity = MAKER | TAKER

datatype slippage_kind = FIXED_BPS

datatype intrabar_policy = CONSERVATIVE

datatype sizing_kind = EXPLICIT_QUANTITY | FIXED_NOTIONAL | EQUITY_PERCENT

datatype stop_kind = STOP_DISABLED | FIXED_PERCENT

section \<open>Field checks\<close>

definition require_positive :: "decimal \<Rightarrow> unit result" where
  "require_positive v = require (\<not> v \<le> 0) ValueError (Inr ())"

definition require_nonnegative :: "decimal \<Rightarrow> unit result" where
  "require_nonnegative v = require (\<not> v < 0) ValueError (Inr ())"

definition require_bps :: "decimal \<Rightarrow> unit result" where
  "require_bps v = res_bind (require_nonnegative v) (\<lambda>_. require (\<not> 1000 < v) ValueError (Inr ()))"

lemma require_field_Inr [simp]:
  "require_positive v = Inr u \<longleftrightarrow> 0 < v"
  "require_nonnegative v = Inr u \<longleftrightarrow> 0 \<le> v"
  "require_bps v = Inr u \<longleftrightarrow> 0 \<le> v \<and> v \<le> 1000"
  by (auto simp: require_positive_def require_nonnegative_def require_bps_def)

text \<open>\<^verbatim>\<open>^[A-Za-z0-9][A-Za-z0-9._:-]{0,127}$\<close> and its 64-character variant for tags.\<close>

definition safe_token :: "string \<Rightarrow> bool" where
  "safe_token s \<longleftrightarrow> safe_identifier 127 s"

definition safe_tag :: "string \<Rightarrow> bool" where
  "safe_tag s \<longleftrightarrow> safe_identifier 63 s"

definition is_sha256 :: "string \<Rightarrow> bool" where
  "is_sha256 s \<longleftrightarrow> length s = 64 \<and> list_all (\<lambda>c. is_digit c \<or> (let n = (of_char c :: nat) in 97 \<le> n \<and> n \<le> 102)) s"

section \<open>Policies\<close>

record sizing_policy =
  sz_kind :: sizing_kind
  sz_value :: "decimal option"
  sz_reserve :: decimal

definition make_sizing_policy :: "sizing_policy \<Rightarrow> sizing_policy result" where
  "make_sizing_policy p =
     require (\<not> sz_reserve p < 0) ValueError (
     if sz_kind p = EXPLICIT_QUANTITY then
       require (sz_value p = None) ValueError (require (sz_reserve p = 0) ValueError (Inr p))
     else
       (case sz_value p of None \<Rightarrow> Inl ValueError
        | Some v \<Rightarrow> require (\<not> v \<le> 0) ValueError (
            require (\<not> (sz_kind p = EQUITY_PERCENT \<and> 100 < v)) ValueError (Inr p))))"

definition default_sizing_policy :: sizing_policy where
  "default_sizing_policy = \<lparr>sz_kind = EXPLICIT_QUANTITY, sz_value = None, sz_reserve = 0\<rparr>"

record stop_policy =
  sp_kind :: stop_kind
  sp_percent :: "decimal option"

definition make_stop_policy :: "stop_policy \<Rightarrow> stop_policy result" where
  "make_stop_policy p =
     (if sp_kind p = STOP_DISABLED then require (sp_percent p = None) ValueError (Inr p)
      else (case sp_percent p of None \<Rightarrow> Inl ValueError
            | Some v \<Rightarrow> require (\<not> v \<le> 0) ValueError (
                require (\<not> (sp_kind p = FIXED_PERCENT \<and> 100 \<le> v)) ValueError (Inr p))))"

definition default_stop_policy :: stop_policy where
  "default_stop_policy = \<lparr>sp_kind = STOP_DISABLED, sp_percent = None\<rparr>"

record strategy_descriptor =
  sd_name :: string
  sd_version :: string
  sd_parameters :: parameters

definition make_strategy_descriptor ::
    "string \<Rightarrow> string \<Rightarrow> parameters \<Rightarrow> strategy_descriptor result" where
  "make_strategy_descriptor raw_name raw_version params =
     (let name = strip raw_name; version = strip raw_version in
      require (safe_token name \<and> safe_token version) ValueError (
      res_bind (res_fold (\<lambda>(raw_key, value) acc.
          let key = strip raw_key in
          require (safe_token key \<and> key \<notin> set (map fst acc)) ValueError (
          require (value \<noteq> P_Float) ValueError (Inr (acc @ [(key, value)])))) params []) (\<lambda>normalized.
        Inr \<lparr>sd_name = name, sd_version = version, sd_parameters = sort_key fst normalized\<rparr>)))"

record fee_model =
  fm_maker_bps :: decimal
  fm_taker_bps :: decimal

definition make_fee_model :: "fee_model \<Rightarrow> fee_model result" where
  "make_fee_model f =
     res_bind (require_bps (fm_maker_bps f)) (\<lambda>_. res_bind (require_bps (fm_taker_bps f)) (\<lambda>_. Inr f))"

definition fee_rate :: "fee_model \<Rightarrow> fill_liquidity \<Rightarrow> decimal" where
  "fee_rate f liquidity = (let bps = (if liquidity = MAKER then fm_maker_bps f else fm_taker_bps f) in ddiv bps 10000)"

record slippage_model =
  sm_kind :: slippage_kind
  sm_fixed_bps :: decimal

definition make_slippage_model :: "slippage_model \<Rightarrow> slippage_model result" where
  "make_slippage_model s = res_bind (require_bps (sm_fixed_bps s)) (\<lambda>_. Inr s)"

record execution_assumptions =
  ex_fees :: fee_model
  ex_slippage :: slippage_model
  ex_intrabar :: intrabar_policy
  ex_force_close :: bool
  ex_sizing :: "sizing_policy option"

text \<open>\<^verbatim>\<open>PositionSizedExecutionAssumptions.__post_init__\<close>, when the sizing policy is present.\<close>

definition make_execution :: "execution_assumptions \<Rightarrow> execution_assumptions result" where
  "make_execution e =
     (case ex_sizing e of None \<Rightarrow> Inr e
      | Some p \<Rightarrow> res_bind (make_sizing_policy p) (\<lambda>candidate.
          require (candidate = p) ValueError (
          require (sz_kind candidate \<noteq> EXPLICIT_QUANTITY) ValueError (Inr e))))"

definition sizing_policy_for :: "execution_assumptions \<Rightarrow> sizing_policy" where
  "sizing_policy_for e = (case ex_sizing e of Some p \<Rightarrow> p | None \<Rightarrow> default_sizing_policy)"

record constraints =
  ic_minimum_quantity :: decimal
  ic_quantity_step :: decimal
  ic_price_tick :: decimal
  ic_minimum_notional :: decimal
  ic_maximum_notional :: "decimal option"

definition make_constraints :: "constraints \<Rightarrow> constraints result" where
  "make_constraints c =
     res_bind (require_positive (ic_minimum_quantity c)) (\<lambda>_.
     res_bind (require_positive (ic_quantity_step c)) (\<lambda>_.
     res_bind (require_positive (ic_price_tick c)) (\<lambda>_.
     res_bind (require_nonnegative (ic_minimum_notional c)) (\<lambda>_.
       (case ic_maximum_notional c of None \<Rightarrow> Inr c
        | Some m \<Rightarrow> res_bind (require_positive m) (\<lambda>_.
            require (\<not> m < ic_minimum_notional c) ValueError (Inr c)))))))"

record risk_limits =
  rl_max_order_notional :: "decimal option"
  rl_max_position_notional :: "decimal option"
  rl_max_open_orders :: int
  rl_max_total_orders :: int
  rl_max_drawdown_pct :: "decimal option"
  rl_stop_on_max_drawdown :: bool
  rl_allow_all_in :: bool
  rl_minimum_quote_reserve :: decimal
  rl_stop_loss :: "stop_policy option"

definition require_optional :: "(decimal \<Rightarrow> unit result) \<Rightarrow> decimal option \<Rightarrow> unit result" where
  "require_optional f v = (case v of None \<Rightarrow> Inr () | Some x \<Rightarrow> f x)"

definition make_risk_limits :: "risk_limits \<Rightarrow> risk_limits result" where
  "make_risk_limits r =
     res_bind (require_optional require_positive (rl_max_order_notional r)) (\<lambda>_.
     res_bind (require_optional require_positive (rl_max_position_notional r)) (\<lambda>_.
     require (\<not> (rl_max_open_orders r < 1 \<or> rl_max_total_orders r < 1)) ValueError (
     require (\<not> rl_max_total_orders r < rl_max_open_orders r) ValueError (
     res_bind (require_optional (\<lambda>v. res_bind (require_nonnegative v) (\<lambda>_.
         require (\<not> 100 < v) ValueError (Inr ()))) (rl_max_drawdown_pct r)) (\<lambda>_.
     res_bind (require_nonnegative (rl_minimum_quote_reserve r)) (\<lambda>_.
       (case rl_stop_loss r of None \<Rightarrow> Inr r
        | Some p \<Rightarrow> res_bind (make_stop_policy p) (\<lambda>candidate.
            require (candidate = p) ValueError (
            require (sp_kind candidate \<noteq> STOP_DISABLED) ValueError (Inr r))))))))))"

definition stop_policy_for :: "risk_limits \<Rightarrow> stop_policy" where
  "stop_policy_for r = (case rl_stop_loss r of Some p \<Rightarrow> p | None \<Rightarrow> default_stop_policy)"

section \<open>Orders and fills\<close>

record order_intent =
  oi_side :: order_side
  oi_type :: order_type
  oi_quantity :: decimal
  oi_tif :: time_in_force
  oi_limit_price :: "decimal option"
  oi_stop_price :: "decimal option"
  oi_client_tag :: "string option"

definition make_order_intent :: "order_intent \<Rightarrow> order_intent result" where
  "make_order_intent i = catch_as InvalidOrderIntent (
     res_bind (require_positive (oi_quantity i)) (\<lambda>_.
     res_bind
       (case oi_type i of
          MARKET \<Rightarrow> require (\<not> (oi_limit_price i \<noteq> None \<or> oi_stop_price i \<noteq> None)) ValueError (Inr ())
        | LIMIT \<Rightarrow> (case (oi_limit_price i, oi_stop_price i) of
              (Some l, None) \<Rightarrow> require_positive l | _ \<Rightarrow> Inl ValueError)
        | STOP_MARKET \<Rightarrow> (case (oi_stop_price i, oi_limit_price i) of
              (Some s, None) \<Rightarrow> require_positive s | _ \<Rightarrow> Inl ValueError)) (\<lambda>_.
     (case oi_client_tag i of None \<Rightarrow> Inr i
      | Some t \<Rightarrow> (let tag = strip t in
          require (safe_tag tag) ValueError (Inr (i\<lparr>oi_client_tag := Some tag\<rparr>)))))))"

record simulated_order =
  so_id :: string
  so_sequence :: int
  so_created_at :: instant
  so_created_index :: int
  so_eligible_index :: int
  so_intent :: order_intent
  so_status :: order_status
  so_opened_at :: "instant option"
  so_terminal_at :: "instant option"
  so_rejection_code :: "string option"

text \<open>The lifecycle part of \<^verbatim>\<open>SimulatedOrder.__post_init__\<close>: which timestamps a status requires.\<close>

definition order_lifecycle_ok :: "simulated_order \<Rightarrow> bool" where
  "order_lifecycle_ok o1 \<longleftrightarrow>
     (if so_status o1 = O_CREATED then so_opened_at o1 = None \<and> so_terminal_at o1 = None
      else if so_status o1 = O_OPEN then so_opened_at o1 \<noteq> None \<and> so_terminal_at o1 = None
      else so_terminal_at o1 \<noteq> None \<and>
        (if so_status o1 = O_REJECTED
         then (case so_rejection_code o1 of None \<Rightarrow> False | Some c \<Rightarrow> c \<noteq> [] \<and> safe_tag c)
         else so_rejection_code o1 = None))"

definition make_order :: "simulated_order \<Rightarrow> simulated_order result" where
  "make_order o1 =
     require (safe_token (so_id o1)) ValueError (
     require (\<not> (so_sequence o1 < 1 \<or> so_created_index o1 < -1)) ValueError (
     require (\<not> so_eligible_index o1 \<le> so_created_index o1) ValueError (
     require (order_lifecycle_ok o1) ValueError (Inr o1))))"

record fill =
  fi_id :: string
  fi_order_id :: string
  fi_reason :: fill_reason
  fi_liquidity :: fill_liquidity
  fi_side :: order_side
  fi_quantity :: decimal
  fi_base_price :: decimal
  fi_execution_price :: decimal
  fi_notional :: decimal
  fi_fee :: decimal
  fi_slippage_cost :: decimal
  fi_event_time :: instant
  fi_candle_index :: int

definition make_fill :: "fill \<Rightarrow> fill result" where
  "make_fill f =
     require (safe_token (fi_id f) \<and> safe_token (fi_order_id f)) ValueError (
     res_bind (require_positive (fi_quantity f)) (\<lambda>_.
     res_bind (require_positive (fi_base_price f)) (\<lambda>_.
     res_bind (require_positive (fi_execution_price f)) (\<lambda>_.
     res_bind (require_positive (fi_notional f)) (\<lambda>_.
     res_bind (require_nonnegative (fi_fee f)) (\<lambda>_.
     res_bind (require_nonnegative (fi_slippage_cost f)) (\<lambda>_.
     require (fi_notional f = dmul (fi_quantity f) (fi_execution_price f)) ValueError (
     require (\<not> fi_candle_index f < 0) ValueError (Inr f)))))))))"

section \<open>Portfolio views\<close>

record portfolio_snapshot =
  ps_quote_cash :: decimal
  ps_base_quantity :: decimal
  ps_average_entry :: decimal
  ps_realized_pnl :: decimal
  ps_unrealized_pnl :: decimal
  ps_total_fees :: decimal
  ps_total_slippage :: decimal
  ps_equity :: decimal
  ps_peak_equity :: decimal
  ps_drawdown :: decimal
  ps_cost_basis :: decimal
  ps_drawdown_pct :: decimal

definition require_all_nonnegative :: "decimal list \<Rightarrow> unit result" where
  "require_all_nonnegative vs = res_fold (\<lambda>v _. require_nonnegative v) vs ()"

text \<open>\<^verbatim>\<open>drawdown / peak_equity * Decimal("100")\<close>, zero when the peak is zero.\<close>

definition drawdown_pct_of :: "decimal \<Rightarrow> decimal \<Rightarrow> decimal" where
  "drawdown_pct_of drawdown peak = (if peak = 0 then 0 else dmul (ddiv drawdown peak) 100)"

definition make_portfolio_snapshot :: "portfolio_snapshot \<Rightarrow> portfolio_snapshot result" where
  "make_portfolio_snapshot p =
     res_bind (require_all_nonnegative [ps_quote_cash p, ps_base_quantity p, ps_average_entry p,
        ps_total_fees p, ps_total_slippage p, ps_equity p, ps_peak_equity p, ps_drawdown p,
        ps_cost_basis p, ps_drawdown_pct p]) (\<lambda>_.
     require (\<not> (ps_base_quantity p = 0 \<and> (ps_average_entry p \<noteq> 0 \<or> ps_cost_basis p \<noteq> 0))) ValueError (
     require (\<not> (0 < ps_base_quantity p \<and> (ps_average_entry p \<le> 0 \<or> ps_cost_basis p \<le> 0))) ValueError (
     require (\<not> ps_peak_equity p < ps_equity p) ValueError (
     require (ps_drawdown p = dsub (ps_peak_equity p) (ps_equity p)) ValueError (
     require (ps_drawdown_pct p = drawdown_pct_of (ps_drawdown p) (ps_peak_equity p)) ValueError (Inr p))))))"

record equity_point =
  ep_candle_index :: int
  ep_event_time :: instant
  ep_close_price :: decimal
  ep_quote_cash :: decimal
  ep_base_quantity :: decimal
  ep_equity :: decimal
  ep_peak_equity :: decimal
  ep_drawdown :: decimal
  ep_drawdown_pct :: decimal

definition make_equity_point :: "equity_point \<Rightarrow> equity_point result" where
  "make_equity_point p =
     require (\<not> ep_candle_index p < 0) ValueError (
     res_bind (require_positive (ep_close_price p)) (\<lambda>_.
     res_bind (require_all_nonnegative [ep_quote_cash p, ep_base_quantity p, ep_equity p,
        ep_peak_equity p, ep_drawdown p, ep_drawdown_pct p]) (\<lambda>_.
     require (\<not> ep_peak_equity p < ep_equity p) ValueError (
     require (ep_drawdown p = dsub (ep_peak_equity p) (ep_equity p)) ValueError (
     require (ep_drawdown_pct p = drawdown_pct_of (ep_drawdown p) (ep_peak_equity p)) ValueError (Inr p))))))"

lemma require_all_nonnegative_Inr [simp]:
  "require_all_nonnegative vs = Inr u \<longleftrightarrow> list_all (\<lambda>v. 0 \<le> v) vs"
  by (induction vs) (auto simp: require_all_nonnegative_def)

section \<open>Run configuration\<close>

record config =
  bk_snapshot_id :: string
  bk_data_range :: data_range
  bk_strategy :: strategy_descriptor
  bk_initial_capital :: decimal
  bk_execution :: execution_assumptions
  bk_constraints :: constraints
  bk_risk_limits :: risk_limits
  bk_history_window :: int
  bk_max_candles :: int
  bk_max_orders :: int
  bk_max_events :: int
  bk_engine_version :: string
  bk_schema_version :: int
  bk_evaluation :: "(data_range \<times> int) option"
  bk_regime_policy :: "regime_policy option"

text \<open>The \<^verbatim>\<open>_revalidate_*\<close> functions: the field must be what its own constructor would build.\<close>

definition revalidate :: "('a \<Rightarrow> 'a result) \<Rightarrow> 'a \<Rightarrow> unit result" where
  "revalidate f v =
     res_bind (catch_as ValueError (f v)) (\<lambda>candidate. require (candidate = v) ValueError (Inr ()))"

definition revalidate_execution :: "execution_assumptions \<Rightarrow> unit result" where
  "revalidate_execution e =
     res_bind (revalidate make_fee_model (ex_fees e)) (\<lambda>_.
     res_bind (catch_as ValueError (make_slippage_model (ex_slippage e))) (\<lambda>slippage.
     res_bind (case ex_sizing e of None \<Rightarrow> Inr ()
        | Some p \<Rightarrow> res_bind (revalidate make_sizing_policy p) (\<lambda>_.
            require (sz_kind p \<noteq> EXPLICIT_QUANTITY) ValueError (Inr ()))) (\<lambda>_.
     require (\<not> (slippage \<noteq> ex_slippage e \<or> sm_kind (ex_slippage e) \<noteq> FIXED_BPS
        \<or> ex_intrabar e \<noteq> CONSERVATIVE)) ValueError (Inr ()))))"

definition make_config :: "config \<Rightarrow> config result" where
  "make_config c =
     res_bind (revalidate (\<lambda>r. data_range_of (dr_start r) (dr_end r)) (bk_data_range c)) (\<lambda>_.
     res_bind (revalidate (\<lambda>d. make_strategy_descriptor (sd_name d) (sd_version d) (sd_parameters d)) (bk_strategy c)) (\<lambda>_.
     res_bind (revalidate_execution (bk_execution c)) (\<lambda>_.
     res_bind (revalidate make_constraints (bk_constraints c)) (\<lambda>_.
     res_bind (revalidate make_risk_limits (bk_risk_limits c)) (\<lambda>_.
     require (safe_token (bk_snapshot_id c)) ValueError (
     res_bind (require_positive (bk_initial_capital c)) (\<lambda>_.
     require (list_all (\<lambda>v. \<not> v < 1) [bk_history_window c, bk_max_candles c, bk_max_orders c, bk_max_events c]) ValueError (
     require (\<not> bk_max_candles c < bk_history_window c) ValueError (
     (let engine_version = strip (bk_engine_version c) in
      require (safe_token engine_version) ValueError (
      require (bk_schema_version c \<in> {1, 2}) ValueError (
      res_bind (case bk_evaluation c of None \<Rightarrow> Inr ()
         | Some (er, lifecycle) \<Rightarrow>
             require (\<not> (dr_start er < dr_start (bk_data_range c) \<or> dr_end er \<noteq> dr_end (bk_data_range c))) ValueError (
             require (lifecycle \<in> {1, 2}) ValueError (
             require (\<not> (lifecycle = 1 \<and> er \<noteq> bk_data_range c)) ValueError (Inr ())))) (\<lambda>_.
      res_bind (case bk_regime_policy c of None \<Rightarrow> Inr ()
         | Some p \<Rightarrow> revalidate (\<lambda>p. make_policy (rp_fast p) (rp_slow p) (rp_atr p)
             (rp_volatile_ratio p) (rp_trend_threshold p) (rp_schema_version p)) p) (\<lambda>_.
        Inr (c\<lparr>bk_engine_version := engine_version\<rparr>)))))))))))))))"

definition validate_config :: "config \<Rightarrow> unit result" where
  "validate_config c = res_bind (catch_as ValueError (make_config c)) (\<lambda>candidate.
     require (candidate = c) ValueError (Inr ()))"

definition evaluation_range_for :: "config \<Rightarrow> data_range result" where
  "evaluation_range_for c = res_bind (validate_config c) (\<lambda>_.
     Inr (case bk_evaluation c of Some (er, _) \<Rightarrow> er | None \<Rightarrow> bk_data_range c))"

definition lifecycle_version_for :: "config \<Rightarrow> int result" where
  "lifecycle_version_for c = res_bind (validate_config c) (\<lambda>_.
     Inr (case bk_evaluation c of Some (_, v) \<Rightarrow> v | None \<Rightarrow> 1))"

definition regime_policy_for :: "config \<Rightarrow> regime_policy option result" where
  "regime_policy_for c = res_bind (validate_config c) (\<lambda>_. Inr (bk_regime_policy c))"

section \<open>Closed trades\<close>

record closed_trade =
  ct_entry_time :: instant
  ct_exit_time :: instant
  ct_quantity :: decimal
  ct_average_entry :: decimal
  ct_average_exit :: decimal
  ct_gross_pnl :: decimal
  ct_fees :: decimal
  ct_net_pnl :: decimal
  ct_return_pct :: "decimal option"
  ct_bars_held :: int
  ct_entry_fills :: "string list"
  ct_exit_fills :: "string list"

definition make_closed_trade :: "closed_trade \<Rightarrow> closed_trade result" where
  "make_closed_trade t =
     require (\<not> ct_exit_time t < ct_entry_time t) ValueError (
     res_bind (require_positive (ct_quantity t)) (\<lambda>_.
     res_bind (require_positive (ct_average_entry t)) (\<lambda>_.
     res_bind (require_positive (ct_average_exit t)) (\<lambda>_.
     res_bind (require_nonnegative (ct_fees t)) (\<lambda>_.
     require (ct_net_pnl t = dsub (ct_gross_pnl t) (ct_fees t)) ValueError (
     require (\<not> ct_bars_held t < 0) ValueError (
     require (ct_entry_fills t \<noteq> [] \<and> ct_exit_fills t \<noteq> []) ValueError (
     require (list_all safe_token (ct_entry_fills t @ ct_exit_fills t)) ValueError (Inr t)))))))))"

end
