(* ===== verification/Portfolio.thy ===== *)
theory Portfolio
  imports Backtest_Domain
begin

text \<open>
  The portfolio of \<^verbatim>\<open>app/backtesting/portfolio.py\<close>: an immutable long-only state, the accounting of
  one fill at weighted-average cost, and marking to market.  The lemmas show which fills a valid
  portfolio accepts, that every accepted fill leaves a valid portfolio, and how far the rounding of
  the 28-digit context can move the books.
\<close>

section \<open>The state\<close>

record portfolio =
  pf_initial :: decimal
  pf_cash :: decimal
  pf_base :: decimal
  pf_cost :: decimal
  pf_average :: decimal
  pf_realized :: decimal
  pf_unrealized :: decimal
  pf_fees :: decimal
  pf_slippage :: decimal
  pf_equity :: decimal
  pf_peak :: decimal
  pf_drawdown :: decimal
  pf_drawdown_pct :: decimal
  pf_mark :: "decimal option"

text \<open>\<^verbatim>\<open>PortfolioState.__post_init__\<close>, run by the constructor and by every \<^verbatim>\<open>replace\<close>.\<close>

definition make_portfolio :: "portfolio \<Rightarrow> portfolio result" where
  "make_portfolio p =
     res_bind (require_all_nonnegative [pf_initial p, pf_cash p, pf_base p, pf_cost p, pf_average p,
        pf_fees p, pf_slippage p, pf_equity p, pf_peak p, pf_drawdown p, pf_drawdown_pct p]) (\<lambda>_.
     res_bind (require_optional require_positive (pf_mark p)) (\<lambda>_.
     res_bind
       (if pf_base p = 0
        then require (\<not> (pf_cost p \<noteq> 0 \<or> pf_average p \<noteq> 0)) ValueError (Inr ())
        else require (\<not> (pf_cost p \<le> 0 \<or> pf_average p \<le> 0)) ValueError (Inr ())) (\<lambda>_.
     require (\<not> pf_peak p < pf_equity p) ValueError (
     require (pf_drawdown p = dsub (pf_peak p) (pf_equity p)) ValueError (
     require (pf_drawdown_pct p = drawdown_pct_of (pf_drawdown p) (pf_peak p)) ValueError (Inr p))))))"

definition portfolio_view :: "portfolio \<Rightarrow> portfolio_snapshot result" where
  "portfolio_view p = make_portfolio_snapshot
     \<lparr>ps_quote_cash = pf_cash p, ps_base_quantity = pf_base p, ps_average_entry = pf_average p,
      ps_realized_pnl = pf_realized p, ps_unrealized_pnl = pf_unrealized p, ps_total_fees = pf_fees p,
      ps_total_slippage = pf_slippage p, ps_equity = pf_equity p, ps_peak_equity = pf_peak p,
      ps_drawdown = pf_drawdown p, ps_cost_basis = pf_cost p, ps_drawdown_pct = pf_drawdown_pct p\<rparr>"

record mutation =
  mu_before :: portfolio
  mu_after :: portfolio
  mu_quote_delta :: decimal
  mu_base_delta :: decimal
  mu_cost_delta :: decimal
  mu_realized_delta :: decimal

definition initialize_portfolio :: "decimal \<Rightarrow> portfolio result" where
  "initialize_portfolio capital =
     res_bind (require_positive capital) (\<lambda>_. make_portfolio
       \<lparr>pf_initial = capital, pf_cash = capital, pf_base = 0, pf_cost = 0, pf_average = 0,
        pf_realized = 0, pf_unrealized = 0, pf_fees = 0, pf_slippage = 0, pf_equity = capital,
        pf_peak = capital, pf_drawdown = 0, pf_drawdown_pct = 0, pf_mark = None\<rparr>)"

section \<open>Fills and marks\<close>

definition mark_to_market :: "portfolio \<Rightarrow> decimal \<Rightarrow> portfolio result" where
  "mark_to_market p price =
     res_bind (require_positive price) (\<lambda>_.
       let market_value = dmul (pf_base p) price;
           unrealized = dsub market_value (pf_cost p);
           equity = dadd (pf_cash p) market_value;
           peak = max (pf_peak p) equity;
           drawdown = dsub peak equity;
           drawdown_pct = drawdown_pct_of drawdown peak
       in make_portfolio (p\<lparr>pf_unrealized := unrealized, pf_equity := equity, pf_peak := peak,
            pf_drawdown := drawdown, pf_drawdown_pct := drawdown_pct, pf_mark := Some price\<rparr>))"

definition apply_buy :: "portfolio \<Rightarrow> fill \<Rightarrow> mutation result" where
  "apply_buy p f =
     (let economic_cost = dadd (fi_notional f) (fi_fee f) in
      require (\<not> pf_cash p < economic_cost) InsufficientCash (
      let quote_cash = dsub (pf_cash p) economic_cost;
          base_quantity = dadd (pf_base p) (fi_quantity f);
          cost_basis = dadd (pf_cost p) economic_cost
      in res_bind (ddiv_chk cost_basis base_quantity) (\<lambda>average_entry.
         res_bind (make_portfolio (p\<lparr>pf_cash := quote_cash, pf_base := base_quantity,
             pf_cost := cost_basis, pf_average := average_entry,
             pf_fees := dadd (pf_fees p) (fi_fee f),
             pf_slippage := dadd (pf_slippage p) (fi_slippage_cost f)\<rparr>)) (\<lambda>after.
         Inr \<lparr>mu_before = p, mu_after = after, mu_quote_delta = dneg economic_cost,
              mu_base_delta = fi_quantity f, mu_cost_delta = economic_cost, mu_realized_delta = 0\<rparr>))))"

definition apply_sell :: "portfolio \<Rightarrow> fill \<Rightarrow> mutation result" where
  "apply_sell p f =
     require (\<not> pf_base p < fi_quantity f) InsufficientPosition (
     res_bind (if fi_quantity f = pf_base p then Inr (pf_cost p)
               else ddiv_chk (dmul (pf_cost p) (fi_quantity f)) (pf_base p)) (\<lambda>released_cost.
     let net_proceeds = dsub (fi_notional f) (fi_fee f);
         realized_delta = dsub net_proceeds released_cost;
         quote_cash = dadd (pf_cash p) net_proceeds;
         base_quantity = dsub (pf_base p) (fi_quantity f);
         remaining_cost = dsub (pf_cost p) released_cost
     in res_bind (if base_quantity = 0 then Inr (0, 0)
                  else res_bind (ddiv_chk remaining_cost base_quantity) (\<lambda>a. Inr (remaining_cost, a)))
       (\<lambda>(cost_basis, average_entry).
        res_bind (make_portfolio (p\<lparr>pf_cash := quote_cash, pf_base := base_quantity,
            pf_cost := cost_basis, pf_average := average_entry,
            pf_realized := dadd (pf_realized p) realized_delta,
            pf_fees := dadd (pf_fees p) (fi_fee f),
            pf_slippage := dadd (pf_slippage p) (fi_slippage_cost f)\<rparr>)) (\<lambda>after.
        Inr \<lparr>mu_before = p, mu_after = after, mu_quote_delta = net_proceeds,
             mu_base_delta = dneg (fi_quantity f), mu_cost_delta = dneg released_cost,
             mu_realized_delta = realized_delta\<rparr>))))"

definition apply_fill :: "portfolio \<Rightarrow> fill \<Rightarrow> mutation result" where
  "apply_fill p f =
     res_bind (if fi_side f = BUY then apply_buy p f else apply_sell p f) (\<lambda>m.
     res_bind (mark_to_market (mu_after m) (fi_execution_price f)) (\<lambda>marked.
     Inr (m\<lparr>mu_after := marked\<rparr>)))"

section \<open>Validity\<close>

text \<open>What the constructor has checked of every portfolio that exists, in three groups.\<close>

definition position_ok :: "portfolio \<Rightarrow> bool" where
  "position_ok p \<longleftrightarrow> 0 \<le> pf_initial p \<and> 0 \<le> pf_cash p \<and> 0 \<le> pf_base p \<and> 0 \<le> pf_fees p \<and> 0 \<le> pf_slippage p \<and>
     (if pf_base p = 0 then pf_cost p = 0 \<and> pf_average p = 0 else 0 < pf_cost p \<and> 0 < pf_average p)"

definition valuation_ok :: "portfolio \<Rightarrow> bool" where
  "valuation_ok p \<longleftrightarrow> 0 \<le> pf_equity p \<and> pf_equity p \<le> pf_peak p \<and>
     pf_drawdown p = dsub (pf_peak p) (pf_equity p) \<and>
     pf_drawdown_pct p = drawdown_pct_of (pf_drawdown p) (pf_peak p) \<and>
     (\<forall>m. pf_mark p = Some m \<longrightarrow> 0 < m)"

definition portfolio_ok :: "portfolio \<Rightarrow> bool" where
  "portfolio_ok p \<longleftrightarrow> position_ok p \<and> valuation_ok p"

lemma drawdown_pct_nonneg: "0 \<le> d \<Longrightarrow> 0 \<le> p \<Longrightarrow> 0 \<le> drawdown_pct_of d p"
  by (simp add: drawdown_pct_of_def dec_intros)

lemma make_portfolio_iff: "make_portfolio p = Inr q \<longleftrightarrow> q = p \<and> portfolio_ok p"
proof
  assume "make_portfolio p = Inr q"
  then show "q = p \<and> portfolio_ok p"
    by (auto simp: make_portfolio_def portfolio_ok_def position_ok_def valuation_ok_def
        require_optional_def split: if_splits option.splits)
next
  assume a: "q = p \<and> portfolio_ok p"
  then have "0 \<le> pf_cost p" "0 \<le> pf_average p"
    by (auto simp: portfolio_ok_def position_ok_def split: if_splits)
  moreover have "0 \<le> pf_peak p" "0 \<le> pf_drawdown p" "0 \<le> pf_drawdown_pct p"
    using a by (auto simp: portfolio_ok_def valuation_ok_def dec_intros drawdown_pct_nonneg)
  moreover have "require_optional require_positive (pf_mark p) = Inr ()"
    using a by (auto simp: require_optional_def portfolio_ok_def valuation_ok_def split: option.splits)
  ultimately show "make_portfolio p = Inr q"
    using a by (simp add: make_portfolio_def portfolio_ok_def position_ok_def valuation_ok_def
        split: if_splits)
qed

lemma make_portfolio_error: "make_portfolio p = Inl e \<Longrightarrow> e = ValueError"
  by (auto simp: make_portfolio_def require_all_nonnegative_def require_optional_def
      require_positive_def require_nonnegative_def require_def res_bind_def
      split: if_splits option.splits sum.splits)

lemma make_portfolio_eq: "make_portfolio p = (if portfolio_ok p then Inr p else Inl ValueError)"
proof (cases "portfolio_ok p")
  case False
  then show ?thesis
    using make_portfolio_iff [of p] make_portfolio_error [of p] by (cases "make_portfolio p") auto
qed (simp add: make_portfolio_iff)

lemma initialize_portfolio_ok:
  "0 < capital \<Longrightarrow> \<exists>p. initialize_portfolio capital = Inr p \<and> portfolio_ok p \<and> pf_cash p = capital \<and> pf_base p = 0"
  by (simp add: initialize_portfolio_def make_portfolio_iff portfolio_ok_def position_ok_def
      valuation_ok_def drawdown_pct_of_def)

lemma portfolio_view_ok: "portfolio_ok p \<Longrightarrow> \<exists>v. portfolio_view p = Inr v"
  by (auto simp: portfolio_view_def make_portfolio_snapshot_def portfolio_ok_def position_ok_def
      valuation_ok_def dec_intros drawdown_pct_nonneg split: if_splits)

text \<open>A fill the constructor has accepted.\<close>

definition fill_ok :: "fill \<Rightarrow> bool" where
  "fill_ok f \<longleftrightarrow> 0 < fi_quantity f \<and> 0 < fi_execution_price f \<and> 0 < fi_notional f \<and> 0 \<le> fi_fee f \<and>
     0 \<le> fi_slippage_cost f \<and> fi_notional f = dmul (fi_quantity f) (fi_execution_price f)"

lemma make_fill_ok: "make_fill f = Inr g \<Longrightarrow> g = f \<and> fill_ok f"
  by (auto simp: make_fill_def fill_ok_def)

section \<open>Marking\<close>

lemma mark_valuation_ok:
  assumes "position_ok p" and "valuation_ok p" and "0 < price"
  shows "\<exists>q. mark_to_market p price = Inr q \<and> portfolio_ok q \<and> position_ok q \<and>
    pf_cash q = pf_cash p \<and> pf_base q = pf_base p \<and> pf_cost q = pf_cost p \<and> pf_realized q = pf_realized p \<and>
    pf_fees q = pf_fees p \<and> pf_average q = pf_average p \<and> pf_mark q = Some price \<and>
    pf_equity q = dadd (pf_cash p) (dmul (pf_base p) price) \<and> pf_peak p \<le> pf_peak q"
  using assms
  by (simp add: mark_to_market_def Let_def make_portfolio_iff portfolio_ok_def position_ok_def
      valuation_ok_def dec_intros)

lemma mark_to_market_ok:
  assumes "portfolio_ok p" and "0 < price"
  obtains q where "mark_to_market p price = Inr q" and "portfolio_ok q" and "pf_cash q = pf_cash p"
    and "pf_base q = pf_base p" and "pf_cost q = pf_cost p" and "pf_realized q = pf_realized p"
    and "pf_mark q = Some price" and "pf_equity q = dadd (pf_cash p) (dmul (pf_base p) price)"
  using mark_valuation_ok [of p price] assms unfolding portfolio_ok_def by blast

lemma mark_to_market_Inr:
  assumes "mark_to_market p price = Inr q"
  shows "0 < price" and "portfolio_ok q" and "pf_cash q = pf_cash p" and "pf_base q = pf_base p"
    and "pf_cost q = pf_cost p" and "pf_realized q = pf_realized p" and "pf_average q = pf_average p"
    and "pf_mark q = Some price" and "pf_peak p \<le> pf_peak q" and "pf_initial q = pf_initial p"
  using assms by (auto simp: mark_to_market_def Let_def make_portfolio_iff)

section \<open>Buying\<close>

lemma apply_buy_rejected:
  "pf_cash p < dadd (fi_notional f) (fi_fee f) \<Longrightarrow> apply_buy p f = Inl InsufficientCash"
  by (simp add: apply_buy_def Let_def)

lemma apply_buy_ok:
  assumes "portfolio_ok p" and "fill_ok f" and "dadd (fi_notional f) (fi_fee f) \<le> pf_cash p"
  shows "\<exists>m. apply_buy p f = Inr m \<and> portfolio_ok (mu_after m) \<and>
    pf_cash (mu_after m) = dsub (pf_cash p) (dadd (fi_notional f) (fi_fee f)) \<and>
    pf_base (mu_after m) = dadd (pf_base p) (fi_quantity f) \<and>
    pf_cost (mu_after m) = dadd (pf_cost p) (dadd (fi_notional f) (fi_fee f)) \<and>
    pf_realized (mu_after m) = pf_realized p \<and> mu_realized_delta m = 0"
proof -
  let ?ec = "dadd (fi_notional f) (fi_fee f)"
  have ec: "0 < ?ec" using assms(2) by (simp add: fill_ok_def dadd_def d28.r_pos)
  have base: "0 < dadd (pf_base p) (fi_quantity f)"
    using assms(1,2) by (auto simp: portfolio_ok_def position_ok_def fill_ok_def dec_intros)
  have "0 \<le> pf_cost p" using assms(1) by (auto simp: portfolio_ok_def position_ok_def split: if_splits)
  with ec have cost: "0 < dadd (pf_cost p) ?ec" by (rule dadd_pos [rotated])
  have "0 \<le> dsub (pf_cash p) ?ec" using assms(3) by (rule dsub_nonneg)
  moreover have "0 \<le> dadd (pf_fees p) (fi_fee f)" "0 \<le> dadd (pf_slippage p) (fi_slippage_cost f)"
    using assms(1,2) by (auto simp: portfolio_ok_def position_ok_def fill_ok_def dec_intros)
  moreover have "0 < ddiv (dadd (pf_cost p) ?ec) (dadd (pf_base p) (fi_quantity f))"
    using base cost by (simp add: ddiv_pos)
  moreover have "0 \<le> pf_initial p" "valuation_ok p"
    using assms(1) by (simp_all add: portfolio_ok_def position_ok_def)
  ultimately show ?thesis
    using assms(3) base cost
    by (simp add: apply_buy_def Let_def ddiv_chk_def make_portfolio_iff portfolio_ok_def
        position_ok_def valuation_ok_def)
qed

section \<open>Selling\<close>

lemma apply_sell_rejected: "pf_base p < fi_quantity f \<Longrightarrow> apply_sell p f = Inl InsufficientPosition"
  by (simp add: apply_sell_def)

text \<open>The cost a sale releases, and when the rounding of a partial sale leaves some of it.\<close>

definition released_cost :: "portfolio \<Rightarrow> fill \<Rightarrow> decimal" where
  "released_cost p f = (if fi_quantity f = pf_base p then pf_cost p
     else ddiv (dmul (pf_cost p) (fi_quantity f)) (pf_base p))"

definition sale_ok :: "portfolio \<Rightarrow> fill \<Rightarrow> bool" where
  "sale_ok p f \<longleftrightarrow> fi_quantity f \<le> pf_base p \<and> fi_fee f \<le> fi_notional f \<and>
     (fi_quantity f = pf_base p \<or> released_cost p f < pf_cost p)"

lemma released_cost_bound:
  assumes "portfolio_ok p" and "0 < fi_quantity f" and "fi_quantity f * (1 + eps28)\<^sup>2 < pf_base p"
  shows "released_cost p f < pf_cost p"
proof -
  have eps: "0 \<le> eps28" by (rule d28.eps_nonneg)
  then have "fi_quantity f * 1 \<le> fi_quantity f * (1 + eps28)\<^sup>2"
    using assms(2) by (intro mult_left_mono) (simp_all add: power2_eq_square algebra_simps)
  then have "fi_quantity f < pf_base p" using assms(3) by linarith
  with assms(2) have base: "0 < pf_base p" and ne: "fi_quantity f \<noteq> pf_base p" by linarith+
  with assms(1) have cost: "0 < pf_cost p" by (simp add: portfolio_ok_def position_ok_def)
  have "dmul (pf_cost p) (fi_quantity f) \<le> pf_cost p * fi_quantity f * (1 + eps28)"
    unfolding dmul_def using cost assms(2) by (intro d28.r_upper) simp
  then have "dmul (pf_cost p) (fi_quantity f) / pf_base p * (1 + eps28)
      \<le> (pf_cost p * fi_quantity f * (1 + eps28)) / pf_base p * (1 + eps28)"
    using base eps by (intro mult_right_mono divide_right_mono) simp_all
  moreover have "released_cost p f \<le> dmul (pf_cost p) (fi_quantity f) / pf_base p * (1 + eps28)"
    unfolding released_cost_def ddiv_def using ne base cost assms(2)
    by (simp only: if_False) (intro d28.r_upper, simp add: dec_intros)
  ultimately have "released_cost p f \<le> (pf_cost p * fi_quantity f * (1 + eps28)) / pf_base p * (1 + eps28)"
    by (rule order_trans [rotated])
  also have "\<dots> = pf_cost p * (fi_quantity f * (1 + eps28)\<^sup>2 / pf_base p)"
    by (simp add: power2_eq_square)
  also have "\<dots> < pf_cost p * 1"
    using assms(3) base cost by (intro mult_strict_left_mono) (simp_all add: divide_less_eq)
  finally show ?thesis by simp
qed

lemma apply_sell_ok:
  assumes "portfolio_ok p" and "fill_ok f" and "sale_ok p f"
  shows "\<exists>m. apply_sell p f = Inr m \<and> portfolio_ok (mu_after m) \<and>
    pf_cash (mu_after m) = dadd (pf_cash p) (dsub (fi_notional f) (fi_fee f)) \<and>
    pf_base (mu_after m) = dsub (pf_base p) (fi_quantity f) \<and>
    pf_cost (mu_after m) = dsub (pf_cost p) (released_cost p f) \<and>
    pf_realized (mu_after m) = dadd (pf_realized p) (mu_realized_delta m) \<and>
    mu_realized_delta m = dsub (dsub (fi_notional f) (fi_fee f)) (released_cost p f)"
proof -
  have q: "0 < fi_quantity f" "fi_quantity f \<le> pf_base p" "fi_fee f \<le> fi_notional f"
    using assms(2,3) by (simp_all add: fill_ok_def sale_ok_def)
  have cash: "0 \<le> dadd (pf_cash p) (dsub (fi_notional f) (fi_fee f))"
    using assms(1) q(3) by (simp add: portfolio_ok_def position_ok_def dec_intros)
  have sums: "0 \<le> dadd (pf_fees p) (fi_fee f)" "0 \<le> dadd (pf_slippage p) (fi_slippage_cost f)"
    using assms(1,2) by (auto simp: portfolio_ok_def position_ok_def fill_ok_def dec_intros)
  have v: "0 \<le> pf_initial p" "valuation_ok p"
    using assms(1) by (simp_all add: portfolio_ok_def position_ok_def)
  show ?thesis
  proof (cases "fi_quantity f = pf_base p")
    case True
    with cash sums v q show ?thesis
      by (simp add: apply_sell_def Let_def make_portfolio_iff portfolio_ok_def position_ok_def
          valuation_ok_def released_cost_def)
  next
    case False
    with q have base: "0 < dsub (pf_base p) (fi_quantity f)" by (simp add: dsub_pos)
    have cost: "0 < dsub (pf_cost p) (released_cost p f)"
      using assms(3) False by (auto simp: sale_ok_def dsub_pos)
    have "0 < ddiv (dsub (pf_cost p) (released_cost p f)) (dsub (pf_base p) (fi_quantity f))"
      using base cost by (rule ddiv_pos [rotated])
    with False q base cost cash sums v show ?thesis
      by (simp add: apply_sell_def Let_def ddiv_chk_def make_portfolio_iff portfolio_ok_def
          position_ok_def valuation_ok_def released_cost_def)
  qed
qed

lemma apply_sell_costless:
  assumes "fi_quantity f < pf_base p" and "0 < pf_base p" and "released_cost p f = pf_cost p"
  shows "apply_sell p f = Inl ValueError"
proof -
  have "0 < dsub (pf_base p) (fi_quantity f)" using assms(1) by (rule dsub_pos)
  then show ?thesis
    using assms by (simp add: apply_sell_def Let_def ddiv_chk_def make_portfolio_eq released_cost_def
        portfolio_ok_def position_ok_def)
qed

text \<open>Whatever \<^verbatim>\<open>apply_fill\<close> returns is a valid portfolio marked at the execution price.\<close>

lemma apply_fill_valid:
  assumes "apply_fill p f = Inr m"
  shows "portfolio_ok (mu_after m)" and "pf_mark (mu_after m) = Some (fi_execution_price f)"
    and "pf_cash (mu_after m) = dadd (pf_cash p) (if fi_side f = BUY
       then - dadd (fi_notional f) (fi_fee f) else dsub (fi_notional f) (fi_fee f))"
    and "pf_base (mu_after m) = dadd (pf_base p) (if fi_side f = BUY then fi_quantity f else - fi_quantity f)"
    and "fi_side f = SELL \<Longrightarrow> fi_quantity f \<le> pf_base p"
    and "pf_initial (mu_after m) = pf_initial p"
proof -
  from assms obtain m0 q where m0: "(if fi_side f = BUY then apply_buy p f else apply_sell p f) = Inr m0"
    and q: "mark_to_market (mu_after m0) (fi_execution_price f) = Inr q" "m = m0\<lparr>mu_after := q\<rparr>"
    by (auto simp: apply_fill_def)
  note mq = mark_to_market_Inr [OF q(1)]
  from mq q(2) show "portfolio_ok (mu_after m)" "pf_mark (mu_after m) = Some (fi_execution_price f)" by simp_all
  from m0 mq q(2) show "pf_cash (mu_after m) = dadd (pf_cash p) (if fi_side f = BUY
       then - dadd (fi_notional f) (fi_fee f) else dsub (fi_notional f) (fi_fee f))"
    "pf_base (mu_after m) = dadd (pf_base p) (if fi_side f = BUY then fi_quantity f else - fi_quantity f)"
    "pf_initial (mu_after m) = pf_initial p"
    by (auto simp: apply_buy_def apply_sell_def Let_def make_portfolio_iff dsub_def dadd_def split: if_splits)
  from m0 show "fi_side f = SELL \<Longrightarrow> fi_quantity f \<le> pf_base p"
    by (auto simp: apply_sell_def split: if_splits)
qed

section \<open>The books\<close>

text \<open>Cash plus the cost of what is held, less what has been realised.\<close>

definition books :: "portfolio \<Rightarrow> decimal" where
  "books p = pf_cash p + pf_cost p - pf_realized p"

lemma apply_sell_released:
  assumes "apply_sell p f = Inr m" and "portfolio_ok p" and "fill_ok f"
  shows "0 \<le> released_cost p f" and "released_cost p f \<le> pf_cost p"
    and "pf_cost (mu_after m) = dsub (pf_cost p) (released_cost p f)"
    and "pf_cash (mu_after m) = dadd (pf_cash p) (dsub (fi_notional f) (fi_fee f))"
    and "pf_realized (mu_after m) =
      dadd (pf_realized p) (dsub (dsub (fi_notional f) (fi_fee f)) (released_cost p f))"
proof -
  have q: "0 < fi_quantity f" using assms(3) by (simp add: fill_ok_def)
  have cost: "0 \<le> pf_cost p" using assms(2) by (auto simp: portfolio_ok_def position_ok_def split: if_splits)
  with q assms(2) show rel0: "0 \<le> released_cost p f"
    by (auto simp: released_cost_def portfolio_ok_def position_ok_def intro!: ddiv_nonneg dmul_nonneg)
  show "released_cost p f \<le> pf_cost p"
  proof (cases "fi_quantity f = pf_base p")
    case True
    then show ?thesis by (simp add: released_cost_def)
  next
    case False
    with assms(1) have "0 < dsub (pf_cost p) (released_cost p f)"
      by (auto simp: apply_sell_def Let_def ddiv_chk_def make_portfolio_iff portfolio_ok_def
          position_ok_def released_cost_def dsub_def split: if_splits)
    then show ?thesis using dsub_neg_iff [of "pf_cost p" "released_cost p f"] by fastforce
  qed
  show "pf_cost (mu_after m) = dsub (pf_cost p) (released_cost p f)"
    using assms(1) by (cases "fi_quantity f = pf_base p")
      (auto simp: apply_sell_def Let_def ddiv_chk_def make_portfolio_iff released_cost_def dsub_def split: if_splits)
  show "pf_cash (mu_after m) = dadd (pf_cash p) (dsub (fi_notional f) (fi_fee f))"
    "pf_realized (mu_after m) =
      dadd (pf_realized p) (dsub (dsub (fi_notional f) (fi_fee f)) (released_cost p f))"
    using assms(1) by (auto simp: apply_sell_def Let_def ddiv_chk_def make_portfolio_iff released_cost_def split: if_splits)
qed

text \<open>The rounding error of one operation, against a bound on its exact result.\<close>

lemma d28_error_le: "\<bar>x\<bar> \<le> b \<Longrightarrow> \<bar>dec28 x - x\<bar> \<le> b * eps28"
  using d28.r_error [of x] mult_right_mono [of "\<bar>x\<bar>" b eps28] d28.eps_nonneg by linarith

lemma eps28_le: "0 \<le> b \<Longrightarrow> b * eps28 \<le> b / 1000"
  using mult_left_mono [OF d28.eps_small, of b] by simp

lemma abs_le_of_error:
  fixes a b e x :: rat
  shows "\<bar>a - b\<bar> \<le> e \<Longrightarrow> \<bar>b\<bar> \<le> x \<Longrightarrow> e \<le> x / 1000 \<Longrightarrow> \<bar>a\<bar> \<le> x * (1001 / 1000)"
  by (simp add: abs_le_iff) linarith

lemma sale_drift_terms:
  fixes np rel cost n r cash z :: rat
  assumes "r \<le> (np + rel) * (1001 / 1000)" and "np \<le> n * (1001 / 1000)" and "0 \<le> rel"
    and "rel \<le> cost" and "0 < n"
  shows "cash + cost + z + r + 2 * np \<le> cash + 3 * cost + z + 4 * n"
proof -
  have "r \<le> np * (1001 / 1000) + cost * (1001 / 1000)"
    using assms(1,4) by (simp add: algebra_simps)
  with assms(2,3,4,5) show ?thesis by (simp add: algebra_simps)
qed

lemma books_buy:
  assumes "apply_buy p f = Inr m" and "portfolio_ok p" and "fill_ok f"
  shows "\<bar>books (mu_after m) - books p\<bar> \<le> (pf_cash p + pf_cost p) * eps28"
proof -
  let ?ec = "dadd (fi_notional f) (fi_fee f)"
  have ec: "0 < ?ec" using assms(3) by (simp add: fill_ok_def dadd_def d28.r_pos)
  have a: "?ec \<le> pf_cash p" "pf_cash (mu_after m) = dec28 (pf_cash p - ?ec)"
    "pf_cost (mu_after m) = dec28 (pf_cost p + ?ec)" "pf_realized (mu_after m) = pf_realized p"
    using assms(1) by (auto simp: apply_buy_def Let_def make_portfolio_iff dsub_def [of _ ?ec] dadd_def [of _ ?ec])
  have "0 \<le> pf_cost p" using assms(2) by (auto simp: portfolio_ok_def position_ok_def split: if_splits)
  then have "\<bar>dec28 (pf_cash p - ?ec) - (pf_cash p - ?ec)\<bar> \<le> (pf_cash p - ?ec) * eps28"
    "\<bar>dec28 (pf_cost p + ?ec) - (pf_cost p + ?ec)\<bar> \<le> (pf_cost p + ?ec) * eps28"
    using ec a(1) by (intro d28_error_le; simp)+
  then have "\<bar>dec28 (pf_cash p - ?ec) + dec28 (pf_cost p + ?ec) - (pf_cash p + pf_cost p)\<bar>
      \<le> (pf_cash p - ?ec) * eps28 + (pf_cost p + ?ec) * eps28" by linarith
  also have "\<dots> = (pf_cash p + pf_cost p) * eps28" by (simp add: algebra_simps)
  finally show ?thesis using a(2-4) by (simp add: books_def)
qed

lemma books_sell:
  assumes "apply_sell p f = Inr m" and "portfolio_ok p" and "fill_ok f" and "fi_fee f \<le> fi_notional f"
  shows "\<bar>books (mu_after m) - books p\<bar>
    \<le> (pf_cash p + 3 * pf_cost p + \<bar>pf_realized p\<bar> + 4 * fi_notional f) * eps28"
proof -
  let ?np = "dsub (fi_notional f) (fi_fee f)" and ?rel = "released_cost p f"
  let ?rd = "dsub ?np ?rel"
  note s = apply_sell_released [OF assms(1-3)]
  have fee: "0 \<le> fi_fee f" "0 < fi_notional f" using assms(3) by (simp_all add: fill_ok_def)
  have cash: "0 \<le> pf_cash p" using assms(2) by (simp add: portfolio_ok_def position_ok_def)
  have np: "0 \<le> ?np" "?np \<le> fi_notional f * (1001 / 1000)"
    using assms(4) fee d28.r_upper [of "fi_notional f - fi_fee f"] eps28_le [of "fi_notional f - fi_fee f"]
    by (simp_all add: dec_intros dsub_def algebra_simps)
  have np_rel: "\<bar>?np - ?rel\<bar> \<le> ?np + ?rel" using np(1) s(1) by linarith
  have rd: "\<bar>?rd - (?np - ?rel)\<bar> \<le> (?np + ?rel) * eps28"
    unfolding dsub_def [of ?np ?rel] using np_rel by (rule d28_error_le)
  then have rd_abs: "\<bar>?rd\<bar> \<le> (?np + ?rel) * (1001 / 1000)"
    by (rule abs_le_of_error [OF _ np_rel eps28_le [OF add_nonneg_nonneg [OF np(1) s(1)]]])
  have e1: "\<bar>dec28 (pf_cash p + ?np) - (pf_cash p + ?np)\<bar> \<le> (pf_cash p + ?np) * eps28"
    using cash np(1) by (intro d28_error_le) simp
  have e2: "\<bar>dec28 (pf_cost p - ?rel) - (pf_cost p - ?rel)\<bar> \<le> (pf_cost p - ?rel) * eps28"
    using s(2) by (intro d28_error_le) simp
  have e3: "\<bar>dec28 (pf_realized p + ?rd) - (pf_realized p + ?rd)\<bar> \<le> (\<bar>pf_realized p\<bar> + \<bar>?rd\<bar>) * eps28"
    by (intro d28_error_le) linarith
  have "books (mu_after m) - books p =
      (dec28 (pf_cash p + ?np) - (pf_cash p + ?np)) + (dec28 (pf_cost p - ?rel) - (pf_cost p - ?rel))
      - (dec28 (pf_realized p + ?rd) - (pf_realized p + ?rd)) - (?rd - (?np - ?rel))"
    by (simp add: books_def s(3-5) dadd_def [of "pf_cash p"] dadd_def [of "pf_realized p"] dsub_def [of "pf_cost p"])
  then have "\<bar>books (mu_after m) - books p\<bar> \<le> (pf_cash p + ?np) * eps28 + (pf_cost p - ?rel) * eps28
      + (\<bar>pf_realized p\<bar> + \<bar>?rd\<bar>) * eps28 + (?np + ?rel) * eps28"
    using e1 e2 e3 rd by linarith
  also have "\<dots> = (pf_cash p + pf_cost p + \<bar>pf_realized p\<bar> + \<bar>?rd\<bar> + 2 * ?np) * eps28"
    by (simp add: algebra_simps)
  also have "\<dots> \<le> (pf_cash p + 3 * pf_cost p + \<bar>pf_realized p\<bar> + 4 * fi_notional f) * eps28"
    by (intro mult_right_mono d28.eps_nonneg sale_drift_terms [OF rd_abs np(2) s(1,2) fee(2)])
  finally show ?thesis .
qed

lemma books_mark: "mark_to_market p price = Inr q \<Longrightarrow> books q = books p"
  by (simp add: books_def mark_to_market_Inr)

section \<open>Properties\<close>

lemma apply_fill_cases:
  assumes "portfolio_ok p" and "fill_ok f"
  shows "if fi_side f = BUY
     then (if pf_cash p < dadd (fi_notional f) (fi_fee f) then apply_fill p f = Inl InsufficientCash
           else \<exists>m. apply_fill p f = Inr m \<and> portfolio_ok (mu_after m) \<and>
             pf_cash (mu_after m) = dsub (pf_cash p) (dadd (fi_notional f) (fi_fee f)) \<and>
             pf_base (mu_after m) = dadd (pf_base p) (fi_quantity f) \<and>
             pf_equity (mu_after m) = dadd (pf_cash (mu_after m))
               (dmul (pf_base (mu_after m)) (fi_execution_price f)))
     else (if pf_base p < fi_quantity f then apply_fill p f = Inl InsufficientPosition
           else sale_ok p f \<longrightarrow> (\<exists>m. apply_fill p f = Inr m \<and> portfolio_ok (mu_after m) \<and>
             pf_cash (mu_after m) = dadd (pf_cash p) (dsub (fi_notional f) (fi_fee f)) \<and>
             pf_base (mu_after m) = dsub (pf_base p) (fi_quantity f) \<and>
             pf_equity (mu_after m) = dadd (pf_cash (mu_after m))
               (dmul (pf_base (mu_after m)) (fi_execution_price f))))"
proof -
  have price: "0 < fi_execution_price f" using assms(2) by (simp add: fill_ok_def)
  have marked: "\<exists>m'. (res_bind (mark_to_market (mu_after m) (fi_execution_price f)) (\<lambda>q. Inr (m\<lparr>mu_after := q\<rparr>))) = Inr m' \<and>
      portfolio_ok (mu_after m') \<and> pf_cash (mu_after m') = pf_cash (mu_after m) \<and> pf_base (mu_after m') = pf_base (mu_after m) \<and>
      pf_equity (mu_after m') = dadd (pf_cash (mu_after m')) (dmul (pf_base (mu_after m')) (fi_execution_price f))"
    if "portfolio_ok (mu_after m)" for m
    using mark_to_market_ok [OF that price] by fastforce
  show ?thesis
  proof (cases "fi_side f = BUY")
    case True
    then have eq: "apply_fill p f = res_bind (apply_buy p f)
        (\<lambda>m. res_bind (mark_to_market (mu_after m) (fi_execution_price f)) (\<lambda>q. Inr (m\<lparr>mu_after := q\<rparr>)))"
      by (simp add: apply_fill_def)
    show ?thesis
    proof (cases "pf_cash p < dadd (fi_notional f) (fi_fee f)")
      case False
      then obtain m where m: "apply_buy p f = Inr m" "portfolio_ok (mu_after m)"
        "pf_cash (mu_after m) = dsub (pf_cash p) (dadd (fi_notional f) (fi_fee f))"
        "pf_base (mu_after m) = dadd (pf_base p) (fi_quantity f)"
        using apply_buy_ok [OF assms] by auto
      show ?thesis unfolding eq m(1) res_bind_simps using marked [OF m(2)] True False m(3,4) by (simp del: res_bind_Inr_iff)
    qed (simp add: eq True apply_buy_rejected)
  next
    case sell: False
    then have eq: "apply_fill p f = res_bind (apply_sell p f)
        (\<lambda>m. res_bind (mark_to_market (mu_after m) (fi_execution_price f)) (\<lambda>q. Inr (m\<lparr>mu_after := q\<rparr>)))"
      by (simp add: apply_fill_def)
    show ?thesis
    proof (cases "sale_ok p f")
      case True
      then obtain m where m: "apply_sell p f = Inr m" "portfolio_ok (mu_after m)"
        "pf_cash (mu_after m) = dadd (pf_cash p) (dsub (fi_notional f) (fi_fee f))"
        "pf_base (mu_after m) = dsub (pf_base p) (fi_quantity f)"
        using apply_sell_ok [OF assms] by auto
      show ?thesis unfolding eq m(1) res_bind_simps
        using marked [OF m(2)] sell True m(3,4) by (simp add: sale_ok_def del: res_bind_Inr_iff)
    qed (simp add: eq sell apply_sell_rejected)
  qed
qed


definition example_portfolio :: portfolio where
  "example_portfolio =
     \<lparr>pf_initial = 1000, pf_cash = 1000, pf_base = 0, pf_cost = 0, pf_average = 0, pf_realized = 0,
      pf_unrealized = 0, pf_fees = 0, pf_slippage = 0, pf_equity = 1000, pf_peak = 1000,
      pf_drawdown = 0, pf_drawdown_pct = 0, pf_mark = None\<rparr>"

definition example_fill :: "order_side \<Rightarrow> decimal \<Rightarrow> fill" where
  "example_fill side quantity =
     \<lparr>fi_id = ''F000000000001'', fi_order_id = ''O000000000001'', fi_reason = MARKET_OPEN, fi_liquidity = TAKER,
      fi_side = side, fi_quantity = quantity, fi_base_price = 100, fi_execution_price = 100,
      fi_notional = dmul quantity 100, fi_fee = 1, fi_slippage_cost = 0, fi_event_time = 0, fi_candle_index = 0\<rparr>"

lemma example_portfolio_ok: "portfolio_ok example_portfolio"
  by (simp add: example_portfolio_def portfolio_ok_def position_ok_def valuation_ok_def drawdown_pct_of_def)

lemma example_fill_ok: "0 < q \<Longrightarrow> fill_ok (example_fill side q)"
  by (simp add: example_fill_def fill_ok_def dec_intros)

lemma apply_fill_example:
  "\<exists>m. apply_fill example_portfolio (example_fill BUY 2) = Inr m \<and> pf_cash (mu_after m) = 799 \<and>
     pf_base (mu_after m) = 2 \<and> portfolio_ok (mu_after m)"
  using apply_fill_cases [OF example_portfolio_ok example_fill_ok [of 2 BUY]]
  by (auto simp: example_portfolio_def example_fill_def dops)


text \<open>The books (cash plus cost basis less realised profit) are moved by a fill by rounding alone:
  at most four times the amounts involved, in units of half the 28th digit.  No fill creates or
  destroys money beyond that.\<close>

theorem books_drift:
  assumes "portfolio_ok p" and "fill_ok f" and "fi_fee f \<le> fi_notional f" and "apply_fill p f = Inr m"
  shows "\<bar>books (mu_after m) - books p\<bar>
    \<le> 4 * (pf_cash p + pf_cost p + \<bar>pf_realized p\<bar> + fi_notional f) * eps28"
proof -
  from assms(4) obtain m0 q where m0: "(if fi_side f = BUY then apply_buy p f else apply_sell p f) = Inr m0"
    and q: "mark_to_market (mu_after m0) (fi_execution_price f) = Inr q" "m = m0\<lparr>mu_after := q\<rparr>"
    by (auto simp: apply_fill_def)
  have eq: "books (mu_after m) = books (mu_after m0)" using books_mark [OF q(1)] q(2) by simp
  have pos: "0 \<le> pf_cash p" "0 \<le> pf_cost p" "0 < fi_notional f"
    using assms(1,2) by (auto simp: portfolio_ok_def position_ok_def fill_ok_def split: if_splits)
  have wide: "b * eps28 \<le> 4 * (pf_cash p + pf_cost p + \<bar>pf_realized p\<bar> + fi_notional f) * eps28"
    if "b \<le> 4 * (pf_cash p + pf_cost p + \<bar>pf_realized p\<bar> + fi_notional f)" for b
    using that by (intro mult_right_mono d28.eps_nonneg)
  show ?thesis
  proof (cases "fi_side f = BUY")
    case True
    with m0 have "apply_buy p f = Inr m0" by simp
    from books_buy [OF this assms(1,2)] wide [of "pf_cash p + pf_cost p"] pos eq show ?thesis by fastforce
  next
    case False
    with m0 have "apply_sell p f = Inr m0" by simp
    from books_sell [OF this assms(1-3)] wide [of "pf_cash p + 3 * pf_cost p + \<bar>pf_realized p\<bar> + 4 * fi_notional f"]
      pos eq show ?thesis by fastforce
  qed
qed

theorem books_drift_witness:
  "\<exists>m. apply_fill example_portfolio (example_fill BUY 2) = Inr m \<and>
    \<bar>books (mu_after m) - 1000\<bar> \<le> 4 * 1200 * eps28"
proof -
  obtain m where m: "apply_fill example_portfolio (example_fill BUY 2) = Inr m"
    using apply_fill_example by blast
  have b: "books example_portfolio = 1000" "fi_notional (example_fill BUY 2) = 200" "fi_fee (example_fill BUY 2) = 1"
    by (simp_all add: books_def example_portfolio_def example_fill_def dmul_def)
  have "\<bar>books (mu_after m) - books example_portfolio\<bar> \<le> 4 * 1200 * eps28"
    using books_drift [OF example_portfolio_ok example_fill_ok [of 2 BUY] _ m] b
    by (simp add: example_portfolio_def)
  with m b show ?thesis by auto
qed

definition rounding_position :: portfolio where
  "rounding_position =
     \<lparr>pf_initial = 1000, pf_cash = 850, pf_base = 1, pf_cost = 3 / 2, pf_average = 3 / 2, pf_realized = 0,
      pf_unrealized = 0, pf_fees = 0, pf_slippage = 0, pf_equity = 1000, pf_peak = 1000,
      pf_drawdown = 0, pf_drawdown_pct = 0, pf_mark = None\<rparr>"

definition rounding_quantity :: decimal where
  "rounding_quantity = 9999999999999999999999999999 / 10000000000000000000000000000"

lemma rounding_released: "dmul (3 / 2) rounding_quantity = 3 / 2"
  by (simp add: rounding_quantity_def dec_eval)

lemma rounding_notional: "dmul rounding_quantity 100 = rounding_quantity * 100"
  by (simp add: rounding_quantity_def dec_eval)

lemma rounding_rest: "dsub 1 rounding_quantity = 1 / 10000000000000000000000000000" "ddiv (3 / 2) 1 = 3 / 2"
  by (simp_all add: rounding_quantity_def dec_eval)

text \<open>A sale of almost the whole position can be refused although it is affordable: when the released
  cost rounds to the whole cost basis, the remainder has quantity but no cost, and the constructor
  of the new state raises.\<close>

theorem partial_sale_refused:
  "portfolio_ok rounding_position \<and> fill_ok (example_fill SELL rounding_quantity) \<and>
   fi_quantity (example_fill SELL rounding_quantity) < pf_base rounding_position \<and>
   fi_fee (example_fill SELL rounding_quantity) < fi_notional (example_fill SELL rounding_quantity) \<and>
   apply_fill rounding_position (example_fill SELL rounding_quantity) = Inl ValueError"
proof -
  have q: "0 < rounding_quantity" "rounding_quantity < 1" "1 < rounding_quantity * 100"
    by (simp_all add: rounding_quantity_def)
  have "released_cost rounding_position (example_fill SELL rounding_quantity) = pf_cost rounding_position"
    using q(2) by (simp add: released_cost_def rounding_position_def example_fill_def
        rounding_released rounding_rest(2))
  with q(2) have "apply_sell rounding_position (example_fill SELL rounding_quantity) = Inl ValueError"
    by (intro apply_sell_costless) (simp_all add: rounding_position_def example_fill_def)
  then show ?thesis
    using q example_fill_ok [of rounding_quantity SELL] rounding_notional
    by (simp add: apply_fill_def example_fill_def rounding_position_def portfolio_ok_def
        position_ok_def valuation_ok_def drawdown_pct_of_def)
qed

end
