(* ===== verification/Lifecycle.thy ===== *)
theory Lifecycle
  imports Prelude
begin

text \<open>
  Status machines.  Several records of the program carry a status and a table of the moves a status
  allows: orders, session runs, collectors.  The contract of such a table is a locale; its lemmas
  (a final status is left by no move, a ranked table allows only finitely many moves) are
  proved once and interpreted on every table of the model.
\<close>

text \<open>A sequence of moves a table allows from a status.\<close>

fun walk :: "('s \<Rightarrow> 's list) \<Rightarrow> 's \<Rightarrow> 's list \<Rightarrow> bool" where
  "walk moves s [] = True"
| "walk moves s (t # ts) = (t \<in> set (moves s) \<and> walk moves t ts)"

lemma walk_append: "walk moves s (ts @ us) \<longleftrightarrow> walk moves s ts \<and> walk moves (last (s # ts)) us"
  by (induction ts arbitrary: s) auto

locale lifecycle =
  fixes moves :: "'s \<Rightarrow> 's list" and final :: "'s \<Rightarrow> bool"
  assumes final_stuck: "final s \<Longrightarrow> moves s = []"
    and stuck_final: "moves s = [] \<Longrightarrow> final s"
begin

lemma final_iff: "final s \<longleftrightarrow> moves s = []"
  using final_stuck stuck_final by blast

lemma no_walk_from_final: "final s \<Longrightarrow> walk moves s ts \<Longrightarrow> ts = []"
  by (cases ts) (simp_all add: final_iff)

lemma final_only_last:
  "walk moves s ts \<Longrightarrow> i < length ts \<Longrightarrow> final ((s # ts) ! i) \<Longrightarrow> False"
proof (induction ts arbitrary: s i)
  case (Cons t ts)
  then show ?case by (cases i) (auto simp: final_iff)
qed simp

end

text \<open>Tables that only move forward: every move lowers a rank.\<close>

locale ranked_lifecycle = lifecycle moves final for moves :: "'s \<Rightarrow> 's list" and final +
  fixes rank :: "'s \<Rightarrow> nat"
  assumes moves_rank: "t \<in> set (moves s) \<Longrightarrow> rank t < rank s"
begin

lemma walk_rank: "walk moves s ts \<Longrightarrow> rank (last (s # ts)) + length ts \<le> rank s"
proof (induction ts arbitrary: s)
  case (Cons t ts)
  then have "rank (last (t # ts)) + length ts \<le> rank t" "rank t < rank s"
    by (auto intro: moves_rank)
  then show ?case by simp
qed simp

lemma walk_length: "walk moves s ts \<Longrightarrow> length ts \<le> rank s"
  using walk_rank by fastforce

lemma walk_rank_less: "walk moves s ts \<Longrightarrow> t \<in> set ts \<Longrightarrow> rank t < rank s"
proof (induction ts arbitrary: s)
  case (Cons u ts)
  then have "rank u < rank s" by (auto intro: moves_rank)
  with Cons show ?case using order_less_trans by fastforce
qed simp

lemma walk_distinct: "walk moves s ts \<Longrightarrow> distinct (s # ts)"
proof (induction ts arbitrary: s)
  case (Cons t ts)
  then show ?case using walk_rank_less [OF Cons.prems] by (auto dest: less_not_refl2)
qed simp

text \<open>Every maximal walk is finite and ends in a final status.\<close>

lemma walk_extends:
  "\<not> final s \<Longrightarrow> \<exists>t. walk moves s [t]"
  using final_iff [of s] by (cases "moves s") auto

lemma reaches_final: "\<exists>ts. walk moves s ts \<and> final (last (s # ts))"
proof (induction "rank s" arbitrary: s rule: less_induct)
  case less
  show ?case
  proof (cases "final s")
    case True
    then have "walk moves s [] \<and> final (last [s])" by simp
    then show ?thesis by blast
  next
    case False
    then obtain t where t: "t \<in> set (moves s)" using final_iff [of s] by (cases "moves s") auto
    with less moves_rank obtain ts where "walk moves t ts" "final (last (t # ts))" by blast
    with t have "walk moves s (t # ts) \<and> final (last (s # t # ts))" by simp
    then show ?thesis by blast
  qed
qed

end

end
