(* ===== verification/Execution.thy ===== *)
theory Execution
  imports Backtest_Domain Lifecycle
begin

text \<open>
  Order lifecycle and fill prices of \<^verbatim>\<open>app/backtesting/execution.py\<close>: the table of status moves, order
  creation with its sequential identifier, the quotes of market, limit and stop orders on one OHLC
  candle, fees, and the truncation of quantities to the exchange step.
\<close>

section \<open>Orders\<close>

definition allowed_transitions :: "order_status \<Rightarrow> order_status list" where
  "allowed_transitions s = (case s of
       O_CREATED \<Rightarrow> [O_OPEN, O_CANCELLED, O_REJECTED]
     | O_OPEN \<Rightarrow> [O_FILLED, O_CANCELLED, O_EXPIRED]
     | O_FILLED \<Rightarrow> [] | O_CANCELLED \<Rightarrow> [] | O_REJECTED \<Rightarrow> [] | O_EXPIRED \<Rightarrow> [])"

definition order_rank :: "order_status \<Rightarrow> nat" where
  "order_rank s = (case s of O_CREATED \<Rightarrow> 2 | O_OPEN \<Rightarrow> 1 | _ \<Rightarrow> 0)"

interpretation orders: ranked_lifecycle allowed_transitions is_terminal order_rank
proof
  show "is_terminal s \<Longrightarrow> allowed_transitions s = []" for s
    by (cases s) (simp_all add: is_terminal_def allowed_transitions_def)
  show "allowed_transitions s = [] \<Longrightarrow> is_terminal s" for s
    by (cases s) (simp_all add: is_terminal_def allowed_transitions_def)
  show "t \<in> set (allowed_transitions s) \<Longrightarrow> order_rank t < order_rank s" for s t
    by (cases s) (auto simp: allowed_transitions_def order_rank_def)
qed

definition order_id_of :: "int \<Rightarrow> string" where
  "order_id_of sequence = CHR ''O'' # zero_pad 12 (show_nat (nat sequence))"

definition create_order :: "order_intent \<Rightarrow> int \<Rightarrow> instant \<Rightarrow> int \<Rightarrow> simulated_order result" where
  "create_order intent sequence created_at created_index =
     require (\<not> sequence < 1) InvalidOrderIntent (make_order
       \<lparr>so_id = order_id_of sequence, so_sequence = sequence, so_created_at = created_at,
        so_created_index = created_index, so_eligible_index = created_index + 1, so_intent = intent,
        so_status = O_CREATED, so_opened_at = None, so_terminal_at = None, so_rejection_code = None\<rparr>)"

definition transition_order ::
    "simulated_order \<Rightarrow> order_status \<Rightarrow> instant \<Rightarrow> string option \<Rightarrow> simulated_order result" where
  "transition_order o1 status event_time rejection_code =
     require (status \<in> set (allowed_transitions (so_status o1))) InvalidOrderIntent (
     if status = O_OPEN then make_order (o1\<lparr>so_status := status, so_opened_at := Some event_time\<rparr>)
     else make_order (o1\<lparr>so_status := status, so_terminal_at := Some event_time,
       so_rejection_code := rejection_code\<rparr>))"

definition order_priority_key :: "simulated_order \<Rightarrow> int \<times> int \<times> string" where
  "order_priority_key o1 = (so_eligible_index o1, so_sequence o1, so_id o1)"

section \<open>Quotes\<close>

record quote =
  qt_base :: decimal
  qt_execution :: decimal
  qt_reason :: fill_reason
  qt_liquidity :: fill_liquidity
  qt_slippage :: decimal

record execution_model =
  em_fees :: fee_model
  em_slippage :: slippage_model

definition adverse_quote ::
    "slippage_model \<Rightarrow> decimal \<Rightarrow> order_side \<Rightarrow> fill_reason \<Rightarrow> fill_liquidity \<Rightarrow> quote result" where
  "adverse_quote slippage base_price side reason liquidity =
     require (sm_kind slippage = FIXED_BPS) InvalidOrderIntent (
     let multiplier = ddiv (sm_fixed_bps slippage) 10000;
         execution = (if side = BUY then dmul base_price (dadd 1 multiplier)
                      else dmul base_price (dsub 1 multiplier))
     in require (\<not> execution \<le> 0) InvalidOrderIntent (
        Inr \<lparr>qt_base = base_price, qt_execution = execution, qt_reason = reason,
             qt_liquidity = liquidity, qt_slippage = \<bar>dsub execution base_price\<bar>\<rparr>))"

definition maker_quote :: "decimal \<Rightarrow> fill_reason \<Rightarrow> quote" where
  "maker_quote price reason = \<lparr>qt_base = price, qt_execution = price, qt_reason = reason,
     qt_liquidity = MAKER, qt_slippage = 0\<rparr>"

definition limit_quote :: "order_intent \<Rightarrow> candle \<Rightarrow> quote option result" where
  "limit_quote intent c =
     (case oi_limit_price intent of None \<Rightarrow> Inl AssertionError
      | Some limit \<Rightarrow>
          Inr (if oi_side intent = BUY then
                 if limit < c_low c then None
                 else if c_open c < limit then Some (maker_quote (c_open c) LIMIT_GAP)
                 else Some (maker_quote limit LIMIT_TOUCHED)
               else
                 if c_high c < limit then None
                 else if limit < c_open c then Some (maker_quote (c_open c) LIMIT_GAP)
                 else Some (maker_quote limit LIMIT_TOUCHED)))"

definition stop_quote :: "slippage_model \<Rightarrow> order_intent \<Rightarrow> candle \<Rightarrow> quote option result" where
  "stop_quote slippage intent c =
     (case oi_stop_price intent of None \<Rightarrow> Inl AssertionError
      | Some stop \<Rightarrow>
          if oi_side intent = BUY then
            if c_high c < stop then Inr None
            else (let base = (if stop < c_open c then c_open c else stop);
                      reason = (if stop < c_open c then STOP_GAP else STOP_TRIGGERED)
                  in res_bind (adverse_quote slippage base (oi_side intent) reason TAKER) (\<lambda>q. Inr (Some q)))
          else
            if stop < c_low c then Inr None
            else (let base = (if c_open c < stop then c_open c else stop);
                      reason = (if c_open c < stop then STOP_GAP else STOP_TRIGGERED)
                  in res_bind (adverse_quote slippage base (oi_side intent) reason TAKER) (\<lambda>q. Inr (Some q))))"

definition quote_order :: "execution_model \<Rightarrow> simulated_order \<Rightarrow> candle \<Rightarrow> int \<Rightarrow> quote option result" where
  "quote_order em o1 c candle_index =
     (if so_status o1 \<noteq> O_OPEN \<or> candle_index < so_eligible_index o1 then Inr None
      else let intent = so_intent o1 in
        (case oi_type intent of
           MARKET \<Rightarrow> res_bind (adverse_quote (em_slippage em) (c_open c) (oi_side intent) MARKET_OPEN TAKER)
             (\<lambda>q. Inr (Some q))
         | LIMIT \<Rightarrow> limit_quote intent c
         | STOP_MARKET \<Rightarrow> stop_quote (em_slippage em) intent c))"

definition force_close_quote :: "execution_model \<Rightarrow> decimal \<Rightarrow> order_side \<Rightarrow> quote result" where
  "force_close_quote em price side = adverse_quote (em_slippage em) price side FORCE_CLOSE TAKER"

definition execution_fee :: "execution_model \<Rightarrow> decimal \<Rightarrow> fill_liquidity \<Rightarrow> decimal result" where
  "execution_fee em notional liquidity =
     require (\<not> notional \<le> 0) InvalidOrderIntent (Inr (dmul notional (fee_rate (em_fees em) liquidity)))"

section \<open>Quantities and ticks\<close>

definition truncate_quantity :: "decimal \<Rightarrow> decimal \<Rightarrow> decimal result" where
  "truncate_quantity quantity step =
     require (\<not> (quantity < 0 \<or> step \<le> 0)) InvalidOrderIntent (
       let units = trunc_dec (ddiv quantity step) in Inr (dmul units step))"

definition is_tick_aligned :: "decimal \<Rightarrow> decimal \<Rightarrow> bool result" where
  "is_tick_aligned price tick =
     (if price \<le> 0 \<or> tick \<le> 0 then Inr False
      else res_bind (dmod_chk price tick) (\<lambda>remainder. Inr (remainder = 0)))"

section \<open>Facts about orders\<close>

lemma make_order_iff: "make_order o1 = Inr o2 \<longleftrightarrow> o2 = o1 \<and> make_order o1 = Inr o1"
  by (auto simp: make_order_def)

lemma transition_order_Inr:
  assumes "transition_order o1 s t r = Inr o2"
  shows "s \<in> set (allowed_transitions (so_status o1))" and "so_status o2 = s" and "so_id o2 = so_id o1"
    and "so_sequence o2 = so_sequence o1" and "so_intent o2 = so_intent o1"
    and "so_created_index o2 = so_created_index o1" and "so_eligible_index o2 = so_eligible_index o1"
    and "so_created_at o2 = so_created_at o1" and "make_order o2 = Inr o2"
  using assms make_order_iff [of "o1\<lparr>so_status := s, so_opened_at := Some t\<rparr>" o2]
    make_order_iff [of "o1\<lparr>so_status := s, so_terminal_at := Some t, so_rejection_code := r\<rparr>" o2]
  by (auto simp: transition_order_def split: if_splits)

lemma create_order_Inr:
  assumes "create_order intent n t i = Inr o1"
  shows "so_id o1 = order_id_of n" and "so_sequence o1 = n" and "so_status o1 = O_CREATED"
    and "so_intent o1 = intent" and "so_created_index o1 = i" and "so_eligible_index o1 = i + 1"
    and "1 \<le> n" and "-1 \<le> i" and "make_order o1 = Inr o1" and "so_created_at o1 = t"
    and "so_rejection_code o1 = None"
  using assms by (auto simp: create_order_def make_order_def)

text \<open>Sequential identifiers are read back by the value of their digits, so they are distinct.\<close>

lemma order_id_value: "0 \<le> n \<Longrightarrow> int (digits_value (tl (order_id_of n))) = n"
  by (simp add: order_id_of_def zero_pad_def digits_value_zeros digits_value_show_nat)

lemma order_id_inject: "0 \<le> m \<Longrightarrow> 0 \<le> n \<Longrightarrow> order_id_of m = order_id_of n \<Longrightarrow> m = n"
  using order_id_value by metis

text \<open>One successful call of \<^verbatim>\<open>transition_order\<close>, and histories of such calls.\<close>

inductive order_step :: "simulated_order \<Rightarrow> simulated_order \<Rightarrow> bool" where
  "transition_order o1 s t r = Inr o2 \<Longrightarrow> order_step o1 o2"

inductive_simps order_step_iff: "order_step o1 o2"

definition same_order :: "simulated_order \<Rightarrow> simulated_order \<Rightarrow> bool" where
  "same_order o1 o2 \<longleftrightarrow> so_id o2 = so_id o1 \<and> so_sequence o2 = so_sequence o1 \<and> so_intent o2 = so_intent o1 \<and>
     so_created_index o2 = so_created_index o1 \<and> so_eligible_index o2 = so_eligible_index o1 \<and>
     so_created_at o2 = so_created_at o1"

lemma order_step_same:
  "order_step o1 o2 \<Longrightarrow> same_order o1 o2 \<and> make_order o2 = Inr o2 \<and>
     so_status o2 \<in> set (allowed_transitions (so_status o1))"
  by (auto simp: order_step_iff same_order_def dest: transition_order_Inr)

lemma order_history_walk:
  "chain order_step (o1 # os) \<Longrightarrow> walk allowed_transitions (so_status o1) (map so_status os)"
proof (induction os arbitrary: o1)
  case (Cons o2 os)
  then show ?case using order_step_same [of o1 o2] by simp
qed simp

lemma order_history_same: "chain order_step (o1 # os) \<Longrightarrow> o2 \<in> set os \<Longrightarrow> same_order o1 o2 \<and> make_order o2 = Inr o2"
proof (induction os arbitrary: o1)
  case (Cons o3 os)
  from Cons.prems have step: "order_step o1 o3" "chain order_step (o3 # os)" by simp_all
  from order_step_same [OF step(1)] Cons.IH [OF step(2)] Cons.prems(2) show ?case
    by (auto simp: same_order_def)
qed simp

lemma cancel_possible:
  assumes "make_order o1 = Inr o1" and "\<not> is_terminal (so_status o1)"
  shows "\<exists>o2. transition_order o1 O_CANCELLED t None = Inr o2"
  using assms by (cases "so_status o1")
    (auto simp: transition_order_def allowed_transitions_def is_terminal_def make_order_def order_lifecycle_ok_def)

lemma open_possible:
  assumes "create_order intent n t i = Inr o1"
  shows "\<exists>o2. transition_order o1 O_OPEN t' None = Inr o2"
  using assms by (auto simp: create_order_def transition_order_def allowed_transitions_def make_order_def
      order_lifecycle_ok_def)

section \<open>Facts about quotes\<close>

text \<open>When an order trades on a candle, and at which price before slippage.\<close>

definition triggered :: "order_intent \<Rightarrow> candle \<Rightarrow> bool" where
  "triggered i c = (case (oi_type i, oi_side i) of
       (MARKET, _) \<Rightarrow> True
     | (LIMIT, BUY) \<Rightarrow> c_low c \<le> the (oi_limit_price i)
     | (LIMIT, SELL) \<Rightarrow> the (oi_limit_price i) \<le> c_high c
     | (STOP_MARKET, BUY) \<Rightarrow> the (oi_stop_price i) \<le> c_high c
     | (STOP_MARKET, SELL) \<Rightarrow> c_low c \<le> the (oi_stop_price i))"

definition trigger_price :: "order_intent \<Rightarrow> candle \<Rightarrow> decimal" where
  "trigger_price i c = (case (oi_type i, oi_side i) of
       (MARKET, _) \<Rightarrow> c_open c
     | (LIMIT, BUY) \<Rightarrow> min (c_open c) (the (oi_limit_price i))
     | (LIMIT, SELL) \<Rightarrow> max (c_open c) (the (oi_limit_price i))
     | (STOP_MARKET, BUY) \<Rightarrow> max (c_open c) (the (oi_stop_price i))
     | (STOP_MARKET, SELL) \<Rightarrow> min (c_open c) (the (oi_stop_price i)))"

text \<open>An intent its constructor accepts carries exactly the prices of its type, and they are positive.\<close>

definition intent_ok :: "order_intent \<Rightarrow> bool" where
  "intent_ok i \<longleftrightarrow> 0 < oi_quantity i \<and>
     (case oi_type i of
        MARKET \<Rightarrow> oi_limit_price i = None \<and> oi_stop_price i = None
      | LIMIT \<Rightarrow> (\<exists>p. oi_limit_price i = Some p \<and> 0 < p) \<and> oi_stop_price i = None
      | STOP_MARKET \<Rightarrow> (\<exists>p. oi_stop_price i = Some p \<and> 0 < p) \<and> oi_limit_price i = None)"

lemma make_order_intent_ok: "make_order_intent i = Inr j \<Longrightarrow> intent_ok j"
  by (auto simp: make_order_intent_def intent_ok_def Let_def split: order_type.splits option.splits)

lemma make_order_intent_fields:
  assumes "make_order_intent i = Inr j"
  shows "oi_side j = oi_side i" "oi_type j = oi_type i" "oi_quantity j = oi_quantity i"
    "oi_limit_price j = oi_limit_price i" "oi_stop_price j = oi_stop_price i" "oi_tif j = oi_tif i"
    "oi_client_tag i = None \<Longrightarrow> oi_client_tag j = None"
  using assms by (auto simp: make_order_intent_def Let_def split: option.splits)

text \<open>Slippage of a basis-point model is at most a tenth, and moves the price against the order.\<close>

lemma slippage_multiplier:
  assumes "make_slippage_model s = Inr s"
  shows "0 \<le> ddiv (sm_fixed_bps s) 10000" and "ddiv (sm_fixed_bps s) 10000 \<le> 1 / 10"
    and "0 < dsub 1 (ddiv (sm_fixed_bps s) 10000)" and "dsub 1 (ddiv (sm_fixed_bps s) 10000) \<le> 1"
    and "1 \<le> dadd 1 (ddiv (sm_fixed_bps s) 10000)"
proof -
  have b: "0 \<le> sm_fixed_bps s" "sm_fixed_bps s \<le> 1000" using assms by (auto simp: make_slippage_model_def)
  show m0: "0 \<le> ddiv (sm_fixed_bps s) 10000" using b(1) by (simp add: ddiv_nonneg)
  have tenth: "dec28 (1 / 10) = 1 / 10"
    using fits_of_int [of 1 28] by (simp add: dec_eval)
  show m1: "ddiv (sm_fixed_bps s) 10000 \<le> 1 / 10"
    unfolding ddiv_def using b(2) by (intro d28.r_le_fixed [OF _ tenth]) simp
  show "0 < dsub 1 (ddiv (sm_fixed_bps s) 10000)" using m1 by (intro dsub_pos) simp
  show "dsub 1 (ddiv (sm_fixed_bps s) 10000) \<le> 1"
    unfolding dsub_def using m0 by (intro d28.r_le_fixed) simp_all
  show "1 \<le> dadd 1 (ddiv (sm_fixed_bps s) 10000)"
    unfolding dadd_def using m0 by (intro d28.r_ge_fixed) simp_all
qed

lemma adverse_quote_ok:
  assumes "make_slippage_model s = Inr s" and "0 < base"
  shows "\<exists>q. adverse_quote s base side reason liquidity = Inr q \<and> qt_base q = base \<and> 0 < qt_execution q \<and>
    qt_reason q = reason \<and> qt_liquidity q = liquidity \<and> 0 \<le> qt_slippage q \<and>
    (if side = BUY then dec28 base \<le> qt_execution q else qt_execution q \<le> dec28 base)"
proof -
  note m = slippage_multiplier [OF assms(1)]
  have "0 < dmul base (dadd 1 (ddiv (sm_fixed_bps s) 10000))" using assms(2) m(5) by (intro dmul_pos) simp_all
  moreover have "0 < dmul base (dsub 1 (ddiv (sm_fixed_bps s) 10000))" using assms(2) m(3) by (intro dmul_pos)
  moreover have "dec28 base \<le> dmul base (dadd 1 (ddiv (sm_fixed_bps s) 10000))"
    unfolding dmul_def using assms(2) m(5) by (intro d28.r_mono) simp
  moreover have "dmul base (dsub 1 (ddiv (sm_fixed_bps s) 10000)) \<le> dec28 base"
    unfolding dmul_def using assms(2) m(4) by (intro d28.r_mono) simp
  ultimately show ?thesis by (cases "sm_kind s") (simp add: adverse_quote_def Let_def)
qed

lemma trigger_price_in_range:
  assumes "candle_ok c" and "triggered i c" and "oi_type i \<noteq> LIMIT"
  shows "c_low c \<le> trigger_price i c \<and> trigger_price i c \<le> c_high c"
  using assms by (cases "oi_type i"; cases "oi_side i")
    (auto simp: triggered_def trigger_price_def candle_ok_def)

lemma limit_price_in_range:
  assumes "candle_ok c" and "triggered i c" and "oi_type i = LIMIT"
  shows "c_low c \<le> trigger_price i c \<and> trigger_price i c \<le> c_high c"
  using assms by (cases "oi_side i") (auto simp: triggered_def trigger_price_def candle_ok_def)

lemma quote_market:
  "oi_type (so_intent o1) = MARKET \<Longrightarrow> so_status o1 = O_OPEN \<Longrightarrow> so_eligible_index o1 \<le> i \<Longrightarrow>
   quote_order em o1 c i = res_bind (adverse_quote (em_slippage em) (trigger_price (so_intent o1) c)
     (oi_side (so_intent o1)) MARKET_OPEN TAKER) (\<lambda>q. Inr (Some q))"
  by (simp add: quote_order_def trigger_price_def Let_def)

lemma quote_limit:
  assumes "oi_type (so_intent o1) = LIMIT" and "so_status o1 = O_OPEN" and "so_eligible_index o1 \<le> i"
    and "intent_ok (so_intent o1)"
  shows "quote_order em o1 c i = Inr (if triggered (so_intent o1) c
     then Some (maker_quote (trigger_price (so_intent o1) c)
       (if trigger_price (so_intent o1) c = the (oi_limit_price (so_intent o1)) then LIMIT_TOUCHED else LIMIT_GAP))
     else None)"
  using assms by (cases "oi_side (so_intent o1)")
    (auto simp: quote_order_def limit_quote_def trigger_price_def triggered_def intent_ok_def Let_def
      min_def max_def)

lemma quote_stop:
  assumes "oi_type (so_intent o1) = STOP_MARKET" and "so_status o1 = O_OPEN" and "so_eligible_index o1 \<le> i"
    and "intent_ok (so_intent o1)"
  shows "quote_order em o1 c i = (if triggered (so_intent o1) c
     then res_bind (adverse_quote (em_slippage em) (trigger_price (so_intent o1) c) (oi_side (so_intent o1))
       (if trigger_price (so_intent o1) c = the (oi_stop_price (so_intent o1)) then STOP_TRIGGERED else STOP_GAP)
       TAKER) (\<lambda>q. Inr (Some q))
     else Inr None)"
  using assms by (cases "oi_side (so_intent o1)")
    (auto simp: quote_order_def stop_quote_def trigger_price_def triggered_def intent_ok_def Let_def
      min_def max_def)

section \<open>Properties\<close>

text \<open>C26: an order's history is finite: successful status changes keep its identity, intent and eligibility,
  leave a valid record, never leave a terminal status, number at most two from creation, and an
  order that is not terminal can always be cancelled.\<close>

theorem order_history_bounded:
  assumes "make_order o1 = Inr o1" and "chain order_step (o1 # os)"
  shows "length os \<le> order_rank (so_status o1) \<and> order_rank (so_status o1) \<le> 2
    \<and> distinct (map so_status (o1 # os))
    \<and> list_all (\<lambda>o2. same_order o1 o2 \<and> make_order o2 = Inr o2) os
    \<and> list_all (\<lambda>o2. \<not> is_terminal (so_status o2)) (butlast (o1 # os))
    \<and> (is_terminal (so_status (last (o1 # os))) \<or> (\<exists>o2. transition_order (last (o1 # os)) O_CANCELLED t None = Inr o2))"
proof -
  have w: "walk allowed_transitions (so_status o1) (map so_status os)" by (rule order_history_walk [OF assms(2)])
  have "make_order (last (o1 # os)) = Inr (last (o1 # os))"
    using order_history_same [OF assms(2)] assms(1) by (cases os) auto
  then have "is_terminal (so_status (last (o1 # os))) \<or> (\<exists>o2. transition_order (last (o1 # os)) O_CANCELLED t None = Inr o2)"
    using cancel_possible by blast
  moreover have "list_all (\<lambda>o2. \<not> is_terminal (so_status o2)) (butlast (o1 # os))"
    unfolding list_all_length
  proof (intro allI impI)
    fix i
    assume i: "i < length (butlast (o1 # os))"
    then have len: "i < length os" by (simp only: length_butlast length_Cons diff_Suc_1)
    from nth_map [of i "o1 # os" so_status] nth_butlast [OF i] len
    have "(so_status o1 # map so_status os) ! i = so_status (butlast (o1 # os) ! i)"
      by (simp only: list.map length_Cons less_SucI)
    then show "\<not> is_terminal (so_status (butlast (o1 # os) ! i))"
      using orders.final_only_last [OF w, of i] len by (metis length_map)
  qed
  moreover have "list_all (\<lambda>o2. same_order o1 o2 \<and> make_order o2 = Inr o2) os"
    unfolding list_all_iff using order_history_same [OF assms(2)] by blast
  moreover have "length os \<le> order_rank (so_status o1)" using orders.walk_length [OF w] by simp
  moreover have "order_rank (so_status o1) \<le> 2" by (simp add: order_rank_def split: order_status.splits)
  moreover have "distinct (map so_status (o1 # os))" using orders.walk_distinct [OF w] by simp
  ultimately show ?thesis by (intro conjI)
qed

definition example_order :: simulated_order where
  "example_order =
     \<lparr>so_id = order_id_of 1, so_sequence = 1, so_created_at = 0, so_created_index = 0, so_eligible_index = 1,
      so_intent = \<lparr>oi_side = BUY, oi_type = LIMIT, oi_quantity = 2, oi_tif = GTC, oi_limit_price = Some 10,
        oi_stop_price = None, oi_client_tag = None\<rparr>,
      so_status = O_OPEN, so_opened_at = Some 0, so_terminal_at = None, so_rejection_code = None\<rparr>"

lemma example_order_ok: "make_order example_order = Inr example_order" "intent_ok (so_intent example_order)"
proof -
  have "\<not> isl (make_order example_order)" by code_simp
  then obtain x where "make_order example_order = Inr x" by (auto simp: not_isl_Inr)
  then show "make_order example_order = Inr example_order" using make_order_iff [of example_order x] by blast
qed (simp add: example_order_def intent_ok_def)

theorem order_history_bounded_witness:
  "\<exists>o2. transition_order example_order O_FILLED 5 None = Inr o2 \<and> chain order_step [example_order, o2] \<and>
    is_terminal (so_status o2) \<and> distinct (map so_status [example_order, o2])"
proof -
  have "\<not> isl (transition_order example_order O_FILLED 5 None)" by code_simp
  then obtain o2 where o2: "transition_order example_order O_FILLED 5 None = Inr o2" by (auto simp: not_isl_Inr)
  then have "chain order_step [example_order, o2]" by (auto intro: order_step.intros)
  from order_history_bounded [OF example_order_ok(1) this] this o2 transition_order_Inr [OF o2]
  show ?thesis by (auto simp: is_terminal_def)
qed

text \<open>C29: an open, eligible order with a valid intent trades on a candle with positive prices exactly when
  the candle reaches its price, at the trigger price of its type, which lies inside the candle; a limit order
  trades at that price or better than its limit, without slippage; a market or stop order pays
  slippage against itself.  An order that is not open, or not yet eligible, never trades.\<close>

theorem quote_refines_trigger:
  assumes "candle_ok c" and "0 < c_low c" and "intent_ok (so_intent o1)"
    and "make_slippage_model (em_slippage em) = Inr (em_slippage em)"
  shows "if so_status o1 = O_OPEN \<and> so_eligible_index o1 \<le> i \<and> triggered (so_intent o1) c
    then \<exists>q. quote_order em o1 c i = Inr (Some q) \<and> qt_base q = trigger_price (so_intent o1) c
      \<and> c_low c \<le> qt_base q \<and> qt_base q \<le> c_high c \<and> 0 < qt_execution q \<and> 0 \<le> qt_slippage q
      \<and> (qt_liquidity q = MAKER \<longleftrightarrow> oi_type (so_intent o1) = LIMIT)
      \<and> (if oi_type (so_intent o1) = LIMIT then qt_execution q = qt_base q \<and>
           (if oi_side (so_intent o1) = BUY then qt_execution q \<le> the (oi_limit_price (so_intent o1))
            else the (oi_limit_price (so_intent o1)) \<le> qt_execution q)
         else if oi_side (so_intent o1) = BUY then dec28 (qt_base q) \<le> qt_execution q
         else qt_execution q \<le> dec28 (qt_base q))
    else quote_order em o1 c i = Inr None"
proof (cases "so_status o1 = O_OPEN \<and> so_eligible_index o1 \<le> i")
  case False
  then show ?thesis by (auto simp: quote_order_def)
next
  case open_eligible: True
  let ?i = "so_intent o1"
  have range: "c_low c \<le> trigger_price ?i c \<and> trigger_price ?i c \<le> c_high c" if "triggered ?i c"
    using trigger_price_in_range limit_price_in_range assms(1) that by blast
  note adverse = adverse_quote_ok [OF assms(4)]
  show ?thesis
  proof (cases "oi_type ?i")
    case MARKET
    then have t: "triggered ?i c" by (simp add: triggered_def)
    with range assms(2) have "0 < trigger_price ?i c" by linarith
    from adverse [OF this, of "oi_side ?i" MARKET_OPEN TAKER] range t open_eligible MARKET
    show ?thesis by (auto simp: quote_market)
  next
    case LIMIT
    have "if oi_side ?i = BUY then trigger_price ?i c \<le> the (oi_limit_price ?i)
        else the (oi_limit_price ?i) \<le> trigger_price ?i c"
      using LIMIT by (cases "oi_side ?i") (simp_all add: trigger_price_def)
    then show ?thesis using open_eligible LIMIT range assms(2,3)
      by (auto simp: quote_limit maker_quote_def)
  next
    case STOP_MARKET
    show ?thesis
    proof (cases "triggered ?i c")
      case True
      with range assms(2) have "0 < trigger_price ?i c" by linarith
      from adverse [OF this, of "oi_side ?i"
          "if trigger_price ?i c = the (oi_stop_price ?i) then STOP_TRIGGERED else STOP_GAP" TAKER]
      obtain q where q: "adverse_quote (em_slippage em) (trigger_price ?i c) (oi_side ?i)
          (if trigger_price ?i c = the (oi_stop_price ?i) then STOP_TRIGGERED else STOP_GAP) TAKER = Inr q"
        "qt_base q = trigger_price ?i c" "0 < qt_execution q" "qt_liquidity q = TAKER" "0 \<le> qt_slippage q"
        "if oi_side ?i = BUY then dec28 (trigger_price ?i c) \<le> qt_execution q else qt_execution q \<le> dec28 (trigger_price ?i c)"
        by blast
      have "quote_order em o1 c i = Inr (Some q)"
        using quote_stop [OF STOP_MARKET _ _ assms(3)] open_eligible True q(1) by simp
      with q range True open_eligible STOP_MARKET show ?thesis by auto
    next
      case False
      with quote_stop [OF STOP_MARKET _ _ assms(3)] open_eligible show ?thesis by simp
    qed
  qed
qed

definition example_bar :: "int \<Rightarrow> decimal \<Rightarrow> candle" where
  "example_bar i price =
     \<lparr>c_exchange = BINANCE, c_market_type = SPOT, c_symbol = ''BTC/USDT'',
      c_timeframe = registry_timeframe ''1m'' (minutes 1) ''1m'' 0,
      c_open_time = i * 60000000, c_close_time = i * 60000000 + 59999000,
      c_open = price, c_high = price + 2, c_low = price - 2, c_close = price, c_volume = 1,
      c_quote_volume = None, c_trade_count = Some 3, c_is_closed = True, c_source = ''binance''\<rparr>"

definition example_execution :: execution_model where
  "example_execution = \<lparr>em_fees = \<lparr>fm_maker_bps = 0, fm_taker_bps = 0\<rparr>,
     em_slippage = \<lparr>sm_kind = FIXED_BPS, sm_fixed_bps = 0\<rparr>\<rparr>"

lemma example_bar_ok: "candle_ok (example_bar 1 11)" "c_low (example_bar 1 11) = 9"
  by code_simp+

theorem quote_refines_trigger_witness:
  "\<exists>q. quote_order example_execution example_order (example_bar 1 11) 1 = Inr (Some q) \<and> qt_base q = 10
    \<and> qt_execution q \<le> 10"
proof -
  have "make_slippage_model (em_slippage example_execution) = Inr (em_slippage example_execution)"
    by (simp add: make_slippage_model_def example_execution_def)
  from quote_refines_trigger [OF example_bar_ok(1) _ example_order_ok(2) this, of 1]
  show ?thesis using example_bar_ok(2)
    by (simp add: example_order_def example_bar_def triggered_def trigger_price_def) blast
qed

lemma truncate_quantity_outcome:
  "(if 0 \<le> quantity \<and> 0 < step
    then \<exists>n x. truncate_quantity quantity step = Inr x \<and> 0 \<le> (n :: int) \<and> x = dec28 (of_int n * step) \<and>
      0 \<le> x \<and> x \<le> quantity * (1 + eps28)\<^sup>2 \<and> (quantity * (1 - eps28) - step) * (1 - eps28) \<le> x
    else truncate_quantity quantity step = Inl InvalidOrderIntent)"
proof (cases "0 \<le> quantity \<and> 0 < step")
  case True
  let ?q = "ddiv quantity step"
  let ?n = "\<lfloor>?q\<rfloor>"
  have eps: "0 \<le> eps28" "0 \<le> 1 - eps28" using d28.eps_nonneg d28.eps_small by simp_all
  have q0: "0 \<le> ?q" using True by (simp add: ddiv_nonneg)
  have n: "0 \<le> ?n" "of_int ?n \<le> ?q" "?q - 1 \<le> of_int ?n" using q0 by simp_all linarith
  have exact: "0 \<le> quantity / step" using True by simp
  have upper: "?q \<le> quantity / step * (1 + eps28)" and lower: "quantity / step * (1 - eps28) \<le> ?q"
    unfolding ddiv_def using exact by (rule d28.r_upper, rule d28.r_lower)
  let ?x = "dec28 (of_int ?n * step)"
  have prod: "0 \<le> of_int ?n * step" using True n(1) by simp
  have "of_int ?n * step \<le> quantity / step * (1 + eps28) * step"
    using order_trans [OF n(2) upper] True by (intro mult_right_mono) (blast, simp)
  then have "of_int ?n * step \<le> quantity * (1 + eps28)" using True by simp
  then have "of_int ?n * step * (1 + eps28) \<le> quantity * (1 + eps28) * (1 + eps28)"
    using eps(1) by (intro mult_right_mono) simp_all
  with d28.r_upper [OF prod] have u: "?x \<le> quantity * (1 + eps28)\<^sup>2" by (simp add: power2_eq_square)
  have "(quantity / step * (1 - eps28) - 1) * step \<le> of_int ?n * step"
    using n(3) lower True by (intro mult_right_mono) linarith+
  moreover have "(quantity / step * (1 - eps28) - 1) * step = quantity * (1 - eps28) - step"
    using True by (simp add: left_diff_distrib)
  ultimately have "quantity * (1 - eps28) - step \<le> of_int ?n * step" by simp
  then have "(quantity * (1 - eps28) - step) * (1 - eps28) \<le> of_int ?n * step * (1 - eps28)"
    using eps(2) by (intro mult_right_mono)
  with d28.r_lower [OF prod] have l: "(quantity * (1 - eps28) - step) * (1 - eps28) \<le> ?x" by linarith
  have "truncate_quantity quantity step = Inr ?x"
    using True q0 by (simp add: truncate_quantity_def Let_def trunc_dec_def dmul_def)
  with u l n(1) d28.r_nonneg [OF prod] have "\<exists>n x. truncate_quantity quantity step = Inr x \<and> 0 \<le> (n :: int) \<and>
      x = dec28 (of_int n * step) \<and> 0 \<le> x \<and> x \<le> quantity * (1 + eps28)\<^sup>2 \<and>
      (quantity * (1 - eps28) - step) * (1 - eps28) \<le> x"
    by (intro exI [of _ ?n] exI [of _ ?x] conjI) simp_all
  with True show ?thesis by simp
next
  case False
  then show ?thesis by (auto simp: truncate_quantity_def)
qed

text \<open>Truncating a quantity to the exchange step succeeds exactly on a nonnegative quantity and a
  positive step; the result is a whole number of steps up to rounding, never negative, and
  exceeds the quantity by no more than the rounding of quotient and product.\<close>

theorem truncate_quantity_bounds:
  "(if 0 \<le> quantity \<and> 0 < step
    then \<exists>n x. truncate_quantity quantity step = Inr x \<and> 0 \<le> (n :: int) \<and> x = dec28 (of_int n * step) \<and>
      0 \<le> x \<and> x \<le> quantity * (1 + eps28)\<^sup>2 \<and> (quantity * (1 - eps28) - step) * (1 - eps28) \<le> x
    else truncate_quantity quantity step = Inl InvalidOrderIntent)"
  by (rule truncate_quantity_outcome)

text \<open>The truncation can increase the quantity, against its own documentation: the quotient is rounded
  before it is truncated.\<close>

theorem truncate_quantity_can_increase:
  "truncate_quantity (5999999999999999999999999999 / 1000000000000000000000000000) 2 = Inr 6"
proof -
  have "ddiv (5999999999999999999999999999 / 1000000000000000000000000000) 2 = 3"
    by (simp add: dec_eval)
  then show ?thesis by (simp add: truncate_quantity_def Let_def trunc_dec_def dmul_def)
qed

end
