(* ===== verification/Risk.thy ===== *)
theory Risk
  imports Portfolio Execution
begin

text \<open>
  The three decisions the engine takes before it opens an order: the position size
  (\<^verbatim>\<open>backtesting/sizing.py\<close>), the risk validation before an order is opened and before a fill is applied
  (\<^verbatim>\<open>backtesting/risk.py\<close>), and the protective stop of an open position (\<^verbatim>\<open>backtesting/stop_loss.py\<close>).
\<close>

section \<open>Position sizing\<close>

record sizing_decision =
  sd_quantity :: decimal
  sd_target :: decimal
  sd_price :: decimal
  sd_fee :: decimal
  sd_cash_required :: decimal

definition make_sizing_decision :: "sizing_decision \<Rightarrow> sizing_decision result" where
  "make_sizing_decision d =
     require (list_all (\<lambda>v. \<not> v < 0) [sd_quantity d, sd_target d, sd_price d, sd_fee d, sd_cash_required d]) ValueError (
     require (\<not> (0 < sd_quantity d \<and> sd_price d \<le> 0)) ValueError (
     require (sd_cash_required d = dadd (dmul (sd_quantity d) (sd_price d)) (sd_fee d)) ValueError (Inr d)))"

record sizer =
  sr_policy :: sizing_policy
  sr_constraints :: constraints
  sr_fees :: fee_model
  sr_slippage :: slippage_model
  sr_reserve :: decimal

definition make_sizer ::
    "sizing_policy \<Rightarrow> constraints \<Rightarrow> fee_model \<Rightarrow> slippage_model \<Rightarrow> decimal \<Rightarrow> sizer result" where
  "make_sizer policy cs fees slippage minimum_reserve =
     require (\<not> minimum_reserve < 0) ValueError (
       Inr \<lparr>sr_policy = policy, sr_constraints = cs, sr_fees = fees, sr_slippage = slippage,
            sr_reserve = max minimum_reserve (sz_reserve policy)\<rparr>)"

definition liquidity_of :: "order_intent \<Rightarrow> fill_liquidity" where
  "liquidity_of intent = (if oi_type intent = LIMIT then MAKER else TAKER)"

text \<open>The base of the estimated price of an order that is not a limit order.\<close>

definition estimate_base :: "order_intent \<Rightarrow> decimal \<Rightarrow> decimal" where
  "estimate_base intent reference_price =
     (case oi_stop_price intent of Some p \<Rightarrow> p | None \<Rightarrow> reference_price)"

definition sizer_price :: "sizer \<Rightarrow> order_intent \<Rightarrow> decimal \<Rightarrow> decimal result" where
  "sizer_price s intent reference_price =
     (if oi_type intent = LIMIT
      then (case oi_limit_price intent of None \<Rightarrow> Inl AssertionError | Some l \<Rightarrow> Inr l)
      else require (sm_kind (sr_slippage s) = FIXED_BPS) ValueError (
        let multiplier = ddiv (sm_fixed_bps (sr_slippage s)) 10000 in
        Inr (dmul (estimate_base intent reference_price)
          (if oi_side intent = BUY then dadd 1 multiplier else dsub 1 multiplier))))"

definition sizing_of :: "sizer \<Rightarrow> decimal \<Rightarrow> decimal \<Rightarrow> decimal \<Rightarrow> fill_liquidity \<Rightarrow> sizing_decision result" where
  "sizing_of s quantity target price liquidity =
     (let fee = dmul (dmul quantity price) (fee_rate (sr_fees s) liquidity) in
      make_sizing_decision \<lparr>sd_quantity = quantity, sd_target = target, sd_price = price, sd_fee = fee,
        sd_cash_required = dadd (dmul quantity price) fee\<rparr>)"

definition size_order :: "sizer \<Rightarrow> order_intent \<Rightarrow> portfolio_snapshot \<Rightarrow> decimal \<Rightarrow> sizing_decision result" where
  "size_order s intent view reference_price =
     require (\<not> reference_price \<le> 0) ValueError (
     let liquidity = liquidity_of intent; step = ic_quantity_step (sr_constraints s) in
     res_bind (sizer_price s intent reference_price) (\<lambda>price.
       if oi_side intent = SELL \<or> sz_kind (sr_policy s) = EXPLICIT_QUANTITY then
         res_bind (truncate_quantity (oi_quantity intent) step) (\<lambda>quantity.
           sizing_of s quantity (dmul (oi_quantity intent) price) price liquidity)
       else
         (case sz_value (sr_policy s) of None \<Rightarrow> Inl ValueError
          | Some v \<Rightarrow>
              (let target = (if sz_kind (sr_policy s) = FIXED_NOTIONAL then v
                             else ddiv (dmul (ps_equity view) v) 100);
                   available_cash = max 0 (dsub (ps_quote_cash view) (sr_reserve s));
                   fee_multiplier = dadd 1 (fee_rate (sr_fees s) liquidity)
               in res_bind (ddiv_chk available_cash fee_multiplier) (\<lambda>affordable.
                  res_bind (ddiv_chk (min target affordable) price) (\<lambda>raw.
                  res_bind (truncate_quantity raw step) (\<lambda>quantity.
                    sizing_of s quantity target price liquidity)))))))"

section \<open>Risk validation\<close>

datatype rejection_code =
    R_INSUFFICIENT_CASH | R_INSUFFICIENT_POSITION | R_NOTIONAL_TOO_SMALL | R_NOTIONAL_TOO_LARGE
  | R_POSITION_LIMIT | R_MAXIMUM_OPEN_ORDERS | R_MAXIMUM_TOTAL_ORDERS | R_INVALID_QUANTITY
  | R_INVALID_PRICE | R_RISK_HALT

definition code_text :: "rejection_code \<Rightarrow> string" where
  "code_text c = (case c of
       R_INSUFFICIENT_CASH \<Rightarrow> ''insufficient_cash''
     | R_INSUFFICIENT_POSITION \<Rightarrow> ''insufficient_position''
     | R_NOTIONAL_TOO_SMALL \<Rightarrow> ''order_notional_too_small''
     | R_NOTIONAL_TOO_LARGE \<Rightarrow> ''order_notional_too_large''
     | R_POSITION_LIMIT \<Rightarrow> ''position_limit_exceeded''
     | R_MAXIMUM_OPEN_ORDERS \<Rightarrow> ''maximum_open_orders''
     | R_MAXIMUM_TOTAL_ORDERS \<Rightarrow> ''maximum_total_orders''
     | R_INVALID_QUANTITY \<Rightarrow> ''invalid_quantity''
     | R_INVALID_PRICE \<Rightarrow> ''invalid_price''
     | R_RISK_HALT \<Rightarrow> ''risk_halt_active'')"

record risk_decision =
  rd_accepted :: bool
  rd_intent :: "order_intent option"
  rd_notional :: decimal
  rd_code :: "rejection_code option"

definition make_risk_decision :: "risk_decision \<Rightarrow> risk_decision result" where
  "make_risk_decision d =
     require (\<not> rd_notional d < 0) ValueError (
     if rd_accepted d then require (\<not> (rd_intent d = None \<or> rd_code d \<noteq> None)) ValueError (Inr d)
     else require (\<not> (rd_intent d \<noteq> None \<or> rd_code d = None)) ValueError (Inr d))"

definition reject_order :: "rejection_code \<Rightarrow> decimal \<Rightarrow> risk_decision result" where
  "reject_order code notional = make_risk_decision
     \<lparr>rd_accepted = False, rd_intent = None, rd_notional = notional, rd_code = Some code\<rparr>"

record risk_manager =
  rm_constraints :: constraints
  rm_limits :: risk_limits
  rm_fees :: fee_model
  rm_slippage :: slippage_model

definition quote_reserve :: "risk_limits \<Rightarrow> decimal" where
  "quote_reserve l = (if rl_allow_all_in l then 0 else rl_minimum_quote_reserve l)"

definition exceeds :: "decimal option \<Rightarrow> decimal \<Rightarrow> bool" where
  "exceeds limit v = (case limit of None \<Rightarrow> False | Some m \<Rightarrow> m < v)"

definition estimated_execution_price :: "risk_manager \<Rightarrow> order_intent \<Rightarrow> decimal \<Rightarrow> decimal result" where
  "estimated_execution_price rm intent reference_price =
     (if oi_type intent = LIMIT
      then (case oi_limit_price intent of None \<Rightarrow> Inl AssertionError | Some l \<Rightarrow> Inr l)
      else (let base = estimate_base intent reference_price in
        if sm_kind (rm_slippage rm) \<noteq> FIXED_BPS then Inr base
        else (let fraction = ddiv (sm_fixed_bps (rm_slippage rm)) 10000 in
          Inr (if oi_side intent = BUY then dmul base (dadd 1 fraction) else dmul base (dsub 1 fraction)))))"

text \<open>\<^verbatim>\<open>intent.limit_price or intent.stop_price\<close>: a zero Decimal counts as absent.\<close>

definition trigger_of :: "order_intent \<Rightarrow> decimal option" where
  "trigger_of intent = (case oi_limit_price intent of
       Some l \<Rightarrow> if l = 0 then oi_stop_price intent else Some l | None \<Rightarrow> oi_stop_price intent)"

text \<open>The exposure checks of \<^verbatim>\<open>evaluate_order\<close> once quantity and notional are known.\<close>

definition evaluate_exposure ::
    "risk_manager \<Rightarrow> order_intent \<Rightarrow> portfolio_snapshot \<Rightarrow> decimal \<Rightarrow> decimal \<Rightarrow> decimal \<Rightarrow> risk_decision result" where
  "evaluate_exposure rm normalized view reference_price estimated_price notional =
     (let limits = rm_limits rm; quantity = oi_quantity normalized;
          accept = make_risk_decision \<lparr>rd_accepted = True, rd_intent = Some normalized,
            rd_notional = notional, rd_code = None\<rparr>
      in if notional < ic_minimum_notional (rm_constraints rm) then reject_order R_NOTIONAL_TOO_SMALL notional
      else if exceeds (ic_maximum_notional (rm_constraints rm)) notional then reject_order R_NOTIONAL_TOO_LARGE notional
      else if exceeds (rl_max_order_notional limits) notional then reject_order R_NOTIONAL_TOO_LARGE notional
      else if oi_side normalized = BUY then
        (let fee = dmul notional (fee_rate (rm_fees rm) (liquidity_of normalized));
             projected = dmul (dadd (ps_base_quantity view) quantity) (max reference_price estimated_price)
         in if dsub (dsub (ps_quote_cash view) notional) fee < quote_reserve limits
            then reject_order R_INSUFFICIENT_CASH notional
            else if exceeds (rl_max_position_notional limits) projected then reject_order R_POSITION_LIMIT notional
            else accept)
      else if ps_base_quantity view < quantity then reject_order R_INSUFFICIENT_POSITION notional
      else accept)"

definition evaluate_order ::
    "risk_manager \<Rightarrow> order_intent \<Rightarrow> portfolio_snapshot \<Rightarrow> decimal \<Rightarrow> int \<Rightarrow> int \<Rightarrow> bool \<Rightarrow> risk_decision result" where
  "evaluate_order rm intent view reference_price open_count total_count risk_halt =
     (if risk_halt then reject_order R_RISK_HALT 0
      else if rl_max_open_orders (rm_limits rm) \<le> open_count then reject_order R_MAXIMUM_OPEN_ORDERS 0
      else if rl_max_total_orders (rm_limits rm) \<le> total_count then reject_order R_MAXIMUM_TOTAL_ORDERS 0
      else res_bind (truncate_quantity (oi_quantity intent) (ic_quantity_step (rm_constraints rm))) (\<lambda>quantity.
        if quantity < ic_minimum_quantity (rm_constraints rm) \<or> quantity \<le> 0 then reject_order R_INVALID_QUANTITY 0
        else if \<not> 0 < reference_price then reject_order R_INVALID_PRICE 0
        else res_bind (case trigger_of intent of None \<Rightarrow> Inr True
            | Some p \<Rightarrow> is_tick_aligned p (ic_price_tick (rm_constraints rm))) (\<lambda>aligned.
          if \<not> aligned then reject_order R_INVALID_PRICE 0
          else res_bind (make_order_intent (intent\<lparr>oi_quantity := quantity\<rparr>)) (\<lambda>normalized.
            res_bind (estimated_execution_price rm normalized reference_price) (\<lambda>estimated_price.
              evaluate_exposure rm normalized view reference_price estimated_price
                (dmul quantity estimated_price))))))"

definition validate_fill :: "risk_manager \<Rightarrow> fill \<Rightarrow> portfolio_snapshot \<Rightarrow> rejection_code option" where
  "validate_fill rm f view =
     (let limits = rm_limits rm in
      if fi_notional f < ic_minimum_notional (rm_constraints rm) then Some R_NOTIONAL_TOO_SMALL
      else if exceeds (ic_maximum_notional (rm_constraints rm)) (fi_notional f) then Some R_NOTIONAL_TOO_LARGE
      else if exceeds (rl_max_order_notional limits) (fi_notional f) then Some R_NOTIONAL_TOO_LARGE
      else if fi_side f = BUY then
        if dsub (dsub (ps_quote_cash view) (fi_notional f)) (fi_fee f) < quote_reserve limits
        then Some R_INSUFFICIENT_CASH
        else if exceeds (rl_max_position_notional limits)
          (dmul (dadd (ps_base_quantity view) (fi_quantity f)) (fi_execution_price f))
        then Some R_POSITION_LIMIT else None
      else if ps_base_quantity view < fi_quantity f then Some R_INSUFFICIENT_POSITION
      else None)"

definition drawdown_halt_required :: "risk_manager \<Rightarrow> portfolio_snapshot \<Rightarrow> bool" where
  "drawdown_halt_required rm view \<longleftrightarrow> rl_stop_on_max_drawdown (rm_limits rm) \<and>
     (case rl_max_drawdown_pct (rm_limits rm) of None \<Rightarrow> False | Some t \<Rightarrow> t \<le> ps_drawdown_pct view)"

section \<open>Stop loss\<close>

record stop_decision =
  st_quantity :: decimal
  st_price :: "decimal option"

definition make_stop_decision :: "stop_decision \<Rightarrow> stop_decision result" where
  "make_stop_decision d =
     require (\<not> st_quantity d < 0) ValueError (
     if st_quantity d = 0 then require (st_price d = None) ValueError (Inr d)
     else (case st_price d of None \<Rightarrow> Inl ValueError
           | Some p \<Rightarrow> require (\<not> p \<le> 0) ValueError (Inr d)))"

definition stop_active :: "stop_decision \<Rightarrow> bool" where
  "stop_active d \<longleftrightarrow> 0 < st_quantity d"

definition evaluate_stop :: "stop_policy \<Rightarrow> constraints \<Rightarrow> portfolio_snapshot \<Rightarrow> stop_decision result" where
  "evaluate_stop policy cs view =
     (if sp_kind policy = STOP_DISABLED \<or> ps_base_quantity view = 0
      then make_stop_decision \<lparr>st_quantity = 0, st_price = None\<rparr>
      else (case sp_percent policy of None \<Rightarrow> Inl AssertionError
        | Some percentage \<Rightarrow>
            (let raw_stop = dmul (ps_average_entry view) (dsub 1 (ddiv percentage 100)) in
             res_bind (ddiv_chk raw_stop (ic_price_tick cs)) (\<lambda>q.
               let stop_price = dmul (trunc_dec q) (ic_price_tick cs) in
               require (\<not> stop_price \<le> 0) InvalidOrderIntent (
                 make_stop_decision \<lparr>st_quantity = ps_base_quantity view, st_price = Some stop_price\<rparr>)))))"

section \<open>Facts about the risk manager\<close>

lemma reject_order_eq: "0 \<le> n \<Longrightarrow> reject_order c n =
    Inr \<lparr>rd_accepted = False, rd_intent = None, rd_notional = n, rd_code = Some c\<rparr>"
  by (simp add: reject_order_def make_risk_decision_def)

lemma reject_order_Inr [simp]: "reject_order c n = Inr d \<longleftrightarrow>
    0 \<le> n \<and> d = \<lparr>rd_accepted = False, rd_intent = None, rd_notional = n, rd_code = Some c\<rparr>"
  by (auto simp: reject_order_def make_risk_decision_def)

text \<open>What a risk decision promises: an accepted one carries an order inside every limit.\<close>

definition exposure_ok :: "risk_manager \<Rightarrow> order_intent \<Rightarrow> portfolio_snapshot \<Rightarrow> decimal \<Rightarrow> decimal \<Rightarrow> decimal \<Rightarrow> bool" where
  "exposure_ok rm i view reference_price price notional \<longleftrightarrow>
     ic_minimum_notional (rm_constraints rm) \<le> notional \<and>
     \<not> exceeds (ic_maximum_notional (rm_constraints rm)) notional \<and>
     \<not> exceeds (rl_max_order_notional (rm_limits rm)) notional \<and>
     (if oi_side i = BUY
      then quote_reserve (rm_limits rm) \<le>
          dsub (dsub (ps_quote_cash view) notional) (dmul notional (fee_rate (rm_fees rm) (liquidity_of i))) \<and>
        \<not> exceeds (rl_max_position_notional (rm_limits rm))
          (dmul (dadd (ps_base_quantity view) (oi_quantity i)) (max reference_price price))
      else oi_quantity i \<le> ps_base_quantity view)"

lemma evaluate_exposure_iff:
  assumes "0 \<le> notional"
  shows "\<exists>d. evaluate_exposure rm i view reference_price price notional = Inr d \<and> rd_notional d = notional \<and>
    (rd_accepted d \<longleftrightarrow> exposure_ok rm i view reference_price price notional) \<and>
    (rd_accepted d \<longrightarrow> rd_intent d = Some i \<and> rd_code d = None) \<and>
    (\<not> rd_accepted d \<longrightarrow> rd_intent d = None \<and> rd_code d \<noteq> None)"
  using assms by (simp add: evaluate_exposure_def Let_def reject_order_eq make_risk_decision_def exposure_ok_def)

lemma evaluate_exposure_Inr:
  assumes "evaluate_exposure rm i view reference_price price notional = Inr d"
  shows "0 \<le> notional \<and> rd_notional d = notional \<and>
    (rd_accepted d \<longrightarrow> exposure_ok rm i view reference_price price notional \<and> rd_intent d = Some i \<and> rd_code d = None) \<and>
    (\<not> rd_accepted d \<longrightarrow> rd_intent d = None \<and> rd_code d \<noteq> None)"
  using assms by (auto simp: evaluate_exposure_def Let_def make_risk_decision_def exposure_ok_def split: if_splits)

definition slippage_ok :: "slippage_model \<Rightarrow> bool" where
  "slippage_ok s \<longleftrightarrow> make_slippage_model s = Inr s"

lemma estimated_price_pos:
  assumes "slippage_ok (rm_slippage rm)" and "intent_ok i" and "0 < reference_price"
  shows "\<exists>p. estimated_execution_price rm i reference_price = Inr p \<and> 0 < p"
proof -
  note m = slippage_multiplier [OF assms(1) [unfolded slippage_ok_def]]
  have base: "0 < estimate_base i reference_price"
    using assms(2,3) by (auto simp: estimate_base_def intent_ok_def split: order_type.splits option.splits)
  then have up: "0 < dmul (estimate_base i reference_price) (dadd 1 (ddiv (sm_fixed_bps (rm_slippage rm)) 10000))"
    using m(5) by (intro dmul_pos) linarith+
  have down: "0 < dmul (estimate_base i reference_price) (dsub 1 (ddiv (sm_fixed_bps (rm_slippage rm)) 10000))"
    using base m(3) by (intro dmul_pos)
  have "sm_kind (rm_slippage rm) = FIXED_BPS" by (cases "sm_kind (rm_slippage rm)")
  with up down show ?thesis
    using assms(2) by (cases "oi_type i") (auto simp: estimated_execution_price_def intent_ok_def Let_def)
qed

lemma trigger_of_ok:
  "intent_ok i \<Longrightarrow> trigger_of i = (case oi_limit_price i of Some l \<Rightarrow> Some l | None \<Rightarrow> oi_stop_price i)"
  by (auto simp: trigger_of_def intent_ok_def split: order_type.splits option.splits)

lemma make_order_intent_quantity:
  assumes "make_order_intent i = Inr i" and "0 < q"
  shows "make_order_intent (i\<lparr>oi_quantity := q\<rparr>) = Inr (i\<lparr>oi_quantity := q\<rparr>)"
proof -
  have "strip t = t \<and> safe_tag t" if "oi_client_tag i = Some t" for t
    using assms(1) that by (auto simp: make_order_intent_def Let_def dest: arg_cong [where f = oi_client_tag])
  then show ?thesis
    using assms by (auto simp: make_order_intent_def Let_def split: option.splits order_type.splits)
qed

text \<open>An accepted order is the intent with its quantity truncated.\<close>

lemma evaluate_order_intent:
  assumes "evaluate_order rm i view reference_price open_count total_count halt = Inr d" and "rd_intent d = Some n"
  shows "\<exists>q. make_order_intent (i\<lparr>oi_quantity := q\<rparr>) = Inr n"
proof -
  from assms obtain q m price where "make_order_intent (i\<lparr>oi_quantity := q\<rparr>) = Inr m"
    and e: "evaluate_exposure rm m view reference_price price (dmul q price) = Inr d"
    by (auto simp: evaluate_order_def split: if_splits)
  moreover have "n = m" using evaluate_exposure_Inr [OF e] assms(2) by (cases "rd_accepted d") auto
  ultimately show ?thesis by blast
qed

section \<open>Facts about sizing and stops\<close>

definition fees_ok :: "fee_model \<Rightarrow> bool" where
  "fees_ok f \<longleftrightarrow> make_fee_model f = Inr f"

lemma fee_rate_bounds:
  assumes "fees_ok f"
  shows "0 \<le> fee_rate f l" and "fee_rate f l \<le> 1 / 10"
proof -
  have b: "0 \<le> bps" "bps \<le> 1000" if "bps = (if l = MAKER then fm_maker_bps f else fm_taker_bps f)" for bps
    using assms that by (auto simp: fees_ok_def make_fee_model_def split: if_splits)
  show "0 \<le> fee_rate f l" using b(1) by (simp add: fee_rate_def Let_def ddiv_nonneg)
  have tenth: "dec28 (1 / 10) = 1 / 10" by (simp add: dec_eval)
  show "fee_rate f l \<le> 1 / 10"
    unfolding fee_rate_def Let_def ddiv_def using b(2) by (intro d28.r_le_fixed [OF _ tenth]) simp
qed

lemma truncate_upper:
  assumes "truncate_quantity a step = Inr q"
  shows "0 \<le> q" and "q \<le> a * (1 + eps28)\<^sup>2" and "0 \<le> a" and "0 < step"
  using assms truncate_quantity_outcome [of a step] by (auto split: if_splits)

lemma truncate_total: "0 \<le> a \<Longrightarrow> 0 < step \<Longrightarrow> \<exists>q. truncate_quantity a step = Inr q \<and> 0 \<le> q"
  using truncate_quantity_outcome [of a step] by auto


text \<open>A sizing decision for a bought position, from the notional that is affordable.\<close>

lemma sizing_notional_chain:
  fixes e :: rat
  assumes "0 \<le> e" and "0 < price" and a: "a \<le> b / price * (1 + e)" and q: "q \<le> a * (1 + e)\<^sup>2"
  shows "q * price \<le> b * (1 + e) ^ 3"
proof -
  have "a * (1 + e)\<^sup>2 \<le> b / price * (1 + e) * (1 + e)\<^sup>2"
    using a assms(1) by (intro mult_right_mono) simp_all
  then have "q \<le> b / price * (1 + e) ^ 3" using q by (simp add: power2_eq_square power3_eq_cube mult.assoc)
  then have "q * price \<le> b / price * (1 + e) ^ 3 * price" using assms(2) by (intro mult_right_mono) simp_all
  then show ?thesis using assms(2) by simp
qed

lemma sizing_target_chain:
  fixes e :: rat
  assumes "0 \<le> e" and "0 \<le> b" and "b \<le> target" and "0 < price" and "a \<le> b / price * (1 + e)" and "q \<le> a * (1 + e)\<^sup>2"
  shows "q * price \<le> target * (1 + e) ^ 3"
proof -
  have "b * (1 + e) ^ 3 \<le> target * (1 + e) ^ 3" using assms(1,3) by (intro mult_right_mono) simp_all
  with sizing_notional_chain [OF assms(1,4,5,6)] show ?thesis by (rule order_trans)
qed

lemma sizing_chain:
  fixes e :: rat
  assumes "0 \<le> e" and "e \<le> 1 / 1000" and "0 \<le> rate" and "0 \<le> avail" and "0 < price"
    and m: "(1 + rate) * (1 - e) \<le> m" and b: "b \<le> avail / m * (1 + e)" and "0 \<le> b"
    and a: "a \<le> b / price * (1 + e)" and q: "q \<le> a * (1 + e)\<^sup>2" and "0 \<le> q"
    and n: "n \<le> q * price * (1 + e)" and "0 \<le> n" and f: "f \<le> n * rate * (1 + e)" and "0 \<le> f"
    and c: "c \<le> (n + f) * (1 + e)"
  shows "c * (1 - e) \<le> avail * (1 + e) ^ 7"
proof -
  have one: "1 \<le> 1 + e" "0 < 1 - e" "0 \<le> 1 + e" using assms(1,2) by simp_all
  have "q * price \<le> b * (1 + e) ^ 3" using assms(1,5) a q by (rule sizing_notional_chain)
  then have "q * price * (1 + e) \<le> b * (1 + e) ^ 3 * (1 + e)" using one(3) by (intro mult_right_mono)
  then have n4: "n \<le> b * (1 + e) ^ 4" using n by (simp add: power_numeral_reduce mult.assoc)
  have "n + f \<le> n * (1 + rate) * (1 + e)"
  proof -
    have "n * 1 \<le> n * (1 + e)" using \<open>0 \<le> n\<close> one(1) by (intro mult_left_mono)
    then show ?thesis using f by (simp add: algebra_simps)
  qed
  then have "(n + f) * (1 + e) \<le> n * (1 + rate) * (1 + e) * (1 + e)" using one(3) by (intro mult_right_mono)
  then have c1: "c \<le> n * ((1 + rate) * (1 + e)\<^sup>2)" using c by (simp add: power2_eq_square mult.assoc)
  also have "\<dots> \<le> b * (1 + e) ^ 4 * ((1 + rate) * (1 + e)\<^sup>2)"
    using n4 assms(3) one(3) by (intro mult_right_mono) simp_all
  finally have c2: "c \<le> b * (1 + rate) * (1 + e) ^ 6" by (simp add: power_numeral_reduce power2_eq_square mult_ac)
  have "0 < (1 + rate) * (1 - e)" using assms(3) one(2) by simp
  then have mpos: "0 < m" using m by (rule less_le_trans)
  have "b * m \<le> avail / m * (1 + e) * m" using b mpos by (intro mult_right_mono) simp_all
  then have bm: "b * m \<le> avail * (1 + e)" using mpos by simp
  have "b * ((1 + rate) * (1 - e)) \<le> b * m" using m \<open>0 \<le> b\<close> by (intro mult_left_mono)
  with bm have "b * (1 + rate) * (1 - e) \<le> avail * (1 + e)" by (simp add: mult.assoc)
  then have "b * (1 + rate) * (1 - e) * (1 + e) ^ 6 \<le> avail * (1 + e) * (1 + e) ^ 6"
    using one(3) by (intro mult_right_mono) simp_all
  moreover have "c * (1 - e) \<le> b * (1 + rate) * (1 + e) ^ 6 * (1 - e)" using c2 one(2) by (intro mult_right_mono) simp_all
  ultimately have "c * (1 - e) \<le> avail * (1 + e) * (1 + e) ^ 6" by (simp add: mult_ac)
  then show ?thesis by (simp add: power_numeral_reduce mult.assoc)
qed

lemma sizer_price_pos:
  assumes "slippage_ok (sr_slippage s)" and "intent_ok i" and "0 < reference_price"
  shows "\<exists>p. sizer_price s i reference_price = Inr p \<and> 0 < p"
proof -
  let ?rm = "\<lparr>rm_constraints = sr_constraints s, rm_limits = undefined, rm_fees = sr_fees s, rm_slippage = sr_slippage s\<rparr>"
  have "sm_kind (sr_slippage s) = FIXED_BPS" by (cases "sm_kind (sr_slippage s)")
  then have "sizer_price s i reference_price = estimated_execution_price ?rm i reference_price"
    by (simp add: sizer_price_def estimated_execution_price_def Let_def)
  then show ?thesis using estimated_price_pos [of ?rm i reference_price] assms by simp
qed

lemma make_sizing_decision_ok:
  assumes "0 \<le> q" and "0 \<le> target" and "0 < price" and "fees_ok (sr_fees s)"
  shows "\<exists>d. sizing_of s q target price l = Inr d \<and> sd_quantity d = q \<and> sd_price d = price \<and> sd_target d = target \<and>
    sd_fee d = dmul (dmul q price) (fee_rate (sr_fees s) l) \<and>
    sd_cash_required d = dadd (dmul q price) (sd_fee d)"
  using assms fee_rate_bounds(1) [OF assms(4), of l]
  by (simp add: sizing_of_def make_sizing_decision_def Let_def not_less dec_intros)

text \<open>The notional a policy aims at, and what the cash allows.\<close>

definition policy_target :: "sizer \<Rightarrow> portfolio_snapshot \<Rightarrow> decimal" where
  "policy_target s view = (let v = the (sz_value (sr_policy s)) in
     if sz_kind (sr_policy s) = FIXED_NOTIONAL then v else ddiv (dmul (ps_equity view) v) 100)"

definition available_cash :: "sizer \<Rightarrow> portfolio_snapshot \<Rightarrow> decimal" where
  "available_cash s view = max 0 (dsub (ps_quote_cash view) (sr_reserve s))"

lemma size_bought:
  assumes "slippage_ok (sr_slippage s)" and fees: "fees_ok (sr_fees s)" and "intent_ok i" and "0 < reference_price"
    and "oi_side i = BUY" and "sz_kind (sr_policy s) \<noteq> EXPLICIT_QUANTITY" and v: "sz_value (sr_policy s) = Some v" "0 < v"
    and "0 < ic_quantity_step (sr_constraints s)" and "0 \<le> ps_equity view"
  obtains d where "size_order s i view reference_price = Inr d" and "sd_target d = policy_target s view"
    and "0 < sd_price d" and "sd_quantity d * sd_price d \<le> policy_target s view * (1 + eps28) ^ 3"
    and "sd_cash_required d * (1 - eps28) \<le> available_cash s view * (1 + eps28) ^ 7"
    and "sd_cash_required d = dadd (dmul (sd_quantity d) (sd_price d)) (sd_fee d)" and "0 \<le> sd_quantity d"
proof -
  let ?l = "liquidity_of i" and ?step = "ic_quantity_step (sr_constraints s)" and ?avail = "available_cash s view"
  let ?rate = "fee_rate (sr_fees s) ?l"
  let ?m = "dadd 1 ?rate"
  obtain p where p: "sizer_price s i reference_price = Inr p" "0 < p"
    using sizer_price_pos [OF assms(1,3,4)] by blast
  have rate: "0 \<le> ?rate" by (rule fee_rate_bounds(1) [OF fees])
  have target: "0 \<le> policy_target s view" using v assms(10) by (auto simp: policy_target_def dec_intros)
  have avail: "0 \<le> ?avail" by (simp add: available_cash_def)
  have m: "(1 + ?rate) * (1 - eps28) \<le> ?m" unfolding dadd_def using rate by (intro d28.r_lower) simp
  have mpos: "0 < ?m" using rate by (simp add: dadd_def d28.r_pos)
  let ?aff = "ddiv ?avail ?m"
  let ?b = "min (policy_target s view) ?aff"
  have aff: "?aff \<le> ?avail / ?m * (1 + eps28)" unfolding ddiv_def using avail mpos by (intro d28.r_upper) simp
  have b: "?b \<le> ?avail / ?m * (1 + eps28)" "0 \<le> ?b" "?b \<le> policy_target s view"
    using aff target avail mpos by (simp_all add: min_le_iff_disj ddiv_nonneg)
  let ?a = "ddiv ?b p"
  have a: "?a \<le> ?b / p * (1 + eps28)" "0 \<le> ?a"
    unfolding ddiv_def [of ?b] using b(2) p(2) by (intro d28.r_upper d28.r_nonneg; simp)+
  from truncate_total [OF a(2) assms(9)] obtain q where q: "truncate_quantity ?a ?step = Inr q" "0 \<le> q" by blast
  note qu = truncate_upper(2) [OF q(1)]
  from make_sizing_decision_ok [OF q(2) target p(2) fees, of ?l] obtain d where
    d: "sizing_of s q (policy_target s view) p ?l = Inr d" "sd_quantity d = q" "sd_price d = p"
      "sd_target d = policy_target s view" "sd_fee d = dmul (dmul q p) ?rate"
      "sd_cash_required d = dadd (dmul q p) (sd_fee d)" by blast
  let ?n = "dmul q p"
  have n: "?n \<le> q * p * (1 + eps28)" "0 \<le> ?n"
    unfolding dmul_def using q(2) p(2) by (intro d28.r_upper d28.r_nonneg; simp)+
  have f: "sd_fee d \<le> ?n * ?rate * (1 + eps28)" "0 \<le> sd_fee d"
    unfolding d(5) dmul_def [of ?n] using n(2) rate by (intro d28.r_upper d28.r_nonneg; simp)+
  have c: "sd_cash_required d \<le> (?n + sd_fee d) * (1 + eps28)"
    unfolding d(6) dadd_def using n(2) f(2) by (intro d28.r_upper) simp
  have "size_order s i view reference_price = Inr d"
    using assms(4,5,6) p v mpos q(1) d(1)
    by (simp add: size_order_def Let_def ddiv_chk_def policy_target_def available_cash_def)
  moreover have "sd_cash_required d * (1 - eps28) \<le> ?avail * (1 + eps28) ^ 7"
    using d28.eps_nonneg d28.eps_small rate avail p(2) m b(1,2) a(1) qu q(2) n f c by (rule sizing_chain)
  moreover have "sd_quantity d * sd_price d \<le> policy_target s view * (1 + eps28) ^ 3"
    unfolding d(2,3) using d28.eps_nonneg b(2,3) p(2) a(1) qu by (rule sizing_target_chain)
  ultimately show ?thesis using that d p(2) q(2) by simp
qed

text \<open>The projected stop: the entry price less the percentage, truncated to the tick.\<close>

definition stop_ok :: "stop_policy \<Rightarrow> bool" where
  "stop_ok p \<longleftrightarrow> make_stop_policy p = Inr p"

lemma stop_factor:
  assumes "0 < v" and "v < 100"
  shows "0 \<le> dsub 1 (ddiv v 100)" and "dsub 1 (ddiv v 100) \<le> 1"
proof -
  have "0 \<le> ddiv v 100" using assms(1) by (simp add: ddiv_nonneg)
  then show "dsub 1 (ddiv v 100) \<le> 1" unfolding dsub_def by (intro d28.r_le_fixed) simp_all
  have "ddiv v 100 \<le> 1" unfolding ddiv_def using assms by (intro d28.r_le_fixed) simp_all
  then show "0 \<le> dsub 1 (ddiv v 100)" by (rule dsub_nonneg)
qed

lemma stop_projection:
  assumes "0 < v" and "v < 100" and "0 < tick" and "0 \<le> average"
  defines "raw \<equiv> dmul average (dsub 1 (ddiv v 100))"
  defines "price \<equiv> dmul (trunc_dec (ddiv raw tick)) tick"
  shows "0 \<le> price" and "price \<le> raw * (1 + eps28)\<^sup>2" and "raw \<le> dec28 average"
    and "raw * (1 - eps28) - tick \<le> price / (1 - eps28)"
proof -
  note f = stop_factor [OF assms(1,2)]
  have raw: "0 \<le> raw" unfolding raw_def using assms(4) f(1) by (rule dmul_nonneg)
  then have t: "truncate_quantity raw tick = Inr price"
    using assms(3) by (simp add: truncate_quantity_def Let_def price_def)
  from truncate_quantity_outcome [of raw tick] t raw assms(3)
  show "0 \<le> price" "price \<le> raw * (1 + eps28)\<^sup>2" "raw * (1 - eps28) - tick \<le> price / (1 - eps28)"
    using d28.eps_small by (auto simp: le_divide_eq)
  have "average * dsub 1 (ddiv v 100) \<le> average * 1" using f(2) assms(4) by (intro mult_left_mono)
  then show "raw \<le> dec28 average" unfolding raw_def dmul_def by (intro d28.r_mono) simp
qed

section \<open>Properties\<close>


text \<open>The risk manager answers every valid order: unless the price to align has a quotient beyond the
  decimal precision, it returns a decision, and a refusal carries a reason and no order.\<close>

theorem evaluate_order_total:
  assumes "make_order_intent i = Inr i" and "slippage_ok (rm_slippage rm)"
    and "0 < ic_quantity_step (rm_constraints rm)" and "0 < ic_price_tick (rm_constraints rm)"
    and "\<And>p. trigger_of i = Some p \<Longrightarrow> p / ic_price_tick (rm_constraints rm) < 10 ^ 28"
  shows "\<exists>d. evaluate_order rm i view reference_price open_count total_count halt = Inr d \<and>
    (rd_accepted d \<longleftrightarrow> rd_intent d \<noteq> None) \<and> (rd_accepted d \<longleftrightarrow> rd_code d = None) \<and> 0 \<le> rd_notional d"
proof -
  have ok: "intent_ok i" by (rule make_order_intent_ok [OF assms(1)])
  then have "0 \<le> oi_quantity i" by (simp add: intent_ok_def)
  from truncate_total [OF this assms(3)] obtain q where
    q: "truncate_quantity (oi_quantity i) (ic_quantity_step (rm_constraints rm)) = Inr q" by blast
  have aligned: "\<exists>a. (case trigger_of i of None \<Rightarrow> Inr True
      | Some p \<Rightarrow> is_tick_aligned p (ic_price_tick (rm_constraints rm))) = Inr a"
  proof (cases "trigger_of i")
    case (Some p)
    then have "0 < p" using ok by (auto simp: trigger_of_ok intent_ok_def split: order_type.splits option.splits)
    with assms(4) have "0 \<le> p / ic_price_tick (rm_constraints rm)" by simp
    moreover have "trunc_dec (p / ic_price_tick (rm_constraints rm)) \<le> p / ic_price_tick (rm_constraints rm)"
      "0 \<le> trunc_dec (p / ic_price_tick (rm_constraints rm))"
      using calculation by (rule trunc_dec_le, rule trunc_dec_nonneg)
    ultimately have "\<bar>trunc_dec (p / ic_price_tick (rm_constraints rm))\<bar> < 10 ^ 28"
      using assms(5) [OF Some] by linarith
    then show ?thesis using Some \<open>0 < p\<close> assms(4) by (simp add: is_tick_aligned_def dmod_chk_def)
  qed (simp, blast)
  then obtain a where a: "(case trigger_of i of None \<Rightarrow> Inr True
      | Some p \<Rightarrow> is_tick_aligned p (ic_price_tick (rm_constraints rm))) = Inr a" by blast
  show ?thesis
  proof (cases "\<not> halt \<and> open_count < rl_max_open_orders (rm_limits rm) \<and> total_count < rl_max_total_orders (rm_limits rm)
      \<and> ic_minimum_quantity (rm_constraints rm) \<le> q \<and> 0 < q \<and> 0 < reference_price \<and> a")
    case True
    then have n: "make_order_intent (i\<lparr>oi_quantity := q\<rparr>) = Inr (i\<lparr>oi_quantity := q\<rparr>)"
      using make_order_intent_quantity [OF assms(1)] by simp
    from estimated_price_pos [OF assms(2) make_order_intent_ok [OF n], of reference_price] True
    obtain p where p: "estimated_execution_price rm (i\<lparr>oi_quantity := q\<rparr>) reference_price = Inr p" "0 < p" by blast
    then have "0 \<le> dmul q p" using True by (intro dmul_nonneg) simp_all
    from evaluate_exposure_iff [OF this, of rm "i\<lparr>oi_quantity := q\<rparr>" view reference_price p] \<open>0 \<le> dmul q p\<close>
    obtain d where d: "evaluate_exposure rm (i\<lparr>oi_quantity := q\<rparr>) view reference_price p (dmul q p) = Inr d"
      "rd_accepted d \<longleftrightarrow> rd_intent d \<noteq> None" "rd_accepted d \<longleftrightarrow> rd_code d = None" "0 \<le> rd_notional d"
      by auto
    have eq: "evaluate_order rm i view reference_price open_count total_count halt = Inr d"
      unfolding evaluate_order_def using True q a n p d(1) by simp
    show ?thesis by (intro exI [of _ d] conjI eq d(2-4))
  next
    case False
    have "\<exists>c. evaluate_order rm i view reference_price open_count total_count halt = reject_order c 0"
      unfolding evaluate_order_def q a res_bind_simps using False by (auto simp: not_less not_le)
    then show ?thesis by (auto simp: reject_order_eq)
  qed
qed

definition example_constraints :: constraints where
  "example_constraints = \<lparr>ic_minimum_quantity = 1, ic_quantity_step = 1, ic_price_tick = 1,
     ic_minimum_notional = 0, ic_maximum_notional = None\<rparr>"

definition example_limits :: risk_limits where
  "example_limits = \<lparr>rl_max_order_notional = Some 500, rl_max_position_notional = None, rl_max_open_orders = 5,
     rl_max_total_orders = 10, rl_max_drawdown_pct = None, rl_stop_on_max_drawdown = True,
     rl_allow_all_in = False, rl_minimum_quote_reserve = 10,
     rl_stop_loss = Some \<lparr>sp_kind = FIXED_PERCENT, sp_percent = Some 10\<rparr>\<rparr>"

definition example_manager :: risk_manager where
  "example_manager = \<lparr>rm_constraints = example_constraints, rm_limits = example_limits,
     rm_fees = \<lparr>fm_maker_bps = 0, fm_taker_bps = 0\<rparr>, rm_slippage = \<lparr>sm_kind = FIXED_BPS, sm_fixed_bps = 0\<rparr>\<rparr>"

definition example_view :: portfolio_snapshot where
  "example_view = \<lparr>ps_quote_cash = 1000, ps_base_quantity = 0, ps_average_entry = 0, ps_realized_pnl = 0,
     ps_unrealized_pnl = 0, ps_total_fees = 0, ps_total_slippage = 0, ps_equity = 1000, ps_peak_equity = 1000,
     ps_drawdown = 0, ps_cost_basis = 0, ps_drawdown_pct = 0\<rparr>"

lemma example_models_ok: "slippage_ok (rm_slippage example_manager)" "fees_ok (rm_fees example_manager)"
  by (simp_all add: slippage_ok_def make_slippage_model_def fees_ok_def make_fee_model_def example_manager_def)

lemmas example_risk_defs = example_manager_def example_limits_def example_constraints_def example_view_def

lemma example_intent_ok: "make_order_intent (so_intent example_order) = Inr (so_intent example_order)"
  by (simp add: make_order_intent_def example_order_def)

lemma example_decision:
  "evaluate_order example_manager (so_intent example_order) example_view 11 0 0 False =
     Inr \<lparr>rd_accepted = True, rd_intent = Some (so_intent example_order), rd_notional = 20, rd_code = None\<rparr>"
proof -
  have "make_order_intent (so_intent example_order\<lparr>oi_quantity := 2\<rparr>) = Inr (so_intent example_order)"
    using example_intent_ok by (simp add: example_order_def)
  then show ?thesis
    by (simp add: evaluate_order_def evaluate_exposure_def example_risk_defs truncate_quantity_def
        Let_def trunc_dec_def trigger_of_def example_order_def is_tick_aligned_def dmod_chk_def estimated_execution_price_def
        exceeds_def fee_rate_def quote_reserve_def make_risk_decision_def dops)
qed


theorem evaluate_order_total_witness:
  "\<exists>d. evaluate_order example_manager (so_intent example_order) example_view 11 7 0 False = Inr d \<and>
    (rd_accepted d \<longleftrightarrow> rd_intent d \<noteq> None)"
  using evaluate_order_total [of "so_intent example_order" example_manager example_view 11 7 0 False,
      OF example_intent_ok example_models_ok(1)]
  by (auto simp: example_risk_defs trigger_of_def example_order_def)

text \<open>C38: sizing a purchase by a notional or equity policy always succeeds; the position it proposes costs,
  fee included, no more than the cash above the reserve, and no more than the target, up to the
  rounding of the seven operations involved.\<close>

theorem sized_buy_affordable:
  assumes "slippage_ok (sr_slippage s)" and "fees_ok (sr_fees s)" and "intent_ok i" and "0 < reference_price"
    and "oi_side i = BUY" and "sz_kind (sr_policy s) \<noteq> EXPLICIT_QUANTITY" and "sz_value (sr_policy s) = Some v" and "0 < v"
    and "0 < ic_quantity_step (sr_constraints s)" and "0 \<le> ps_equity view"
  shows "\<exists>d. size_order s i view reference_price = Inr d \<and> 0 \<le> sd_quantity d \<and> 0 < sd_price d
    \<and> sd_quantity d * sd_price d \<le> policy_target s view * (1 + eps28) ^ 3
    \<and> sd_cash_required d * (1 - eps28) \<le> available_cash s view * (1 + eps28) ^ 7
    \<and> sd_cash_required d = dadd (dmul (sd_quantity d) (sd_price d)) (sd_fee d)"
  using size_bought [OF assms] by metis

definition example_sizer :: sizer where
  "example_sizer = \<lparr>sr_policy = \<lparr>sz_kind = EQUITY_PERCENT, sz_value = Some 50, sz_reserve = 0\<rparr>,
     sr_constraints = example_constraints, sr_fees = rm_fees example_manager,
     sr_slippage = rm_slippage example_manager, sr_reserve = 10\<rparr>"

theorem sized_buy_affordable_witness:
  "\<exists>d. size_order example_sizer (so_intent example_order) example_view 11 = Inr d \<and>
    sd_cash_required d * (1 - eps28) \<le> 990 * (1 + eps28) ^ 7"
proof -
  have "available_cash example_sizer example_view = 990"
    by (simp add: available_cash_def example_sizer_def example_view_def dsub_def)
  with sized_buy_affordable [of example_sizer "so_intent example_order" 11 50 example_view]
    example_models_ok example_order_ok(2)
  show ?thesis by (auto simp: example_sizer_def example_order_def example_view_def example_constraints_def)
qed

text \<open>The protective stop covers the whole position at a positive, tick-truncated price that is at most the
  entry price less the percentage (up to rounding) and less than a tick below it; a price below one
  tick is refused; without position or policy there is no stop.\<close>

theorem stop_loss_projection:
  assumes "stop_ok policy" and "0 < ic_price_tick cs" and "0 \<le> ps_base_quantity view" and "0 \<le> ps_average_entry view"
  shows "if sp_kind policy = STOP_DISABLED \<or> ps_base_quantity view = 0
    then evaluate_stop policy cs view = Inr \<lparr>st_quantity = 0, st_price = None\<rparr>
    else (\<exists>v raw price. sp_percent policy = Some v \<and> raw = dmul (ps_average_entry view) (dsub 1 (ddiv v 100))
      \<and> raw \<le> dec28 (ps_average_entry view) \<and> price = dmul (trunc_dec (ddiv raw (ic_price_tick cs))) (ic_price_tick cs)
      \<and> price \<le> raw * (1 + eps28)\<^sup>2 \<and> raw * (1 - eps28) - ic_price_tick cs \<le> price / (1 - eps28)
      \<and> evaluate_stop policy cs view = (if price = 0 then Inl InvalidOrderIntent
          else Inr \<lparr>st_quantity = ps_base_quantity view, st_price = Some price\<rparr>))"
proof (cases "sp_kind policy = STOP_DISABLED \<or> ps_base_quantity view = 0")
  case True
  then show ?thesis by (auto simp: evaluate_stop_def make_stop_decision_def)
next
  case False
  then have kind: "sp_kind policy = FIXED_PERCENT" by (cases "sp_kind policy") simp_all
  with assms(1) obtain v where v: "sp_percent policy = Some v" "0 < v" "v < 100"
    by (auto simp: stop_ok_def make_stop_policy_def split: option.splits)
  let ?raw = "dmul (ps_average_entry view) (dsub 1 (ddiv v 100))"
  let ?price = "dmul (trunc_dec (ddiv ?raw (ic_price_tick cs))) (ic_price_tick cs)"
  note s = stop_projection [OF v(2,3) assms(2,4)]
  have "evaluate_stop policy cs view = (if ?price = 0 then Inl InvalidOrderIntent
      else Inr \<lparr>st_quantity = ps_base_quantity view, st_price = Some ?price\<rparr>)"
    using False kind v(1) assms(2,3) s(1)
    by (simp add: evaluate_stop_def Let_def ddiv_chk_def make_stop_decision_def require_def)
  with False v(1) s(2-4) show ?thesis by simp
qed

theorem stop_loss_projection_witness:
  "evaluate_stop \<lparr>sp_kind = FIXED_PERCENT, sp_percent = Some 10\<rparr> example_constraints
     (example_view\<lparr>ps_base_quantity := 2, ps_average_entry := 100\<rparr>) = Inr \<lparr>st_quantity = 2, st_price = Some 90\<rparr>"
proof -
  have d: "dec28 (1 / 10) = 1 / 10" "dec28 (9 / 10) = 9 / 10" by (simp_all add: dec_eval)
  have e: "dmul 100 (dsub 1 (ddiv 10 100)) = 90" "dmul (trunc_dec (ddiv 90 1)) 1 = 90"
    by (simp_all add: dops trunc_dec_def d)
  show ?thesis
    using stop_loss_projection [of "\<lparr>sp_kind = FIXED_PERCENT, sp_percent = Some 10\<rparr>" example_constraints
        "example_view\<lparr>ps_base_quantity := 2, ps_average_entry := 100\<rparr>"]
    by (simp add: stop_ok_def make_stop_policy_def example_constraints_def example_view_def e)
qed

text \<open>A fill that passes the second risk check is always accepted by the portfolio, so the engine does not
  fail between the two: for a purchase when a positive reserve is configured or the subtraction of the
  notional is exact, for a sale of the whole position or of a part that rounding can tell from the whole.\<close>

theorem validated_fill_applies:
  assumes "portfolio_ok p" and "fill_ok f" and "portfolio_view p = Inr view" and "validate_fill rm f view = None"
    and "fi_fee f \<le> fi_notional f" and "dec28 (fi_fee f) = fi_fee f" and "dec28 (pf_cash p) = pf_cash p"
    and reserve: "0 < quote_reserve (rm_limits rm) \<or>
      (0 \<le> quote_reserve (rm_limits rm) \<and> dsub (pf_cash p) (fi_notional f) = pf_cash p - fi_notional f)"
    and part: "fi_quantity f < pf_base p \<Longrightarrow> fi_quantity f * (1 + eps28)\<^sup>2 < pf_base p"
  shows "\<exists>m. apply_fill p f = Inr m \<and> portfolio_ok (mu_after m)"
proof -
  have view: "ps_quote_cash view = pf_cash p" "ps_base_quantity view = pf_base p"
    using assms(3) by (auto simp: portfolio_view_def make_portfolio_snapshot_def)
  have price: "0 < fi_execution_price f" using assms(2) by (simp add: fill_ok_def)
  have "\<exists>m. (if fi_side f = BUY then apply_buy p f else apply_sell p f) = Inr m \<and> portfolio_ok (mu_after m)"
  proof (cases "fi_side f = BUY")
    case True
    then have left: "quote_reserve (rm_limits rm) \<le> dsub (dsub (pf_cash p) (fi_notional f)) (fi_fee f)"
      using assms(4) view by (auto simp: validate_fill_def Let_def split: if_splits)
    have "fi_notional f + fi_fee f \<le> pf_cash p"
    proof (rule ccontr)
      assume "\<not> fi_notional f + fi_fee f \<le> pf_cash p"
      then have less: "pf_cash p - fi_notional f < fi_fee f" by linarith
      then have "dsub (pf_cash p) (fi_notional f) \<le> fi_fee f"
        unfolding dsub_def using assms(6) d28.r_mono [of "pf_cash p - fi_notional f" "fi_fee f"] by simp
      then have "dsub (dsub (pf_cash p) (fi_notional f)) (fi_fee f) \<le> 0"
        unfolding dsub_def [of "dsub _ _"] by (intro d28.r_nonpos) simp
      with left reserve have exact: "dsub (pf_cash p) (fi_notional f) = pf_cash p - fi_notional f"
        and zero: "0 \<le> dsub (dsub (pf_cash p) (fi_notional f)) (fi_fee f)" by linarith+
      from zero less show False
        using dsub_neg_iff [of "pf_cash p - fi_notional f" "fi_fee f"] by (simp add: exact)
    qed
    then have "dadd (fi_notional f) (fi_fee f) \<le> pf_cash p"
      unfolding dadd_def using assms(7) by (rule d28.r_le_fixed)
    with apply_buy_ok [OF assms(1,2)] True show ?thesis by auto
  next
    case False
    then have le: "fi_quantity f \<le> pf_base p"
      using assms(4) view by (auto simp: validate_fill_def Let_def split: if_splits)
    have "0 < fi_quantity f" using assms(2) by (simp add: fill_ok_def)
    with le part assms(1,5) have "sale_ok p f" by (auto simp: sale_ok_def intro!: released_cost_bound)
    with apply_sell_ok [OF assms(1,2)] False show ?thesis by auto
  qed
  then obtain m where m: "(if fi_side f = BUY then apply_buy p f else apply_sell p f) = Inr m" "portfolio_ok (mu_after m)"
    by blast
  obtain q where "mark_to_market (mu_after m) (fi_execution_price f) = Inr q" "portfolio_ok q"
    using mark_to_market_ok [OF m(2) price] by metis
  then show ?thesis using m(1) by (simp add: apply_fill_def)
qed

theorem validated_fill_applies_witness:
  "\<exists>m. apply_fill example_portfolio (example_fill BUY 2) = Inr m \<and> portfolio_ok (mu_after m)"
proof -
  obtain view where v: "portfolio_view example_portfolio = Inr view"
    using portfolio_view_ok [OF example_portfolio_ok] by blast
  then have "ps_quote_cash view = 1000" "ps_base_quantity view = 0"
    by (auto simp: portfolio_view_def make_portfolio_snapshot_def example_portfolio_def)
  then have "validate_fill example_manager (example_fill BUY 2) view = None"
    by (simp add: validate_fill_def Let_def example_risk_defs example_fill_def exceeds_def quote_reserve_def dops)
  from validated_fill_applies [OF example_portfolio_ok example_fill_ok v this] show ?thesis
    by (simp add: example_fill_def example_portfolio_def example_risk_defs quote_reserve_def dops)
qed

end
