(* ===== verification/Ledger.thy ===== *)
theory Ledger
  imports Portfolio
begin

text \<open>
  The append-only ledger of \<^verbatim>\<open>app/backtesting/ledger.py\<close>: every financial event is chained to the
  previous ones by a digest and carries the balances after it.  The digest of an entry is a
  parameter \<open>H\<close> of the previous digest and the canonical payload; the code uses SHA-256 of their
  concatenation.  What the theorems need of it is stated as a hypothesis: no collision among the links of
  the ledgers at hand.
\<close>

section \<open>Entries\<close>

datatype entry_type =
    INITIAL_CAPITAL | ORDER_RESERVED | ORDER_RELEASED | BUY_FILL | SELL_FILL | FEE_ENTRY
  | REALIZED_PNL | MARK_TO_MARKET | FINAL_STATE

text \<open>\<^verbatim>\<open>_RawLedgerEntry\<close>, and \<^verbatim>\<open>LedgerEntry\<close> with its two digests.\<close>

record raw_entry =
  le_sequence :: int
  le_time :: instant
  le_index :: int
  le_type :: entry_type
  le_quote_delta :: decimal
  le_base_delta :: decimal
  le_fee :: decimal
  le_realized :: decimal
  le_quote_balance :: decimal
  le_base_balance :: decimal
  le_order :: "string option"
  le_fill :: "string option"
  le_notional :: decimal
  le_price :: "decimal option"

record ledger_entry = raw_entry +
  le_prev :: string
  le_hash :: string

type_synonym ledger = "ledger_entry list"
type_synonym digest = "string \<Rightarrow> raw_entry \<Rightarrow> string"

definition zero_hash :: string where
  "zero_hash = replicate 64 (CHR ''0'')"

definition make_ledger_entry :: "ledger_entry \<Rightarrow> ledger_entry result" where
  "make_ledger_entry e =
     require (\<not> (le_sequence e < 1 \<or> le_index e < -1)) ValueError (
     require (\<not> (le_fee e < 0 \<or> le_quote_balance e < 0 \<or> le_base_balance e < 0)) ValueError (
     require (\<not> le_notional e < 0) ValueError (
     require (case le_price e of None \<Rightarrow> True | Some p \<Rightarrow> 0 < p) ValueError (
     require (list_all (\<lambda>r. case r of None \<Rightarrow> True | Some s \<Rightarrow> safe_token s) [le_order e, le_fill e]) ValueError (
     require (is_sha256 (le_prev e)) ValueError (
     require (is_sha256 (le_hash e)) ValueError (Inr e)))))))"

text \<open>
  The payload that is hashed: \<^verbatim>\<open>_decimal\<close> prints \<^verbatim>\<open>value.normalize()\<close>, the value rounded to the context.
\<close>

definition payload_of :: "'a raw_entry_scheme \<Rightarrow> raw_entry" where
  "payload_of e =
     \<lparr>le_sequence = le_sequence e, le_time = le_time e, le_index = le_index e, le_type = le_type e,
      le_quote_delta = dec28 (le_quote_delta e), le_base_delta = dec28 (le_base_delta e),
      le_fee = dec28 (le_fee e), le_realized = dec28 (le_realized e),
      le_quote_balance = dec28 (le_quote_balance e), le_base_balance = dec28 (le_base_balance e),
      le_order = le_order e, le_fill = le_fill e, le_notional = dec28 (le_notional e),
      le_price = map_option dec28 (le_price e)\<rparr>"

definition calculate_entry_hash :: "digest \<Rightarrow> string \<Rightarrow> 'a raw_entry_scheme \<Rightarrow> string result" where
  "calculate_entry_hash H previous_hash e =
     require (is_sha256 previous_hash) ValueError (Inr (H previous_hash (payload_of e)))"

section \<open>Building a ledger\<close>

text \<open>The keyword arguments of \<^verbatim>\<open>append\<close>, with its defaults.\<close>

record ledger_event =
  lv_time :: instant
  lv_index :: int
  lv_type :: entry_type
  lv_quote :: decimal
  lv_base :: decimal
  lv_fee :: decimal
  lv_realized :: decimal
  lv_order :: "string option"
  lv_fill :: "string option"
  lv_notional :: decimal
  lv_price :: "decimal option"

definition event :: "instant \<Rightarrow> int \<Rightarrow> entry_type \<Rightarrow> decimal \<Rightarrow> decimal \<Rightarrow> ledger_event" where
  "event t i ty q b = \<lparr>lv_time = t, lv_index = i, lv_type = ty, lv_quote = q, lv_base = b, lv_fee = 0,
     lv_realized = 0, lv_order = None, lv_fill = None, lv_notional = 0, lv_price = None\<rparr>"

definition quote_before :: "ledger \<Rightarrow> decimal" where
  "quote_before es = (if es = [] then 0 else le_quote_balance (last es))"

definition base_before :: "ledger \<Rightarrow> decimal" where
  "base_before es = (if es = [] then 0 else le_base_balance (last es))"

definition head_hash :: "ledger \<Rightarrow> string" where
  "head_hash es = (if es = [] then zero_hash else le_hash (last es))"

definition ledger_append :: "digest \<Rightarrow> ledger \<Rightarrow> ledger_event \<Rightarrow> ledger result" where
  "ledger_append H es v =
     (let quote_balance = dadd (quote_before es) (lv_quote v);
          base_balance = dadd (base_before es) (lv_base v)
      in require (\<not> (quote_balance < 0 \<or> base_balance < 0)) BacktestResultCorrupt (
         let raw = \<lparr>le_sequence = int (length es) + 1, le_time = lv_time v, le_index = lv_index v,
               le_type = lv_type v, le_quote_delta = lv_quote v, le_base_delta = lv_base v,
               le_fee = lv_fee v, le_realized = lv_realized v, le_quote_balance = quote_balance,
               le_base_balance = base_balance, le_order = lv_order v, le_fill = lv_fill v,
               le_notional = lv_notional v, le_price = lv_price v\<rparr>
         in res_bind (calculate_entry_hash H (head_hash es) raw) (\<lambda>hash.
            res_bind (make_ledger_entry (raw_entry.extend raw (ledger_entry.fields (head_hash es) hash))) (\<lambda>e.
            Inr (es @ [e])))))"

definition record_initial_capital :: "digest \<Rightarrow> ledger \<Rightarrow> decimal \<Rightarrow> instant \<Rightarrow> ledger result" where
  "record_initial_capital H es amount t =
     require (\<not> amount \<le> 0) BacktestResultCorrupt (
     require (es = []) BacktestResultCorrupt (
       ledger_append H es (event t (-1) INITIAL_CAPITAL amount 0)))"

definition record_fill :: "digest \<Rightarrow> ledger \<Rightarrow> fill \<Rightarrow> mutation \<Rightarrow> ledger result" where
  "record_fill H es f m =
     (let gross_quote = (if fi_side f = BUY then dneg (fi_notional f) else fi_notional f);
          base_delta = (if fi_side f = BUY then fi_quantity f else dneg (fi_quantity f));
          base_event = (event (fi_event_time f) (fi_candle_index f)
              (if fi_side f = BUY then BUY_FILL else SELL_FILL) gross_quote base_delta)
            \<lparr>lv_order := Some (fi_order_id f), lv_fill := Some (fi_id f), lv_price := Some (fi_execution_price f)\<rparr>
      in res_bind (ledger_append H es (base_event\<lparr>lv_notional := fi_notional f\<rparr>)) (\<lambda>es1.
         res_bind (if fi_fee f \<noteq> 0
           then ledger_append H es1 (base_event\<lparr>lv_type := FEE_ENTRY, lv_quote := dneg (fi_fee f),
             lv_base := 0, lv_fee := fi_fee f\<rparr>)
           else Inr es1) (\<lambda>es2.
         res_bind (if mu_realized_delta m \<noteq> 0
           then ledger_append H es2 (base_event\<lparr>lv_type := REALIZED_PNL, lv_quote := 0, lv_base := 0,
             lv_realized := mu_realized_delta m\<rparr>)
           else Inr es2) (\<lambda>es3.
         require (\<not> (quote_before es3 \<noteq> pf_cash (mu_after m) \<or> base_before es3 \<noteq> pf_base (mu_after m)))
           BacktestResultCorrupt (Inr es3)))))"

definition record_mark :: "digest \<Rightarrow> ledger \<Rightarrow> portfolio \<Rightarrow> instant \<Rightarrow> int \<Rightarrow> bool \<Rightarrow> ledger result" where
  "record_mark H es p t i final =
     require (es \<noteq> []) BacktestResultCorrupt (
     require (\<not> (quote_before es \<noteq> pf_cash p \<or> base_before es \<noteq> pf_base p)) BacktestResultCorrupt (
       ledger_append H es ((event t i (if final then FINAL_STATE else MARK_TO_MARKET) 0 0)
         \<lparr>lv_price := pf_mark p\<rparr>)))"

section \<open>Verification\<close>

record verification =
  vf_count :: int
  vf_quote :: decimal
  vf_base :: decimal
  vf_hash :: string

text \<open>The state of the loop of \<^verbatim>\<open>verify_ledger\<close>: next sequence, balances, previous digest and digests seen.\<close>

definition verify_step :: "digest \<Rightarrow> ledger_entry \<Rightarrow> int \<times> decimal \<times> decimal \<times> string \<times> string list
    \<Rightarrow> (int \<times> decimal \<times> decimal \<times> string \<times> string list) result" where
  "verify_step H e = (\<lambda>(n, quote_balance, base_balance, previous_hash, seen).
     require (\<not> (le_sequence e \<noteq> n \<or> le_prev e \<noteq> previous_hash)) BacktestResultCorrupt (
     require (le_hash e \<notin> set seen) BacktestResultCorrupt (
     res_bind (calculate_entry_hash H previous_hash e) (\<lambda>hash.
     require (hash = le_hash e) BacktestResultCorrupt (
     let quote1 = dadd quote_balance (le_quote_delta e); base1 = dadd base_balance (le_base_delta e) in
     require (\<not> (quote1 \<noteq> le_quote_balance e \<or> base1 \<noteq> le_base_balance e)) BacktestResultCorrupt (
     require (\<not> (quote1 < 0 \<or> base1 < 0)) BacktestResultCorrupt (
       Inr (n + 1, quote1, base1, le_hash e, le_hash e # seen))))))))"

definition verify_ledger :: "digest \<Rightarrow> ledger \<Rightarrow> verification result" where
  "verify_ledger H es =
     res_bind (res_fold (verify_step H) es (1, 0, 0, zero_hash, [])) (\<lambda>(n, quote_balance, base_balance, h, seen).
       Inr \<lparr>vf_count = int (length es), vf_quote = quote_balance, vf_base = base_balance, vf_hash = h\<rparr>)"

section \<open>Chained ledgers\<close>

text \<open>What one entry must satisfy after the ledger \<open>es\<close>.\<close>

definition entry_follows :: "digest \<Rightarrow> ledger \<Rightarrow> ledger_entry \<Rightarrow> bool" where
  "entry_follows H es e \<longleftrightarrow> le_sequence e = int (length es) + 1 \<and> le_prev e = head_hash es \<and> is_sha256 (le_prev e) \<and>
     le_hash e = H (le_prev e) (payload_of e) \<and>
     le_quote_balance e = dadd (quote_before es) (le_quote_delta e) \<and> 0 \<le> le_quote_balance e \<and>
     le_base_balance e = dadd (base_before es) (le_base_delta e) \<and> 0 \<le> le_base_balance e"

inductive chained :: "digest \<Rightarrow> ledger \<Rightarrow> bool" for H where
  chained_Nil: "chained H []"
| chained_snoc: "chained H es \<Longrightarrow> entry_follows H es e \<Longrightarrow> chained H (es @ [e])"

inductive_cases chained_snocE: "chained H (es @ [e])"

lemma chained_snoc_iff: "chained H (es @ [e]) \<longleftrightarrow> chained H es \<and> entry_follows H es e"
  by (auto intro: chained_snoc elim: chained_snocE)

lemma before_snoc [simp]:
  "quote_before (es @ [e]) = le_quote_balance e" "base_before (es @ [e]) = le_base_balance e"
  "head_hash (es @ [e]) = le_hash e"
  by (simp_all add: quote_before_def base_before_def head_hash_def)

lemma ledger_append_Inr:
  assumes "ledger_append H es v = Inr es'"
  obtains e where "es' = es @ [e]" and "entry_follows H es e" and "make_ledger_entry e = Inr e"
    and "le_quote_delta e = lv_quote v" and "le_base_delta e = lv_base v" and "le_fee e = lv_fee v"
    and "le_realized e = lv_realized v" and "le_type e = lv_type v"
  using assms
  by (auto simp: ledger_append_def Let_def calculate_entry_hash_def make_ledger_entry_def entry_follows_def
      raw_entry.defs ledger_entry.defs payload_of_def)

lemma ledger_append_chained: "ledger_append H es v = Inr es' \<Longrightarrow> chained H es \<Longrightarrow> chained H es'"
  by (elim ledger_append_Inr) (simp add: chained_snoc_iff)

lemma ledger_append_balances:
  assumes "ledger_append H es v = Inr es'"
  shows "quote_before es' = dadd (quote_before es) (lv_quote v)" and "base_before es' = dadd (base_before es) (lv_base v)"
    and "length es' = Suc (length es)" and "\<exists>e. es' = es @ [e]"
  using assms by (auto simp: entry_follows_def elim!: ledger_append_Inr)

lemmas event_defs = event_def ledger_event.defs

lemma record_fill_Inr:
  assumes "record_fill H es f m = Inr es'" and "chained H es"
  shows "chained H es'" and "quote_before es' = pf_cash (mu_after m)" and "base_before es' = pf_base (mu_after m)"
    and "length es < length es'" and "length es' \<le> length es + 3" and "es' \<noteq> []"
proof -
  from assms(1) show "quote_before es' = pf_cash (mu_after m)" "base_before es' = pf_base (mu_after m)"
    by (auto simp: record_fill_def Let_def)
  from assms(1) obtain v1 v2 v3 es1 es2 where "ledger_append H es v1 = Inr es1"
    "ledger_append H es1 v2 = Inr es2 \<or> es2 = es1" "ledger_append H es2 v3 = Inr es' \<or> es' = es2"
    unfolding record_fill_def Let_def res_bind_Inr_iff require_Inr_iff by (metis sum.inject(2))
  with assms(2) show "chained H es'" using ledger_append_chained by blast
  from assms(1) show "length es < length es'" "length es' \<le> length es + 3"
    by (auto simp: record_fill_def Let_def split: if_splits dest!: ledger_append_balances(3))
  then show "es' \<noteq> []" by auto
qed

lemma record_mark_Inr:
  assumes "record_mark H es p t i final = Inr es'" and "chained H es"
  shows "chained H es'" and "quote_before es = pf_cash p" and "base_before es = pf_base p"
    and "quote_before es' = dec28 (pf_cash p)" and "base_before es' = dec28 (pf_base p)"
    and "length es' = Suc (length es)"
proof -
  from assms(1) have a: "quote_before es = pf_cash p" "base_before es = pf_base p"
    and app: "ledger_append H es ((event t i (if final then FINAL_STATE else MARK_TO_MARKET) 0 0)\<lparr>lv_price := pf_mark p\<rparr>) = Inr es'"
    by (auto simp: record_mark_def)
  from a show "quote_before es = pf_cash p" "base_before es = pf_base p" .
  from app assms(2) show "chained H es'" by (rule ledger_append_chained)
  from ledger_append_balances [OF app] a
  show "quote_before es' = dec28 (pf_cash p)" "base_before es' = dec28 (pf_base p)" "length es' = Suc (length es)"
    by (simp_all add: event_def dadd_def)
qed

lemma record_initial_Inr:
  assumes "record_initial_capital H es amount t = Inr es'"
  shows "es = []" and "0 < amount" and "chained H es'" and "quote_before es' = dec28 amount" and "base_before es' = 0"
    and "length es' = 1"
proof -
  from assms have a: "es = []" "0 < amount" and app: "ledger_append H [] (event t (-1) INITIAL_CAPITAL amount 0) = Inr es'"
    by (auto simp: record_initial_capital_def)
  from a show "es = []" "0 < amount" .
  from app show "chained H es'" by (rule ledger_append_chained) (rule chained_Nil)
  from ledger_append_balances [OF app]
  show "quote_before es' = dec28 amount" "base_before es' = 0" "length es' = 1"
    by (simp_all add: event_def dadd_def quote_before_def base_before_def)
qed

section \<open>What verification accepts\<close>

lemma verify_step_iff:
  "verify_step H e (n, q, b, h, seen) = Inr st \<longleftrightarrow>
     le_sequence e = n \<and> le_prev e = h \<and> le_hash e \<notin> set seen \<and> is_sha256 h \<and> H h (payload_of e) = le_hash e \<and>
     dadd q (le_quote_delta e) = le_quote_balance e \<and> dadd b (le_base_delta e) = le_base_balance e \<and>
     0 \<le> le_quote_balance e \<and> 0 \<le> le_base_balance e \<and>
     st = (n + 1, le_quote_balance e, le_base_balance e, le_hash e, le_hash e # seen)"
  by (auto simp: verify_step_def calculate_entry_hash_def Let_def)

lemma verify_fold_iff:
  "res_fold (verify_step H) es (1, 0, 0, zero_hash, []) = Inr st \<longleftrightarrow>
     chained H es \<and> distinct (map le_hash es) \<and>
     st = (int (length es) + 1, quote_before es, base_before es, head_hash es, rev (map le_hash es))"
proof (induction es arbitrary: st rule: rev_induct)
  case Nil
  show ?case by (auto simp: chained_Nil quote_before_def base_before_def head_hash_def)
next
  case (snoc e es)
  show ?case
    unfolding res_fold_append res_bind_Inr_iff snoc.IH chained_snoc_iff entry_follows_def
    by (auto simp: verify_step_iff)
qed

lemma verify_ledger_iff:
  "verify_ledger H es = Inr v \<longleftrightarrow> chained H es \<and> distinct (map le_hash es) \<and>
     v = \<lparr>vf_count = int (length es), vf_quote = quote_before es, vf_base = base_before es, vf_hash = head_hash es\<rparr>"
  by (auto simp: verify_ledger_def verify_fold_iff)

text \<open>The links of a ledger: what was hashed for each entry.\<close>

definition links :: "ledger \<Rightarrow> (string \<times> raw_entry) set" where
  "links es = (\<lambda>e. (le_prev e, payload_of e)) ` set es"

definition collision_free :: "digest \<Rightarrow> (string \<times> raw_entry) set \<Rightarrow> bool" where
  "collision_free H S \<longleftrightarrow> inj_on (\<lambda>(p, x). H p x) S"

lemma collision_free_mono: "collision_free H T \<Longrightarrow> S \<subseteq> T \<Longrightarrow> collision_free H S"
  by (auto simp: collision_free_def intro: inj_on_subset)

lemma collision_freeD:
  "collision_free H S \<Longrightarrow> (p, x) \<in> S \<Longrightarrow> (q, y) \<in> S \<Longrightarrow> H p x = H q y \<Longrightarrow> p = q \<and> x = y"
  by (auto simp: collision_free_def inj_on_def)

lemma links_snoc [simp]: "links (es @ [e]) = insert (le_prev e, payload_of e) (links es)"
  by (auto simp: links_def)

lemma payload_sequence [simp]: "le_sequence (payload_of e) = le_sequence e"
  by (simp add: payload_of_def)

lemma chained_sequence: "chained H es \<Longrightarrow> e \<in> set es \<Longrightarrow> 1 \<le> le_sequence e \<and> le_sequence e \<le> int (length es)
    \<and> le_hash e = H (le_prev e) (payload_of e)"
  by (induction rule: chained.induct) (auto simp: entry_follows_def)

lemma chained_distinct:
  assumes "chained H es" and "collision_free H (links es)"
  shows "distinct (map le_hash es)"
  using assms
proof (induction rule: chained.induct)
  case (chained_snoc es e)
  have "le_hash e \<noteq> le_hash e'" if e': "e' \<in> set es" for e'
  proof
    assume eq: "le_hash e = le_hash e'"
    have "(le_prev e', payload_of e') \<in> links (es @ [e])" "(le_prev e, payload_of e) \<in> links (es @ [e])"
      using e' by (auto simp: links_def)
    moreover have "H (le_prev e) (payload_of e) = H (le_prev e') (payload_of e')"
      using chained_snoc.hyps(2) chained_sequence [OF chained_snoc.hyps(1) e'] eq by (simp add: entry_follows_def)
    ultimately have "payload_of e = payload_of e'"
      using collision_freeD [OF chained_snoc.prems] by blast
    then have "le_sequence e = le_sequence e'" using payload_sequence by metis
    then show False using chained_snoc.hyps(2) chained_sequence [OF chained_snoc.hyps(1) e'] by (simp add: entry_follows_def)
  qed
  moreover have "collision_free H (links es)"
    using chained_snoc.prems by (rule collision_free_mono) auto
  ultimately show ?case using chained_snoc.IH by auto
qed simp

text \<open>The last digest of a ledger determines every payload of it.\<close>

lemma head_hash_binds:
  assumes "chained H es" and "chained H es'" and "collision_free H (links es \<union> links es')"
    and "es \<noteq> []" and "es' \<noteq> []" and "head_hash es = head_hash es'"
  shows "map payload_of es = map payload_of es'"
  using assms
proof (induction es arbitrary: es' rule: rev_induct)
  case (snoc e es)
  then obtain ds d where es': "es' = ds @ [d]" by (meson rev_exhaust)
  with snoc.prems have f: "chained H es" "entry_follows H es e" "chained H ds" "entry_follows H ds d"
    by (simp_all add: chained_snoc_iff)
  have "H (le_prev e) (payload_of e) = H (le_prev d) (payload_of d)"
    using snoc.prems(6) f(2,4) by (simp add: es' entry_follows_def)
  from collision_freeD [OF snoc.prems(3) _ _ this] have eq: "le_prev e = le_prev d" "payload_of e = payload_of d"
    by (simp_all add: es')
  then have "le_sequence e = le_sequence d" using payload_sequence by metis
  with f(2,4) have len: "length es = length ds" by (simp add: entry_follows_def)
  have "map payload_of es = map payload_of ds"
  proof (cases "es = []")
    case True
    with len show ?thesis by simp
  next
    case False
    have "head_hash es = head_hash ds" using eq(1) f(2,4) by (simp add: entry_follows_def)
    moreover have "collision_free H (links es \<union> links ds)"
      using snoc.prems(3) by (rule collision_free_mono) (auto simp: es')
    moreover have "ds \<noteq> []" using len False by auto
    ultimately show ?thesis using snoc.IH [OF f(1) f(3)] False by blast
  qed
  with eq show ?case by (simp add: es')
qed simp

section \<open>Recording\<close>

text \<open>The ledgers the engine can build, by the three public operations.\<close>

inductive recorded :: "digest \<Rightarrow> ledger \<Rightarrow> bool" for H where
  recorded_initial: "record_initial_capital H [] amount t = Inr es \<Longrightarrow> recorded H es"
| recorded_fill: "recorded H es \<Longrightarrow> record_fill H es f m = Inr es' \<Longrightarrow> recorded H es'"
| recorded_mark: "recorded H es \<Longrightarrow> record_mark H es p t i final = Inr es' \<Longrightarrow> recorded H es'"

lemma recorded_chained: "recorded H es \<Longrightarrow> chained H es \<and> es \<noteq> []"
proof (induction rule: recorded.induct)
  case (recorded_initial amount t es)
  then show ?case using record_initial_Inr [OF recorded_initial] by auto
next
  case (recorded_fill es f m es')
  then show ?case using record_fill_Inr [OF recorded_fill.hyps(2)] by blast
next
  case (recorded_mark es p t i final es')
  then show ?case using record_mark_Inr [OF recorded_mark.hyps(2)] by force
qed

lemma chained_rounded:
  "chained H es \<Longrightarrow> dec28 (quote_before es) = quote_before es \<and> dec28 (base_before es) = base_before es"
  by (erule chained.cases) (simp_all add: entry_follows_def dadd_def d28.r_idem, simp add: quote_before_def base_before_def)

lemma zero_hash_sha256: "is_sha256 zero_hash"
  by (simp add: is_sha256_def zero_hash_def is_digit_def list_all_iff)

lemma chained_head_sha256:
  "chained H es \<Longrightarrow> (\<And>p x. is_sha256 (H p x)) \<Longrightarrow> is_sha256 (head_hash es)"
  by (erule chained.cases) (simp_all add: head_hash_def zero_hash_sha256 entry_follows_def)

text \<open>When \<^verbatim>\<open>append\<close> accepts an event.\<close>

definition event_ok :: "ledger_event \<Rightarrow> bool" where
  "event_ok v \<longleftrightarrow> -1 \<le> lv_index v \<and> 0 \<le> lv_fee v \<and> 0 \<le> lv_notional v \<and>
     (case lv_price v of None \<Rightarrow> True | Some p \<Rightarrow> 0 < p) \<and>
     list_all (\<lambda>r. case r of None \<Rightarrow> True | Some s \<Rightarrow> safe_token s) [lv_order v, lv_fill v]"

lemma ledger_append_total:
  assumes "chained H es" and "\<And>p x. is_sha256 (H p x)" and "event_ok v"
    and "0 \<le> dadd (quote_before es) (lv_quote v)" and "0 \<le> dadd (base_before es) (lv_base v)"
  shows "\<exists>es'. ledger_append H es v = Inr es' \<and> chained H es' \<and>
    quote_before es' = dadd (quote_before es) (lv_quote v) \<and> base_before es' = dadd (base_before es) (lv_base v)"
proof -
  have "\<exists>es'. ledger_append H es v = Inr es'"
    using assms(2-5) chained_head_sha256 [OF assms(1,2)]
    by (auto simp: ledger_append_def Let_def calculate_entry_hash_def make_ledger_entry_def event_ok_def
        raw_entry.defs ledger_entry.defs)
  then obtain es' where "ledger_append H es v = Inr es'" by blast
  with ledger_append_balances [OF this] ledger_append_chained [OF this assms(1)] show ?thesis by blast
qed

text \<open>The two ways the program subtracts notional and fee give the same cash.\<close>

definition same_cash :: "portfolio \<Rightarrow> fill \<Rightarrow> bool" where
  "same_cash p f \<longleftrightarrow> (if fi_side f = BUY
     then dsub (dsub (pf_cash p) (fi_notional f)) (fi_fee f) = dsub (pf_cash p) (dadd (fi_notional f) (fi_fee f))
     else dsub (dadd (pf_cash p) (fi_notional f)) (fi_fee f) = dadd (pf_cash p) (dsub (fi_notional f) (fi_fee f)))"

definition fill_ids_ok :: "fill \<Rightarrow> bool" where
  "fill_ids_ok f \<longleftrightarrow> safe_token (fi_id f) \<and> safe_token (fi_order_id f) \<and> 0 \<le> fi_candle_index f"

lemma dadd_neg: "dec28 x = x \<Longrightarrow> dadd a (dneg x) = dsub a x"
  by (simp add: dadd_def dneg_def dsub_def d28.r_minus)

lemma dadd_0_idem: "dec28 x = x \<Longrightarrow> dadd x 0 = x"
  by (simp add: dadd_def)

lemma record_fill_total:
  assumes chain: "chained H es" and sha: "\<And>p x. is_sha256 (H p x)"
    and agree: "quote_before es = pf_cash p" "base_before es = pf_base p"
    and applied: "apply_fill p f = Inr m" and fill: "portfolio_ok p" "fill_ok f" "fill_ids_ok f"
    and rounded: "dec28 (fi_fee f) = fi_fee f" "dec28 (fi_quantity f) = fi_quantity f" and same: "same_cash p f"
  shows "\<exists>es'. record_fill H es f m = Inr es'"
proof -
  note after = apply_fill_valid [OF applied]
  have n: "dec28 (fi_notional f) = fi_notional f" "0 < fi_notional f" "0 \<le> fi_fee f" "0 < fi_quantity f"
    using fill(2) by (auto simp: fill_ok_def dmul_def d28.r_idem)
  have p0: "0 \<le> pf_cash p" "0 \<le> pf_base p" using fill(1) by (simp_all add: portfolio_ok_def position_ok_def)
  have after0: "0 \<le> pf_cash (mu_after m)" "0 \<le> pf_base (mu_after m)"
    using after(1) by (simp_all add: portfolio_ok_def position_ok_def)
  let ?gross = "if fi_side f = BUY then dneg (fi_notional f) else fi_notional f"
  let ?base = "if fi_side f = BUY then fi_quantity f else dneg (fi_quantity f)"
  let ?q1 = "dadd (pf_cash p) ?gross" and ?b1 = "dadd (pf_base p) ?base"
  have q1: "?q1 = (if fi_side f = BUY then dsub (pf_cash p) (fi_notional f) else dadd (pf_cash p) (fi_notional f))"
    using n(1) by (simp add: dadd_neg)
  have idem: "dec28 ?q1 = ?q1" "dec28 ?b1 = ?b1" by (simp_all add: dadd_def d28.r_idem)
  have b1: "?b1 = pf_base (mu_after m)" using after(4) rounded(2) by (auto simp: dsub_def dadd_def dneg_def d28.r_minus)
  have cash: "dsub ?q1 (fi_fee f) = pf_cash (mu_after m)"
    unfolding q1 after(3) using same by (auto simp: same_cash_def dsub_def dadd_def)
  have le: "fi_notional f \<le> pf_cash p" if "fi_side f = BUY"
  proof -
    have "dec28 (fi_notional f) \<le> dadd (fi_notional f) (fi_fee f)"
      unfolding dadd_def using n(3) by (intro d28.r_mono) simp
    moreover have "\<not> pf_cash p < dadd (fi_notional f) (fi_fee f)"
      using applied that apply_buy_rejected [of p f] by (auto simp: apply_fill_def)
    ultimately show ?thesis using n(1) by linarith
  qed
  have q1_0: "0 \<le> ?q1" unfolding q1 using le p0(1) n(2) by (auto intro: dsub_nonneg dadd_nonneg)
  define ev where "ev = (event (fi_event_time f) (fi_candle_index f)
      (if fi_side f = BUY then BUY_FILL else SELL_FILL) ?gross ?base)
      \<lparr>lv_order := Some (fi_order_id f), lv_fill := Some (fi_id f), lv_price := Some (fi_execution_price f)\<rparr>"
  have ok: "event_ok (ev\<lparr>lv_notional := fi_notional f\<rparr>)"
    "event_ok (ev\<lparr>lv_type := FEE_ENTRY, lv_quote := dneg (fi_fee f), lv_base := 0, lv_fee := fi_fee f\<rparr>)"
    "event_ok (ev\<lparr>lv_type := REALIZED_PNL, lv_quote := 0, lv_base := 0, lv_realized := mu_realized_delta m\<rparr>)"
    using fill(2,3) n by (simp_all add: event_ok_def ev_def event_def fill_ids_ok_def fill_ok_def)
  have lv: "lv_quote (ev\<lparr>lv_notional := fi_notional f\<rparr>) = ?gross" "lv_base (ev\<lparr>lv_notional := fi_notional f\<rparr>) = ?base"
    by (simp_all add: ev_def event_def)
  have "0 \<le> ?b1" using after0(2) b1 by simp
  with ledger_append_total [OF chain sha ok(1)] q1_0 obtain es1 where
    es1: "ledger_append H es (ev\<lparr>lv_notional := fi_notional f\<rparr>) = Inr es1" "chained H es1"
      "quote_before es1 = ?q1" "base_before es1 = ?b1" unfolding lv agree by blast
  have "\<exists>es2. (if fi_fee f \<noteq> 0 then ledger_append H es1 (ev\<lparr>lv_type := FEE_ENTRY, lv_quote := dneg (fi_fee f),
             lv_base := 0, lv_fee := fi_fee f\<rparr>) else Inr es1) = Inr es2 \<and> chained H es2 \<and>
      quote_before es2 = pf_cash (mu_after m) \<and> base_before es2 = pf_base (mu_after m)"
  proof (cases "fi_fee f = 0")
    case True
    with cash have "?q1 = pf_cash (mu_after m)" using idem(1) by (simp add: dsub_def)
    with True es1 b1 show ?thesis by simp
  next
    case False
    from ledger_append_total [OF es1(2) sha ok(2)] after0 cash b1 idem rounded(1) False es1(3,4) show ?thesis
      by (simp add: dadd_neg dadd_0_idem)
  qed
  then obtain es2 where es2: "(if fi_fee f \<noteq> 0 then ledger_append H es1 (ev\<lparr>lv_type := FEE_ENTRY, lv_quote := dneg (fi_fee f),
             lv_base := 0, lv_fee := fi_fee f\<rparr>) else Inr es1) = Inr es2" "chained H es2"
      "quote_before es2 = pf_cash (mu_after m)" "base_before es2 = pf_base (mu_after m)" by blast
  have idem2: "dec28 (pf_cash (mu_after m)) = pf_cash (mu_after m)" "dec28 (pf_base (mu_after m)) = pf_base (mu_after m)"
    using after(3,4) by (simp_all add: dadd_def d28.r_idem)
  have "\<exists>es3. (if mu_realized_delta m \<noteq> 0 then ledger_append H es2 (ev\<lparr>lv_type := REALIZED_PNL, lv_quote := 0, lv_base := 0,
             lv_realized := mu_realized_delta m\<rparr>) else Inr es2) = Inr es3 \<and>
      quote_before es3 = pf_cash (mu_after m) \<and> base_before es3 = pf_base (mu_after m)"
    using ledger_append_total [OF es2(2) sha ok(3)] es2(2-4) after0 idem2 by (auto simp: dadd_0_idem)
  then show ?thesis
    unfolding record_fill_def Let_def ev_def [symmetric] es1(1) res_bind_simps es2(1) by auto
qed

section \<open>Properties\<close>

lemma recorded_verifies:
  assumes "recorded H es" and "collision_free H (links es)"
  shows "verify_ledger H es = Inr \<lparr>vf_count = int (length es), vf_quote = quote_before es,
    vf_base = base_before es, vf_hash = head_hash es\<rparr>"
  using recorded_chained [OF assms(1)] chained_distinct [OF _ assms(2)] by (simp add: verify_ledger_iff)

text \<open>C39: every ledger the engine builds passes its own verification, with the balances of its last entry,
  as long as the digests of its entries do not collide.\<close>

theorem recorded_ledger_verifies:
  assumes "recorded H es" and "collision_free H (links es)"
  shows "verify_ledger H es = Inr \<lparr>vf_count = int (length es), vf_quote = quote_before es,
    vf_base = base_before es, vf_hash = head_hash es\<rparr>"
  using assms by (rule recorded_verifies)

text \<open>A digest for examples: the sequence number in unary, padded to the length of SHA-256.\<close>

definition example_digest :: digest where
  "example_digest p x = (let k = nat (le_sequence x mod 64) in replicate k (CHR ''1'') @ replicate (64 - k) (CHR ''0''))"

lemma example_digest_free:
  assumes "chained example_digest es" and "length es < 64"
  shows "collision_free example_digest (links es)"
proof -
  have seq: "\<lbrakk>chained example_digest ds; d \<in> set ds; e \<in> set ds; le_sequence d = le_sequence e\<rbrakk> \<Longrightarrow> d = e" for ds d e
  proof (induction rule: chained.induct)
    case (chained_snoc es' e')
    then show ?case using chained_sequence [OF chained_snoc.hyps(1)] by (fastforce simp: entry_follows_def)
  qed simp
  have seq_eq: "le_sequence d = le_sequence e"
    if "d \<in> set es" "e \<in> set es" "example_digest p (payload_of d) = example_digest q (payload_of e)" for d e p q
  proof -
    have "1 \<le> le_sequence d \<and> le_sequence d < 64" "1 \<le> le_sequence e \<and> le_sequence e < 64"
      using chained_sequence [OF assms(1) that(1)] chained_sequence [OF assms(1) that(2)] assms(2) by linarith+
    moreover have "length (filter (\<lambda>ch. ch = CHR ''1'') (example_digest p (payload_of d))) =
        length (filter (\<lambda>ch. ch = CHR ''1'') (example_digest q (payload_of e)))" using that(3) by simp
    ultimately show ?thesis by (simp add: example_digest_def Let_def eq_nat_nat_iff)
  qed
  show ?thesis
    unfolding collision_free_def links_def
  proof (rule inj_onI)
    fix u v assume "u \<in> (\<lambda>e. (le_prev e, payload_of e)) ` set es" and "v \<in> (\<lambda>e. (le_prev e, payload_of e)) ` set es"
      and eq: "(case u of (p, x) \<Rightarrow> example_digest p x) = (case v of (p, x) \<Rightarrow> example_digest p x)"
    then obtain d e where de: "d \<in> set es" "e \<in> set es" "u = (le_prev d, payload_of d)" "v = (le_prev e, payload_of e)" by blast
    have "le_sequence d = le_sequence e" by (rule seq_eq [OF de(1,2)]) (use eq de(3,4) in simp)
    then show "u = v" using seq [OF assms(1) de(1,2)] de(3,4) by simp
  qed
qed

lemma example_digest_sha256: "is_sha256 (example_digest p x)"
  by (auto simp: is_sha256_def example_digest_def Let_def is_digit_def list_all_iff le_diff_conv nat_le_iff)

definition example_ledger :: "ledger result" where
  "example_ledger = record_initial_capital example_digest [] 1000 0"

lemma example_ledger_ok: "\<exists>es. example_ledger = Inr es \<and> recorded example_digest es \<and> length es = 1 \<and>
    quote_before es = 1000 \<and> base_before es = 0 \<and> chained example_digest es"
proof -
  have "event_ok (event 0 (-1) INITIAL_CAPITAL 1000 0)" by (simp add: event_ok_def event_def)
  from ledger_append_total [of example_digest, OF chained_Nil example_digest_sha256 this]
  obtain es where es: "example_ledger = Inr es"
    by (auto simp: example_ledger_def record_initial_capital_def event_def quote_before_def base_before_def dadd_def)
  then have r: "record_initial_capital example_digest [] 1000 0 = Inr es" by (simp add: example_ledger_def)
  then have "recorded example_digest es" by (rule recorded_initial)
  with es record_initial_Inr [OF r] show ?thesis by (intro exI [of _ es]) simp
qed

lemma collision_free_single: "length es = 1 \<Longrightarrow> collision_free H (links es)"
  by (cases es) (auto simp: collision_free_def links_def)

theorem recorded_ledger_verifies_witness:
  "\<exists>es v. example_ledger = Inr es \<and> verify_ledger example_digest es = Inr v \<and> vf_count v = 1 \<and> vf_quote v = 1000"
proof -
  obtain es where es: "example_ledger = Inr es" "recorded example_digest es" "length es = 1" "quote_before es = 1000"
    using example_ledger_ok by blast
  from recorded_ledger_verifies [OF es(2) collision_free_single [OF es(3)]] es show ?thesis by fastforce
qed



text \<open>A fill the portfolio accepts is recorded by a ledger with the same balances, provided subtracting
  notional and fee one after the other rounds like subtracting their sum; the ledger then agrees
  with the portfolio again.\<close>

theorem record_fill_accepts:
  assumes "chained H es" and "\<And>p x. is_sha256 (H p x)" and "quote_before es = pf_cash p" and "base_before es = pf_base p"
    and "apply_fill p f = Inr m" and "portfolio_ok p" and "fill_ok f" and "fill_ids_ok f"
    and "dec28 (fi_fee f) = fi_fee f" and "dec28 (fi_quantity f) = fi_quantity f" and "same_cash p f"
  shows "\<exists>es'. record_fill H es f m = Inr es' \<and> chained H es' \<and> quote_before es' = pf_cash (mu_after m) \<and>
    base_before es' = pf_base (mu_after m) \<and> length es < length es' \<and> length es' \<le> length es + 3"
proof -
  from record_fill_total [OF assms] obtain es' where "record_fill H es f m = Inr es'" by blast
  with record_fill_Inr [OF this assms(1)] show ?thesis by blast
qed

theorem record_fill_accepts_witness:
  "\<exists>es m es'. example_ledger = Inr es \<and> apply_fill example_portfolio (example_fill BUY 2) = Inr m \<and>
     record_fill example_digest es (example_fill BUY 2) m = Inr es' \<and> quote_before es' = 799"
proof -
  obtain es where es: "example_ledger = Inr es" "chained example_digest es" "quote_before es = 1000" "base_before es = 0"
    using example_ledger_ok by blast
  obtain m where m: "apply_fill example_portfolio (example_fill BUY 2) = Inr m" "pf_cash (mu_after m) = 799"
    using apply_fill_example by blast
  have ids: "fill_ids_ok (example_fill BUY 2)" by code_simp
  have "same_cash example_portfolio (example_fill BUY 2)"
    by (simp add: same_cash_def example_fill_def example_portfolio_def dops)
  moreover have "quote_before es = pf_cash example_portfolio" "base_before es = pf_base example_portfolio"
    using es by (simp_all add: example_portfolio_def)
  moreover have "dec28 (fi_fee (example_fill BUY 2)) = fi_fee (example_fill BUY 2)"
    "dec28 (fi_quantity (example_fill BUY 2)) = fi_quantity (example_fill BUY 2)" "fill_ok (example_fill BUY 2)"
    by (simp_all add: example_fill_def example_fill_ok [unfolded example_fill_def])
  ultimately obtain es' where "record_fill example_digest es (example_fill BUY 2) m = Inr es'" "quote_before es' = 799"
    using record_fill_accepts [OF es(2) example_digest_sha256 _ _ m(1) example_portfolio_ok _ ids] m(2) by metis
  with es(1) m(1) show ?thesis by blast
qed


lemma record_fill_cash:
  assumes "record_fill H es f m = Inr es'" and "fi_side f = BUY" and "fi_fee f \<noteq> 0"
  shows "pf_cash (mu_after m) = dadd (dadd (quote_before es) (dneg (fi_notional f))) (dneg (fi_fee f))"
  using assms
  by (auto simp: record_fill_def Let_def event_def dadd_def d28.r_idem dest!: ledger_append_balances(1) split: if_splits)

definition rounding_notional :: decimal where
  "rounding_notional = 84671669122622003605436730 / 100000000000000000000"

definition rounding_fee :: decimal where
  "rounding_fee = 6350375184196650270407754750 / 10000000000000000000000000"

lemma rounding_cash_differs:
  "dsub (dsub 10000000 rounding_notional) rounding_fee \<noteq> dsub 10000000 (dadd rounding_notional rounding_fee)"
  "dadd rounding_notional rounding_fee < 10000000" "dneg rounding_notional = - rounding_notional"
  "dneg rounding_fee = - rounding_fee"
  by (simp_all add: rounding_notional_def rounding_fee_def dec_eval)


lemma rounding_product:
  "dmul (996359421659737 / 100000000) (8498104929 / 100000000000) = rounding_notional"
  by (simp add: rounding_notional_def dec_eval)

definition rounding_fill :: fill where
  "rounding_fill = (example_fill BUY (996359421659737 / 100000000))\<lparr>fi_base_price := 8493858 / 100000000,
     fi_execution_price := 8498104929 / 100000000000, fi_notional := rounding_notional, fi_fee := rounding_fee\<rparr>"

definition rounding_portfolio :: portfolio where
  "rounding_portfolio = example_portfolio\<lparr>pf_initial := 10000000, pf_cash := 10000000, pf_equity := 10000000,
     pf_peak := 10000000\<rparr>"

text \<open>A purchase the portfolio accepts can be refused by the ledger: with a capital of ten million, an
  eight-decimal price with slippage and an eight-decimal quantity, the two roundings differ in the
  last digit, and recording the fill raises \<^verbatim>\<open>BacktestResultCorruptError\<close>.\<close>

theorem record_fill_can_diverge:
  "portfolio_ok rounding_portfolio \<and> fill_ok rounding_fill \<and>
   (\<exists>m. apply_fill rounding_portfolio rounding_fill = Inr m \<and>
     \<not> (\<exists>H es es'. quote_before es = pf_cash rounding_portfolio \<and> record_fill H es rounding_fill m = Inr es'))"
proof -
  have p: "portfolio_ok rounding_portfolio"
    by (simp add: rounding_portfolio_def example_portfolio_def portfolio_ok_def position_ok_def valuation_ok_def
        drawdown_pct_of_def)
  have f: "fill_ok rounding_fill"
    by (simp add: rounding_fill_def example_fill_def fill_ok_def rounding_product)
      (simp add: rounding_notional_def rounding_fee_def)
  have s: "fi_side rounding_fill = BUY" "fi_fee rounding_fill = rounding_fee" "fi_notional rounding_fill = rounding_notional"
    "pf_cash rounding_portfolio = 10000000" "rounding_fee \<noteq> 0"
    by (simp_all add: rounding_fill_def rounding_portfolio_def example_fill_def rounding_fee_def)
  obtain m where m: "apply_fill rounding_portfolio rounding_fill = Inr m"
    "pf_cash (mu_after m) = dsub 10000000 (dadd rounding_notional rounding_fee)"
    using apply_fill_cases [OF p f] s rounding_cash_differs(2) by auto
  have "\<not> (\<exists>H es es'. quote_before es = 10000000 \<and> record_fill H es rounding_fill m = Inr es')"
  proof clarify
    fix H es es'
    assume q: "quote_before es = 10000000" and r: "record_fill H es rounding_fill m = Inr es'"
    have "dsub 10000000 (dadd rounding_notional rounding_fee) = dsub (dsub 10000000 rounding_notional) rounding_fee"
      using record_fill_cash [OF r] s m(2) q rounding_cash_differs(3,4) by (simp add: dsub_def dadd_def)
    with rounding_cash_differs(1) show False by simp
  qed
  with p f m(1) s(4) show ?thesis by auto
qed

end
