(* ===== verification/Strategy.thy ===== *)
theory Strategy
  imports Risk Ledger
begin

text \<open>
  The boundary between engine and strategy of \<^verbatim>\<open>app/backtesting/strategy.py\<close>: the context a callback sees
  with its validation, the callbacks themselves as functions on a private strategy state, and the three
  strategies of the file.  A Python strategy object is modelled by its state; a callback that raises
  is a result, which \<^verbatim>\<open>_strategy_call\<close> of the engine turns into \<^verbatim>\<open>StrategyFailureError\<close>.
\<close>

section \<open>The context of a callback\<close>

text \<open>\<^verbatim>\<open>DatasetSnapshot\<close> of \<^verbatim>\<open>market_data/datasets.py\<close>.\<close>

record dataset_snapshot =
  dn_id :: string
  dn_dataset_key :: string
  dn_version :: string
  dn_checksum :: string
  dn_range :: data_range
  dn_partitions :: "string list"
  dn_manifest_path :: string
  dn_created_at :: string

record strategy_context =
  cx_snapshot :: dataset_snapshot
  cx_index :: int
  cx_current :: "candle option"
  cx_history :: "candle list"
  cx_portfolio :: portfolio_snapshot
  cx_open_orders :: "simulated_order list"
  cx_last_fill :: "fill option"
  cx_risk_halt :: bool
  cx_regime :: "regime_point option"

definition make_context :: "strategy_context \<Rightarrow> strategy_context result" where
  "make_context x =
     require (\<not> cx_index x < -1) ValueError (
     case cx_current x of
       None \<Rightarrow>
         require (\<not> (cx_index x \<noteq> -1 \<or> cx_history x \<noteq> [])) ValueError (
         require (cx_regime x = None) ValueError (Inr x))
     | Some c \<Rightarrow>
         require (\<not> (cx_index x < 0 \<or> cx_history x = [] \<or> last (cx_history x) \<noteq> c)) ValueError (
         require (chain (\<lambda>l r. \<not> c_open_time r \<le> c_open_time l) (cx_history x)) ValueError (
         require (list_all (\<lambda>h. \<not> c_open_time c < c_open_time h) (cx_history x)) ValueError (
         require (list_all (\<lambda>o1. so_status o1 = O_OPEN) (cx_open_orders x)) ValueError (
         case cx_regime x of
           None \<Rightarrow> Inr x
         | Some p \<Rightarrow>
             res_bind (catch_as ValueError (make_regime_point p)) (\<lambda>candidate.
             require (candidate = p) ValueError (
             require (gp_time p = c_close_time c) ValueError (Inr x))))))))"

section \<open>Strategies\<close>

type_synonym intents = "order_intent list"

record 's strategy =
  sy_descriptor :: strategy_descriptor
  sy_on_start :: "strategy_context \<Rightarrow> 's \<Rightarrow> (intents \<times> 's) result"
  sy_on_candle :: "strategy_context \<Rightarrow> candle \<Rightarrow> 's \<Rightarrow> (intents \<times> 's) result"
  sy_on_fill :: "strategy_context \<Rightarrow> fill \<Rightarrow> 's \<Rightarrow> (intents \<times> 's) result"
  sy_on_end :: "strategy_context \<Rightarrow> 's \<Rightarrow> 's result"
  sy_on_warmup :: "(strategy_context \<Rightarrow> candle \<Rightarrow> 's \<Rightarrow> (intents option \<times> 's) result) option"

definition no_op_strategy :: "unit strategy result" where
  "no_op_strategy = res_bind (make_strategy_descriptor ''no-op'' ''1'' []) (\<lambda>d.
     Inr \<lparr>sy_descriptor = d, sy_on_start = (\<lambda>_ s. Inr ([], s)), sy_on_candle = (\<lambda>_ _ s. Inr ([], s)),
          sy_on_fill = (\<lambda>_ _ s. Inr ([], s)), sy_on_end = (\<lambda>_ s. Inr s),
          sy_on_warmup = Some (\<lambda>_ _ s. Inr (None, s))\<rparr>)"

text \<open>\<^verbatim>\<open>BuyAndHoldExample\<close>: the state is \<^verbatim>\<open>_submitted\<close>.\<close>

definition buy_and_hold_intent :: "decimal \<Rightarrow> order_intent" where
  "buy_and_hold_intent quantity = \<lparr>oi_side = BUY, oi_type = MARKET, oi_quantity = quantity, oi_tif = GTC,
     oi_limit_price = None, oi_stop_price = None, oi_client_tag = Some ''initial-buy''\<rparr>"

definition buy_and_hold :: "decimal \<Rightarrow> bool strategy result" where
  "buy_and_hold quantity =
     require (\<not> quantity \<le> 0) ValueError (
     res_bind (make_strategy_descriptor ''buy-and-hold-example'' ''1'' [(''quantity'', P_Decimal quantity)]) (\<lambda>d.
     Inr \<lparr>sy_descriptor = d, sy_on_start = (\<lambda>_ _. Inr ([], False)),
          sy_on_candle = (\<lambda>_ _ submitted. if submitted then Inr ([], True)
            else res_bind (make_order_intent (buy_and_hold_intent quantity)) (\<lambda>i. Inr ([i], True))),
          sy_on_fill = (\<lambda>_ _ s. Inr ([], s)), sy_on_end = (\<lambda>_ s. Inr s),
          sy_on_warmup = Some (\<lambda>_ _ s. Inr (None, s))\<rparr>))"

text \<open>\<^verbatim>\<open>ScriptedStrategy\<close>: intents by candle index and by fill identifier.\<close>

definition scripted_strategy ::
    "(int \<times> intents) list \<Rightarrow> (string \<times> intents) list \<Rightarrow> strategy_descriptor \<Rightarrow> unit strategy result" where
  "scripted_strategy candle_intents fill_intents d =
     require (distinct (map fst candle_intents)) ValueError (
     require (distinct (map fst fill_intents)) ValueError (
     require (list_all (\<lambda>(i, _). \<not> i < 0) candle_intents) ValueError (
     Inr \<lparr>sy_descriptor = d, sy_on_start = (\<lambda>_ s. Inr ([], s)),
          sy_on_candle = (\<lambda>x _ s. Inr (case map_of candle_intents (cx_index x) of None \<Rightarrow> [] | Some is \<Rightarrow> is, s)),
          sy_on_fill = (\<lambda>_ f s. Inr (case map_of fill_intents (fi_id f) of None \<Rightarrow> [] | Some is \<Rightarrow> is, s)),
          sy_on_end = (\<lambda>_ s. Inr s), sy_on_warmup = Some (\<lambda>_ _ s. Inr (None, s))\<rparr>)))"

text \<open>\<^verbatim>\<open>_strategy_call\<close>.\<close>

definition strategy_call :: "'a result \<Rightarrow> 'a result" where
  "strategy_call r = catch_as StrategyFailure r"

end
