(* ===== verification/Engine.thy ===== *)
theory Engine
  imports Strategy
begin

text \<open>
  The candle-by-candle engine of \<^verbatim>\<open>app/backtesting/engine.py\<close>.  The mutable lists of \<^verbatim>\<open>run\<close> are one record
  of state; each block of the loop body is one definition: starting intents, the eligible orders in
  priority order with their fills, the mark at the close, the strategy's intents.  The snapshot
  reader, the strategy and the digest are parameters.
\<close>

section \<open>Environment and state\<close>

record reader =
  rd_open :: "string \<Rightarrow> dataset_snapshot result"
  rd_candles :: "data_range \<Rightarrow> candle result list"
  rd_verify :: "dataset_snapshot result"

record run_env =
  en_config :: config
  en_snapshot :: dataset_snapshot
  en_evaluation :: data_range
  en_execution :: execution_model
  en_risk :: risk_manager
  en_sizer :: sizer
  en_stop :: stop_policy

record 's engine =
  eg_portfolio :: portfolio
  eg_ledger :: ledger
  eg_orders :: "simulated_order list"
  eg_fills :: "fill list"
  eg_equity :: "equity_point list"
  eg_regimes :: "regime_point list"
  eg_history :: "candle list"
  eg_risk_halt :: bool
  eg_last_fill :: "fill option"
  eg_last_candle :: "candle option"
  eg_previous_open :: "instant option"
  eg_seen :: int
  eg_processed :: int
  eg_last_regime :: "regime_point option"
  eg_accumulator :: "accumulator option"
  eg_pending :: intents
  eg_strategy :: 's

definition engine_stop_tag :: string where
  "engine_stop_tag = ''engine-stop-loss''"

definition is_engine_stop :: "simulated_order \<Rightarrow> bool" where
  "is_engine_stop o1 \<longleftrightarrow> oi_client_tag (so_intent o1) = Some engine_stop_tag"

definition open_orders :: "simulated_order list \<Rightarrow> simulated_order list" where
  "open_orders os = filter (\<lambda>o1. so_status o1 = O_OPEN) os"

text \<open>\<^verbatim>\<open>deque(maxlen=n)\<close>.\<close>

definition window_append :: "int \<Rightarrow> 'a list \<Rightarrow> 'a \<Rightarrow> 'a list" where
  "window_append n xs x = (let ys = xs @ [x] in drop (length ys - nat n) ys)"

section \<open>Contexts and limits\<close>

definition engine_context ::
    "dataset_snapshot \<Rightarrow> int \<Rightarrow> candle option \<Rightarrow> candle list \<Rightarrow> portfolio \<Rightarrow> simulated_order list \<Rightarrow> fill option \<Rightarrow> bool
      \<Rightarrow> regime_point option \<Rightarrow> strategy_context result" where
  "engine_context snapshot index current history p os last_fill halt regime =
     res_bind (portfolio_view p) (\<lambda>view. make_context
       \<lparr>cx_snapshot = snapshot, cx_index = index, cx_current = current, cx_history = history,
        cx_portfolio = view, cx_open_orders = sort_key order_priority_key (open_orders os),
        cx_last_fill = last_fill, cx_risk_halt = halt, cx_regime = regime\<rparr>)"

definition context_from_previous_history ::
    "dataset_snapshot \<Rightarrow> candle list \<Rightarrow> portfolio \<Rightarrow> simulated_order list \<Rightarrow> fill \<Rightarrow> bool \<Rightarrow> regime_point option
      \<Rightarrow> strategy_context result" where
  "context_from_previous_history snapshot previous_history p os last_fill halt regime =
     (if previous_history \<noteq> [] then
        engine_context snapshot (max 0 (fi_candle_index last_fill - 1)) (Some (last previous_history))
          previous_history p os (Some last_fill) halt regime
      else engine_context snapshot (-1) None [] p os (Some last_fill) halt None)"

definition check_event_limit ::
    "config \<Rightarrow> simulated_order list \<Rightarrow> fill list \<Rightarrow> ledger \<Rightarrow> equity_point list \<Rightarrow> unit result" where
  "check_event_limit c os fs l es =
     require (\<not> bk_max_events c < int (length os + length fs + length l + length es)) MaximumEventsExceeded (Inr ())"

definition check_limit :: "run_env \<Rightarrow> 's engine \<Rightarrow> 's engine result" where
  "check_limit env st = res_bind (check_event_limit (en_config env) (eg_orders st) (eg_fills st) (eg_ledger st) (eg_equity st))
     (\<lambda>_. Inr st)"

definition validate_engine_candle :: "candle \<Rightarrow> instant option \<Rightarrow> candle option \<Rightarrow> unit result" where
  "validate_engine_candle c previous_open previous_candle =
     require (c_market_type c = SPOT) UnsupportedBacktestMarket (
     require (c_is_closed c) SnapshotInvalid (
     require (case previous_open of None \<Rightarrow> True | Some t \<Rightarrow> \<not> c_open_time c \<le> t) SnapshotInvalid (
     require (case previous_candle of None \<Rightarrow> True | Some p \<Rightarrow> candle_identity c = candle_identity p) SnapshotInvalid
       (Inr ()))))"

section \<open>Submitting intents\<close>

definition count_open :: "simulated_order list \<Rightarrow> int" where
  "count_open os = int (length (open_orders os))"

text \<open>The decision on one intent, and the quantity-normalised intent it was taken on.\<close>

definition decide_intent ::
    "run_env \<Rightarrow> bool \<Rightarrow> decimal \<Rightarrow> portfolio \<Rightarrow> simulated_order list \<Rightarrow> order_intent \<Rightarrow> (risk_decision \<times> order_intent) result" where
  "decide_intent env halt reference_price p os intent =
     res_bind (portfolio_view p) (\<lambda>view.
     res_bind (size_order (en_sizer env) intent view reference_price) (\<lambda>sizing.
       if 0 < sd_quantity sizing then
         res_bind (make_order_intent (intent\<lparr>oi_quantity := sd_quantity sizing\<rparr>)) (\<lambda>sized.
         res_bind (evaluate_order (en_risk env) sized view reference_price (count_open os) (int (length os)) halt)
           (\<lambda>decision. Inr (decision, sized)))
       else res_bind (reject_order R_INVALID_QUANTITY 0) (\<lambda>decision. Inr (decision, intent))))"

definition submit_intent ::
    "run_env \<Rightarrow> bool \<Rightarrow> int \<Rightarrow> instant \<Rightarrow> decimal \<Rightarrow> portfolio \<Rightarrow> order_intent \<Rightarrow> simulated_order list \<Rightarrow> simulated_order list result" where
  "submit_intent env halt created_index event_time reference_price p intent os =
     require (oi_client_tag intent \<noteq> Some engine_stop_tag) StrategyFailure (
     require (\<not> bk_max_orders (en_config env) \<le> int (length os)) MaximumEventsExceeded (
     res_bind (decide_intent env halt reference_price p os intent) (\<lambda>(decision, sized).
     let effective = (case rd_intent decision of Some n \<Rightarrow> n | None \<Rightarrow> sized) in
     res_bind (create_order effective (int (length os) + 1) event_time created_index) (\<lambda>o1.
     res_bind (if rd_accepted decision then transition_order o1 O_OPEN event_time None
       else (case rd_code decision of None \<Rightarrow> Inl AssertionError
             | Some code \<Rightarrow> transition_order o1 O_REJECTED event_time (Some (code_text code)))) (\<lambda>o2.
     Inr (os @ [o2]))))))"

definition submit_intents ::
    "run_env \<Rightarrow> intents \<Rightarrow> int \<Rightarrow> instant \<Rightarrow> decimal \<Rightarrow> 's engine \<Rightarrow> 's engine result" where
  "submit_intents env intents created_index event_time reference_price st =
     res_bind (res_fold (submit_intent env (eg_risk_halt st) created_index event_time reference_price (eg_portfolio st))
       intents (eg_orders st)) (\<lambda>os. Inr (st\<lparr>eg_orders := os\<rparr>))"

section \<open>Cancelling and protecting\<close>

text \<open>Both loops that cancel open orders: every open order that satisfies \<open>P\<close>.\<close>

definition cancel_if :: "(simulated_order \<Rightarrow> bool) \<Rightarrow> instant \<Rightarrow> simulated_order \<Rightarrow> simulated_order result" where
  "cancel_if P event_time o1 =
     (if so_status o1 = O_OPEN \<and> P o1 then transition_order o1 O_CANCELLED event_time None else Inr o1)"

definition cancel_where :: "(simulated_order \<Rightarrow> bool) \<Rightarrow> instant \<Rightarrow> simulated_order list \<Rightarrow> simulated_order list result" where
  "cancel_where P event_time os = res_map (cancel_if P event_time) os"

definition cancel_open_orders :: "bool \<Rightarrow> instant \<Rightarrow> simulated_order list \<Rightarrow> simulated_order list result" where
  "cancel_open_orders preserve_engine_stop event_time os =
     cancel_where (\<lambda>o1. \<not> (preserve_engine_stop \<and> is_engine_stop o1)) event_time os"

definition stop_order_intent :: "decimal \<Rightarrow> decimal \<Rightarrow> order_intent" where
  "stop_order_intent quantity stop_price = \<lparr>oi_side = SELL, oi_type = STOP_MARKET, oi_quantity = quantity, oi_tif = GTC,
     oi_limit_price = None, oi_stop_price = Some stop_price, oi_client_tag = Some engine_stop_tag\<rparr>"

definition reconcile_stop_loss ::
    "run_env \<Rightarrow> portfolio \<Rightarrow> instant \<Rightarrow> int \<Rightarrow> simulated_order list \<Rightarrow> simulated_order list result" where
  "reconcile_stop_loss env p event_time created_index os0 =
     res_bind (cancel_where is_engine_stop event_time os0) (\<lambda>os.
     res_bind (portfolio_view p) (\<lambda>view.
     res_bind (evaluate_stop (en_stop env) (bk_constraints (en_config env)) view) (\<lambda>decision.
       if \<not> stop_active decision then Inr os
       else
         require (\<not> min (bk_max_orders (en_config env)) (rl_max_total_orders (bk_risk_limits (en_config env)))
             \<le> int (length os)) MaximumEventsExceeded (
         require (\<not> rl_max_open_orders (bk_risk_limits (en_config env)) \<le> count_open os) MaximumEventsExceeded (
         (case st_price decision of None \<Rightarrow> Inl AssertionError
          | Some stop_price \<Rightarrow>
              res_bind (make_order_intent (stop_order_intent (st_quantity decision) stop_price)) (\<lambda>intent.
              res_bind (create_order intent (int (length os) + 1) event_time created_index) (\<lambda>o1.
              res_bind (transition_order o1 O_OPEN event_time None) (\<lambda>o2. Inr (os @ [o2]))))))))))"

section \<open>Fills\<close>

definition fill_id_of :: "int \<Rightarrow> string" where
  "fill_id_of sequence = CHR ''F'' # zero_pad 12 (show_nat (nat sequence))"

definition fill_of ::
    "execution_model \<Rightarrow> simulated_order \<Rightarrow> quote \<Rightarrow> instant \<Rightarrow> int \<Rightarrow> int \<Rightarrow> fill result" where
  "fill_of em o1 q event_time candle_index fill_sequence =
     (let quantity = oi_quantity (so_intent o1); notional = dmul quantity (qt_execution q) in
      res_bind (execution_fee em notional (qt_liquidity q)) (\<lambda>fee. make_fill
        \<lparr>fi_id = fill_id_of fill_sequence, fi_order_id = so_id o1, fi_reason = qt_reason q,
         fi_liquidity = qt_liquidity q, fi_side = oi_side (so_intent o1), fi_quantity = quantity,
         fi_base_price = qt_base q, fi_execution_price = qt_execution q, fi_notional = notional, fi_fee = fee,
         fi_slippage_cost = dmul (qt_slippage q) quantity, fi_event_time = event_time,
         fi_candle_index = candle_index\<rparr>))"

definition day_of :: "instant \<Rightarrow> int" where
  "day_of t = t div 86400000000"

definition day_expired :: "simulated_order \<Rightarrow> candle \<Rightarrow> bool" where
  "day_expired o1 c \<longleftrightarrow> oi_tif (so_intent o1) = DAY \<and> day_of (so_created_at o1) < day_of (c_open_time c)"

definition eligible_positions :: "simulated_order list \<Rightarrow> int \<Rightarrow> nat list" where
  "eligible_positions os candle_index = map fst (sort_key
     (\<lambda>(i, o1). (if is_engine_stop o1 then 0 else 1 :: int, order_priority_key o1))
     (filter (\<lambda>(i, o1). so_status o1 = O_OPEN \<and> so_eligible_index o1 \<le> candle_index) (enumerate 0 os)))"

text \<open>Replacing one order by its next lifecycle record.\<close>

definition move_order :: "nat \<Rightarrow> order_status \<Rightarrow> instant \<Rightarrow> 's engine \<Rightarrow> 's engine result" where
  "move_order i s t st = res_bind (transition_order (eg_orders st ! i) s t None)
     (\<lambda>o2. Inr (st\<lparr>eg_orders := (eg_orders st)[i := o2]\<rparr>))"

text \<open>The block of \<^verbatim>\<open>run\<close> after an accepted fill: books, order, stop, and the strategy's reaction.\<close>

definition apply_engine_fill ::
    "digest \<Rightarrow> run_env \<Rightarrow> 's strategy \<Rightarrow> candle \<Rightarrow> int \<Rightarrow> nat \<Rightarrow> fill \<Rightarrow> 's engine \<Rightarrow> 's engine result" where
  "apply_engine_fill H env strategy c candle_index i f st =
     res_bind (apply_fill (eg_portfolio st) f) (\<lambda>m.
     res_bind (record_fill H (eg_ledger st) f m) (\<lambda>ledger.
     res_bind (move_order i O_FILLED (c_open_time c) (st\<lparr>eg_portfolio := mu_after m, eg_ledger := ledger,
       eg_fills := eg_fills st @ [f], eg_last_fill := Some f\<rparr>)) (\<lambda>st1.
     res_bind (reconcile_stop_loss env (eg_portfolio st1) (c_open_time c) candle_index (eg_orders st1)) (\<lambda>os.
     let st2 = st1\<lparr>eg_orders := os\<rparr> in
     res_bind (context_from_previous_history (en_snapshot env) (eg_history st2) (eg_portfolio st2) (eg_orders st2) f
       (eg_risk_halt st2) (eg_last_regime st2)) (\<lambda>x.
     res_bind (strategy_call (sy_on_fill strategy x f (eg_strategy st2))) (\<lambda>(intents, s).
     res_bind (submit_intents env intents candle_index (c_open_time c) (fi_execution_price f) (st2\<lparr>eg_strategy := s\<rparr>)) (\<lambda>st3.
     check_limit env st3)))))))"

definition process_order ::
    "digest \<Rightarrow> run_env \<Rightarrow> 's strategy \<Rightarrow> candle \<Rightarrow> int \<Rightarrow> nat \<Rightarrow> 's engine \<Rightarrow> 's engine result" where
  "process_order H env strategy c candle_index i st =
     (let o1 = eg_orders st ! i in
      if day_expired o1 c then move_order i O_EXPIRED (c_open_time c) st
      else res_bind (quote_order (en_execution env) o1 c candle_index) (\<lambda>quote.
        case quote of
          None \<Rightarrow>
            if oi_tif (so_intent o1) = IOC \<and> so_eligible_index o1 \<le> candle_index
            then move_order i O_EXPIRED (c_close_time c) st else Inr st
        | Some q \<Rightarrow>
            res_bind (fill_of (en_execution env) o1 q (c_open_time c) candle_index (int (length (eg_fills st)) + 1)) (\<lambda>f.
            res_bind (if is_engine_stop o1 then Inr None
              else res_bind (portfolio_view (eg_portfolio st)) (\<lambda>view. Inr (validate_fill (en_risk env) f view))) (\<lambda>rejection.
              if rejection \<noteq> None then move_order i O_CANCELLED (c_open_time c) st
              else apply_engine_fill H env strategy c candle_index i f st))))"

section \<open>One candle\<close>

definition equity_point_of :: "int \<Rightarrow> candle \<Rightarrow> portfolio \<Rightarrow> equity_point result" where
  "equity_point_of candle_index c p = make_equity_point
     \<lparr>ep_candle_index = candle_index, ep_event_time = c_close_time c, ep_close_price = c_close c,
      ep_quote_cash = pf_cash p, ep_base_quantity = pf_base p, ep_equity = pf_equity p,
      ep_peak_equity = pf_peak p, ep_drawdown = pf_drawdown p, ep_drawdown_pct = pf_drawdown_pct p\<rparr>"

text \<open>Marking at the close, with the drawdown halt.\<close>

definition mark_candle :: "digest \<Rightarrow> run_env \<Rightarrow> candle \<Rightarrow> 's engine \<Rightarrow> 's engine result" where
  "mark_candle H env c st =
     (let candle_index = eg_processed st in
      res_bind (mark_to_market (eg_portfolio st) (c_close c)) (\<lambda>p.
      res_bind (record_mark H (eg_ledger st) p (c_close_time c) candle_index False) (\<lambda>ledger.
      res_bind (equity_point_of candle_index c p) (\<lambda>point.
      let st1 = st\<lparr>eg_portfolio := p, eg_ledger := ledger, eg_equity := eg_equity st @ [point]\<rparr> in
      if eg_risk_halt st1 then Inr st1
      else res_bind (portfolio_view p) (\<lambda>view.
        if drawdown_halt_required (en_risk env) view
        then res_bind (cancel_open_orders True (c_close_time c) (eg_orders st1))
          (\<lambda>os. Inr (st1\<lparr>eg_risk_halt := True, eg_orders := os\<rparr>))
        else Inr st1)))))"

definition submit_pending :: "run_env \<Rightarrow> candle \<Rightarrow> 's engine \<Rightarrow> 's engine result" where
  "submit_pending env c st =
     (if eg_processed st = 0 \<and> eg_pending st \<noteq> []
      then res_bind (submit_intents env (eg_pending st) (-1) (c_open_time c) (c_open c) st) (check_limit env)
      else Inr st)"

definition strategy_candle ::
    "run_env \<Rightarrow> 's strategy \<Rightarrow> candle \<Rightarrow> regime_point option \<Rightarrow> 's engine \<Rightarrow> 's engine result" where
  "strategy_candle env strategy c current_regime st0 =
     (let st = st0\<lparr>eg_history := window_append (bk_history_window (en_config env)) (eg_history st0) c\<rparr> in
      res_bind (engine_context (en_snapshot env) (eg_processed st) (Some c) (eg_history st) (eg_portfolio st)
        (eg_orders st) (eg_last_fill st) (eg_risk_halt st) current_regime) (\<lambda>x.
      res_bind (strategy_call (sy_on_candle strategy x c (eg_strategy st))) (\<lambda>(intents, s).
      res_bind (submit_intents env intents (eg_processed st) (c_close_time c) (c_close c) (st\<lparr>eg_strategy := s\<rparr>)) (\<lambda>st1.
      res_bind (check_limit env st1) (\<lambda>st2.
      Inr (st2\<lparr>eg_regimes := eg_regimes st2 @ (case current_regime of None \<Rightarrow> [] | Some p \<Rightarrow> [p]),
               eg_last_regime := current_regime, eg_processed := eg_processed st2 + 1\<rparr>))))))"

definition evaluate_candle ::
    "digest \<Rightarrow> run_env \<Rightarrow> 's strategy \<Rightarrow> candle \<Rightarrow> regime_point option \<Rightarrow> 's engine \<Rightarrow> 's engine result" where
  "evaluate_candle H env strategy c current_regime st =
     res_bind (submit_pending env c st) (\<lambda>st1.
     res_bind (res_fold (process_order H env strategy c (eg_processed st1))
       (eligible_positions (eg_orders st1) (eg_processed st1)) st1) (\<lambda>st2.
     res_bind (mark_candle H env c st2) (\<lambda>st3.
     strategy_candle env strategy c current_regime st3)))"

definition warmup_candle ::
    "run_env \<Rightarrow> (strategy_context \<Rightarrow> candle \<Rightarrow> 's \<Rightarrow> (intents option \<times> 's) result) option \<Rightarrow> candle \<Rightarrow> regime_point option
      \<Rightarrow> 's engine \<Rightarrow> 's engine result" where
  "warmup_candle env callback c current_regime st0 =
     (let st = st0\<lparr>eg_history := window_append (bk_history_window (en_config env)) (eg_history st0) c\<rparr> in
      res_bind (engine_context (en_snapshot env) (eg_seen st - 1) (Some c) (eg_history st) (eg_portfolio st)
        (eg_orders st) None False current_regime) (\<lambda>x.
      res_bind (strategy_call (case callback of None \<Rightarrow> Inl StrategyFailure | Some f \<Rightarrow> f x c (eg_strategy st))) (\<lambda>(answer, s).
      require (answer = None) StrategyFailure
        (Inr (st\<lparr>eg_strategy := s, eg_last_regime := current_regime\<rparr>)))))"

definition candle_step ::
    "digest \<Rightarrow> run_env \<Rightarrow> 's strategy \<Rightarrow> (strategy_context \<Rightarrow> candle \<Rightarrow> 's \<Rightarrow> (intents option \<times> 's) result) option
      \<Rightarrow> candle \<Rightarrow> 's engine \<Rightarrow> 's engine result" where
  "candle_step H env strategy callback c st =
     require (\<not> bk_max_candles (en_config env) \<le> eg_seen st) MaximumCandlesExceeded (
     res_bind (validate_engine_candle c (eg_previous_open st) (eg_last_candle st)) (\<lambda>_.
     res_bind (case eg_accumulator st of None \<Rightarrow> Inr (None, None)
       | Some a \<Rightarrow> res_bind (accumulator_update a c) (\<lambda>(a1, p). Inr (Some a1, Some p))) (\<lambda>(acc, current_regime).
     let st1 = st\<lparr>eg_accumulator := acc, eg_seen := eg_seen st + 1, eg_previous_open := Some (c_open_time c),
           eg_last_candle := Some c\<rparr> in
     if c_open_time c < dr_start (en_evaluation env) then warmup_candle env callback c current_regime st1
     else evaluate_candle H env strategy c current_regime st1)))"

text \<open>The loop over the reader's candles: those before the range are skipped, the first after it ends the loop.\<close>

fun run_candles ::
    "digest \<Rightarrow> run_env \<Rightarrow> 's strategy \<Rightarrow> (strategy_context \<Rightarrow> candle \<Rightarrow> 's \<Rightarrow> (intents option \<times> 's) result) option
      \<Rightarrow> candle result list \<Rightarrow> 's engine \<Rightarrow> 's engine result" where
  "run_candles H env strategy callback [] st = Inr st"
| "run_candles H env strategy callback (item # items) st =
     res_bind item (\<lambda>c.
       if c_open_time c < dr_start (bk_data_range (en_config env))
       then run_candles H env strategy callback items st
       else if dr_end (bk_data_range (en_config env)) \<le> c_open_time c then Inr st
       else res_bind (candle_step H env strategy callback c st) (run_candles H env strategy callback items))"

section \<open>The end of a run\<close>

definition force_close_intent :: "decimal \<Rightarrow> order_intent" where
  "force_close_intent quantity = \<lparr>oi_side = SELL, oi_type = MARKET, oi_quantity = quantity, oi_tif = IOC,
     oi_limit_price = None, oi_stop_price = None, oi_client_tag = Some ''force-close''\<rparr>"

definition force_close ::
    "digest \<Rightarrow> execution_model \<Rightarrow> portfolio \<Rightarrow> candle \<Rightarrow> int \<Rightarrow> int \<Rightarrow> int \<Rightarrow> ledger
      \<Rightarrow> (portfolio \<times> simulated_order \<times> fill \<times> ledger) result" where
  "force_close H em p c candle_index order_sequence fill_sequence ledger =
     res_bind (make_order_intent (force_close_intent (pf_base p))) (\<lambda>intent.
     res_bind (create_order intent order_sequence (c_open_time c) (candle_index - 1)) (\<lambda>o1.
     res_bind (transition_order o1 O_OPEN (c_open_time c) None) (\<lambda>o2.
     res_bind (force_close_quote em (c_close c) SELL) (\<lambda>q.
     res_bind (fill_of em o2 q (c_close_time c) candle_index fill_sequence) (\<lambda>f.
     res_bind (apply_fill p f) (\<lambda>m.
     res_bind (record_fill H ledger f m) (\<lambda>ledger1.
     res_bind (transition_order o2 O_FILLED (c_close_time c) None) (\<lambda>o3.
     res_bind (mark_to_market (mu_after m) (c_close c)) (\<lambda>marked.
     Inr (marked, o3, f, ledger1))))))))))"

definition close_position :: "digest \<Rightarrow> run_env \<Rightarrow> candle \<Rightarrow> 's engine \<Rightarrow> 's engine result" where
  "close_position H env c st =
     (if ex_force_close (bk_execution (en_config env)) \<and> 0 < pf_base (eg_portfolio st) then
        require (\<not> min (bk_max_orders (en_config env)) (rl_max_total_orders (bk_risk_limits (en_config env)))
          \<le> int (length (eg_orders st))) MaximumEventsExceeded (
        res_bind (force_close H (en_execution env) (eg_portfolio st) c (eg_processed st - 1)
          (int (length (eg_orders st)) + 1) (int (length (eg_fills st)) + 1) (eg_ledger st)) (\<lambda>(p, o1, f, ledger).
        res_bind (reconcile_stop_loss env p (c_close_time c) (eg_processed st - 1) (eg_orders st @ [o1])) (\<lambda>os.
        res_bind (equity_point_of (eg_processed st - 1) c p) (\<lambda>point.
        Inr (st\<lparr>eg_portfolio := p, eg_ledger := ledger, eg_orders := os, eg_fills := eg_fills st @ [f],
               eg_last_fill := Some f, eg_equity := butlast (eg_equity st) @ [point]\<rparr>)))))
      else Inr st)"

record run_result =
  br_snapshot :: dataset_snapshot
  br_candles :: int
  br_orders :: "simulated_order list"
  br_fills :: "fill list"
  br_ledger :: ledger
  br_equity :: "equity_point list"
  br_final :: portfolio_snapshot
  br_risk_halt :: bool
  br_regimes :: "regime_point list"

text \<open>From the cancelled orders to the last entry of the ledger.\<close>

definition settle :: "digest \<Rightarrow> run_env \<Rightarrow> bool \<Rightarrow> 's engine \<Rightarrow> (candle \<times> 's engine) result" where
  "settle H env cancel_at_end st =
     (case eg_last_candle st of None \<Rightarrow> Inl SnapshotInvalid
      | Some c \<Rightarrow>
          require (eg_processed st \<noteq> 0) SnapshotInvalid (
          res_bind (if cancel_at_end then cancel_open_orders False (c_close_time c) (eg_orders st)
            else Inr (eg_orders st)) (\<lambda>os.
          res_bind (close_position H env c (st\<lparr>eg_orders := os\<rparr>)) (\<lambda>st1.
          res_bind (record_mark H (eg_ledger st1) (eg_portfolio st1) (c_close_time c) (eg_processed st1 - 1) True)
            (\<lambda>ledger. Inr (c, st1\<lparr>eg_ledger := ledger\<rparr>))))))"

definition finish_run ::
    "digest \<Rightarrow> run_env \<Rightarrow> 's strategy \<Rightarrow> bool \<Rightarrow> dataset_snapshot result \<Rightarrow> 's engine \<Rightarrow> run_result result" where
  "finish_run H env strategy cancel_at_end verified st0 =
     res_bind (settle H env cancel_at_end st0) (\<lambda>(c, st).
     res_bind (engine_context (en_snapshot env) (eg_processed st - 1) (Some c) (eg_history st) (eg_portfolio st)
       (eg_orders st) (eg_last_fill st) (eg_risk_halt st) (eg_last_regime st)) (\<lambda>x.
     res_bind (strategy_call (sy_on_end strategy x (eg_strategy st))) (\<lambda>_.
     res_bind (check_limit env st) (\<lambda>_.
     res_bind (catch_as SnapshotChanged verified) (\<lambda>snapshot.
     require (snapshot = en_snapshot env) SnapshotChanged (
     res_bind (portfolio_view (eg_portfolio st)) (\<lambda>view.
     Inr \<lparr>br_snapshot = en_snapshot env, br_candles = eg_processed st, br_orders = eg_orders st,
          br_fills = eg_fills st, br_ledger = eg_ledger st, br_equity = eg_equity st, br_final = view,
          br_risk_halt = eg_risk_halt st, br_regimes = eg_regimes st\<rparr>)))))))"

section \<open>A run\<close>

text \<open>The checks before the snapshot is opened: identity, lifecycle and the warmup callback.\<close>

definition prepare_lifecycle ::
    "config \<Rightarrow> 's strategy \<Rightarrow> (data_range \<times> regime_policy option
      \<times> (strategy_context \<Rightarrow> candle \<Rightarrow> 's \<Rightarrow> (intents option \<times> 's) result) option) result" where
  "prepare_lifecycle c strategy =
     require (sy_descriptor strategy = bk_strategy c) StrategyFailure (
     res_bind (catch_as StrategyFailure (evaluation_range_for c)) (\<lambda>evaluation.
     res_bind (catch_as StrategyFailure (lifecycle_version_for c)) (\<lambda>version.
     res_bind (catch_as StrategyFailure (regime_policy_for c)) (\<lambda>regime_policy.
       if version = 1
       then require (\<not> dr_start (bk_data_range c) < dr_start evaluation) StrategyFailure
         (Inr (evaluation, regime_policy, None))
       else (case sy_on_warmup strategy of None \<Rightarrow> Inl StrategyFailure
             | Some f \<Rightarrow> Inr (evaluation, regime_policy, Some f))))))"

definition open_snapshot :: "reader \<Rightarrow> config \<Rightarrow> dataset_snapshot result" where
  "open_snapshot rd c =
     res_bind (catch_as SnapshotInvalid (rd_open rd (bk_snapshot_id c))) (\<lambda>snapshot.
     require (dn_id snapshot = bk_snapshot_id c) SnapshotInvalid (
     require (\<not> (dr_start (bk_data_range c) < dr_start (dn_range snapshot)
         \<or> dr_end (dn_range snapshot) < dr_end (bk_data_range c))) SnapshotInvalid (Inr snapshot)))"

definition make_env :: "config \<Rightarrow> dataset_snapshot \<Rightarrow> data_range \<Rightarrow> run_env result" where
  "make_env c snapshot evaluation =
     res_bind (make_sizer (sizing_policy_for (bk_execution c)) (bk_constraints c) (ex_fees (bk_execution c))
       (ex_slippage (bk_execution c)) (quote_reserve (bk_risk_limits c))) (\<lambda>s.
     Inr \<lparr>en_config = c, en_snapshot = snapshot, en_evaluation = evaluation,
          en_execution = \<lparr>em_fees = ex_fees (bk_execution c), em_slippage = ex_slippage (bk_execution c)\<rparr>,
          en_risk = \<lparr>rm_constraints = bk_constraints c, rm_limits = bk_risk_limits c,
            rm_fees = ex_fees (bk_execution c), rm_slippage = ex_slippage (bk_execution c)\<rparr>,
          en_sizer = s, en_stop = stop_policy_for (bk_risk_limits c)\<rparr>)"

definition initial_engine :: "portfolio \<Rightarrow> ledger \<Rightarrow> accumulator option \<Rightarrow> intents \<Rightarrow> 's \<Rightarrow> 's engine" where
  "initial_engine p ledger acc pending s =
     \<lparr>eg_portfolio = p, eg_ledger = ledger, eg_orders = [], eg_fills = [], eg_equity = [], eg_regimes = [],
      eg_history = [], eg_risk_halt = False, eg_last_fill = None, eg_last_candle = None, eg_previous_open = None,
      eg_seen = 0, eg_processed = 0, eg_last_regime = None, eg_accumulator = acc, eg_pending = pending,
      eg_strategy = s\<rparr>"

definition start_run ::
    "digest \<Rightarrow> run_env \<Rightarrow> 's strategy \<Rightarrow> regime_policy option \<Rightarrow> 's \<Rightarrow> 's engine result" where
  "start_run H env strategy regime_policy s0 =
     (let c = en_config env in
      res_bind (case regime_policy of None \<Rightarrow> Inr None
        | Some p \<Rightarrow> res_bind (new_accumulator p) (\<lambda>a. Inr (Some a))) (\<lambda>acc.
      res_bind (initialize_portfolio (bk_initial_capital c)) (\<lambda>p.
      res_bind (record_initial_capital H [] (bk_initial_capital c) (dr_start (en_evaluation env))) (\<lambda>ledger.
      res_bind (engine_context (en_snapshot env) (-1) None [] p [] None False None) (\<lambda>x.
      res_bind (strategy_call (sy_on_start strategy x s0)) (\<lambda>(pending, s).
      Inr (initial_engine p ledger acc pending s)))))))"

definition run_backtest ::
    "digest \<Rightarrow> reader \<Rightarrow> config \<Rightarrow> 's strategy \<Rightarrow> 's \<Rightarrow> bool \<Rightarrow> run_result result" where
  "run_backtest H rd c strategy s0 cancel_at_end =
     res_bind (prepare_lifecycle c strategy) (\<lambda>(evaluation, regime_policy, callback).
     res_bind (open_snapshot rd c) (\<lambda>snapshot.
     res_bind (make_env c snapshot evaluation) (\<lambda>env.
     res_bind (start_run H env strategy regime_policy s0) (\<lambda>st0.
     res_bind (run_candles H env strategy callback (rd_candles rd (bk_data_range c)) st0) (\<lambda>st.
     finish_run H env strategy cancel_at_end (rd_verify rd) st)))))"

end
