(* ===== verification/Engine_Invariant.thy ===== *)
theory Engine_Invariant
  imports Engine "HOL-Library.Sublist"
begin

text \<open>
  What stays true through a run of the engine.  Orders are numbered by their position and only move
  forward, fills refer to filled orders that were created on an earlier candle, the ledger agrees with the
  portfolio, and at most one protective stop is open, over exactly the position.  Each block of the
  loop body has one lemma; the properties of \<^verbatim>\<open>run\<close> follow at the end.
\<close>

section \<open>Lists of orders\<close>

definition order_slot :: "nat \<Rightarrow> simulated_order \<Rightarrow> bool" where
  "order_slot i o1 \<longleftrightarrow> so_sequence o1 = int i + 1 \<and> so_id o1 = order_id_of (int i + 1) \<and> make_order o1 = Inr o1 \<and>
     so_status o1 \<noteq> O_CREATED \<and> so_eligible_index o1 = so_created_index o1 + 1"

definition orders_ok :: "simulated_order list \<Rightarrow> bool" where
  "orders_ok os \<longleftrightarrow> (\<forall>i<length os. order_slot i (os ! i))"

text \<open>One list of orders after another: longer, and where it differs an open order has ended.\<close>

definition evolves :: "simulated_order list \<Rightarrow> simulated_order list \<Rightarrow> bool" where
  "evolves os os' \<longleftrightarrow> length os \<le> length os' \<and>
     (\<forall>i<length os. os' ! i = os ! i \<or>
       (so_status (os ! i) = O_OPEN \<and> same_order (os ! i) (os' ! i) \<and> is_terminal (so_status (os' ! i))))"

lemma evolves_refl [simp]: "evolves os os"
  by (simp add: evolves_def)

lemma same_order_trans: "same_order a b \<Longrightarrow> same_order b c \<Longrightarrow> same_order a c"
  by (simp add: same_order_def)

lemma evolves_trans [trans]: "evolves a b \<Longrightarrow> evolves b c \<Longrightarrow> evolves a c"
  unfolding evolves_def
  by (smt (verit, ccfv_threshold) is_terminal_def le_trans order_less_le_trans order_status.distinct same_order_trans)

lemma evolves_snoc [simp]: "evolves os (os @ [o1])"
  by (simp add: evolves_def nth_append)

lemma order_slot_transition:
  assumes "order_slot i o1" and "transition_order o1 s t r = Inr o2"
  shows "order_slot i o2" and "same_order o1 o2" and "so_status o2 = s" and "is_engine_stop o2 = is_engine_stop o1"
proof -
  note t = transition_order_Inr [OF assms(2)]
  from t(1) have "s \<noteq> O_CREATED" by (cases "so_status o1") (auto simp: allowed_transitions_def)
  with assms(1) t show "order_slot i o2" by (simp add: order_slot_def)
  from t show "same_order o1 o2" "so_status o2 = s" "is_engine_stop o2 = is_engine_stop o1"
    by (simp_all add: same_order_def is_engine_stop_def)
qed

lemma orders_ok_snoc: "orders_ok os \<Longrightarrow> order_slot (length os) o1 \<Longrightarrow> orders_ok (os @ [o1])"
  by (auto simp: orders_ok_def nth_append less_Suc_eq)

lemma orders_ok_nth: "orders_ok os \<Longrightarrow> i < length os \<Longrightarrow> order_slot i (os ! i)"
  by (simp add: orders_ok_def)

lemma order_slot_new:
  assumes "create_order intent (int n + 1) t i = Inr o1" and "transition_order o1 s t' r = Inr o2"
  shows "order_slot n o2" and "so_status o2 = s" and "so_intent o2 = intent" and "so_created_index o2 = i"
proof -
  note c = create_order_Inr [OF assms(1)] and t = transition_order_Inr [OF assms(2)]
  from t(1) have "s \<noteq> O_CREATED" by (cases "so_status o1") (auto simp: allowed_transitions_def)
  with c t show "order_slot n o2" by (simp add: order_slot_def)
  from c t show "so_status o2 = s" "so_intent o2 = intent" "so_created_index o2 = i" by simp_all
qed

section \<open>Fills of orders\<close>

definition is_filled :: "simulated_order \<Rightarrow> bool" where
  "is_filled o1 \<longleftrightarrow> so_status o1 = O_FILLED"

definition filled_by :: "simulated_order \<Rightarrow> fill \<Rightarrow> bool" where
  "filled_by o1 f \<longleftrightarrow> is_filled o1 \<and> fi_order_id f = so_id o1 \<and> fi_side f = oi_side (so_intent o1) \<and>
     fi_quantity f = oi_quantity (so_intent o1) \<and> so_created_index o1 < fi_candle_index f"

definition fills_ok :: "simulated_order list \<Rightarrow> fill list \<Rightarrow> bool" where
  "fills_ok os fs \<longleftrightarrow> length (filter is_filled os) = length fs \<and>
     (\<forall>k<length fs. fi_id (fs ! k) = fill_id_of (int k + 1) \<and> fill_ok (fs ! k) \<and> (\<exists>o1\<in>set os. filled_by o1 (fs ! k)))"

text \<open>An evolution in which nothing is filled.\<close>

definition quiet :: "simulated_order list \<Rightarrow> simulated_order list \<Rightarrow> bool" where
  "quiet os os' \<longleftrightarrow> evolves os os' \<and> length (filter is_filled os') = length (filter is_filled os)"

lemma quiet_refl [simp]: "quiet os os"
  by (simp add: quiet_def)

lemma quiet_trans: "quiet a b \<Longrightarrow> quiet b c \<Longrightarrow> quiet a c"
  using evolves_trans by (auto simp: quiet_def)

lemma quiet_snoc: "so_status o1 \<noteq> O_FILLED \<Longrightarrow> quiet os (os @ [o1])"
  by (simp add: quiet_def is_filled_def)

lemma evolves_filled:
  assumes "evolves os os'" and "o1 \<in> set os" and "is_filled o1"
  shows "o1 \<in> set os'"
proof -
  from assms(2) obtain i where i: "i < length os" "o1 = os ! i" by (auto simp: in_set_conv_nth)
  with assms have "os' ! i = o1" by (auto simp: evolves_def is_filled_def)
  moreover have "i < length os'" using i(1) assms(1) by (simp add: evolves_def)
  ultimately show ?thesis using nth_mem by blast
qed

lemma evolves_fill_kept:
  assumes "evolves os os'" and "\<exists>o1\<in>set os. filled_by o1 f"
  shows "\<exists>o1\<in>set os'. filled_by o1 f"
proof -
  from assms(2) obtain o1 where "o1 \<in> set os" "filled_by o1 f" by blast
  moreover from this have "o1 \<in> set os'" using evolves_filled [OF assms(1)] by (simp add: filled_by_def)
  ultimately show ?thesis by blast
qed

lemma fills_ok_evolves:
  assumes "fills_ok os fs" and "quiet os os'"
  shows "fills_ok os' fs"
  using assms evolves_fill_kept [of os os'] by (simp add: fills_ok_def quiet_def)

lemma fills_ok_snoc:
  assumes "fills_ok os fs" and "i < length os" and "so_status (os ! i) = O_OPEN" and "filled_by o2 f"
    and "same_order (os ! i) o2" and "fi_id f = fill_id_of (int (length fs) + 1)" and "fill_ok f"
  shows "fills_ok (os[i := o2]) (fs @ [f])"
proof -
  have ev: "evolves os (os[i := o2])"
    using assms(2-5) by (auto simp: evolves_def nth_list_update filled_by_def is_filled_def is_terminal_def)
  have "Suc (length (filter (\<lambda>o1. \<not> is_filled o1) (os[i := o2]))) = length (filter (\<lambda>o1. \<not> is_filled o1) os)"
    using assms(2-4) by (intro length_filter_update_le) (simp_all add: is_filled_def filled_by_def)
  then have count: "length (filter is_filled (os[i := o2])) = Suc (length (filter is_filled os))"
    using sum_length_filter_compl [of is_filled os] sum_length_filter_compl [of is_filled "os[i := o2]"] by simp
  have old: "\<exists>o1\<in>set (os[i := o2]). filled_by o1 (fs ! k)" if "k < length fs" for k
    using evolves_fill_kept [OF ev] assms(1) that by (auto simp: fills_ok_def)
  have new: "\<exists>o1\<in>set (os[i := o2]). filled_by o1 f" using set_update_memI [OF assms(2)] by (intro bexI [of _ o2] assms(4))
  show ?thesis
    unfolding fills_ok_def
  proof (intro conjI allI impI)
    show "length (filter is_filled (os[i := o2])) = length (fs @ [f])" using count assms(1) by (simp add: fills_ok_def)
    fix k assume "k < length (fs @ [f])"
    then consider "k < length fs" | "k = length fs" by fastforce
    then show "fi_id ((fs @ [f]) ! k) = fill_id_of (int k + 1)" "fill_ok ((fs @ [f]) ! k)"
      "\<exists>o1\<in>set (os[i := o2]). filled_by o1 ((fs @ [f]) ! k)"
      using assms(1,6,7) old new by (cases; simp add: fills_ok_def nth_append)+
  qed
qed

section \<open>Cancelling\<close>

text \<open>The open stop orders of a list.\<close>

definition open_stops :: "simulated_order list \<Rightarrow> simulated_order list" where
  "open_stops os = filter is_engine_stop (open_orders os)"

lemma cancel_one:
  assumes "cancel_if P t o1 = Inr o2"
  shows "o2 = o1 \<or> (so_status o1 = O_OPEN \<and> P o1 \<and> same_order o1 o2 \<and> so_status o2 = O_CANCELLED)"
    and "order_slot i o1 \<Longrightarrow> order_slot i o2" and "is_filled o2 = is_filled o1"
    and "so_status o2 = O_OPEN \<Longrightarrow> o2 = o1 \<and> \<not> P o1"
proof -
  show d: "o2 = o1 \<or> (so_status o1 = O_OPEN \<and> P o1 \<and> same_order o1 o2 \<and> so_status o2 = O_CANCELLED)"
    using assms transition_order_Inr [of o1 O_CANCELLED t None o2] by (auto simp: cancel_if_def same_order_def split: if_splits)
  show "order_slot i o1 \<Longrightarrow> order_slot i o2"
    using assms order_slot_transition(1) by (auto simp: cancel_if_def split: if_splits)
  show "is_filled o2 = is_filled o1" using d by (auto simp: is_filled_def)
  show "so_status o2 = O_OPEN \<Longrightarrow> o2 = o1 \<and> \<not> P o1"
    using assms transition_order_Inr(2) [of o1 O_CANCELLED t None o2] by (auto simp: cancel_if_def split: if_splits)
qed

lemma filter_count_all2:
  "list_all2 R xs ys \<Longrightarrow> (\<And>x y. R x y \<Longrightarrow> P y = P x) \<Longrightarrow> length (filter P ys) = length (filter P xs)"
  by (induction rule: list_all2_induct) simp_all

lemma cancel_where_Inr:
  assumes "cancel_where P t os = Inr os'"
  shows "length os' = length os" and "quiet os os'" and "orders_ok os \<Longrightarrow> orders_ok os'"
    and "set (open_orders os') \<subseteq> {o1 \<in> set (open_orders os). \<not> P o1}"
    and "length (filter Q (open_orders os')) \<le> length (filter Q (open_orders os))"
proof -
  let ?f = "cancel_if P t"
  from assms have all: "list_all2 (\<lambda>x y. ?f x = Inr y) os os'" by (simp add: cancel_where_def res_map_Inr_iff)
  then show len: "length os' = length os" by (simp add: list_all2_lengthD)
  have nth: "?f (os ! i) = Inr (os' ! i)" if "i < length os" for i
    using all that by (rule list_all2_nthD)
  have "os' ! i = os ! i \<or> (so_status (os ! i) = O_OPEN \<and> same_order (os ! i) (os' ! i) \<and> is_terminal (so_status (os' ! i)))"
    if "i < length os" for i
    using cancel_one(1) [OF nth [OF that]] by (auto simp: is_terminal_def)
  then have "evolves os os'" using len by (simp add: evolves_def)
  moreover have "length (filter is_filled os') = length (filter is_filled os)"
    using all cancel_one(3) by (rule filter_count_all2)
  ultimately show "quiet os os'" by (simp add: quiet_def)
  show "orders_ok os \<Longrightarrow> orders_ok os'"
    using nth cancel_one(2) len by (fastforce simp: orders_ok_def)
  show "set (open_orders os') \<subseteq> {o1 \<in> set (open_orders os). \<not> P o1}"
  proof
    fix o2 assume "o2 \<in> set (open_orders os')"
    then obtain i where i: "i < length os" "o2 = os' ! i" "so_status o2 = O_OPEN"
      using len by (auto simp: open_orders_def in_set_conv_nth)
    with cancel_one(4) [OF nth [OF i(1)]] show "o2 \<in> {o1 \<in> set (open_orders os). \<not> P o1}"
      by (auto simp: open_orders_def)
  qed
  show "length (filter Q (open_orders os')) \<le> length (filter Q (open_orders os))"
    using all
  proof (induction rule: list_all2_induct)
    case (Cons x xs y ys)
    from Cons.IH cancel_one(4) [OF Cons.hyps(1)] show ?case by (auto simp: open_orders_def)
  qed simp
qed

section \<open>Stops\<close>

definition stops_ok :: "portfolio \<Rightarrow> simulated_order list \<Rightarrow> bool" where
  "stops_ok p os \<longleftrightarrow> length (open_stops os) \<le> 1 \<and>
     (\<forall>o1\<in>set (open_stops os). oi_quantity (so_intent o1) = pf_base p \<and> oi_side (so_intent o1) = SELL \<and>
        oi_type (so_intent o1) = STOP_MARKET)"

lemma open_stops_snoc: "open_stops (os @ [o1]) =
    open_stops os @ (if so_status o1 = O_OPEN \<and> is_engine_stop o1 then [o1] else [])"
  by (simp add: open_stops_def open_orders_def)

lemma stops_ok_cancel: "cancel_where P t os = Inr os' \<Longrightarrow> stops_ok p os \<Longrightarrow> stops_ok p os'"
  using cancel_where_Inr(4) [of P t os os'] cancel_where_Inr(5) [of P t os os' is_engine_stop]
  by (fastforce simp: stops_ok_def open_stops_def)

lemma stops_ok_none: "open_stops os = [] \<Longrightarrow> stops_ok p os"
  by (simp add: stops_ok_def)

lemma reconcile_Inr:
  assumes "reconcile_stop_loss env p t i os = Inr os'" and "orders_ok os"
    and "int (length os) \<le> bk_max_orders (en_config env)"
  shows "orders_ok os'" and "quiet os os'" and "stops_ok p os'" and "int (length os') \<le> bk_max_orders (en_config env)"
proof -
  from assms(1) obtain os1 view d where c: "cancel_where is_engine_stop t os = Inr os1" and v: "portfolio_view p = Inr view"
    and d: "evaluate_stop (en_stop env) (bk_constraints (en_config env)) view = Inr d"
    and rest: "(if \<not> stop_active d then Inr os1 else
       require (\<not> min (bk_max_orders (en_config env)) (rl_max_total_orders (bk_risk_limits (en_config env)))
             \<le> int (length os1)) MaximumEventsExceeded (
         require (\<not> rl_max_open_orders (bk_risk_limits (en_config env)) \<le> count_open os1) MaximumEventsExceeded (
         (case st_price d of None \<Rightarrow> Inl AssertionError
          | Some stop_price \<Rightarrow>
              res_bind (make_order_intent (stop_order_intent (st_quantity d) stop_price)) (\<lambda>intent.
              res_bind (create_order intent (int (length os1) + 1) t i) (\<lambda>o1.
              res_bind (transition_order o1 O_OPEN t None) (\<lambda>o2. Inr (os1 @ [o2])))))))) = Inr os'"
    unfolding reconcile_stop_loss_def res_bind_Inr_iff by blast
  note cw = cancel_where_Inr [OF c]
  have none: "open_stops os1 = []"
    using cw(4) by (auto simp: open_stops_def filter_empty_conv)
  have view: "ps_base_quantity view = pf_base p" using v by (auto simp: portfolio_view_def make_portfolio_snapshot_def)
  show "orders_ok os'" "quiet os os'" "stops_ok p os'" "int (length os') \<le> bk_max_orders (en_config env)"
  proof -
    consider "\<not> stop_active d" "os' = os1"
      | price intent o1 o2 where "stop_active d" "int (length os1) < bk_max_orders (en_config env)"
        "make_order_intent (stop_order_intent (st_quantity d) price) = Inr intent"
        "create_order intent (int (length os1) + 1) t i = Inr o1" "transition_order o1 O_OPEN t None = Inr o2" "os' = os1 @ [o2]"
      using rest by (auto split: if_splits option.splits simp: min_def)
    then have "orders_ok os' \<and> quiet os os' \<and> stops_ok p os' \<and> int (length os') \<le> bk_max_orders (en_config env)"
    proof cases
      case 1
      then show ?thesis using cw(1-3) assms(2,3) none stops_ok_none by simp
    next
      case 2
      note slot = order_slot_new [OF 2(4,5)]
      have q: "st_quantity d = pf_base p"
        using d 2(1) view by (auto simp: evaluate_stop_def stop_active_def make_stop_decision_def Let_def
            split: if_splits option.splits)
      have stop: "oi_quantity intent = pf_base p" "oi_side intent = SELL" "oi_type intent = STOP_MARKET"
        using make_order_intent_fields(1-3) [OF 2(3)] q by (simp_all add: stop_order_intent_def)
      have "orders_ok os'" using cw(3) [OF assms(2)] slot(1) 2(6) by (simp add: orders_ok_snoc)
      moreover have "quiet os os'" using cw(2) quiet_snoc [of o2 os1] slot(2) 2(6) quiet_trans by simp
      moreover have "stops_ok p os'" using none stop slot(2,3) 2(6) by (simp add: stops_ok_def open_stops_snoc)
      moreover have "int (length os') \<le> bk_max_orders (en_config env)" using 2(2,6) by simp
      ultimately show ?thesis by blast
    qed
    then show "orders_ok os'" "quiet os os'" "stops_ok p os'" "int (length os') \<le> bk_max_orders (en_config env)"
      by blast+
  qed
qed

section \<open>Submitting\<close>

text \<open>An intent that went through its constructor, the only intents a strategy can hold.\<close>

definition constructed :: "order_intent \<Rightarrow> bool" where
  "constructed i \<longleftrightarrow> make_order_intent i = Inr i"

lemma constructed_tag:
  assumes "constructed i" and "make_order_intent (i\<lparr>oi_quantity := q\<rparr>) = Inr j"
  shows "oi_client_tag j = oi_client_tag i" and "constructed j"
proof -
  have tag: "strip t = t" if "oi_client_tag i = Some t" for t
    using assms(1) that by (auto simp: constructed_def make_order_intent_def Let_def dest: arg_cong [where f = oi_client_tag])
  then have "j = i\<lparr>oi_quantity := q\<rparr>"
    using assms(2) by (cases i) (auto simp: make_order_intent_def Let_def split: option.splits)
  with assms(2) show "oi_client_tag j = oi_client_tag i" "constructed j" by (simp_all add: constructed_def)
qed

lemma decide_intent_tag:
  assumes "decide_intent env halt price p os i = Inr (d, sized)" and "constructed i"
  shows "oi_client_tag (case rd_intent d of Some n \<Rightarrow> n | None \<Rightarrow> sized) = oi_client_tag i"
proof -
  from assms(1) obtain view and sizing :: sizing_decision where
    c: "(if 0 < sd_quantity sizing then
         res_bind (make_order_intent (i\<lparr>oi_quantity := sd_quantity sizing\<rparr>)) (\<lambda>sized.
         res_bind (evaluate_order (en_risk env) sized view price (count_open os) (int (length os)) halt)
           (\<lambda>decision. Inr (decision, sized)))
       else res_bind (reject_order R_INVALID_QUANTITY 0) (\<lambda>decision. Inr (decision, i))) = Inr (d, sized)"
    unfolding decide_intent_def res_bind_Inr_iff [of "portfolio_view p"] res_bind_Inr_iff [of "size_order _ _ _ _"]
    by blast
  show ?thesis
  proof (cases "0 < sd_quantity sizing")
    case True
    with c have s: "make_order_intent (i\<lparr>oi_quantity := sd_quantity sizing\<rparr>) = Inr sized"
      and e: "evaluate_order (en_risk env) sized view price (count_open os) (int (length os)) halt = Inr d" by auto
    note t = constructed_tag [OF assms(2) s]
    have "oi_client_tag n = oi_client_tag sized" if "rd_intent d = Some n" for n
      using evaluate_order_intent [OF e that] constructed_tag(1) [OF t(2)] by blast
    then show ?thesis using t(1) by (cases "rd_intent d") auto
  next
    case False
    with c show ?thesis by auto
  qed
qed

lemma submit_intent_Inr:
  assumes "submit_intent env halt i t price p intent os = Inr os'" and "constructed intent" and "orders_ok os"
  shows "orders_ok os'" and "quiet os os'" and "open_stops os' = open_stops os"
    and "int (length os') \<le> bk_max_orders (en_config env)" and "\<exists>o2. os' = os @ [o2] \<and> so_created_index o2 = i"
proof -
  from assms(1) obtain d sized o1 o2 s r where c: "oi_client_tag intent \<noteq> Some engine_stop_tag"
    "int (length os) < bk_max_orders (en_config env)" "decide_intent env halt price p os intent = Inr (d, sized)"
    and o1: "create_order (case rd_intent d of Some n \<Rightarrow> n | None \<Rightarrow> sized) (int (length os) + 1) t i = Inr o1"
    and o2: "transition_order o1 s t r = Inr o2" "s \<noteq> O_FILLED" "os' = os @ [o2]"
    by (auto simp: submit_intent_def Let_def split: if_splits option.splits)
  note slot = order_slot_new [OF o1 o2(1)]
  have "\<not> is_engine_stop o2"
    using slot(3) decide_intent_tag [OF c(3) assms(2)] c(1) by (simp add: is_engine_stop_def)
  then show "open_stops os' = open_stops os" using o2(3) by (simp add: open_stops_snoc)
  show "orders_ok os'" using assms(3) slot(1) o2(3) by (simp add: orders_ok_snoc)
  show "quiet os os'" using quiet_snoc [of o2 os] slot(2) o2(2,3) by simp
  show "int (length os') \<le> bk_max_orders (en_config env)" using c(2) o2(3) by simp
  show "\<exists>o2. os' = os @ [o2] \<and> so_created_index o2 = i" using slot(4) o2(3) by blast
qed

lemma submit_all_Inr:
  assumes "res_fold (submit_intent env halt i t price p) intents os = Inr os'" and "list_all constructed intents"
    and "orders_ok os" and "int (length os) \<le> bk_max_orders (en_config env)"
  shows "orders_ok os' \<and> quiet os os' \<and> open_stops os' = open_stops os \<and> int (length os') \<le> bk_max_orders (en_config env)"
  using assms
proof (induction intents arbitrary: os)
  case (Cons intent intents)
  from Cons.prems(1) obtain os1 where s: "submit_intent env halt i t price p intent os = Inr os1"
    "res_fold (submit_intent env halt i t price p) intents os1 = Inr os'" by auto
  from Cons.prems(2) have "constructed intent" "list_all constructed intents" by simp_all
  note one = submit_intent_Inr [OF s(1) this(1) Cons.prems(3)]
  from Cons.IH [OF s(2) \<open>list_all constructed intents\<close> one(1) one(4)] one(2,3) quiet_trans show ?case by auto
qed simp

section \<open>The invariant\<close>

definition engine_ok :: "digest \<Rightarrow> run_env \<Rightarrow> 's engine \<Rightarrow> bool" where
  "engine_ok H env st \<longleftrightarrow>
     portfolio_ok (eg_portfolio st) \<and> recorded H (eg_ledger st) \<and>
     quote_before (eg_ledger st) = dec28 (pf_cash (eg_portfolio st)) \<and>
     base_before (eg_ledger st) = dec28 (pf_base (eg_portfolio st)) \<and>
     orders_ok (eg_orders st) \<and> fills_ok (eg_orders st) (eg_fills st) \<and>
     stops_ok (eg_portfolio st) (eg_orders st) \<and>
     int (length (eg_orders st)) \<le> bk_max_orders (en_config env)"

text \<open>What the strategy has been shown is never rewritten.\<close>

definition progress :: "'s engine \<Rightarrow> 's engine \<Rightarrow> bool" where
  "progress st st' \<longleftrightarrow> evolves (eg_orders st) (eg_orders st') \<and> prefix (eg_fills st) (eg_fills st') \<and>
     prefix (eg_ledger st) (eg_ledger st') \<and> prefix (eg_equity st) (eg_equity st') \<and>
     prefix (eg_regimes st) (eg_regimes st')"

lemma progress_refl [simp]: "progress st st"
  by (simp add: progress_def)

lemma progress_trans [trans]: "progress a b \<Longrightarrow> progress b c \<Longrightarrow> progress a c"
  unfolding progress_def
  by (elim conjE, intro conjI) (rule evolves_trans prefix_order.trans, assumption, assumption)+

lemma progress_same:
  "eg_orders st' = eg_orders st \<Longrightarrow> eg_fills st' = eg_fills st \<Longrightarrow> eg_ledger st' = eg_ledger st \<Longrightarrow>
   eg_equity st' = eg_equity st \<Longrightarrow> eg_regimes st' = eg_regimes st \<Longrightarrow> progress st st'"
  by (simp add: progress_def)

lemma engine_ok_same:
  "engine_ok H env st \<Longrightarrow> eg_portfolio st' = eg_portfolio st \<Longrightarrow> eg_ledger st' = eg_ledger st \<Longrightarrow>
   eg_orders st' = eg_orders st \<Longrightarrow> eg_fills st' = eg_fills st \<Longrightarrow> engine_ok H env st'"
  by (simp add: engine_ok_def)

text \<open>A block of the loop body keeps the invariant, rewrites nothing, and leaves the counters alone.\<close>

definition block_ok :: "digest \<Rightarrow> run_env \<Rightarrow> 's engine \<Rightarrow> 's engine \<Rightarrow> bool" where
  "block_ok H env st st' \<longleftrightarrow> engine_ok H env st' \<and> progress st st' \<and> eg_processed st' = eg_processed st \<and>
     eg_equity st' = eg_equity st \<and> eg_last_candle st' = eg_last_candle st \<and> eg_pending st' = eg_pending st"

lemma block_ok_trans:
  assumes "block_ok H env a b" and "block_ok H env b c"
  shows "block_ok H env a c"
proof -
  note ab = assms(1) [unfolded block_ok_def] and bc = assms(2) [unfolded block_ok_def]
  have "progress a c" using ab bc by (blast intro: progress_trans)
  moreover have "eg_processed c = eg_processed a" "eg_equity c = eg_equity a"
    "eg_last_candle c = eg_last_candle a" "eg_pending c = eg_pending a"
    using ab bc by metis+
  ultimately show ?thesis using bc unfolding block_ok_def by blast
qed

lemma engine_ok_quiet:
  assumes "engine_ok H env st" and "quiet (eg_orders st) os" and "orders_ok os" and "stops_ok (eg_portfolio st) os"
    and "int (length os) \<le> bk_max_orders (en_config env)"
  shows "block_ok H env st (st\<lparr>eg_orders := os\<rparr>)"
  using assms fills_ok_evolves [of "eg_orders st" "eg_fills st" os]
  by (simp add: block_ok_def engine_ok_def progress_def quiet_def)

lemma submit_intents_ok:
  assumes "submit_intents env intents i t price st = Inr st'" and "list_all constructed intents" and "engine_ok H env st"
  shows "block_ok H env st st'" and "\<exists>os. st' = st\<lparr>eg_orders := os\<rparr>"
proof -
  from assms(1) obtain os where os: "res_fold (submit_intent env (eg_risk_halt st) i t price (eg_portfolio st))
      intents (eg_orders st) = Inr os" "st' = st\<lparr>eg_orders := os\<rparr>"
    by (auto simp: submit_intents_def)
  have "orders_ok (eg_orders st)" "int (length (eg_orders st)) \<le> bk_max_orders (en_config env)"
    "stops_ok (eg_portfolio st) (eg_orders st)"
    using assms(3) by (simp_all add: engine_ok_def)
  with submit_all_Inr [OF os(1) assms(2)] have "orders_ok os" "quiet (eg_orders st) os" "open_stops os = open_stops (eg_orders st)"
    "int (length os) \<le> bk_max_orders (en_config env)" "stops_ok (eg_portfolio st) (eg_orders st)" by blast+
  then show "block_ok H env st st'"
    unfolding os(2) using assms(3) by (intro engine_ok_quiet) (simp_all add: stops_ok_def)
  show "\<exists>os. st' = st\<lparr>eg_orders := os\<rparr>" using os(2) by blast
qed

lemma filter_update_le: "\<not> P y \<Longrightarrow> length (filter P (xs[i := y])) \<le> length (filter P xs)"
proof (induction xs arbitrary: i)
  case (Cons x xs)
  then show ?case by (cases i) (auto simp: le_SucI)
qed simp

lemma filter_update_le2:
  "i < length xs \<Longrightarrow> P (xs ! i) \<Longrightarrow> length (filter P (xs[i := y])) \<le> length (filter P xs)"
proof (induction xs arbitrary: i)
  case (Cons x xs)
  then show ?case by (cases i) (auto simp: le_SucI)
qed simp

lemma move_order_Inr:
  assumes "move_order i s t st = Inr st'" and "orders_ok (eg_orders st)" and "i < length (eg_orders st)"
  obtains o2 where "st' = st\<lparr>eg_orders := (eg_orders st)[i := o2]\<rparr>" and "so_status (eg_orders st ! i) = O_OPEN"
    and "order_slot i o2" and "same_order (eg_orders st ! i) o2" and "so_status o2 = s" and "is_terminal s"
proof -
  from assms(1) obtain o2 where o2: "transition_order (eg_orders st ! i) s t None = Inr o2"
    "st' = st\<lparr>eg_orders := (eg_orders st)[i := o2]\<rparr>" by (auto simp: move_order_def)
  have slot: "order_slot i (eg_orders st ! i)" using assms(2,3) by (rule orders_ok_nth)
  note t = order_slot_transition [OF slot o2(1)]
  have "s \<in> set (allowed_transitions (so_status (eg_orders st ! i)))" by (rule transition_order_Inr(1) [OF o2(1)])
  moreover have "so_status (eg_orders st ! i) \<noteq> O_CREATED" using slot by (simp add: order_slot_def)
  ultimately have "so_status (eg_orders st ! i) = O_OPEN" "is_terminal s"
    by (cases "so_status (eg_orders st ! i)"; auto simp: allowed_transitions_def is_terminal_def)+
  with o2(2) t that show ?thesis by blast
qed

lemma orders_ok_update: "orders_ok os \<Longrightarrow> order_slot i o2 \<Longrightarrow> orders_ok (os[i := o2])"
  by (metis length_list_update nth_list_update_eq nth_list_update_neq orders_ok_def)

lemma evolves_update:
  assumes "i < length os" and "so_status (os ! i) = O_OPEN" and "same_order (os ! i) o2" and "is_terminal (so_status o2)"
  shows "evolves os (os[i := o2])"
  using assms by (simp add: evolves_def nth_list_update)

lemma open_stops_update:
  assumes "is_terminal (so_status o2)"
  shows "length (open_stops (os[i := o2])) \<le> length (open_stops os)" and "set (open_stops (os[i := o2])) \<subseteq> set (open_stops os)"
proof -
  have eq: "open_stops ys = filter (\<lambda>o1. so_status o1 = O_OPEN \<and> is_engine_stop o1) ys" for ys
    by (simp add: open_stops_def open_orders_def conj_commute)
  show "length (open_stops (os[i := o2])) \<le> length (open_stops os)"
    unfolding eq using assms by (intro filter_update_le) (auto simp: is_terminal_def)
  show "set (open_stops (os[i := o2])) \<subseteq> set (open_stops os)"
  proof
    fix o1 assume o1: "o1 \<in> set (open_stops (os[i := o2]))"
    then have "o1 \<noteq> o2" using assms by (auto simp: eq is_terminal_def)
    with o1 set_update_imp [of o1 os i o2] show "o1 \<in> set (open_stops os)" by (simp add: eq)
  qed
qed

lemma stops_ok_update: "stops_ok p os \<Longrightarrow> is_terminal (so_status o2) \<Longrightarrow> stops_ok p (os[i := o2])"
  using open_stops_update [of o2 os i] by (force simp: stops_ok_def)

lemma move_order_ok:
  assumes "move_order i s t st = Inr st'" and "engine_ok H env st" and "i < length (eg_orders st)" and "s \<noteq> O_FILLED"
  shows "block_ok H env st st'"
proof -
  have ok: "orders_ok (eg_orders st)" using assms(2) by (simp add: engine_ok_def)
  from move_order_Inr [OF assms(1) ok assms(3)] obtain o2 where
    o2: "st' = st\<lparr>eg_orders := (eg_orders st)[i := o2]\<rparr>" "so_status (eg_orders st ! i) = O_OPEN" "order_slot i o2"
      "same_order (eg_orders st ! i) o2" "so_status o2 = s" "is_terminal s" by blast
  have "length (filter is_filled ((eg_orders st)[i := o2])) \<le> length (filter is_filled (eg_orders st))"
    "length (filter (\<lambda>o1. \<not> is_filled o1) ((eg_orders st)[i := o2])) \<le> length (filter (\<lambda>o1. \<not> is_filled o1) (eg_orders st))"
  proof -
    show "length (filter is_filled ((eg_orders st)[i := o2])) \<le> length (filter is_filled (eg_orders st))"
      using o2(5) assms(4) by (intro filter_update_le) (simp add: is_filled_def)
    show "length (filter (\<lambda>o1. \<not> is_filled o1) ((eg_orders st)[i := o2])) \<le> length (filter (\<lambda>o1. \<not> is_filled o1) (eg_orders st))"
      using assms(3) o2(2) by (intro filter_update_le2) (simp_all add: is_filled_def)
  qed
  then have "length (filter is_filled ((eg_orders st)[i := o2])) = length (filter is_filled (eg_orders st))"
    using sum_length_filter_compl [of is_filled "eg_orders st"] sum_length_filter_compl [of is_filled "(eg_orders st)[i := o2]"]
    by simp
  then have "quiet (eg_orders st) ((eg_orders st)[i := o2])"
    using evolves_update [OF assms(3) o2(2,4)] o2(5,6) by (simp add: quiet_def)
  then show ?thesis
    unfolding o2(1) using assms(2) o2(3,5,6)
    by (intro engine_ok_quiet) (simp_all add: engine_ok_def orders_ok_update stops_ok_update)
qed

section \<open>Filling\<close>

lemma fill_of_Inr:
  assumes "fill_of em o1 q t i n = Inr f"
  shows "fill_ok f" and "fi_order_id f = so_id o1" and "fi_side f = oi_side (so_intent o1)"
    and "fi_quantity f = oi_quantity (so_intent o1)" and "fi_id f = fill_id_of n" and "fi_candle_index f = i"
    and "fi_execution_price f = qt_execution q"
proof -
  from assms obtain fee where m: "make_fill
        \<lparr>fi_id = fill_id_of n, fi_order_id = so_id o1, fi_reason = qt_reason q,
         fi_liquidity = qt_liquidity q, fi_side = oi_side (so_intent o1), fi_quantity = oi_quantity (so_intent o1),
         fi_base_price = qt_base q, fi_execution_price = qt_execution q,
         fi_notional = dmul (oi_quantity (so_intent o1)) (qt_execution q), fi_fee = fee,
         fi_slippage_cost = dmul (qt_slippage q) (oi_quantity (so_intent o1)), fi_event_time = t,
         fi_candle_index = i\<rparr> = Inr f"
    by (auto simp: fill_of_def Let_def)
  from make_fill_ok [OF m]
  show "fill_ok f" "fi_order_id f = so_id o1" "fi_side f = oi_side (so_intent o1)"
    "fi_quantity f = oi_quantity (so_intent o1)" "fi_id f = fill_id_of n" "fi_candle_index f = i"
    "fi_execution_price f = qt_execution q" by auto
qed

lemma quote_order_Some: "quote_order em o1 c i = Inr (Some q) \<Longrightarrow> so_status o1 = O_OPEN \<and> so_eligible_index o1 \<le> i"
  by (auto simp: quote_order_def split: if_splits)

lemma record_fill_prefix: "record_fill H es f m = Inr es' \<Longrightarrow> prefix es es'"
proof -
  assume "record_fill H es f m = Inr es'"
  then obtain v1 v2 v3 es1 es2 where "ledger_append H es v1 = Inr es1"
    "ledger_append H es1 v2 = Inr es2 \<or> es2 = es1" "ledger_append H es2 v3 = Inr es' \<or> es' = es2"
    unfolding record_fill_def Let_def res_bind_Inr_iff require_Inr_iff by (metis sum.inject(2))
  then show ?thesis using ledger_append_balances(4) by (metis prefix_def prefix_order.refl prefix_order.trans)
qed

lemma recorded_quote: "recorded H es \<Longrightarrow> dec28 (quote_before es) = quote_before es \<and> dec28 (base_before es) = base_before es"
  using chained_rounded recorded_chained by blast

text \<open>The books after a fill: portfolio, ledger and order together.\<close>

lemma booked_fill_ok:
  assumes "engine_ok H env st" and "i < length (eg_orders st)" and "apply_fill (eg_portfolio st) f = Inr m"
    and "record_fill H (eg_ledger st) f m = Inr ledger"
    and "move_order i O_FILLED t (st\<lparr>eg_portfolio := mu_after m, eg_ledger := ledger,
       eg_fills := eg_fills st @ [f], eg_last_fill := Some f\<rparr>) = Inr st1"
    and "reconcile_stop_loss env (mu_after m) t i1 (eg_orders st1) = Inr os"
    and "fill_ok f" and "fi_order_id f = so_id (eg_orders st ! i)" and "fi_side f = oi_side (so_intent (eg_orders st ! i))"
    and "fi_quantity f = oi_quantity (so_intent (eg_orders st ! i))" and "fi_id f = fill_id_of (int (length (eg_fills st)) + 1)"
    and "so_created_index (eg_orders st ! i) < fi_candle_index f"
  shows "block_ok H env st (st1\<lparr>eg_orders := os\<rparr>)" and "eg_portfolio st1 = mu_after m" and "eg_strategy st1 = eg_strategy st"
proof -
  let ?st = "st\<lparr>eg_portfolio := mu_after m, eg_ledger := ledger, eg_fills := eg_fills st @ [f], eg_last_fill := Some f\<rparr>"
  have ok: "orders_ok (eg_orders ?st)" and len: "i < length (eg_orders ?st)" using assms(1,2) by (simp_all add: engine_ok_def)
  from move_order_Inr [OF assms(5) ok len] obtain o2 where
    o2: "st1 = ?st\<lparr>eg_orders := (eg_orders st)[i := o2]\<rparr>" "so_status (eg_orders st ! i) = O_OPEN" "order_slot i o2"
      "same_order (eg_orders st ! i) o2" "so_status o2 = O_FILLED" by auto
  let ?os = "(eg_orders st)[i := o2]"
  have filled: "filled_by o2 f"
    using o2(4,5) assms(8-10,12) by (simp add: filled_by_def is_filled_def same_order_def)
  have fills: "fills_ok ?os (eg_fills st @ [f])"
    using assms(1,2,7,11) o2(2,4) filled by (intro fills_ok_snoc) (simp_all add: engine_ok_def)
  have orders: "orders_ok ?os" using assms(1) o2(3) by (simp add: engine_ok_def orders_ok_update)
  have ev: "evolves (eg_orders st) ?os"
    using assms(2) o2(2,4,5) by (intro evolves_update) (simp_all add: is_terminal_def)
  have r: "reconcile_stop_loss env (mu_after m) t i1 ?os = Inr os" using assms(6) o2(1) by simp
  have max: "int (length ?os) \<le> bk_max_orders (en_config env)" using assms(1) by (simp add: engine_ok_def)
  note rec = reconcile_Inr [OF r orders max]
  have led: "recorded H ledger" "quote_before ledger = pf_cash (mu_after m)" "base_before ledger = pf_base (mu_after m)"
    using assms(1,4) record_fill_Inr [OF assms(4)] recorded_chained recorded_fill by (auto simp: engine_ok_def)
  then have "dec28 (pf_cash (mu_after m)) = pf_cash (mu_after m)" "dec28 (pf_base (mu_after m)) = pf_base (mu_after m)"
    using recorded_quote [OF led(1)] by simp_all
  then have "engine_ok H env (st1\<lparr>eg_orders := os\<rparr>)"
    using led rec apply_fill_valid(1) [OF assms(3)] fills_ok_evolves [OF fills rec(2)] o2(1)
    by (simp add: engine_ok_def)
  moreover have "progress st (st1\<lparr>eg_orders := os\<rparr>)"
    using evolves_trans [OF ev] rec(2) record_fill_prefix [OF assms(4)] o2(1) by (simp add: progress_def quiet_def)
  ultimately show "block_ok H env st (st1\<lparr>eg_orders := os\<rparr>)" using o2(1) by (simp add: block_ok_def)
  show "eg_portfolio st1 = mu_after m" "eg_strategy st1 = eg_strategy st" using o2(1) by simp_all
qed

section \<open>The blocks of the loop\<close>

text \<open>A strategy whose callbacks return intents built by their constructor.\<close>

definition proper_strategy :: "'s strategy \<Rightarrow> bool" where
  "proper_strategy y \<longleftrightarrow>
     (\<forall>x s is s'. sy_on_start y x s = Inr (is, s') \<longrightarrow> list_all constructed is) \<and>
     (\<forall>x c s is s'. sy_on_candle y x c s = Inr (is, s') \<longrightarrow> list_all constructed is) \<and>
     (\<forall>x f s is s'. sy_on_fill y x f s = Inr (is, s') \<longrightarrow> list_all constructed is)"

lemma check_limit_Inr: "check_limit env st = Inr st' \<longleftrightarrow> st' = st \<and>
    int (length (eg_orders st) + length (eg_fills st) + length (eg_ledger st) + length (eg_equity st)) \<le> bk_max_events (en_config env)"
  by (auto simp: check_limit_def check_event_limit_def)

lemma strategy_call_Inr [simp]: "strategy_call r = Inr y \<longleftrightarrow> r = Inr y"
  by (simp add: strategy_call_def)

lemma block_ok_strategy: "block_ok H env st st' \<Longrightarrow> block_ok H env st (st'\<lparr>eg_strategy := s\<rparr>)"
  by (simp add: block_ok_def engine_ok_def progress_def)

lemma apply_engine_fill_ok:
  assumes step: "apply_engine_fill H env strategy c candle_index i f st = Inr st'" and "proper_strategy strategy"
    and "engine_ok H env st" and "i < length (eg_orders st)"
    and "fill_ok f" and "fi_order_id f = so_id (eg_orders st ! i)" and "fi_side f = oi_side (so_intent (eg_orders st ! i))"
    and "fi_quantity f = oi_quantity (so_intent (eg_orders st ! i))" and "fi_id f = fill_id_of (int (length (eg_fills st)) + 1)"
    and "so_created_index (eg_orders st ! i) < fi_candle_index f"
  shows "block_ok H env st st'"
proof -
  from step obtain m ledger st1 os x intents s st3 where a: "apply_fill (eg_portfolio st) f = Inr m"
    "record_fill H (eg_ledger st) f m = Inr ledger"
    "move_order i O_FILLED (c_open_time c) (st\<lparr>eg_portfolio := mu_after m, eg_ledger := ledger,
       eg_fills := eg_fills st @ [f], eg_last_fill := Some f\<rparr>) = Inr st1"
    "reconcile_stop_loss env (eg_portfolio st1) (c_open_time c) candle_index (eg_orders st1) = Inr os"
    and s: "sy_on_fill strategy x f (eg_strategy (st1\<lparr>eg_orders := os\<rparr>)) = Inr (intents, s)"
    and sub: "submit_intents env intents candle_index (c_open_time c) (fi_execution_price f)
      (st1\<lparr>eg_orders := os, eg_strategy := s\<rparr>) = Inr st3"
    and lim: "check_limit env st3 = Inr st'"
    by (auto simp: apply_engine_fill_def Let_def)
  have p1: "eg_portfolio st1 = mu_after m" using a(3) by (auto simp: move_order_def)
  note booked = booked_fill_ok(1) [OF assms(3,4) a(1,2,3) a(4) [unfolded p1] assms(5-10)]
  have b: "block_ok H env st (st1\<lparr>eg_orders := os, eg_strategy := s\<rparr>)"
    using block_ok_strategy [OF booked, of s] by simp
  have proper: "list_all constructed intents" using s assms(2) unfolding proper_strategy_def by blast
  have "engine_ok H env (st1\<lparr>eg_orders := os, eg_strategy := s\<rparr>)" using b by (simp add: block_ok_def)
  from submit_intents_ok(1) [OF sub proper this] b have "block_ok H env st st3" by (rule block_ok_trans [rotated])
  with lim show ?thesis by (simp add: check_limit_Inr)
qed

lemma process_order_ok:
  assumes step: "process_order H env strategy c candle_index i st = Inr st'" and "proper_strategy strategy"
    and ok: "engine_ok H env st" and i: "i < length (eg_orders st)"
  shows "block_ok H env st st'"
proof -
  let ?o = "eg_orders st ! i"
  have slot: "order_slot i ?o" using ok i by (simp add: engine_ok_def orders_ok_def)
  have moved: "block_ok H env st st'" if "move_order i s t st = Inr st'" "s \<noteq> O_FILLED" for s t
    using that ok i by (intro move_order_ok)
  have same: "block_ok H env st st" using ok by (simp add: block_ok_def)
  show ?thesis
  proof (cases "day_expired ?o c")
    case True
    then have "move_order i O_EXPIRED (c_open_time c) st = Inr st'" using step by (simp add: process_order_def Let_def)
    then show ?thesis by (rule moved) simp
  next
    case False
    then obtain qo where qo: "quote_order (en_execution env) ?o c candle_index = Inr qo"
      using step by (auto simp: process_order_def Let_def)
    show ?thesis
    proof (cases qo)
      case None
      with step False qo have "st' = st \<or> move_order i O_EXPIRED (c_close_time c) st = Inr st'"
        by (auto simp: process_order_def Let_def split: if_splits)
      then show ?thesis using moved same by blast
    next
      case (Some q)
      with step False qo obtain f and rejection :: "rejection_code option" where f: "fill_of (en_execution env) ?o q (c_open_time c) candle_index
          (int (length (eg_fills st)) + 1) = Inr f"
        and r: "(if rejection \<noteq> None then move_order i O_CANCELLED (c_open_time c) st
          else apply_engine_fill H env strategy c candle_index i f st) = Inr st'"
        by (auto simp: process_order_def Let_def)
      note ff = fill_of_Inr [OF f]
      have "so_created_index ?o < fi_candle_index f"
        using quote_order_Some [of "en_execution env" ?o c candle_index q] qo Some slot ff(6) by (simp add: order_slot_def)
      with r ff moved show ?thesis
        using apply_engine_fill_ok [OF _ assms(2) ok i, of c candle_index f st'] by (cases rejection) auto
    qed
  qed
qed

lemma process_orders_ok:
  assumes "res_fold (process_order H env strategy c candle_index) positions st = Inr st'" and "proper_strategy strategy"
    and "engine_ok H env st" and "\<forall>i\<in>set positions. i < length (eg_orders st)"
  shows "block_ok H env st st'"
  using assms
proof (induction positions arbitrary: st)
  case Nil
  then show ?case by (simp add: block_ok_def)
next
  case (Cons i positions)
  from Cons.prems(1) obtain st1 where s: "process_order H env strategy c candle_index i st = Inr st1"
    "res_fold (process_order H env strategy c candle_index) positions st1 = Inr st'" by auto
  have b: "block_ok H env st st1" using process_order_ok [OF s(1) Cons.prems(2,3)] Cons.prems(4) by simp
  then have "engine_ok H env st1" "\<forall>i\<in>set positions. i < length (eg_orders st1)"
    using Cons.prems(4) by (auto simp: block_ok_def progress_def evolves_def)
  from Cons.IH [OF s(2) Cons.prems(2) this] b show ?case by (rule block_ok_trans [rotated])
qed

lemma eligible_positions_valid: "i \<in> set (eligible_positions os n) \<Longrightarrow> i < length os"
  by (auto simp: eligible_positions_def in_set_enumerate_eq)

lemma equity_point_Inr:
  assumes "equity_point_of n c p = Inr pt"
  shows "ep_candle_index pt = n" and "ep_equity pt = pf_equity p" and "ep_base_quantity pt = pf_base p"
    and "ep_quote_cash pt = pf_cash p" and "ep_event_time pt = c_close_time c" and "ep_close_price pt = c_close c"
  using assms by (auto simp: equity_point_of_def make_equity_point_def)

lemma record_mark_prefix: "record_mark H es p t i final = Inr es' \<Longrightarrow> prefix es es'"
  by (auto simp: record_mark_def prefix_def dest: ledger_append_balances(4))

lemma mark_candle_ok:
  assumes step: "mark_candle H env c st = Inr st'" and ok: "engine_ok H env st"
  shows "engine_ok H env st'" and "progress st st'"
    and "eg_processed st' = eg_processed st" and "eg_last_candle st' = eg_last_candle st" and "eg_pending st' = eg_pending st"
    and "\<exists>pt. eg_equity st' = eg_equity st @ [pt] \<and> ep_candle_index pt = eg_processed st \<and>
      ep_equity pt = pf_equity (eg_portfolio st') \<and> ep_event_time pt = c_close_time c \<and> ep_close_price pt = c_close c"
proof -
  from step obtain p ledger pt where a: "mark_to_market (eg_portfolio st) (c_close c) = Inr p"
    "record_mark H (eg_ledger st) p (c_close_time c) (eg_processed st) False = Inr ledger"
    "equity_point_of (eg_processed st) c p = Inr pt"
    and rest: "st' = st\<lparr>eg_portfolio := p, eg_ledger := ledger, eg_equity := eg_equity st @ [pt]\<rparr> \<or>
      (\<exists>os. cancel_open_orders True (c_close_time c) (eg_orders st) = Inr os \<and>
        st' = st\<lparr>eg_portfolio := p, eg_ledger := ledger, eg_equity := eg_equity st @ [pt], eg_risk_halt := True, eg_orders := os\<rparr>)"
    by (auto simp: mark_candle_def Let_def split: if_splits)
  note m = mark_to_market_Inr [OF a(1)]
  have chain: "chained H (eg_ledger st)" using ok recorded_chained by (auto simp: engine_ok_def)
  note l = record_mark_Inr [OF a(2) chain]
  have rec: "recorded H ledger" using ok a(2) recorded_mark by (auto simp: engine_ok_def)
  have stops: "stops_ok p os = stops_ok (eg_portfolio st) os" for os using m(4) by (simp add: stops_ok_def)
  obtain os where os: "orders_ok os" "quiet (eg_orders st) os" "stops_ok (eg_portfolio st) os"
    "int (length os) \<le> bk_max_orders (en_config env)" and eq: "eg_orders st' = os"
    "eg_portfolio st' = p" "eg_ledger st' = ledger" "eg_equity st' = eg_equity st @ [pt]" "eg_fills st' = eg_fills st"
    "eg_processed st' = eg_processed st" "eg_last_candle st' = eg_last_candle st" "eg_pending st' = eg_pending st"
    "eg_regimes st' = eg_regimes st"
  proof (cases "st' = st\<lparr>eg_portfolio := p, eg_ledger := ledger, eg_equity := eg_equity st @ [pt]\<rparr>")
    case True
    with ok that [of "eg_orders st"] show ?thesis by (simp add: engine_ok_def)
  next
    case False
    with rest obtain os where os: "cancel_open_orders True (c_close_time c) (eg_orders st) = Inr os"
      "st' = st\<lparr>eg_portfolio := p, eg_ledger := ledger, eg_equity := eg_equity st @ [pt], eg_risk_halt := True, eg_orders := os\<rparr>"
      by blast
    note cw = cancel_where_Inr [OF os(1) [unfolded cancel_open_orders_def]]
    have "stops_ok (eg_portfolio st) os"
      using stops_ok_cancel [OF os(1) [unfolded cancel_open_orders_def]] ok by (simp add: engine_ok_def)
    with cw ok os(2) that [of os] show ?thesis by (simp add: engine_ok_def)
  qed
  show "engine_ok H env st'"
    using ok os eq rec l(4,5) m(2) stops fills_ok_evolves [of "eg_orders st" "eg_fills st" os]
    by (simp add: engine_ok_def)
  show "progress st st'"
    using os(2) eq record_mark_prefix [OF a(2)] by (simp add: progress_def quiet_def)
  show "eg_processed st' = eg_processed st" "eg_last_candle st' = eg_last_candle st" "eg_pending st' = eg_pending st"
    using eq by simp_all
  show "\<exists>pt. eg_equity st' = eg_equity st @ [pt] \<and> ep_candle_index pt = eg_processed st \<and>
      ep_equity pt = pf_equity (eg_portfolio st') \<and> ep_event_time pt = c_close_time c \<and> ep_close_price pt = c_close c"
    using eq equity_point_Inr [OF a(3)] by simp
qed

text \<open>The invariant between candles.\<close>

definition loop_ok :: "digest \<Rightarrow> run_env \<Rightarrow> 's engine \<Rightarrow> bool" where
  "loop_ok H env st \<longleftrightarrow> engine_ok H env st \<and> list_all constructed (eg_pending st) \<and>
     map ep_candle_index (eg_equity st) = map int [0..<length (eg_equity st)] \<and>
     eg_processed st = int (length (eg_equity st)) \<and>
     (eg_equity st \<noteq> [] \<longrightarrow> ep_equity (last (eg_equity st)) = pf_equity (eg_portfolio st) \<and> eg_last_candle st \<noteq> None)"

lemma submit_pending_ok:
  assumes "submit_pending env c st = Inr st'" and "engine_ok H env st" and "list_all constructed (eg_pending st)"
  shows "block_ok H env st st'"
proof (cases "eg_processed st = 0 \<and> eg_pending st \<noteq> []")
  case True
  with assms(1) obtain st1 where "submit_intents env (eg_pending st) (-1) (c_open_time c) (c_open c) st = Inr st1"
    "check_limit env st1 = Inr st'" by (auto simp: submit_pending_def)
  then show ?thesis using submit_intents_ok(1) [OF _ assms(3,2)] by (simp add: check_limit_Inr)
next
  case False
  with assms(1,2) show ?thesis by (auto simp: submit_pending_def block_ok_def)
qed

lemma strategy_candle_ok:
  assumes step: "strategy_candle env strategy c regime st = Inr st'" and "proper_strategy strategy" and ok: "engine_ok H env st"
  shows "engine_ok H env st'" and "progress st st'" and "eg_processed st' = eg_processed st + 1"
    and "eg_equity st' = eg_equity st" and "eg_portfolio st' = eg_portfolio st" and "eg_last_candle st' = eg_last_candle st"
    and "eg_pending st' = eg_pending st"
proof -
  let ?w = "window_append (bk_history_window (en_config env)) (eg_history st) c"
  from step obtain x intents s st1 where s: "sy_on_candle strategy x c (eg_strategy st) = Inr (intents, s)"
    and sub: "submit_intents env intents (eg_processed st) (c_close_time c) (c_close c) (st\<lparr>eg_history := ?w, eg_strategy := s\<rparr>) = Inr st1"
    and st': "st' = st1\<lparr>eg_regimes := eg_regimes st1 @ (case regime of None \<Rightarrow> [] | Some p \<Rightarrow> [p]),
               eg_last_regime := regime, eg_processed := eg_processed st1 + 1\<rparr>"
    by (auto simp: strategy_candle_def Let_def check_limit_Inr)
  have proper: "list_all constructed intents" using s assms(2) unfolding proper_strategy_def by blast
  have "engine_ok H env (st\<lparr>eg_history := ?w, eg_strategy := s\<rparr>)" using ok by (rule engine_ok_same) simp_all
  note sb = submit_intents_ok [OF sub proper this]
  from sb(2) obtain os where os: "st1 = st\<lparr>eg_history := ?w, eg_strategy := s, eg_orders := os\<rparr>" by auto
  from sb(1) st' show "engine_ok H env st'" by (simp add: block_ok_def engine_ok_def)
  have "progress (st\<lparr>eg_history := ?w, eg_strategy := s\<rparr>) st1" using sb(1) by (simp add: block_ok_def)
  then show "progress st st'" using st' os by (simp add: progress_def)
  show "eg_processed st' = eg_processed st + 1" "eg_equity st' = eg_equity st" "eg_portfolio st' = eg_portfolio st"
    "eg_last_candle st' = eg_last_candle st" "eg_pending st' = eg_pending st"
    using st' os by simp_all
qed

lemma evaluate_candle_ok:
  assumes step: "evaluate_candle H env strategy c regime st = Inr st'" and "proper_strategy strategy" and ok: "loop_ok H env st"
    and "eg_last_candle st = Some c"
  shows "loop_ok H env st'" and "progress st st'" and "eg_processed st' = eg_processed st + 1" and "eg_last_candle st' = Some c"
proof -
  from step obtain st1 st2 st3 where s: "submit_pending env c st = Inr st1"
    "res_fold (process_order H env strategy c (eg_processed st1)) (eligible_positions (eg_orders st1) (eg_processed st1)) st1 = Inr st2"
    "mark_candle H env c st2 = Inr st3" "strategy_candle env strategy c regime st3 = Inr st'"
    by (auto simp: evaluate_candle_def)
  have e: "engine_ok H env st" "list_all constructed (eg_pending st)" using ok by (simp_all add: loop_ok_def)
  note b1 = submit_pending_ok [OF s(1) e]
  have "\<forall>i\<in>set (eligible_positions (eg_orders st1) (eg_processed st1)). i < length (eg_orders st1)"
    by (simp add: eligible_positions_valid)
  with process_orders_ok [OF s(2) assms(2)] b1 have b2: "block_ok H env st1 st2" by (simp add: block_ok_def)
  have b: "block_ok H env st st2" by (rule block_ok_trans [OF b1 b2])
  then have ok2: "engine_ok H env st2" by (simp add: block_ok_def)
  note m = mark_candle_ok [OF s(3) ok2] and c = strategy_candle_ok [OF s(4) assms(2)]
  note c = c [OF m(1)]
  obtain pt where pt: "eg_equity st3 = eg_equity st2 @ [pt]" "ep_candle_index pt = eg_processed st2"
    "ep_equity pt = pf_equity (eg_portfolio st3)" using m(6) by blast
  have st2: "eg_processed st2 = eg_processed st" "eg_equity st2 = eg_equity st" "eg_last_candle st2 = Some c"
    "eg_pending st2 = eg_pending st" "progress st st2"
    using b assms(4) by (simp_all add: block_ok_def)
  show "progress st st'" using progress_trans [OF progress_trans [OF st2(5) m(2)] c(2)] .
  show "eg_processed st' = eg_processed st + 1" using c(3) m(3) st2(1) by simp
  show "eg_last_candle st' = Some c" using c(6) m(4) st2(3) by simp
  show "loop_ok H env st'"
    using ok c m(3-5) pt st2 by (simp add: loop_ok_def)
qed

lemma candle_step_ok:
  assumes step: "candle_step H env strategy callback c st = Inr st'" and "proper_strategy strategy" and ok: "loop_ok H env st"
  shows "loop_ok H env st'" and "progress st st'" and "eg_last_candle st' = Some c"
    and "eg_processed st \<le> eg_processed st'"
proof -
  from step obtain acc regime where
    s: "(let st1 = st\<lparr>eg_accumulator := acc, eg_seen := eg_seen st + 1, eg_previous_open := Some (c_open_time c),
           eg_last_candle := Some c\<rparr> in
     if c_open_time c < dr_start (en_evaluation env) then warmup_candle env callback c regime st1
     else evaluate_candle H env strategy c regime st1) = Inr st'"
    by (auto simp: candle_step_def split: prod.splits)
  let ?st = "st\<lparr>eg_accumulator := acc, eg_seen := eg_seen st + 1, eg_previous_open := Some (c_open_time c),
           eg_last_candle := Some c\<rparr>"
  have ok1: "loop_ok H env ?st" using ok by (simp add: loop_ok_def engine_ok_def)
  have "loop_ok H env st' \<and> progress ?st st' \<and> eg_last_candle st' = Some c \<and> eg_processed st \<le> eg_processed st'"
  proof (cases "c_open_time c < dr_start (en_evaluation env)")
    case True
    with s have "warmup_candle env callback c regime ?st = Inr st'" by (simp add: Let_def)
    then obtain s where "st' = ?st\<lparr>eg_history := window_append (bk_history_window (en_config env)) (eg_history ?st) c,
        eg_strategy := s, eg_last_regime := regime\<rparr>"
      by (auto simp: warmup_candle_def Let_def split: prod.splits)
    with ok1 show ?thesis by (simp add: loop_ok_def engine_ok_def progress_def)
  next
    case False
    with s have "evaluate_candle H env strategy c regime ?st = Inr st'" by (simp add: Let_def)
    from evaluate_candle_ok [OF this assms(2) ok1] show ?thesis by simp
  qed
  then show "loop_ok H env st'" "eg_last_candle st' = Some c" "progress st st'" "eg_processed st \<le> eg_processed st'"
    by (simp_all add: progress_def)
qed

lemma run_candles_ok:
  assumes "run_candles H env strategy callback items st = Inr st'" and "proper_strategy strategy" and "loop_ok H env st"
  shows "loop_ok H env st' \<and> progress st st' \<and> eg_processed st \<le> eg_processed st'"
  using assms
proof (induction items arbitrary: st)
  case (Cons item items)
  then obtain c where item: "item = Inr c" by auto
  consider "c_open_time c < dr_start (bk_data_range (en_config env))"
    | "\<not> c_open_time c < dr_start (bk_data_range (en_config env))" "dr_end (bk_data_range (en_config env)) \<le> c_open_time c"
    | "\<not> c_open_time c < dr_start (bk_data_range (en_config env))" "\<not> dr_end (bk_data_range (en_config env)) \<le> c_open_time c"
    by blast
  then show ?case
  proof cases
    case 1
    with Cons item show ?thesis by simp
  next
    case 2
    with Cons item show ?thesis by simp
  next
    case 3
    with Cons.prems(1) item obtain st1 where s: "candle_step H env strategy callback c st = Inr st1"
      "run_candles H env strategy callback items st1 = Inr st'" by auto
    note one = candle_step_ok [OF s(1) Cons.prems(2,3)]
    from Cons.IH [OF s(2) Cons.prems(2) one(1)] one(2,4) show ?thesis using progress_trans order_trans by blast
  qed
qed simp

lemma start_run_ok:
  assumes "start_run H env strategy regime_policy s0 = Inr st" and "proper_strategy strategy"
    and "0 \<le> bk_max_orders (en_config env)"
  shows "loop_ok H env st"
proof -
  from assms(1) obtain acc p ledger x pending s where a: "initialize_portfolio (bk_initial_capital (en_config env)) = Inr p"
    "record_initial_capital H [] (bk_initial_capital (en_config env)) (dr_start (en_evaluation env)) = Inr ledger"
    "sy_on_start strategy x s0 = Inr (pending, s)" "st = initial_engine p ledger acc pending s"
    by (auto simp: start_run_def Let_def split: prod.splits)
  note l = record_initial_Inr [OF a(2)]
  obtain q where "initialize_portfolio (bk_initial_capital (en_config env)) = Inr q" "portfolio_ok q"
    "pf_cash q = bk_initial_capital (en_config env)" "pf_base q = 0"
    using initialize_portfolio_ok [OF l(2)] by blast
  with a(1) have p: "portfolio_ok p" "pf_cash p = bk_initial_capital (en_config env)" "pf_base p = 0" by simp_all
  have "recorded H ledger" by (rule recorded_initial [OF a(2)])
  moreover have "list_all constructed pending" using a(3) assms(2) unfolding proper_strategy_def by blast
  ultimately show ?thesis
    using p l(4,5) a(4) assms(3)
    by (simp add: loop_ok_def engine_ok_def initial_engine_def orders_ok_def fills_ok_def stops_ok_def open_stops_def open_orders_def)
qed

section \<open>The end of the run\<close>

lemma force_close_ok:
  assumes step: "force_close H em p c i n k ledger = Inr (p1, o1, f, ledger1)"
    and n: "n = int (length os) + 1" and p: "portfolio_ok p" "0 < pf_base p"
    and "orders_ok os" and "fills_ok os fs" and k: "k = int (length fs) + 1" and "recorded H ledger"
  shows "portfolio_ok p1" and "pf_base p1 = 0" and "recorded H ledger1" and "prefix ledger ledger1"
    and "quote_before ledger1 = pf_cash p1" and "base_before ledger1 = 0"
    and "orders_ok (os @ [o1])" and "fills_ok (os @ [o1]) (fs @ [f])" and "so_status o1 = O_FILLED"
proof -
  from step obtain intent o2 o3 q m where a: "make_order_intent (force_close_intent (pf_base p)) = Inr intent"
    "create_order intent n (c_open_time c) (i - 1) = Inr o2" "transition_order o2 O_OPEN (c_open_time c) None = Inr o3"
    "fill_of em o3 q (c_close_time c) i k = Inr f" "apply_fill p f = Inr m" "record_fill H ledger f m = Inr ledger1"
    "transition_order o3 O_FILLED (c_close_time c) None = Inr o1" "mark_to_market (mu_after m) (c_close c) = Inr p1"
    by (auto simp: force_close_def)
  have slot: "order_slot (length os) o3" "so_intent o3 = intent" "so_created_index o3 = i - 1"
    using order_slot_new [OF a(2) [unfolded n] a(3)] by simp_all
  note t = order_slot_transition [OF slot(1) a(7)]
  note f = fill_of_Inr [OF a(4)]
  note fields = make_order_intent_fields(1-3) [OF a(1)]
  have q: "fi_side f = SELL" "fi_quantity f = pf_base p"
    using f(3,4) slot(2) fields by (simp_all add: force_close_intent_def)
  note after = apply_fill_valid [OF a(5)] and mark = mark_to_market_Inr [OF a(8)]
  show "portfolio_ok p1" by (rule mark(2))
  have base: "pf_base (mu_after m) = 0" using after(4) q by (simp add: dadd_def)
  with mark(4) show "pf_base p1 = 0" by simp
  show "recorded H ledger1" using assms(8) a(6) by (rule recorded_fill)
  have chain: "chained H ledger" using assms(8) recorded_chained by blast
  show "prefix ledger ledger1" by (rule record_fill_prefix [OF a(6)])
  show "quote_before ledger1 = pf_cash p1" "base_before ledger1 = 0"
    using record_fill_Inr(2,3) [OF a(6) chain] mark(3) base by simp_all
  show "orders_ok (os @ [o1])" using assms(5) t(1) by (rule orders_ok_snoc)
  show filled: "so_status o1 = O_FILLED" by (rule t(3))
  have by1: "filled_by o1 f"
    using filled t(2) f(2-4,6) slot(3) by (simp add: filled_by_def is_filled_def same_order_def)
  have "\<exists>o1'\<in>set (os @ [o1]). filled_by o1' ((fs @ [f]) ! j)" if "j < length (fs @ [f])" for j
    using assms(6) by1 that by (cases "j = length fs") (auto simp: fills_ok_def nth_append less_Suc_eq)
  then show "fills_ok (os @ [o1]) (fs @ [f])"
    using assms(6) filled f(1,5) k by (auto simp: fills_ok_def is_filled_def nth_append less_Suc_eq)
qed

lemma reconcile_flat:
  assumes "reconcile_stop_loss env p t i os = Inr os'" and "pf_base p = 0"
  shows "cancel_where is_engine_stop t os = Inr os'"
proof (cases "cancel_where is_engine_stop t os")
  case (Inl e)
  with assms(1) show ?thesis by (simp add: reconcile_stop_loss_def)
next
  case (Inr os1)
  show ?thesis
  proof (cases "portfolio_view p")
    case (Inl e)
    with Inr assms(1) show ?thesis by (simp add: reconcile_stop_loss_def)
  next
    case view: (Inr view)
    then have "ps_base_quantity view = 0" using assms(2) by (auto simp: portfolio_view_def make_portfolio_snapshot_def)
    then have "evaluate_stop (en_stop env) (bk_constraints (en_config env)) view = Inr \<lparr>st_quantity = 0, st_price = None\<rparr>"
      by (simp add: evaluate_stop_def make_stop_decision_def)
    then show ?thesis using Inr view assms(1) by (simp add: reconcile_stop_loss_def stop_active_def)
  qed
qed

lemma open_orders_none:
  assumes "cancel_where P t os = Inr os'" and "\<And>o1. o1 \<in> set (open_orders os) \<Longrightarrow> P o1"
  shows "open_orders os' = []"
proof -
  from cancel_where_Inr(4) [OF assms(1)] assms(2) have "set (open_orders os') \<subseteq> {}" by blast
  then show ?thesis by simp
qed

text \<open>What closing the position, if configured, leaves.\<close>

lemma close_position_ok:
  assumes step: "close_position H env c st = Inr st'" and ok: "engine_ok H env st"
    and "eg_equity st \<noteq> []" and "eg_processed st = int (length (eg_equity st))"
    and eq: "map ep_candle_index (eg_equity st) = map int [0..<length (eg_equity st)]"
    and last: "ep_equity (last (eg_equity st)) = pf_equity (eg_portfolio st)"
  shows "engine_ok H env st'" and "map ep_candle_index (eg_equity st') = map int [0..<length (eg_equity st)]"
    and "ep_equity (last (eg_equity st')) = pf_equity (eg_portfolio st')" and "eg_processed st' = eg_processed st"
    and "ex_force_close (bk_execution (en_config env)) \<Longrightarrow> pf_base (eg_portfolio st') = 0"
    and "open_orders (eg_orders st) = [] \<Longrightarrow> open_orders (eg_orders st') = []"
    and "evolves (eg_orders st) (eg_orders st') \<and> prefix (eg_fills st) (eg_fills st') \<and> prefix (eg_ledger st) (eg_ledger st')"
proof -
  have all: "engine_ok H env st' \<and> map ep_candle_index (eg_equity st') = map int [0..<length (eg_equity st)] \<and>
     ep_equity (last (eg_equity st')) = pf_equity (eg_portfolio st') \<and> eg_processed st' = eg_processed st \<and>
     (ex_force_close (bk_execution (en_config env)) \<longrightarrow> pf_base (eg_portfolio st') = 0) \<and>
     (open_orders (eg_orders st) = [] \<longrightarrow> open_orders (eg_orders st') = []) \<and>
     evolves (eg_orders st) (eg_orders st') \<and> prefix (eg_fills st) (eg_fills st') \<and> prefix (eg_ledger st) (eg_ledger st')"
  proof (cases "ex_force_close (bk_execution (en_config env)) \<and> 0 < pf_base (eg_portfolio st)")
    case False
    have "0 \<le> pf_base (eg_portfolio st)" using ok by (simp add: engine_ok_def portfolio_ok_def position_ok_def)
    with False have "ex_force_close (bk_execution (en_config env)) \<Longrightarrow> pf_base (eg_portfolio st) = 0" by auto
    moreover have "st' = st" using step False by (simp add: close_position_def split: if_splits)
    ultimately show ?thesis using ok eq last by simp
  next
    case True
    with step obtain p o1 f ledger os pt where a: "int (length (eg_orders st)) < bk_max_orders (en_config env)"
      "force_close H (en_execution env) (eg_portfolio st) c (eg_processed st - 1) (int (length (eg_orders st)) + 1)
         (int (length (eg_fills st)) + 1) (eg_ledger st) = Inr (p, o1, f, ledger)"
      "reconcile_stop_loss env p (c_close_time c) (eg_processed st - 1) (eg_orders st @ [o1]) = Inr os"
      "equity_point_of (eg_processed st - 1) c p = Inr pt"
      and st': "st' = st\<lparr>eg_portfolio := p, eg_ledger := ledger, eg_orders := os, eg_fills := eg_fills st @ [f],
               eg_last_fill := Some f, eg_equity := butlast (eg_equity st) @ [pt]\<rparr>"
      by (auto simp: close_position_def min_def split: if_splits)
    have e: "portfolio_ok (eg_portfolio st)" "orders_ok (eg_orders st)" "fills_ok (eg_orders st) (eg_fills st)"
      "recorded H (eg_ledger st)" using ok by (simp_all add: engine_ok_def)
    note fc = force_close_ok [OF a(2) refl e(1) _ e(2,3) refl e(4)]
    have base: "0 < pf_base (eg_portfolio st)" using True by simp
    note fc = fc [OF base]
    have max: "int (length (eg_orders st @ [o1])) \<le> bk_max_orders (en_config env)" using a(1) by simp
    note rec = reconcile_Inr [OF a(3) fc(7) max]
    have cash: "dec28 (pf_cash p) = pf_cash p" using recorded_quote [OF fc(3)] fc(5) by simp
    have eng: "engine_ok H env st'"
      using st' fc rec cash fills_ok_evolves [OF fc(8) rec(2)] by (simp add: engine_ok_def)
    have "map ep_candle_index (butlast (eg_equity st)) = map int [0..<length (eg_equity st) - 1]"
    proof -
      have "butlast [0..<n] = [0..<n - 1]" for n by (cases n) simp_all
      then show ?thesis using arg_cong [OF eq, of butlast] by (simp add: map_butlast [symmetric])
    qed
    moreover have "[0..<length (eg_equity st)] = [0..<length (eg_equity st) - 1] @ [length (eg_equity st) - 1]"
      using assms(3) by (cases "length (eg_equity st)") simp_all
    ultimately have idx: "map ep_candle_index (eg_equity st') = map int [0..<length (eg_equity st)]"
      using st' equity_point_Inr(1) [OF a(4)] assms(3,4) by (simp add: Suc_leI of_nat_diff)
    have "open_orders os = []" if "open_orders (eg_orders st) = []"
    proof -
      have "open_orders (eg_orders st @ [o1]) = []" using that fc(9) by (simp add: open_orders_def)
      then show ?thesis using open_orders_none [OF reconcile_flat [OF a(3) fc(2)]] by simp
    qed
    then show ?thesis
      using st' eng idx fc(2,4) equity_point_Inr(2) [OF a(4)] rec(2) evolves_trans [OF evolves_snoc, of "eg_orders st" o1 os]
      by (simp add: quiet_def)
  qed
  then show "engine_ok H env st'" "map ep_candle_index (eg_equity st') = map int [0..<length (eg_equity st)]"
    "ep_equity (last (eg_equity st')) = pf_equity (eg_portfolio st')" "eg_processed st' = eg_processed st"
    "ex_force_close (bk_execution (en_config env)) \<Longrightarrow> pf_base (eg_portfolio st') = 0"
    "open_orders (eg_orders st) = [] \<Longrightarrow> open_orders (eg_orders st') = []"
    "evolves (eg_orders st) (eg_orders st') \<and> prefix (eg_fills st) (eg_fills st') \<and> prefix (eg_ledger st) (eg_ledger st')"
    by blast+
qed

lemma settle_ok:
  assumes step: "settle H env cancel_at_end st = Inr (c, st')" and ok: "loop_ok H env st"
  shows "engine_ok H env st'" and "map ep_candle_index (eg_equity st') = map int [0..<length (eg_equity st')]"
    and "eg_processed st' = int (length (eg_equity st'))" and "eg_equity st' \<noteq> []"
    and "ep_equity (last (eg_equity st')) = pf_equity (eg_portfolio st')"
    and "ex_force_close (bk_execution (en_config env)) \<Longrightarrow> pf_base (eg_portfolio st') = 0"
    and "cancel_at_end \<Longrightarrow> open_orders (eg_orders st') = []"
    and "evolves (eg_orders st) (eg_orders st') \<and> prefix (eg_fills st) (eg_fills st') \<and> prefix (eg_ledger st) (eg_ledger st')"
proof -
  from step obtain os st1 ledger where a: "eg_processed st \<noteq> 0"
    "(if cancel_at_end then cancel_open_orders False (c_close_time c) (eg_orders st) else Inr (eg_orders st)) = Inr os"
    "close_position H env c (st\<lparr>eg_orders := os\<rparr>) = Inr st1"
    "record_mark H (eg_ledger st1) (eg_portfolio st1) (c_close_time c) (eg_processed st1 - 1) True = Inr ledger"
    "st' = st1\<lparr>eg_ledger := ledger\<rparr>"
    by (auto simp: settle_def split: option.splits)
  have l: "engine_ok H env st" "map ep_candle_index (eg_equity st) = map int [0..<length (eg_equity st)]"
    "eg_processed st = int (length (eg_equity st))" using ok by (simp_all add: loop_ok_def)
  have ne: "eg_equity st \<noteq> []" using a(1) l(3) by auto
  with ok have lastp: "ep_equity (last (eg_equity st)) = pf_equity (eg_portfolio st)" by (simp add: loop_ok_def)
  have os: "block_ok H env st (st\<lparr>eg_orders := os\<rparr>)" and none: "cancel_at_end \<Longrightarrow> open_orders os = []"
  proof -
    show "cancel_at_end \<Longrightarrow> open_orders os = []"
      using a(2) open_orders_none [of "\<lambda>o1. \<not> (False \<and> is_engine_stop o1)" "c_close_time c" "eg_orders st" os]
      by (simp add: cancel_open_orders_def)
    show "block_ok H env st (st\<lparr>eg_orders := os\<rparr>)"
    proof (cases cancel_at_end)
      case True
      with a(2) have cw: "cancel_where (\<lambda>o1. \<not> (False \<and> is_engine_stop o1)) (c_close_time c) (eg_orders st) = Inr os"
        by (simp add: cancel_open_orders_def)
      from l(1) cancel_where_Inr [OF cw] stops_ok_cancel [OF cw] show ?thesis
        by (intro engine_ok_quiet) (simp_all add: engine_ok_def)
    next
      case False
      with a(2) have "st\<lparr>eg_orders := os\<rparr> = st" by simp
      with l(1) show ?thesis by (simp only: block_ok_def progress_refl simp_thms)
    qed
  qed
  have e: "engine_ok H env (st\<lparr>eg_orders := os\<rparr>)" using os by (simp add: block_ok_def)
  note cp = close_position_ok [OF a(3) e]
  have cp_all: "engine_ok H env st1" "map ep_candle_index (eg_equity st1) = map int [0..<length (eg_equity st)]"
    "ep_equity (last (eg_equity st1)) = pf_equity (eg_portfolio st1)" "eg_processed st1 = eg_processed st"
    "ex_force_close (bk_execution (en_config env)) \<Longrightarrow> pf_base (eg_portfolio st1) = 0"
    "open_orders os = [] \<Longrightarrow> open_orders (eg_orders st1) = []"
    "evolves os (eg_orders st1) \<and> prefix (eg_fills st) (eg_fills st1) \<and> prefix (eg_ledger st) (eg_ledger st1)"
    using cp ne l(2,3) lastp by simp_all
  have len: "length (eg_equity st1) = length (eg_equity st)" using arg_cong [OF cp_all(2), of length] by simp
  have chain: "chained H (eg_ledger st1)" "recorded H (eg_ledger st1)"
    using cp_all(1) recorded_chained by (auto simp: engine_ok_def)
  show "engine_ok H env st'"
    using cp_all(1) a(5) record_mark_Inr(4,5) [OF a(4) chain(1)] recorded_mark [OF chain(2) a(4)]
    by (simp add: engine_ok_def)
  show "map ep_candle_index (eg_equity st') = map int [0..<length (eg_equity st')]"
    "eg_processed st' = int (length (eg_equity st'))" "eg_equity st' \<noteq> []"
    "ep_equity (last (eg_equity st')) = pf_equity (eg_portfolio st')"
    using cp_all(2-4) len l(3) ne a(5) by auto
  show "ex_force_close (bk_execution (en_config env)) \<Longrightarrow> pf_base (eg_portfolio st') = 0" using cp_all(5) a(5) by simp
  show "cancel_at_end \<Longrightarrow> open_orders (eg_orders st') = []" using cp_all(6) none a(5) by simp
  have "evolves (eg_orders st) os" using os by (simp add: block_ok_def progress_def)
  then show "evolves (eg_orders st) (eg_orders st') \<and> prefix (eg_fills st) (eg_fills st') \<and> prefix (eg_ledger st) (eg_ledger st')"
    using cp_all(7) a(5) evolves_trans record_mark_prefix [OF a(4)] prefix_order.trans by auto
qed

end
