(* ===== verification/Backtest_Run.thy ===== *)
theory Backtest_Run
  imports Engine_Invariant
begin

text \<open>
  What a whole backtest guarantees: the properties of \<^verbatim>\<open>DeterministicBacktestEngine.run\<close> in
  \<^verbatim>\<open>app/backtesting/engine.py\<close>, drawn from the block lemmas of \<open>Engine_Invariant\<close>, and a complete run
  of the example strategy on which every hypothesis holds.
\<close>

section \<open>The stages of a run\<close>

lemma validated_limits:
  assumes "validate_config c = Inr u"
  shows "1 \<le> bk_max_orders c" and "1 \<le> bk_max_events c"
  using assms by (auto simp: validate_config_def make_config_def Let_def split: sum.splits)

lemma run_backtest_stages:
  assumes "run_backtest H rd c strategy s0 cancel_at_end = Inr r"
  obtains env :: run_env and policy callback st0 st last_c st1
  where "start_run H env strategy policy s0 = Inr st0"
    and "run_candles H env strategy callback (rd_candles rd (bk_data_range c)) st0 = Inr st"
    and "settle H env cancel_at_end st = Inr (last_c, st1)" and "check_limit env st1 = Inr st1"
    and "portfolio_view (eg_portfolio st1) = Inr (br_final r)"
    and "en_config env = c" and "1 \<le> bk_max_orders c"
    and "br_candles r = eg_processed st1" and "br_orders r = eg_orders st1" and "br_fills r = eg_fills st1"
    and "br_ledger r = eg_ledger st1" and "br_equity r = eg_equity st1"
proof -
  from assms obtain evaluation policy callback snapshot env st0 st where a:
    "prepare_lifecycle c strategy = Inr (evaluation, policy, callback)"
    "make_env c snapshot evaluation = Inr env" "start_run H env strategy policy s0 = Inr st0"
    "run_candles H env strategy callback (rd_candles rd (bk_data_range c)) st0 = Inr st"
    "finish_run H env strategy cancel_at_end (rd_verify rd) st = Inr r"
    by (auto simp: run_backtest_def)
  from a(5) obtain last_c st1 u where f: "settle H env cancel_at_end st = Inr (last_c, st1)"
    "check_limit env st1 = Inr u" "portfolio_view (eg_portfolio st1) = Inr (br_final r)"
    "br_candles r = eg_processed st1" "br_orders r = eg_orders st1" "br_fills r = eg_fills st1"
    "br_ledger r = eg_ledger st1" "br_equity r = eg_equity st1"
    by (auto simp: finish_run_def)
  have "check_limit env st1 = Inr st1" using f(2) by (simp add: check_limit_Inr)
  moreover have "en_config env = c" using a(2) by (auto simp: make_env_def)
  moreover have "1 \<le> bk_max_orders c"
    using a(1) validated_limits(1) by (auto simp: prepare_lifecycle_def evaluation_range_for_def catch_as_def split: sum.splits)
  ultimately show ?thesis using that a(3,4) f by blast
qed

lemma portfolio_view_fields:
  assumes "portfolio_view p = Inr v"
  shows "ps_equity v = pf_equity p" and "ps_base_quantity v = pf_base p" and "ps_quote_cash v = pf_cash p"
  using assms by (auto simp: portfolio_view_def make_portfolio_snapshot_def)

lemma settle_cash:
  assumes "settle H env cancel_at_end st = Inr (c, st')" and "engine_ok H env st'"
  shows "quote_before (eg_ledger st') = pf_cash (eg_portfolio st')" and "base_before (eg_ledger st') = pf_base (eg_portfolio st')"
proof -
  from assms(1) obtain st1 ledger where a: "st' = st1\<lparr>eg_ledger := ledger\<rparr>"
    "record_mark H (eg_ledger st1) (eg_portfolio st1) (c_close_time c) (eg_processed st1 - 1) True = Inr ledger"
    by (auto simp: settle_def split: option.splits)
  then have m: "eg_portfolio st' = eg_portfolio st1"
    "record_mark H (eg_ledger st1) (eg_portfolio st1) (c_close_time c) (eg_processed st1 - 1) True = Inr (eg_ledger st')"
    by simp_all
  have before: "quote_before (eg_ledger st1) = pf_cash (eg_portfolio st1)" "base_before (eg_ledger st1) = pf_base (eg_portfolio st1)"
    using m(2) by (auto simp: record_mark_def)
  obtain v where "ledger_append H (eg_ledger st1) v = Inr (eg_ledger st')"
    using m(2) by (auto simp: record_mark_def)
  then obtain e where snoc: "eg_ledger st' = eg_ledger st1 @ [e]"
    using ledger_append_balances(4) by blast
  have "chained H (eg_ledger st')" using assms(2) recorded_chained by (auto simp: engine_ok_def)
  then have "chained H (eg_ledger st1)" using snoc by (simp add: chained_snoc_iff)
  note chained_rounded [OF this]
  then show "quote_before (eg_ledger st') = pf_cash (eg_portfolio st')" "base_before (eg_ledger st') = pf_base (eg_portfolio st')"
    using assms(2) before m(1) by (simp_all add: engine_ok_def)
qed

text \<open>Everything the invariant says about the result of a run.\<close>

lemma run_backtest_ok:
  assumes "run_backtest H rd c strategy s0 cancel_at_end = Inr r" and "proper_strategy strategy"
  shows "recorded H (br_ledger r)" and "orders_ok (br_orders r)" and "fills_ok (br_orders r) (br_fills r)"
    and "int (length (br_orders r)) \<le> bk_max_orders c"
    and "map ep_candle_index (br_equity r) = map int [0..<length (br_equity r)]"
    and "br_candles r = int (length (br_equity r))" and "br_equity r \<noteq> []"
    and "ep_equity (last (br_equity r)) = ps_equity (br_final r)"
    and "ex_force_close (bk_execution c) \<Longrightarrow> ps_base_quantity (br_final r) = 0"
    and "cancel_at_end \<Longrightarrow> open_orders (br_orders r) = []"
    and "int (length (br_orders r) + length (br_fills r) + length (br_ledger r) + length (br_equity r)) \<le> bk_max_events c"
    and "quote_before (br_ledger r) = ps_quote_cash (br_final r)" and "base_before (br_ledger r) = ps_base_quantity (br_final r)"
proof -
  from assms(1) obtain env policy callback st0 st last_c st1 where s: "start_run H env strategy policy s0 = Inr st0"
    "run_candles H env strategy callback (rd_candles rd (bk_data_range c)) st0 = Inr st"
    "settle H env cancel_at_end st = Inr (last_c, st1)" "check_limit env st1 = Inr st1"
    "portfolio_view (eg_portfolio st1) = Inr (br_final r)" "en_config env = c" "1 \<le> bk_max_orders c"
    and r: "br_candles r = eg_processed st1" "br_orders r = eg_orders st1" "br_fills r = eg_fills st1"
      "br_ledger r = eg_ledger st1" "br_equity r = eg_equity st1"
    by (rule run_backtest_stages)
  have "loop_ok H env st0" using start_run_ok [OF s(1) assms(2)] s(6,7) by simp
  with run_candles_ok [OF s(2) assms(2)] have "loop_ok H env st" by blast
  note e = settle_ok [OF s(3) this]
  have view: "ps_equity (br_final r) = pf_equity (eg_portfolio st1)" "ps_base_quantity (br_final r) = pf_base (eg_portfolio st1)"
    "ps_quote_cash (br_final r) = pf_cash (eg_portfolio st1)"
    using portfolio_view_fields [OF s(5)] by simp_all
  from e(1) show "recorded H (br_ledger r)" "orders_ok (br_orders r)" "fills_ok (br_orders r) (br_fills r)"
    "int (length (br_orders r)) \<le> bk_max_orders c" using r s(6) by (simp_all add: engine_ok_def)
  show "map ep_candle_index (br_equity r) = map int [0..<length (br_equity r)]" "br_candles r = int (length (br_equity r))"
    "br_equity r \<noteq> []" "ep_equity (last (br_equity r)) = ps_equity (br_final r)"
    using e(2-5) r view by simp_all
  show "ex_force_close (bk_execution c) \<Longrightarrow> ps_base_quantity (br_final r) = 0" using e(6) s(6) view by simp
  show "cancel_at_end \<Longrightarrow> open_orders (br_orders r) = []" using e(7) r by simp
  show "int (length (br_orders r) + length (br_fills r) + length (br_ledger r) + length (br_equity r)) \<le> bk_max_events c"
    using s(4,6) r by (simp add: check_limit_Inr)
  show "quote_before (br_ledger r) = ps_quote_cash (br_final r)" "base_before (br_ledger r) = ps_base_quantity (br_final r)"
    using settle_cash [OF s(3) e(1)] r view by simp_all
qed

text \<open>The loop over a longer stream starts like the loop over its beginning.\<close>

lemma run_candles_append:
  assumes "run_candles H env strategy callback (items @ rest) st = Inr st2"
  shows "\<exists>st1. run_candles H env strategy callback items st = Inr st1 \<and>
    (st2 = st1 \<or> run_candles H env strategy callback rest st1 = Inr st2)"
  using assms
proof (induction items arbitrary: st)
  case (Cons item items)
  then show ?case by (cases item) (auto split: if_splits)
qed simp

section \<open>Runs without orders\<close>

text \<open>A strategy that never submits an intent, like \<^verbatim>\<open>NoOpStrategy\<close>.\<close>

definition idle :: "'s strategy \<Rightarrow> bool" where
  "idle y \<longleftrightarrow> (\<forall>x s. \<exists>s'. sy_on_start y x s = Inr ([], s')) \<and> (\<forall>x c s. \<exists>s'. sy_on_candle y x c s = Inr ([], s')) \<and>
     (\<forall>x s. \<exists>s'. sy_on_end y x s = Inr s') \<and>
     (\<exists>f. sy_on_warmup y = Some f \<and> (\<forall>x c s. \<exists>s'. f x c s = Inr (None, s')))"

text \<open>A stream of closed spot candles of one instrument, in strict order.\<close>

definition stream_ok :: "candle list \<Rightarrow> bool" where
  "stream_ok cs \<longleftrightarrow> list_all (\<lambda>c. c_market_type c = SPOT \<and> c_is_closed c \<and> 0 < c_close c) cs \<and>
     chain (\<lambda>l r. c_open_time l < c_open_time r \<and> candle_identity r = candle_identity l) cs"

text \<open>The state of such a run: the capital is untouched and each evaluated candle left one mark.\<close>

definition idle_books :: "digest \<Rightarrow> decimal \<Rightarrow> 's engine \<Rightarrow> bool" where
  "idle_books H capital st \<longleftrightarrow>
     portfolio_ok (eg_portfolio st) \<and> pf_cash (eg_portfolio st) = capital \<and> pf_base (eg_portfolio st) = 0 \<and>
     pf_equity (eg_portfolio st) = capital \<and>
     chained H (eg_ledger st) \<and> eg_ledger st \<noteq> [] \<and> quote_before (eg_ledger st) = capital \<and> base_before (eg_ledger st) = 0 \<and>
     eg_orders st = [] \<and> eg_fills st = [] \<and> eg_pending st = [] \<and> eg_accumulator st = None \<and> eg_last_regime st = None \<and>
     length (eg_ledger st) = Suc (length (eg_equity st)) \<and> eg_processed st = int (length (eg_equity st))"

definition idle_ok :: "digest \<Rightarrow> decimal \<Rightarrow> 's engine \<Rightarrow> bool" where
  "idle_ok H capital st \<longleftrightarrow> idle_books H capital st \<and>
     chain (\<lambda>l r. c_open_time l < c_open_time r) (eg_history st) \<and> (eg_history st = [] \<longrightarrow> eg_equity st = []) \<and>
     eg_last_candle st = (if eg_history st = [] then None else Some (last (eg_history st))) \<and>
     eg_previous_open st = map_option c_open_time (eg_last_candle st) \<and> eg_processed st \<le> eg_seen st"

lemma window_append_last:
  assumes "1 \<le> w"
  shows "window_append w xs x \<noteq> []" and "last (window_append w xs x) = x"
  using assms by (auto simp: window_append_def Let_def)

lemma window_append_chain:
  assumes "chain R xs" and "xs \<noteq> [] \<Longrightarrow> R (last xs) x"
  shows "chain R (window_append w xs x)"
proof -
  have "chain R (xs @ [x])" using assms by (auto simp: chain_snoc)
  then show ?thesis
    unfolding window_append_def Let_def by (metis append_take_drop_id chain_append)
qed

lemma chain_last_le:
  assumes "chain (\<lambda>l r. c_open_time l < c_open_time r) cs" and "c \<in> set cs"
  shows "c_open_time c \<le> c_open_time (last cs)"
proof -
  have "sorted_wrt (\<lambda>l r. c_open_time l < c_open_time r) cs"
    using assms(1) by (rule chain_imp_sorted_wrt [rotated]) (auto intro: transpI)
  then show ?thesis
    using assms(2) by (induction cs) (auto intro: less_imp_le)
qed

text \<open>The context of a candle is always accepted.\<close>

lemma idle_context:
  assumes "portfolio_ok p" and "0 \<le> index" and "h \<noteq> []" and "last h = c"
    and "chain (\<lambda>l r. c_open_time l < c_open_time r) h"
  shows "\<exists>x. engine_context snapshot index (Some c) h p [] lf halt None = Inr x"
proof -
  obtain view where "portfolio_view p = Inr view" using portfolio_view_ok [OF assms(1)] by blast
  moreover have "chain (\<lambda>l r. \<not> c_open_time r \<le> c_open_time l) h" using assms(5) by (rule chain_mono) simp
  moreover have "list_all (\<lambda>k. \<not> c_open_time c < c_open_time k) h"
    using chain_last_le [OF assms(5)] assms(4) by (auto simp: list_all_iff not_less)
  ultimately show ?thesis
    using assms by (simp add: engine_context_def make_context_def open_orders_def)
qed

lemma idle_mark:
  assumes "idle_books H capital st" and "\<And>p x. is_sha256 (H p x)" and "0 < c_close c" and "dec28 capital = capital" and "0 < capital"
  shows "\<exists>p ledger pt halt. mark_candle H env c st =
      Inr (st\<lparr>eg_portfolio := p, eg_ledger := ledger, eg_equity := eg_equity st @ [pt], eg_risk_halt := halt\<rparr>) \<and>
    idle_books H capital (st\<lparr>eg_portfolio := p, eg_ledger := ledger, eg_equity := eg_equity st @ [pt], eg_risk_halt := halt,
      eg_processed := eg_processed st + 1\<rparr>)"
proof -
  have i: "portfolio_ok (eg_portfolio st)" "pf_cash (eg_portfolio st) = capital" "pf_base (eg_portfolio st) = 0"
    "chained H (eg_ledger st)" "eg_ledger st \<noteq> []" "quote_before (eg_ledger st) = capital" "base_before (eg_ledger st) = 0"
    "eg_orders st = []" "eg_processed st = int (length (eg_equity st))"
    using assms(1) by (simp_all add: idle_books_def)
  obtain p where p: "mark_to_market (eg_portfolio st) (c_close c) = Inr p" "portfolio_ok p" "pf_cash p = capital"
    "pf_base p = 0" "pf_mark p = Some (c_close c)" "pf_equity p = capital"
    using mark_to_market_ok [OF i(1) assms(3)] i(2,3) assms(4) by (auto simp: dadd_def dmul_def)
  let ?v = "(event (c_close_time c) (eg_processed st) MARK_TO_MARKET 0 0)\<lparr>lv_price := pf_mark p\<rparr>"
  have "event_ok ?v" using assms(3) p(5) i(9) by (simp add: event_ok_def event_def)
  moreover have bal: "dadd (quote_before (eg_ledger st)) (lv_quote ?v) = capital" "dadd (base_before (eg_ledger st)) (lv_base ?v) = 0"
    using i(6,7) assms(4) by (simp_all add: event_def dadd_def)
  ultimately obtain ledger where l: "ledger_append H (eg_ledger st) ?v = Inr ledger" "chained H ledger"
    "quote_before ledger = capital" "base_before ledger = 0"
    using ledger_append_total [OF i(4) assms(2), of ?v] assms(5) by auto
  then have mark: "record_mark H (eg_ledger st) p (c_close_time c) (eg_processed st) False = Inr ledger"
    using i(5-7) p(3,4) by (simp add: record_mark_def)
  obtain pt where pt: "equity_point_of (eg_processed st) c p = Inr pt"
    using p(2,3,4) assms(3) i(9)
    by (auto simp: equity_point_of_def make_equity_point_def portfolio_ok_def position_ok_def valuation_ok_def dec_intros
        drawdown_pct_nonneg)
  obtain view where view: "portfolio_view p = Inr view" using portfolio_view_ok [OF p(2)] by blast
  have "cancel_open_orders True (c_close_time c) [] = Inr []"
    by (simp add: cancel_open_orders_def cancel_where_def)
  then have "\<exists>halt. mark_candle H env c st = Inr (st\<lparr>eg_portfolio := p, eg_ledger := ledger, eg_equity := eg_equity st @ [pt],
      eg_risk_halt := halt\<rparr>)"
    using p(1) mark pt view i(8) by (cases st) (auto simp: mark_candle_def Let_def)
  then obtain halt where "mark_candle H env c st = Inr (st\<lparr>eg_portfolio := p, eg_ledger := ledger, eg_equity := eg_equity st @ [pt],
      eg_risk_halt := halt\<rparr>)" by blast
  moreover have "idle_books H capital (st\<lparr>eg_portfolio := p, eg_ledger := ledger, eg_equity := eg_equity st @ [pt], eg_risk_halt := halt,
      eg_processed := eg_processed st + 1\<rparr>)" for halt
    using assms(1) p(2-4,6) l(2-4) ledger_append_balances(3) [OF l(1)] by (auto simp: idle_books_def)
  ultimately show ?thesis by blast
qed

lemma idle_strategy:
  assumes "idle strategy" and "portfolio_ok (eg_portfolio st)" and "eg_orders st = []" and "0 \<le> eg_processed st"
    and h: "h = window_append (bk_history_window (en_config env)) (eg_history st) c" "h \<noteq> []" "last h = c"
      "chain (\<lambda>l r. c_open_time l < c_open_time r) h"
    and "eg_last_regime st = None"
    and "int (length (eg_fills st) + length (eg_ledger st) + length (eg_equity st)) \<le> bk_max_events (en_config env)"
  shows "\<exists>s. strategy_candle env strategy c None st = Inr (st\<lparr>eg_history := h, eg_strategy := s, eg_processed := eg_processed st + 1\<rparr>)"
proof -
  obtain x where x: "engine_context (en_snapshot env) (eg_processed st) (Some c) h (eg_portfolio st) [] (eg_last_fill st)
      (eg_risk_halt st) None = Inr x"
    using idle_context [OF assms(2,4) h(2-4)] by blast
  obtain s where "sy_on_candle strategy x c (eg_strategy st) = Inr ([], s)"
    using assms(1) unfolding idle_def by blast
  with x assms show ?thesis
    by (intro exI [of _ s], cases st) (simp add: strategy_candle_def Let_def submit_intents_def check_limit_def check_event_limit_def
        strategy_call_def catch_as_def)
qed

text \<open>One candle, warmup or evaluated.\<close>

lemma idle_candle:
  assumes "idle strategy" and ok: "idle_ok H capital st" and H: "\<And>p x. is_sha256 (H p x)"
    and cap: "dec28 capital = capital" "0 < capital" and w: "1 \<le> bk_history_window (en_config env)"
    and c: "c_market_type c = SPOT" "c_is_closed c" "0 < c_close c"
    and follows: "eg_history st \<noteq> [] \<Longrightarrow> c_open_time (last (eg_history st)) < c_open_time c \<and>
        candle_identity c = candle_identity (last (eg_history st))"
    and "eg_seen st < bk_max_candles (en_config env)"
    and "\<not> c_open_time c < dr_start (en_evaluation env) \<Longrightarrow> 2 * int (length (eg_equity st)) + 3 \<le> bk_max_events (en_config env)"
    and callback: "c_open_time c < dr_start (en_evaluation env) \<Longrightarrow> callback = sy_on_warmup strategy"
  shows "\<exists>st'. candle_step H env strategy callback c st = Inr st' \<and> idle_ok H capital st' \<and>
    eg_seen st' = eg_seen st + 1 \<and> eg_history st' \<noteq> [] \<and> last (eg_history st') = c \<and>
    length (eg_equity st') = length (eg_equity st) + (if c_open_time c < dr_start (en_evaluation env) then 0 else 1)"
proof -
  let ?st = "st\<lparr>eg_accumulator := None, eg_seen := eg_seen st + 1, eg_previous_open := Some (c_open_time c), eg_last_candle := Some c\<rparr>"
  let ?h = "window_append (bk_history_window (en_config env)) (eg_history st) c"
  note h = window_append_last [OF w, of "eg_history st" c]
  have chain_h: "chain (\<lambda>l r. c_open_time l < c_open_time r) ?h"
    using ok follows by (intro window_append_chain) (simp_all add: idle_ok_def)
  have valid: "validate_engine_candle c (eg_previous_open st) (eg_last_candle st) = Inr ()"
    using ok c follows by (auto simp: validate_engine_candle_def idle_ok_def not_le)
  have acc: "eg_accumulator st = None" using ok by (simp add: idle_ok_def idle_books_def)
  have step: "candle_step H env strategy callback c st =
      (if c_open_time c < dr_start (en_evaluation env) then warmup_candle env callback c None ?st
       else evaluate_candle H env strategy c None ?st)"
    using valid acc assms(11) by (simp add: candle_step_def Let_def)
  show ?thesis
  proof (cases "c_open_time c < dr_start (en_evaluation env)")
    case True
    obtain f where f: "sy_on_warmup strategy = Some f" "\<And>x c s. \<exists>s'. f x c s = Inr (None, s')"
      using assms(1) by (auto simp: idle_def)
    have index: "0 \<le> eg_seen st" and p: "portfolio_ok (eg_portfolio st)" "eg_orders st = []"
      using ok by (simp_all add: idle_ok_def idle_books_def)
    obtain x where x: "engine_context (en_snapshot env) (eg_seen st) (Some c) ?h (eg_portfolio st) [] None False None = Inr x"
      using idle_context [OF p(1) index h chain_h] by blast
    obtain s where "f x c (eg_strategy st) = Inr (None, s)" using f(2) by blast
    with x f(1) p(2) callback True have "warmup_candle env callback c None ?st =
        Inr (?st\<lparr>eg_history := ?h, eg_strategy := s, eg_last_regime := None\<rparr>)"
      by (simp add: warmup_candle_def Let_def strategy_call_def catch_as_def)
    with step True ok h chain_h show ?thesis by (simp add: idle_ok_def idle_books_def)
  next
    case False
    have pend: "submit_pending env c ?st = Inr ?st" using ok by (simp add: submit_pending_def idle_ok_def idle_books_def)
    have none: "eligible_positions (eg_orders ?st) (eg_processed ?st) = []"
      using ok by (simp add: eligible_positions_def idle_ok_def idle_books_def enumerate_eq_zip)
    have books: "idle_books H capital ?st" using ok by (simp add: idle_ok_def idle_books_def)
    obtain p ledger pt halt where m: "mark_candle H env c ?st =
        Inr (?st\<lparr>eg_portfolio := p, eg_ledger := ledger, eg_equity := eg_equity ?st @ [pt], eg_risk_halt := halt\<rparr>)"
      "idle_books H capital (?st\<lparr>eg_portfolio := p, eg_ledger := ledger, eg_equity := eg_equity ?st @ [pt], eg_risk_halt := halt,
         eg_processed := eg_processed ?st + 1\<rparr>)"
      using idle_mark [OF books H c(3) cap] by blast
    let ?m = "?st\<lparr>eg_portfolio := p, eg_ledger := ledger, eg_equity := eg_equity ?st @ [pt], eg_risk_halt := halt\<rparr>"
    have m2: "portfolio_ok (eg_portfolio ?m)" "eg_orders ?m = []" "0 \<le> eg_processed ?m" "eg_last_regime ?m = None"
      "int (length (eg_fills ?m) + length (eg_ledger ?m) + length (eg_equity ?m)) \<le> bk_max_events (en_config env)"
      using m(2) assms(12) False by (simp_all add: idle_books_def)
    obtain s where s: "strategy_candle env strategy c None ?m = Inr (?m\<lparr>eg_history := ?h, eg_strategy := s, eg_processed := eg_processed ?m + 1\<rparr>)"
      using idle_strategy [OF assms(1) m2(1-3) _ h chain_h m2(4,5)] by fastforce
    have "evaluate_candle H env strategy c None ?st = Inr (?m\<lparr>eg_history := ?h, eg_strategy := s, eg_processed := eg_processed ?m + 1\<rparr>)"
      using pend none m(1) s by (simp add: evaluate_candle_def)
    moreover have "idle_ok H capital (?m\<lparr>eg_history := ?h, eg_strategy := s, eg_processed := eg_processed ?m + 1\<rparr>)"
      using m(2) h chain_h ok by (simp add: idle_ok_def idle_books_def)
    ultimately show ?thesis using step False h by simp
  qed
qed

definition follows :: "candle list \<Rightarrow> candle \<Rightarrow> bool" where
  "follows h c \<longleftrightarrow> h = [] \<or> c_open_time (last h) < c_open_time c \<and> candle_identity c = candle_identity (last h)"

definition evaluated :: "data_range \<Rightarrow> candle list \<Rightarrow> candle list" where
  "evaluated r cs = filter (\<lambda>c. dr_start r \<le> c_open_time c) cs"

lemma idle_loop:
  assumes "idle strategy" and "\<And>p x. is_sha256 (H p x)" and "dec28 capital = capital" "0 < capital"
    and "1 \<le> bk_history_window (en_config env)"
    and "\<And>c. c \<in> set cs \<Longrightarrow> c_open_time c < dr_start (en_evaluation env) \<Longrightarrow> callback = sy_on_warmup strategy"
    and "idle_ok H capital st" and "stream_ok cs" and "cs \<noteq> [] \<Longrightarrow> follows (eg_history st) (hd cs)"
    and "list_all (\<lambda>c. dr_start (bk_data_range (en_config env)) \<le> c_open_time c \<and> c_open_time c < dr_end (bk_data_range (en_config env))) cs"
    and "eg_seen st + int (length cs) \<le> bk_max_candles (en_config env)"
    and "2 * int (length (eg_equity st) + length (evaluated (en_evaluation env) cs)) + 1 \<le> bk_max_events (en_config env)"
  shows "\<exists>st'. run_candles H env strategy callback (map Inr cs) st = Inr st' \<and> idle_ok H capital st' \<and>
    length (eg_equity st') = length (eg_equity st) + length (evaluated (en_evaluation env) cs)"
  using assms(6-12)
proof (induction cs arbitrary: st)
  case Nil
  then show ?case by (simp add: evaluated_def)
next
  case (Cons c cs)
  have c: "c_market_type c = SPOT" "c_is_closed c" "0 < c_close c" "stream_ok cs"
    "cs \<noteq> [] \<Longrightarrow> c_open_time c < c_open_time (hd cs) \<and> candle_identity (hd cs) = candle_identity c"
    using Cons.prems(3) by (auto simp: stream_ok_def chain_Cons)
  have f: "eg_history st \<noteq> [] \<Longrightarrow> c_open_time (last (eg_history st)) < c_open_time c \<and> candle_identity c = candle_identity (last (eg_history st))"
    using Cons.prems(4) by (auto simp: follows_def)
  have seen: "eg_seen st < bk_max_candles (en_config env)" using Cons.prems(6) by simp
  let ?n = "if c_open_time c < dr_start (en_evaluation env) then 0 else 1 :: nat"
  have count: "length (evaluated (en_evaluation env) (c # cs)) = ?n + length (evaluated (en_evaluation env) cs)"
    by (simp add: evaluated_def not_less)
  have "\<exists>st1. candle_step H env strategy callback c st = Inr st1 \<and> idle_ok H capital st1 \<and>
    eg_seen st1 = eg_seen st + 1 \<and> eg_history st1 \<noteq> [] \<and> last (eg_history st1) = c \<and>
    length (eg_equity st1) = length (eg_equity st) + ?n"
    using idle_candle [OF assms(1) Cons.prems(2) assms(2-5) c(1-3) f seen, of callback] Cons.prems(1,7) count by fastforce
  then obtain st1 where one: "candle_step H env strategy callback c st = Inr st1" "idle_ok H capital st1"
    "eg_seen st1 = eg_seen st + 1" "eg_history st1 \<noteq> []" "last (eg_history st1) = c" "length (eg_equity st1) = length (eg_equity st) + ?n"
    by blast
  have "\<exists>st'. run_candles H env strategy callback (map Inr cs) st1 = Inr st' \<and> idle_ok H capital st' \<and>
    length (eg_equity st') = length (eg_equity st1) + length (evaluated (en_evaluation env) cs)"
    using Cons.prems(1,5-7) c(4,5) one(2-6) count by (intro Cons.IH) (auto simp: follows_def)
  then show ?case using one(1,6) count Cons.prems(5) by (auto simp: not_less)
qed

text \<open>What validation of the configuration gives.\<close>

lemma validated_config:
  assumes "validate_config c = Inr u"
  shows "0 < bk_initial_capital c" and "1 \<le> bk_history_window c" and "0 \<le> quote_reserve (bk_risk_limits c)"
    and "evaluation_range_for c = Inr (case bk_evaluation c of Some (er, _) \<Rightarrow> er | None \<Rightarrow> bk_data_range c)"
    and "lifecycle_version_for c = Inr (case bk_evaluation c of Some (_, v) \<Rightarrow> v | None \<Rightarrow> 1)"
    and "regime_policy_for c = Inr (bk_regime_policy c)"
    and "\<And>er. bk_evaluation c = Some (er, 1) \<Longrightarrow> er = bk_data_range c"
proof -
  show "evaluation_range_for c = Inr (case bk_evaluation c of Some (er, _) \<Rightarrow> er | None \<Rightarrow> bk_data_range c)"
    "lifecycle_version_for c = Inr (case bk_evaluation c of Some (_, v) \<Rightarrow> v | None \<Rightarrow> 1)"
    "regime_policy_for c = Inr (bk_regime_policy c)"
    using assms by (simp_all add: evaluation_range_for_def lifecycle_version_for_def regime_policy_for_def)
  from assms show "0 < bk_initial_capital c" "1 \<le> bk_history_window c"
    by (auto simp: validate_config_def make_config_def Let_def)
  from assms show "\<And>er. bk_evaluation c = Some (er, 1) \<Longrightarrow> er = bk_data_range c"
    by (auto simp: validate_config_def make_config_def Let_def)
  from assms have "make_risk_limits (bk_risk_limits c) = Inr (bk_risk_limits c)"
    by (auto simp: validate_config_def make_config_def Let_def revalidate_def)
  then show "0 \<le> quote_reserve (bk_risk_limits c)"
    by (auto simp: make_risk_limits_def quote_reserve_def)
qed

text \<open>The end: the last mark of the ledger, the strategy's farewell and the result.\<close>

lemma idle_record_mark:
  assumes "idle_books H capital st" and "\<And>p x. is_sha256 (H p x)" and "dec28 capital = capital" and "0 < capital" and "-1 \<le> i"
  shows "\<exists>ledger. record_mark H (eg_ledger st) (eg_portfolio st) t i final = Inr ledger \<and> length ledger = Suc (length (eg_ledger st))"
proof -
  let ?v = "(event t i (if final then FINAL_STATE else MARK_TO_MARKET) 0 0)\<lparr>lv_price := pf_mark (eg_portfolio st)\<rparr>"
  have b: "chained H (eg_ledger st)" "eg_ledger st \<noteq> []" "quote_before (eg_ledger st) = capital" "base_before (eg_ledger st) = 0"
    "pf_cash (eg_portfolio st) = capital" "pf_base (eg_portfolio st) = 0" "valuation_ok (eg_portfolio st)"
    using assms(1) by (simp_all add: idle_books_def portfolio_ok_def)
  have "event_ok ?v" using b(7) assms(5) by (auto simp: event_ok_def event_def valuation_ok_def split: option.splits)
  moreover have "dadd (quote_before (eg_ledger st)) (lv_quote ?v) = capital" "dadd (base_before (eg_ledger st)) (lv_base ?v) = 0"
    using b(3,4) assms(3) by (simp_all add: event_def dadd_def)
  ultimately obtain ledger where "ledger_append H (eg_ledger st) ?v = Inr ledger"
    using ledger_append_total [OF b(1) assms(2), of ?v] assms(4) by auto
  with b(2-6) ledger_append_balances(3) [OF this] show ?thesis by (simp add: record_mark_def)
qed

lemma idle_finish:
  assumes "idle strategy" and ok: "idle_ok H capital st" and "\<And>p x. is_sha256 (H p x)" and "dec28 capital = capital" and "0 < capital"
    and "eg_equity st \<noteq> []" and "verified = Inr (en_snapshot env)"
    and "2 * int (length (eg_equity st)) + 2 \<le> bk_max_events (en_config env)" and "eg_history st \<noteq> []"
  shows "\<exists>r. finish_run H env strategy cancel_at_end verified st = Inr r \<and> br_orders r = [] \<and> br_fills r = [] \<and>
    length (br_equity r) = length (eg_equity st) \<and> length (br_ledger r) = length (eg_equity st) + 2 \<and> ps_equity (br_final r) = capital"
proof -
  have books: "idle_books H capital st" and last: "eg_last_candle st = Some (last (eg_history st))"
    and chain_h: "chain (\<lambda>l r. c_open_time l < c_open_time r) (eg_history st)"
    using ok assms(9) by (simp_all add: idle_ok_def)
  let ?c = "last (eg_history st)"
  have b: "portfolio_ok (eg_portfolio st)" "eg_orders st = []" "eg_fills st = []" "eg_last_regime st = None"
    "pf_equity (eg_portfolio st) = capital" "pf_base (eg_portfolio st) = 0" "eg_processed st = int (length (eg_equity st))"
    "length (eg_ledger st) = Suc (length (eg_equity st))"
    using books by (simp_all add: idle_books_def)
  have index: "0 \<le> eg_processed st - 1" using assms(6) b(7) by (cases "eg_equity st") simp_all
  have index1: "-1 \<le> eg_processed st - 1" using index by simp
  obtain ledger where ledger: "record_mark H (eg_ledger st) (eg_portfolio st) (c_close_time ?c) (eg_processed st - 1) True = Inr ledger"
    "length ledger = Suc (length (eg_ledger st))"
    using idle_record_mark [OF books assms(3-5) index1] by blast
  let ?st = "st\<lparr>eg_ledger := ledger\<rparr>"
  have "st\<lparr>eg_orders := []\<rparr> = st" using b(2) by (cases st) simp
  then have settle: "settle H env cancel_at_end st = Inr (?c, ?st)"
    using last index b(2,6) ledger(1)
    by (simp add: settle_def close_position_def cancel_open_orders_def cancel_where_def)
  obtain x where x: "engine_context (en_snapshot env) (eg_processed st - 1) (Some ?c) (eg_history st) (eg_portfolio st) []
      (eg_last_fill st) (eg_risk_halt st) None = Inr x"
    using idle_context [OF b(1) index assms(9) refl chain_h] by blast
  obtain s where s: "sy_on_end strategy x (eg_strategy st) = Inr s" using assms(1) unfolding idle_def by blast
  obtain view where view: "portfolio_view (eg_portfolio st) = Inr view" using portfolio_view_ok [OF b(1)] by blast
  have "ps_equity view = capital" using portfolio_view_fields(1) [OF view] b(5) by simp
  then show ?thesis
    using settle x s view b(2-4,8) ledger(2) assms(7,8)
    by (simp add: finish_run_def strategy_call_def catch_as_def check_limit_def check_event_limit_def)
qed

lemma idle_start:
  assumes "idle strategy" and H: "\<And>p x. is_sha256 (H p x)" and cap: "dec28 (bk_initial_capital (en_config env)) = bk_initial_capital (en_config env)"
    "0 < bk_initial_capital (en_config env)"
  shows "\<exists>st. start_run H env strategy None s0 = Inr st \<and> idle_ok H (bk_initial_capital (en_config env)) st \<and>
    eg_equity st = [] \<and> eg_history st = [] \<and> eg_seen st = 0"
proof -
  let ?k = "bk_initial_capital (en_config env)"
  obtain p where p: "initialize_portfolio ?k = Inr p" "portfolio_ok p" "pf_cash p = ?k" "pf_base p = 0" "pf_equity p = ?k"
    using initialize_portfolio_ok [OF cap(2)] by (auto simp: initialize_portfolio_def make_portfolio_iff)
  let ?v = "event (dr_start (en_evaluation env)) (-1) INITIAL_CAPITAL ?k 0"
  have "event_ok ?v" by (simp add: event_ok_def event_def)
  moreover have "dadd (quote_before []) (lv_quote ?v) = ?k" "dadd (base_before []) (lv_base ?v) = 0"
    using cap(1) by (simp_all add: event_def dadd_def quote_before_def base_before_def)
  ultimately obtain ledger where l: "ledger_append H [] ?v = Inr ledger" "chained H ledger" "quote_before ledger = ?k"
    "base_before ledger = 0"
    using ledger_append_total [of H "[]" ?v, OF chained_Nil H] cap(2) by auto
  then have rec: "record_initial_capital H [] ?k (dr_start (en_evaluation env)) = Inr ledger"
    using cap(2) by (simp add: record_initial_capital_def)
  obtain view where "portfolio_view p = Inr view" using portfolio_view_ok [OF p(2)] by blast
  then obtain x where x: "engine_context (en_snapshot env) (-1) None [] p [] None False None = Inr x"
    by (auto simp: engine_context_def make_context_def)
  obtain s where s: "sy_on_start strategy x s0 = Inr ([], s)" using assms(1) unfolding idle_def by blast
  have "length ledger = 1" using ledger_append_balances(3) [OF l(1)] by simp
  moreover from this have "ledger \<noteq> []" by auto
  ultimately show ?thesis
    using p rec x s l(2-4)
    by (simp add: start_run_def Let_def strategy_call_def catch_as_def initial_engine_def idle_ok_def idle_books_def)
qed

text \<open>A reader that serves one unchanged snapshot, and the candles of the range from it.\<close>

definition serves :: "reader \<Rightarrow> config \<Rightarrow> dataset_snapshot \<Rightarrow> candle list \<Rightarrow> bool" where
  "serves rd c snapshot cs \<longleftrightarrow>
     rd_open rd (bk_snapshot_id c) = Inr snapshot \<and> rd_verify rd = Inr snapshot \<and> dn_id snapshot = bk_snapshot_id c \<and>
     dr_start (dn_range snapshot) \<le> dr_start (bk_data_range c) \<and> dr_end (bk_data_range c) \<le> dr_end (dn_range snapshot) \<and>
     rd_candles rd (bk_data_range c) = map Inr cs \<and> stream_ok cs \<and>
     list_all (\<lambda>k. dr_start (bk_data_range c) \<le> c_open_time k \<and> c_open_time k < dr_end (bk_data_range c)) cs"

definition evaluation_of :: "config \<Rightarrow> data_range" where
  "evaluation_of c = (case bk_evaluation c of Some (er, _) \<Rightarrow> er | None \<Rightarrow> bk_data_range c)"

lemma idle_run:
  assumes "idle strategy" and H: "\<And>p x. is_sha256 (H p x)" and v: "validate_config c = Inr u"
    and "sy_descriptor strategy = bk_strategy c" and "bk_regime_policy c = None"
    and cap: "dec28 (bk_initial_capital c) = bk_initial_capital c" and rd: "serves rd c snapshot cs"
    and n: "n = length (evaluated (evaluation_of c) cs)" "0 < n"
    and "int (length cs) \<le> bk_max_candles c" and "2 * int n + 2 \<le> bk_max_events c"
  shows "\<exists>r. run_backtest H rd c strategy s0 cancel_at_end = Inr r \<and> br_orders r = [] \<and> br_fills r = [] \<and>
    length (br_equity r) = n \<and> length (br_ledger r) = n + 2 \<and> ps_equity (br_final r) = bk_initial_capital c"
proof -
  note vc = validated_config [OF v]
  obtain f where f: "sy_on_warmup strategy = Some f" using assms(1) unfolding idle_def by blast
  let ?version = "case bk_evaluation c of Some (_, v) \<Rightarrow> v | None \<Rightarrow> 1"
  let ?callback = "if ?version = 1 then None else Some f"
  have start: "dr_start (bk_data_range c) = dr_start (evaluation_of c)" if "?version = 1"
    using that vc(7) by (auto simp: evaluation_of_def split: option.splits)
  then have life: "prepare_lifecycle c strategy = Inr (evaluation_of c, None, ?callback)"
    using vc(4-6) assms(4,5) f by (simp add: prepare_lifecycle_def catch_as_def evaluation_of_def [symmetric])
  have snap: "open_snapshot rd c = Inr snapshot"
    using rd by (simp add: serves_def open_snapshot_def catch_as_def not_less)
  obtain env where env: "make_env c snapshot (evaluation_of c) = Inr env" "en_config env = c" "en_snapshot env = snapshot"
    "en_evaluation env = evaluation_of c"
    using vc(3) by (simp add: make_env_def make_sizer_def)
  obtain st0 where st0: "start_run H env strategy None s0 = Inr st0" "idle_ok H (bk_initial_capital c) st0"
    "eg_equity st0 = []" "eg_history st0 = []" "eg_seen st0 = 0"
    using idle_start [of strategy H env s0, OF assms(1) H] cap vc(1) env(2) by auto
  have "\<exists>st. run_candles H env strategy ?callback (map Inr cs) st0 = Inr st \<and> idle_ok H (bk_initial_capital c) st \<and>
      length (eg_equity st) = length (eg_equity st0) + length (evaluated (en_evaluation env) cs)"
  proof (rule idle_loop)
    fix k assume k: "k \<in> set cs" "c_open_time k < dr_start (en_evaluation env)"
    then have "?version \<noteq> 1" using rd start env(4) by (fastforce simp: serves_def list_all_iff)
    then show "?callback = sy_on_warmup strategy" using f by simp
  qed (use assms env vc st0 rd n in \<open>simp_all add: serves_def follows_def\<close>)
  then obtain st where st: "run_candles H env strategy ?callback (map Inr cs) st0 = Inr st" "idle_ok H (bk_initial_capital c) st"
    "length (eg_equity st) = n" using st0(3) env(4) n(1) by auto
  have eq: "eg_equity st \<noteq> []" using st(3) n(2) by auto
  then have hist: "eg_history st \<noteq> []" using st(2) by (auto simp: idle_ok_def)
  obtain r where r: "finish_run H env strategy cancel_at_end (rd_verify rd) st = Inr r" "br_orders r = []" "br_fills r = []"
    "length (br_equity r) = n" "length (br_ledger r) = n + 2" "ps_equity (br_final r) = bk_initial_capital c"
    using idle_finish [of strategy H "bk_initial_capital c" st "rd_verify rd" env, OF assms(1) st(2) H cap vc(1) eq] hist assms(11) env(2,3) st(3) rd
    by (auto simp: serves_def)
  have "run_backtest H rd c strategy s0 cancel_at_end = Inr r"
    using life snap env(1) st0(1) st(1) r(1) rd by (simp add: run_backtest_def serves_def)
  with r(2-6) show ?thesis by blast
qed

section \<open>An example run\<close>

definition example_config :: config where
  "example_config = \<lparr>bk_snapshot_id = ''snap-1'', bk_data_range = \<lparr>dr_start = 0, dr_end = 180000000\<rparr>,
     bk_strategy = \<lparr>sd_name = ''no-op'', sd_version = ''1'', sd_parameters = []\<rparr>, bk_initial_capital = 1000,
     bk_execution = \<lparr>ex_fees = \<lparr>fm_maker_bps = 0, fm_taker_bps = 100\<rparr>,
       ex_slippage = \<lparr>sm_kind = FIXED_BPS, sm_fixed_bps = 0\<rparr>, ex_intrabar = CONSERVATIVE, ex_force_close = True, ex_sizing = None\<rparr>,
     bk_constraints = example_constraints, bk_risk_limits = example_limits,
     bk_history_window = 2, bk_max_candles = 10, bk_max_orders = 8, bk_max_events = 100,
     bk_engine_version = ''3a'', bk_schema_version = 1, bk_evaluation = None, bk_regime_policy = None\<rparr>"

definition example_snapshot :: dataset_snapshot where
  "example_snapshot = \<lparr>dn_id = ''snap-1'', dn_dataset_key = ''k'', dn_version = ''v'', dn_checksum = ''c'',
     dn_range = \<lparr>dr_start = 0, dr_end = 180000000\<rparr>, dn_partitions = [], dn_manifest_path = ''m'', dn_created_at = ''t''\<rparr>"

definition example_candles :: "candle list" where
  "example_candles = [example_bar 0 100, example_bar 1 110, example_bar 2 120]"

definition example_reader :: reader where
  "example_reader = \<lparr>rd_open = (\<lambda>_. Inr example_snapshot), rd_candles = (\<lambda>_. map Inr example_candles),
     rd_verify = Inr example_snapshot\<rparr>"

definition example_run :: "bool \<Rightarrow> run_result result" where
  "example_run cancel_at_end = res_bind no_op_strategy (\<lambda>y.
     run_backtest example_digest example_reader example_config y () cancel_at_end)"

lemma no_op_strategy_idle:
  obtains y where "no_op_strategy = Inr y" and "idle y" and "proper_strategy y" and "sy_descriptor y = bk_strategy example_config"
proof -
  have "make_strategy_descriptor ''no-op'' ''1'' [] = Inr (bk_strategy example_config)" by code_simp
  then show ?thesis
    by (intro that) (auto simp: no_op_strategy_def idle_def proper_strategy_def)
qed

lemma example_valid: "validate_config example_config = Inr ()"
  by code_simp

lemma example_serves: "serves example_reader example_config example_snapshot example_candles"
  unfolding serves_def by (intro conjI; code_simp)

lemma example_evaluated: "length (evaluated (evaluation_of example_config) example_candles) = 3"
  by code_simp

lemma example_run_ok:
  obtains y r where "no_op_strategy = Inr y" and "proper_strategy y"
    and "run_backtest example_digest example_reader example_config y () cancel_at_end = Inr r"
    and "example_run cancel_at_end = Inr r" and "length (br_ledger r) = 5"
proof -
  obtain y where y: "no_op_strategy = Inr y" "idle y" "proper_strategy y" "sy_descriptor y = bk_strategy example_config"
    by (rule no_op_strategy_idle)
  have "dec28 (bk_initial_capital example_config) = bk_initial_capital example_config"
    by (simp add: example_config_def)
  then obtain r where "run_backtest example_digest example_reader example_config y () cancel_at_end = Inr r" "length (br_ledger r) = 5"
    using idle_run [of y example_digest example_config, OF y(2) example_digest_sha256 example_valid y(4) _ _ example_serves
        example_evaluated [symmetric], of "()" cancel_at_end]
    by (auto simp: example_config_def example_candles_def)
  moreover from this(1) have "example_run cancel_at_end = Inr r" unfolding example_run_def y(1) res_bind_simps .
  ultimately show ?thesis using that y(1,3) by blast
qed

lemma example_ledger_free:
  assumes "run_backtest example_digest rd c y s0 b = Inr r" and "proper_strategy y" and "length (br_ledger r) < 64"
  shows "collision_free example_digest (links (br_ledger r))"
  using run_backtest_ok(1) [OF assms(1,2)] recorded_chained assms(3) by (intro example_digest_free) blast+

section \<open>Properties\<close>

text \<open>C1: the result of a run is consistent: its ledger passes verification and ends with exactly the cash and
  the position of the final portfolio, the equity curve has one point per evaluated candle, in order,
  and its last point shows the final equity.\<close>

theorem backtest_books_balance:
  assumes "run_backtest H rd c strategy s0 cancel_at_end = Inr r" and "proper_strategy strategy"
    and "collision_free H (links (br_ledger r))"
  shows "verify_ledger H (br_ledger r) = Inr \<lparr>vf_count = int (length (br_ledger r)), vf_quote = ps_quote_cash (br_final r),
      vf_base = ps_base_quantity (br_final r), vf_hash = head_hash (br_ledger r)\<rparr>
    \<and> 0 < br_candles r \<and> map ep_candle_index (br_equity r) = map int [0..<nat (br_candles r)]
    \<and> ep_equity (last (br_equity r)) = ps_equity (br_final r)"
proof -
  note ok = run_backtest_ok [OF assms(1,2)]
  show ?thesis
    using recorded_verifies [OF ok(1) assms(3)] ok(5-8,12,13) by simp
qed

theorem backtest_books_balance_witness:
  "\<exists>r v. example_run True = Inr r \<and> verify_ledger example_digest (br_ledger r) = Inr v \<and> vf_count v = 5
    \<and> vf_quote v = ps_quote_cash (br_final r)"
proof -
  obtain y r where y: "proper_strategy y" "run_backtest example_digest example_reader example_config y () True = Inr r"
    "example_run True = Inr r" "length (br_ledger r) = 5" by (rule example_run_ok)
  have free: "collision_free example_digest (links (br_ledger r))"
    using example_ledger_free [OF y(2,1)] y(4) by simp
  note t = backtest_books_balance [OF y(2,1) free]
  show ?thesis using conjunct1 [OF t] y(3,4) by simp
qed



text \<open>C40: a run that cancels at its end leaves only ended orders, and a run with forced closing ends without a
  position.\<close>

theorem backtest_ends_settled:
  assumes "run_backtest H rd c strategy s0 cancel_at_end = Inr r" and "proper_strategy strategy"
  shows "(cancel_at_end \<longrightarrow> list_all (\<lambda>o1. is_terminal (so_status o1)) (br_orders r))
    \<and> (ex_force_close (bk_execution c) \<longrightarrow> ps_base_quantity (br_final r) = 0)"
proof -
  note ok = run_backtest_ok [OF assms]
  have "is_terminal (so_status o1)" if "cancel_at_end" "o1 \<in> set (br_orders r)" for o1
  proof -
    have "so_status o1 \<noteq> O_OPEN" using ok(10) that by (auto simp: open_orders_def filter_empty_conv)
    moreover have "so_status o1 \<noteq> O_CREATED" using ok(2) that(2) by (auto simp: orders_ok_def order_slot_def in_set_conv_nth)
    ultimately show ?thesis by (cases "so_status o1") (simp_all add: is_terminal_def)
  qed
  then show ?thesis using ok(9) by (simp add: list_all_iff)
qed

theorem backtest_ends_settled_witness:
  "\<exists>r. example_run True = Inr r \<and> ps_base_quantity (br_final r) = 0"
proof -
  obtain y r where y: "proper_strategy y" "run_backtest example_digest example_reader example_config y () True = Inr r"
    "example_run True = Inr r" by (rule example_run_ok)
  from conjunct2 [OF backtest_ends_settled [OF y(2,1)]] y(3) show ?thesis by (simp add: example_config_def)
qed

text \<open>C5: the engine does not look ahead: what it has recorded after the first candles of a stream is what it
  records on a longer stream by then, and later candles only extend fills, ledger and equity curve, append
  orders and end open ones.\<close>

theorem backtest_no_look_ahead:
  assumes "start_run H env strategy policy s0 = Inr st0" and "1 \<le> bk_max_orders (en_config env)" and "proper_strategy strategy"
    and "run_candles H env strategy callback (items @ rest) st0 = Inr st2"
  shows "\<exists>st1. run_candles H env strategy callback items st0 = Inr st1
    \<and> prefix (eg_fills st1) (eg_fills st2) \<and> prefix (eg_ledger st1) (eg_ledger st2) \<and> prefix (eg_equity st1) (eg_equity st2)
    \<and> length (eg_orders st1) \<le> length (eg_orders st2)
    \<and> (\<forall>i<length (eg_orders st1). eg_orders st2 ! i = eg_orders st1 ! i \<or> so_status (eg_orders st1 ! i) = O_OPEN
        \<and> same_order (eg_orders st1 ! i) (eg_orders st2 ! i) \<and> is_terminal (so_status (eg_orders st2 ! i)))"
proof -
  obtain st1 where st1: "run_candles H env strategy callback items st0 = Inr st1"
    "st2 = st1 \<or> run_candles H env strategy callback rest st1 = Inr st2"
    using run_candles_append [OF assms(4)] by blast
  have "loop_ok H env st0" using start_run_ok [OF assms(1,3)] assms(2) by simp
  with run_candles_ok [OF st1(1) assms(3)] have "loop_ok H env st1" by blast
  then have "progress st1 st2" using st1(2) run_candles_ok [OF _ assms(3)] progress_refl by blast
  then show ?thesis using st1(1) by (auto simp: progress_def evolves_def)
qed

lemma example_stage:
  obtains y env st0 st where "proper_strategy y" and "start_run example_digest env y None () = Inr st0"
    and "1 \<le> bk_max_orders (en_config env)"
    and "run_candles example_digest env y None (map Inr example_candles) st0 = Inr st" and "length (eg_equity st) = 3"
proof -
  obtain y :: "unit strategy" where y: "idle y" "proper_strategy y" using no_op_strategy_idle by blast
  obtain env where env: "make_env example_config example_snapshot (evaluation_of example_config) = Inr env"
    "en_config env = example_config" "en_evaluation env = evaluation_of example_config"
    using validated_config(3) [OF example_valid] by (simp add: make_env_def make_sizer_def)
  have cap: "dec28 (bk_initial_capital (en_config env)) = bk_initial_capital (en_config env)"
    "0 < bk_initial_capital (en_config env)" by (simp_all add: env(2) example_config_def)
  obtain st0 where st0: "start_run example_digest env y None () = Inr st0"
    "idle_ok example_digest (bk_initial_capital (en_config env)) st0" "eg_equity st0 = []" "eg_history st0 = []" "eg_seen st0 = 0"
    using idle_start [of y example_digest env "()", OF y(1) example_digest_sha256 cap] by blast
  have "\<exists>st. run_candles example_digest env y None (map Inr example_candles) st0 = Inr st \<and>
      idle_ok example_digest (bk_initial_capital (en_config env)) st \<and>
      length (eg_equity st) = length (eg_equity st0) + length (evaluated (en_evaluation env) example_candles)"
  proof (rule idle_loop [of y example_digest, OF y(1) example_digest_sha256 cap _ _ st0(2)])
    show "None = sy_on_warmup y" if "k \<in> set example_candles" "c_open_time k < dr_start (en_evaluation env)" for k
      using that by (auto simp: env(3) evaluation_of_def example_config_def example_candles_def example_bar_def)
  qed (use example_serves st0 example_evaluated in
      \<open>auto simp: serves_def follows_def env(2,3) example_config_def example_candles_def\<close>)
  then show ?thesis
    using that [OF y(2) st0(1)] st0(3) example_evaluated by (auto simp: env(2,3) example_config_def)
qed

theorem backtest_no_look_ahead_witness:
  "\<exists>y env st0 st1 st2. proper_strategy (y :: unit strategy) \<and> start_run example_digest env y None () = Inr st0
    \<and> run_candles example_digest env y None (map Inr (take 2 example_candles)) st0 = Inr st1
    \<and> run_candles example_digest env y None (map Inr example_candles) st0 = Inr st2
    \<and> prefix (eg_ledger st1) (eg_ledger st2)"
proof -
  obtain y :: "unit strategy" and env st0 st where y: "proper_strategy y" "start_run example_digest env y None () = Inr st0"
    "1 \<le> bk_max_orders (en_config env)" "run_candles example_digest env y None (map Inr example_candles) st0 = Inr st"
    by (rule example_stage)
  have "(map Inr example_candles :: candle result list) = map Inr (take 2 example_candles) @ map Inr (drop 2 example_candles)"
    by (simp flip: map_append)
  with y(4) have "run_candles example_digest env y None (map Inr (take 2 example_candles) @ map Inr (drop 2 example_candles)) st0 = Inr st"
    by simp
  from backtest_no_look_ahead [OF y(2,3,1) this] y(1,2,4) show ?thesis by blast
qed

text \<open>C18: between candles at most one protective stop is open, and it sells exactly the position.\<close>

theorem protective_stop_covers_position:
  assumes "start_run H env strategy policy s0 = Inr st0" and "1 \<le> bk_max_orders (en_config env)" and "proper_strategy strategy"
    and "run_candles H env strategy callback items st0 = Inr st"
  shows "length (open_stops (eg_orders st)) \<le> 1 \<and> portfolio_ok (eg_portfolio st)
    \<and> (\<forall>o1\<in>set (open_stops (eg_orders st)). oi_side (so_intent o1) = SELL \<and> oi_type (so_intent o1) = STOP_MARKET
        \<and> oi_quantity (so_intent o1) = pf_base (eg_portfolio st))"
proof -
  have "loop_ok H env st0" using start_run_ok [OF assms(1,3)] assms(2) by simp
  with run_candles_ok [OF assms(4,3)] have "engine_ok H env st" by (simp add: loop_ok_def)
  then show ?thesis by (simp add: engine_ok_def stops_ok_def)
qed

theorem protective_stop_covers_position_witness:
  "\<exists>y env st0 st. start_run example_digest env (y :: unit strategy) None () = Inr st0
    \<and> run_candles example_digest env y None (map Inr example_candles) st0 = Inr st
    \<and> length (open_stops (eg_orders st)) \<le> 1 \<and> portfolio_ok (eg_portfolio st)"
proof -
  obtain y :: "unit strategy" and env st0 st where y: "proper_strategy y" "start_run example_digest env y None () = Inr st0"
    "1 \<le> bk_max_orders (en_config env)" "run_candles example_digest env y None (map Inr example_candles) st0 = Inr st"
    by (rule example_stage)
  from protective_stop_covers_position [OF y(2,3,1,4)] y(2,4) show ?thesis by blast
qed



end
