(* ===== verification/Civil.thy ===== *)
theory Civil
  imports Market_Domain
begin

text \<open>
  The proleptic Gregorian calendar of Python's \<^verbatim>\<open>datetime\<close>, as far as the monthly partitions of
  \<^verbatim>\<open>app/market_data/storage.py\<close> and \<^verbatim>\<open>snapshots.py\<close> use it: the year and month of an instant, the first
  instant of a month, and the month after.  Days are counted from 0001-01-01; the Unix epoch is
  day 719162.
\<close>

section \<open>Years, months and days\<close>

definition is_leap :: "int \<Rightarrow> bool" where
  "is_leap y \<longleftrightarrow> y mod 4 = 0 \<and> (y mod 100 \<noteq> 0 \<or> y mod 400 = 0)"

definition days_before_year :: "int \<Rightarrow> int" where
  "days_before_year y = (let k = y - 1 in k * 365 + k div 4 - k div 100 + k div 400)"

definition days_before_month :: "int \<Rightarrow> int \<Rightarrow> int" where
  "days_before_month y m =
     (let l = (if is_leap y then 1 else 0) in
      if m \<le> 1 then 0 else if m = 2 then 31 else if m = 3 then 59 + l else if m = 4 then 90 + l
      else if m = 5 then 120 + l else if m = 6 then 151 + l else if m = 7 then 181 + l
      else if m = 8 then 212 + l else if m = 9 then 243 + l else if m = 10 then 273 + l
      else if m = 11 then 304 + l else 334 + l)"

definition day_micros :: int where
  "day_micros = 86400000000"

definition epoch_day :: int where
  "epoch_day = 719162"

text \<open>\<^verbatim>\<open>datetime(year, month, 1, tzinfo=UTC)\<close>\<close>

definition month_start :: "int \<times> int \<Rightarrow> instant" where
  "month_start ym = (case ym of (y, m) \<Rightarrow> (days_before_year y + days_before_month y m - epoch_day) * day_micros)"

text \<open>\<^verbatim>\<open>_next_month\<close>\<close>

definition next_month :: "int \<times> int \<Rightarrow> int \<times> int" where
  "next_month ym = (case ym of (y, m) \<Rightarrow> if m = 12 then (y + 1, 1) else (y, m + 1))"

definition year_of_day :: "int \<Rightarrow> int" where
  "year_of_day n =
     (let y = (400 * n) div 146097 + 1 in
      if n < days_before_year y then y - 1 else if days_before_year (y + 1) \<le> n then y + 1 else y)"

definition month_of_day :: "int \<Rightarrow> int \<Rightarrow> int" where
  "month_of_day y d =
     (let l = (if is_leap y then 1 else 0) in
      if d < 31 then 1 else if d < 59 + l then 2 else if d < 90 + l then 3 else if d < 120 + l then 4
      else if d < 151 + l then 5 else if d < 181 + l then 6 else if d < 212 + l then 7
      else if d < 243 + l then 8 else if d < 273 + l then 9 else if d < 304 + l then 10
      else if d < 334 + l then 11 else 12)"

text \<open>\<^verbatim>\<open>(value.year, value.month)\<close> of an instant.\<close>

definition month_of :: "instant \<Rightarrow> int \<times> int" where
  "month_of t =
     (let n = t div day_micros + epoch_day; y = year_of_day n in (y, month_of_day y (n - days_before_year y)))"

definition month_ok :: "int \<times> int \<Rightarrow> bool" where
  "month_ok ym \<longleftrightarrow> (case ym of (_, m) \<Rightarrow> 1 \<le> m \<and> m \<le> 12)"

section \<open>The calendar is consistent\<close>

lemma div_bounds:
  fixes x d :: int
  assumes "0 < d"
  shows "d * (x div d) \<le> x" "x < d * (x div d) + d" "x div d * d \<le> x" "x < (x div d + 1) * d"
proof -
  have e: "x = d * (x div d) + x mod d" by simp
  have m: "0 \<le> x mod d" "x mod d < d" using assms by simp_all
  show "d * (x div d) \<le> x" using e m by linarith
  show "x < d * (x div d) + d" using e m by linarith
  then show "x < (x div d + 1) * d" by (simp add: algebra_simps)
  show "x div d * d \<le> x" using \<open>d * (x div d) \<le> x\<close> by (simp add: mult.commute)
qed

lemma div_pred:
  fixes y d :: int
  assumes "0 < d"
  shows "y div d = (y - 1) div d + (if y mod d = 0 then 1 else 0)"
proof -
  let ?q = "(y - 1) div d"
  have b: "d * ?q \<le> y - 1" "y - 1 < d * ?q + d" using div_bounds(1,2) [OF assms, of "y - 1"] by simp_all
  show ?thesis
  proof (cases "y = d * (?q + 1)")
    case True
    then have "y div d = ?q + 1" "y mod d = 0" using assms by (metis nonzero_mult_div_cancel_left less_irrefl, metis mod_mult_self1_is_0)
    then show ?thesis by simp
  next
    case False
    have y: "y = d * ?q + (y - d * ?q)" by simp
    have r: "0 < y - d * ?q" "y - d * ?q < d" using b False by (simp_all add: algebra_simps)
    have "y div d = ?q" "y mod d = y - d * ?q"
      using int_div_pos_eq [OF y] int_mod_pos_eq [OF y] r by simp_all
    then show ?thesis using r by simp
  qed
qed

lemma days_before_year_bounds:
  "400 * days_before_year y \<le> 146097 * (y - 1) + 396"
  "146097 * (y - 1) - 699 \<le> 400 * days_before_year y"
proof -
  define k a b c where d: "k = y - 1" "a = k div 4" "b = k div 100" "c = k div 400"
  have "days_before_year y = k * 365 + a - b + c" by (simp add: days_before_year_def d Let_def)
  moreover have "4 * a \<le> k" "k < 4 * a + 4" "100 * b \<le> k" "k < 100 * b + 100" "400 * c \<le> k" "k < 400 * c + 400"
    unfolding d(2-4) by (rule div_bounds; simp)+
  ultimately show "400 * days_before_year y \<le> 146097 * (y - 1) + 396" "146097 * (y - 1) - 699 \<le> 400 * days_before_year y"
    unfolding d(1) [symmetric] by linarith+
qed

lemma mod_400_imp: "y mod 400 = 0 \<Longrightarrow> y mod 100 = 0" for y :: int
  using mod_mod_cancel [of 100 400 y] by simp

lemma mod_100_imp: "y mod 100 = 0 \<Longrightarrow> y mod 4 = 0" for y :: int
  using mod_mod_cancel [of 4 100 y] by simp

lemma leap_sum:
  "(c \<Longrightarrow> b) \<Longrightarrow> (b \<Longrightarrow> a) \<Longrightarrow> (if a then 1 else 0) - (if b then 1 else 0) + (if c then 1 else 0)
     = (if a \<and> (\<not> b \<or> c) then 1 else (0 :: int))"
  by (cases a; cases b; cases c) simp_all

lemma days_before_year_Suc:
  "days_before_year (y + 1) = days_before_year y + 365 + (if is_leap y then 1 else 0)"
proof -
  have s: "y div 4 = (y - 1) div 4 + (if y mod 4 = 0 then 1 else 0)"
    "y div 100 = (y - 1) div 100 + (if y mod 100 = 0 then 1 else 0)"
    "y div 400 = (y - 1) div 400 + (if y mod 400 = 0 then 1 else 0)"
    by (rule div_pred, simp)+
  have "days_before_year (y + 1) = y * 365 + y div 4 - y div 100 + y div 400"
    by (simp only: days_before_year_def Let_def add_diff_cancel_right')
  also have "\<dots> = days_before_year y + 365 + ((if y mod 4 = 0 then 1 else 0) - (if y mod 100 = 0 then 1 else 0)
      + (if y mod 400 = 0 then 1 else 0))"
    unfolding s by (simp only: days_before_year_def Let_def) (simp only: algebra_simps)
  also have "(if y mod 4 = 0 then 1 else 0) - (if y mod 100 = 0 then 1 else 0) + (if y mod 400 = 0 then 1 else 0)
      = (if is_leap y then 1 else (0 :: int))"
    unfolding is_leap_def by (rule leap_sum) (erule mod_400_imp, erule mod_100_imp)
  finally show ?thesis by (simp only: add.assoc)
qed

lemma month_cases:
  fixes m :: int
  assumes "1 \<le> m" and "m \<le> 12"
  obtains "m = 1" | "m = 2" | "m = 3" | "m = 4" | "m = 5" | "m = 6" | "m = 7" | "m = 8" | "m = 9" | "m = 10"
    | "m = 11" | "m = 12"
proof -
  have "m = 1 \<or> m = 2 \<or> m = 3 \<or> m = 4 \<or> m = 5 \<or> m = 6 \<or> m = 7 \<or> m = 8 \<or> m = 9 \<or> m = 10 \<or> m = 11 \<or> m = 12"
    using assms by presburger
  then show thesis using that by blast
qed

lemma year_of_day_bounds:
  "days_before_year (year_of_day n) \<le> n" "n < days_before_year (year_of_day n + 1)"
proof -
  define y where "y = (400 * n) div 146097 + 1"
  have a: "146097 * y - 146097 \<le> 400 * n" "400 * n < 146097 * y"
    using div_bounds(1,2) [of 146097 "400 * n"] by (simp_all add: y_def algebra_simps)
  have lo: "days_before_year (y - 1) \<le> n"
    using days_before_year_bounds(1) [of "y - 1"] a by (simp add: algebra_simps)
  have hi: "n < days_before_year (y + 2)"
    using days_before_year_bounds(2) [of "y + 2"] a by (simp add: algebra_simps)
  have e: "year_of_day n = (if n < days_before_year y then y - 1 else if days_before_year (y + 1) \<le> n then y + 1 else y)"
    by (simp add: year_of_day_def y_def Let_def)
  show "days_before_year (year_of_day n) \<le> n" unfolding e using lo by simp
  show "n < days_before_year (year_of_day n + 1)" unfolding e using hi by (simp add: add.commute)
qed

lemma month_of_day_bounds:
  assumes "0 \<le> d" and "d < 365 + (if is_leap y then 1 else 0)"
  shows "1 \<le> month_of_day y d" "month_of_day y d \<le> 12" "days_before_month y (month_of_day y d) \<le> d"
    "month_of_day y d < 12 \<Longrightarrow> d < days_before_month y (month_of_day y d + 1)"
proof -
  define l :: int where "l = (if is_leap y then 1 else 0)"
  have l: "0 \<le> l" "l \<le> 1" by (simp_all add: l_def)
  note unfolded = month_of_day_def days_before_month_def Let_def l_def [symmetric]
  show "1 \<le> month_of_day y d" "month_of_day y d \<le> 12" by (simp_all add: unfolded)
  show "days_before_month y (month_of_day y d) \<le> d"
    using assms(1) l by (simp add: unfolded)
  show "month_of_day y d < 12 \<Longrightarrow> d < days_before_month y (month_of_day y d + 1)"
    by (simp add: unfolded split: if_splits)
qed

lemma month_of_ok [simp]: "month_ok (month_of t)"
proof -
  let ?n = "t div day_micros + epoch_day"
  have "0 \<le> ?n - days_before_year (year_of_day ?n)"
    "?n - days_before_year (year_of_day ?n) < 365 + (if is_leap (year_of_day ?n) then 1 else 0)"
    using year_of_day_bounds [of ?n] days_before_year_Suc [of "year_of_day ?n"] by simp_all
  from month_of_day_bounds(1,2) [OF this] show ?thesis
    by (simp add: month_ok_def month_of_def Let_def)
qed

lemma month_start_step:
  assumes "month_ok ym"
  shows "month_start ym < month_start (next_month ym)"
proof -
  obtain y m where ym: "ym = (y, m)" by (cases ym)
  then have m: "1 \<le> m" "m \<le> 12" using assms by (simp_all add: month_ok_def)
  have days: "days_before_year y + days_before_month y m < (if m = 12 then days_before_year (y + 1) + days_before_month (y + 1) 1
      else days_before_year y + days_before_month y (m + 1))"
    by (rule month_cases [OF m]) (simp_all add: days_before_year_Suc days_before_month_def Let_def)
  then show ?thesis
    by (auto simp: ym month_start_def next_month_def day_micros_def split: if_splits)
qed

lemma month_of_within:
  "month_start (month_of t) \<le> t" "t < month_start (next_month (month_of t))"
proof -
  let ?n = "t div day_micros + epoch_day"
  let ?y = "year_of_day ?n"
  let ?d = "?n - days_before_year ?y"
  let ?m = "month_of_day ?y ?d"
  have y: "0 \<le> ?d" "?d < 365 + (if is_leap ?y then 1 else 0)"
    using year_of_day_bounds [of ?n] days_before_year_Suc [of ?y] by simp_all
  note m = month_of_day_bounds [OF y]
  have mo: "month_of t = (?y, ?m)" by (simp add: month_of_def Let_def)
  have p: "0 < day_micros" by (simp add: day_micros_def)
  have t: "t div day_micros * day_micros \<le> t" "t < (t div day_micros + 1) * day_micros"
    using div_bounds(3,4) [OF p] by simp_all
  have "days_before_year ?y + days_before_month ?y ?m - epoch_day \<le> t div day_micros" using m(3) by simp
  with p t(1) show "month_start (month_of t) \<le> t"
    by (simp add: mo month_start_def) (meson mult_right_mono less_imp_le order_trans)
  have "t div day_micros + 1 \<le> (if ?m = 12 then days_before_year (?y + 1) + days_before_month (?y + 1) 1
      else days_before_year ?y + days_before_month ?y (?m + 1)) - epoch_day"
  proof (cases "?m = 12")
    case True
    then show ?thesis using y by (simp add: days_before_year_Suc days_before_month_def)
  next
    case False
    then have "?m < 12" using m(2) by simp
    then show ?thesis using m(4) False by simp
  qed
  then have "(t div day_micros + 1) * day_micros \<le> month_start (next_month (month_of t))"
    using p by (auto simp: mo month_start_def next_month_def split: if_splits)
  with t(2) show "t < month_start (next_month (month_of t))" by simp
qed

section \<open>Months are ordered as the instants they contain\<close>

definition month_index :: "int \<times> int \<Rightarrow> int" where
  "month_index ym = 12 * fst ym + snd ym"

lemma month_index_next [simp]: "month_index (next_month ym) = month_index ym + 1"
  by (cases ym) (simp add: month_index_def next_month_def)

lemma next_month_ok [simp]: "month_ok ym \<Longrightarrow> month_ok (next_month ym)"
  by (cases ym) (simp add: month_ok_def next_month_def)

lemma month_index_inj:
  assumes "month_ok a" and "month_ok b" and "month_index a = month_index b"
  shows "a = b"
proof -
  obtain y m z n where ab: "a = (y, m)" "b = (z, n)" by (cases a, cases b)
  then have "1 \<le> m" "m \<le> 12" "1 \<le> n" "n \<le> 12" "12 * y + m = 12 * z + n"
    using assms by (simp_all add: month_ok_def month_index_def)
  then have "y = z" by presburger
  with \<open>12 * y + m = 12 * z + n\<close> show ?thesis by (simp add: ab)
qed

lemma month_index_iter: "month_index ((next_month ^^ k) ym) = month_index ym + int k"
  by (induction k) simp_all

lemma month_ok_iter: "month_ok ym \<Longrightarrow> month_ok ((next_month ^^ k) ym)"
  by (induction k) simp_all

lemma month_iter:
  assumes "month_ok a" and "month_ok b" and "month_index a \<le> month_index b"
  shows "b = (next_month ^^ nat (month_index b - month_index a)) a"
  by (rule month_index_inj) (use assms in \<open>simp_all add: month_ok_iter month_index_iter\<close>)

lemma month_start_iter:
  assumes "month_ok ym"
  shows "month_start ym \<le> month_start ((next_month ^^ k) ym)"
proof (induction k)
  case 0
  show ?case by simp
next
  case (Suc k)
  with month_start_step [OF month_ok_iter [OF assms, of k]] show ?case by simp
qed

lemma month_start_mono:
  assumes "month_ok a" and "month_ok b" and "month_index a \<le> month_index b"
  shows "month_start a \<le> month_start b"
  using month_start_iter [OF assms(1)] month_iter [OF assms] by metis

lemma month_start_less_iff:
  assumes "month_ok a" and "month_ok b"
  shows "month_start a < month_start b \<longleftrightarrow> month_index a < month_index b"
proof
  assume "month_start a < month_start b"
  then show "month_index a < month_index b" using month_start_mono [OF assms(2,1)] by fastforce
next
  assume "month_index a < month_index b"
  then have "month_start (next_month a) \<le> month_start b" using assms by (intro month_start_mono) simp_all
  then show "month_start a < month_start b" using month_start_step [OF assms(1)] by simp
qed

text \<open>An instant lies in exactly one month, and the months follow the order of the instants.\<close>

lemma month_of_unique:
  assumes "month_ok ym" and "month_start ym \<le> t" and "t < month_start (next_month ym)"
  shows "month_of t = ym"
proof (rule month_index_inj)
  have "month_start ym < month_start (next_month (month_of t))" "month_start (month_of t) < month_start (next_month ym)"
    using assms month_of_within [of t] by simp_all
  then show "month_index (month_of t) = month_index ym"
    using assms(1) by (simp add: month_start_less_iff)
qed (use assms in simp_all)

lemma month_of_mono: "s \<le> t \<Longrightarrow> month_index (month_of s) \<le> month_index (month_of t)"
proof -
  assume "s \<le> t"
  then have "month_start (month_of s) < month_start (next_month (month_of t))" using month_of_within [of s] month_of_within [of t] by simp
  then show ?thesis by (simp add: month_start_less_iff)
qed

lemma month_of_start: "month_ok ym \<Longrightarrow> month_of (month_start ym) = ym"
  by (rule month_of_unique) (simp_all add: month_start_step)

lemma month_le_iff_index:
  assumes "month_ok a" and "month_ok b"
  shows "a < b \<longleftrightarrow> month_index a < month_index b"
proof -
  obtain y m z n where ab: "a = (y, m)" "b = (z, n)" by (cases a, cases b)
  then have "1 \<le> m" "m \<le> 12" "1 \<le> n" "n \<le> 12" using assms by (simp_all add: month_ok_def)
  then have "(y < z \<or> y = z \<and> m < n) \<longleftrightarrow> 12 * y + m < 12 * z + n" by (cases y z rule: linorder_cases) simp_all
  then show ?thesis by (auto simp: ab month_index_def)
qed

lemma month_of_examples:
  "month_of 0 = (1970, 1)" "month_of 1709251200000000 = (2024, 3)" "month_start (2024, 3) = 1709251200000000"
  by code_simp+

end
