(* ===== verification/Candle_Store.thy ===== *)
theory Candle_Store
  imports Resampling Planning Civil "HOL-Library.AList"
begin

text \<open>
  The partitioned candle store of \<^verbatim>\<open>app/market_data/storage.py\<close>: one Parquet file of rows per dataset
  and month, read back with full validation, and the pure planning of an upsert with the integrity
  data it publishes.  The file system is an association list from paths to rows; a row is a candle
  record whose timeframe counts by its code only, and files of another schema do not occur.
  SHA-256 over the canonical row encoding is a parameter.
\<close>

section \<open>Paths, files and digests\<close>

text \<open>Exchanges and markets are ordered as their texts, which paths are made of.\<close>

instantiation exchange :: linorder
begin

definition less_eq_exchange :: "exchange \<Rightarrow> exchange \<Rightarrow> bool" where
  "less_eq_exchange a b \<longleftrightarrow> exchange_value a \<le> exchange_value b"

definition less_exchange :: "exchange \<Rightarrow> exchange \<Rightarrow> bool" where
  "less_exchange a b \<longleftrightarrow> exchange_value a < exchange_value b"

instance
proof
  fix a b :: exchange
  show "a = b" by (cases a; cases b) simp
qed (auto simp: less_eq_exchange_def less_exchange_def)

end

lemma market_type_value_inj: "market_type_value a = market_type_value b \<Longrightarrow> a = b"
  by (cases a; cases b) simp_all

instantiation market_type :: linorder
begin

definition less_eq_market_type :: "market_type \<Rightarrow> market_type \<Rightarrow> bool" where
  "less_eq_market_type a b \<longleftrightarrow> market_type_value a \<le> market_type_value b"

definition less_market_type :: "market_type \<Rightarrow> market_type \<Rightarrow> bool" where
  "less_market_type a b \<longleftrightarrow> market_type_value a < market_type_value b"

instance
  by standard (auto simp: less_eq_market_type_def less_market_type_def intro: market_type_value_inj)

end

type_synonym dataset_id = "exchange \<times> market_type \<times> string \<times> string"

type_synonym month = "int \<times> int"

text \<open>The target of a month, and its \<^verbatim>\<open>.tmp-\<close> and \<^verbatim>\<open>.bak-\<close> siblings of a transaction.\<close>

datatype artifact = Target | Temporary string | Backup string

type_synonym path = "dataset_id \<times> month \<times> artifact"

type_synonym files = "(path \<times> candle list) list"

type_synonym entry = "(dataset_id \<times> month) \<times> string"

record hashes =
  hs_rows :: "candle list \<Rightarrow> string"
  hs_version :: "entry list \<Rightarrow> string"

definition partition_target :: "dataset_id \<Rightarrow> month \<Rightarrow> path" where
  "partition_target ds ym = (ds, ym, Target)"

text \<open>\<^verbatim>\<open>sorted(dataset.glob("year=*/month=*/candles.parquet"))\<close>\<close>

definition partition_months :: "files \<Rightarrow> dataset_id \<Rightarrow> month list" where
  "partition_months fs ds =
     sort (remdups (map (\<lambda>(p, _). fst (snd p)) (filter (\<lambda>((d, _, a), _). d = ds \<and> a = Target) fs)))"

section \<open>Reading a partition\<close>

definition row_to_candle :: "candle \<Rightarrow> timeframe \<Rightarrow> candle result" where
  "row_to_candle row tf =
     res_bind (datetime_to_epoch_milliseconds (Aware (c_open_time row) 0)) (\<lambda>_.
     res_bind (datetime_to_epoch_milliseconds (Aware (c_close_time row) 0)) (\<lambda>_.
     res_bind (res_fold (\<lambda>v _. validate_decimal128_38_18 v) (candle_decimals row) ()) (\<lambda>_.
     make_candle (row\<lparr>c_timeframe := tf\<rparr>) (Aware (c_open_time row) 0) (Aware (c_close_time row) 0))))"

text \<open>The body of the loop of \<^verbatim>\<open>_read_file\<close>; the keys seen and the previous open time are those of \<open>rows\<close>.\<close>

definition read_row :: "dataset_id \<Rightarrow> timeframe \<Rightarrow> month \<Rightarrow> candle \<Rightarrow> candle list \<Rightarrow> candle list result" where
  "read_row ds tf ym row rows =
     require (candle_identity row = ds) MarketDataInconsistency (
     res_bind (row_to_candle row tf) (\<lambda>c.
     res_bind (validate_candle_serialization c True) (\<lambda>_.
     require (candle_key c \<notin> candle_key ` set rows) MarketDataInconsistency (
     require (rows = [] \<or> \<not> c_open_time c \<le> c_open_time (last rows)) MarketDataInconsistency (
     require (month_of (c_open_time c) = ym) MarketDataInconsistency (Inr (rows @ [c])))))))"

definition read_file :: "files \<Rightarrow> dataset_id \<Rightarrow> timeframe \<Rightarrow> month \<Rightarrow> candle list result" where
  "read_file fs ds tf ym =
     (case map_of fs (partition_target ds ym) of None \<Rightarrow> Inr []
      | Some rows \<Rightarrow> res_fold (read_row ds tf ym) rows [])"

text \<open>
  The cursor loop of \<^verbatim>\<open>_partition_paths\<close> from the month of the start; it ends because every month
  begins later than the one before.
\<close>

function months_from :: "month \<Rightarrow> instant \<Rightarrow> month list" where
  "months_from ym finish =
     (if month_ok ym \<and> month_start ym < finish then ym # months_from (next_month ym) finish else [])"
  by auto

termination
proof (relation "measure (\<lambda>(ym, finish). nat (finish - month_start ym))", goal_cases)
  case 1
  then show ?case by simp
next
  case (2 ym finish)
  then show ?case using month_start_step [of ym] by simp
qed

declare months_from.simps [simp del]

definition range_partitions :: "files \<Rightarrow> dataset_id \<Rightarrow> data_range \<Rightarrow> month list" where
  "range_partitions fs ds r =
     filter (\<lambda>ym. map_of fs (partition_target ds ym) \<noteq> None) (months_from (month_of (dr_start r)) (dr_end r))"

definition read_months :: "files \<Rightarrow> dataset_id \<Rightarrow> timeframe \<Rightarrow> month list \<Rightarrow> candle list result" where
  "read_months fs ds tf yms =
     res_fold (\<lambda>ym acc. res_bind (read_file fs ds tf ym) (\<lambda>rows. Inr (acc @ rows))) yms []"

definition store_read :: "files \<Rightarrow> dataset_id \<Rightarrow> timeframe \<Rightarrow> data_range \<Rightarrow> candle list result" where
  "store_read fs ds tf r =
     res_bind (read_months fs ds tf (range_partitions fs ds r)) (\<lambda>candles.
     Inr (filter (\<lambda>c. dr_start r \<le> c_open_time c \<and> c_open_time c < dr_end r) (sort_key c_open_time candles)))"

section \<open>Integrity of a dataset\<close>

definition raw_partition_logical_checksum :: "hashes \<Rightarrow> candle list \<Rightarrow> string result" where
  "raw_partition_logical_checksum H candles =
     (let ordered = sort_key c_open_time candles
      in require (list_all (\<lambda>(l, r). \<not> c_open_time r \<le> c_open_time l) (adjacent ordered)) MarketDataInconsistency
           (Inr (hs_rows H ordered)))"

definition compose_raw_dataset_version :: "hashes \<Rightarrow> entry list \<Rightarrow> string result" where
  "compose_raw_dataset_version H entries =
     require (distinct (map fst entries)) MarketDataInconsistency (Inr (hs_version H (sort_key fst entries)))"

record integrity =
  ig_entries :: "entry list"
  ig_current_version :: string
  ig_legacy_version :: string
  ig_first :: "instant option"
  ig_last :: "instant option"
  ig_count :: int

text \<open>The running minimum, maximum and count over the rows, and one entry per partition.\<close>

type_synonym scan = "entry list \<times> candle list \<times> instant option \<times> instant option \<times> int"

definition scan_row :: "candle \<Rightarrow> scan \<Rightarrow> scan" where
  "scan_row c s = (case s of (entries, hashed, earliest, latest, n) \<Rightarrow>
     (entries, hashed @ [c],
      Some (case earliest of None \<Rightarrow> c_open_time c | Some t \<Rightarrow> min t (c_open_time c)),
      Some (case latest of None \<Rightarrow> c_open_time c | Some t \<Rightarrow> max t (c_open_time c)), n + 1))"

definition scan_partition :: "hashes \<Rightarrow> dataset_id \<Rightarrow> month \<Rightarrow> candle list \<Rightarrow> scan \<Rightarrow> scan result" where
  "scan_partition H ds ym rows s =
     res_bind (raw_partition_logical_checksum H rows) (\<lambda>checksum.
     case s of (entries, rest) \<Rightarrow> Inr (fold scan_row rows (entries @ [((ds, ym), checksum)], rest)))"

definition scan_result :: "hashes \<Rightarrow> scan \<Rightarrow> integrity result" where
  "scan_result H s = (case s of (entries, hashed, earliest, latest, n) \<Rightarrow>
     res_bind (compose_raw_dataset_version H entries) (\<lambda>version.
     Inr \<lparr>ig_entries = entries, ig_current_version = version, ig_legacy_version = hs_rows H hashed,
          ig_first = earliest, ig_last = latest, ig_count = n\<rparr>))"

definition partition_integrity_snapshot :: "hashes \<Rightarrow> files \<Rightarrow> dataset_id \<Rightarrow> timeframe \<Rightarrow> integrity result" where
  "partition_integrity_snapshot H fs ds tf =
     res_bind (res_fold (\<lambda>ym s. res_bind (read_file fs ds tf ym) (\<lambda>rows. scan_partition H ds ym rows s))
       (partition_months fs ds) ([], [], None, None, 0)) (scan_result H)"

text \<open>\<^verbatim>\<open>dict.update\<close> on candles by key: a known key keeps its place.\<close>

definition put_candle :: "candle \<Rightarrow> candle list \<Rightarrow> candle list" where
  "put_candle c cs =
     (if candle_key c \<in> candle_key ` set cs then map (\<lambda>d. if candle_key d = candle_key c then c else d) cs
      else cs @ [c])"

definition months_of :: "candle list \<Rightarrow> month list" where
  "months_of cs = sort (remdups (map (\<lambda>c. month_of (c_open_time c)) cs))"

definition in_month :: "month \<Rightarrow> candle list \<Rightarrow> candle list" where
  "in_month ym cs = filter (\<lambda>c. month_of (c_open_time c) = ym) cs"

definition future_dataset_integrity ::
    "hashes \<Rightarrow> files \<Rightarrow> dataset_id \<Rightarrow> timeframe \<Rightarrow> candle list \<Rightarrow> integrity result" where
  "future_dataset_integrity H fs ds tf incoming =
     res_bind (res_fold (\<lambda>ym acc. res_bind (read_file fs ds tf ym) (\<lambda>rows.
         res_fold (\<lambda>c l. require (candle_key c \<notin> candle_key ` set l) MarketDataInconsistency (Inr (l @ [c]))) rows acc))
       (partition_months fs ds) []) (\<lambda>logical.
     let all_rows = fold put_candle incoming logical
     in res_bind (res_fold (\<lambda>ym. scan_partition H ds ym (sort_key c_open_time (in_month ym all_rows)))
          (months_of all_rows) ([], [], None, None, 0)) (scan_result H))"

section \<open>Planning an upsert\<close>

record planned_partition =
  pp_target :: path
  pp_temporary :: path
  pp_backup :: path
  pp_had_original :: bool
  pp_candles :: "candle list"

record upsert_plan =
  up_transaction :: string
  up_partitions :: "planned_partition list"
  up_stored :: int
  up_duplicates :: int
  up_first :: "instant option"
  up_last :: "instant option"
  up_count :: int
  up_checksum :: string
  up_entries :: "entry list"

text \<open>One incoming candle against the candles collected so far: new, an exact duplicate, or a conflict.\<close>

definition add_candle :: "candle \<Rightarrow> candle list \<times> int \<times> int \<Rightarrow> (candle list \<times> int \<times> int) result" where
  "add_candle c s = (case s of (cs, fresh, dups) \<Rightarrow>
     (case find (\<lambda>d. candle_key d = candle_key c) cs of
        None \<Rightarrow> Inr (cs @ [c], fresh + 1, dups)
      | Some d \<Rightarrow> require (d = c) MarketDataInconsistency (Inr (cs, fresh, dups + 1))))"

definition add_incoming ::
    "dataset_id \<Rightarrow> candle \<Rightarrow> candle list \<times> int \<times> int \<Rightarrow> (candle list \<times> int \<times> int) result" where
  "add_incoming ds c s =
     res_bind (validate_candle_serialization c True) (\<lambda>_.
     require (candle_identity c = ds) MarketDataInconsistency (add_candle c s))"

definition plan_partition :: "string \<Rightarrow> files \<Rightarrow> dataset_id \<Rightarrow> month \<Rightarrow> candle list \<Rightarrow> planned_partition" where
  "plan_partition txn fs ds ym merged =
     \<lparr>pp_target = partition_target ds ym, pp_temporary = (ds, ym, Temporary txn), pp_backup = (ds, ym, Backup txn),
      pp_had_original = (map_of fs (partition_target ds ym) \<noteq> None), pp_candles = sort_key c_open_time merged\<rparr>"

definition plan_month ::
    "string \<Rightarrow> files \<Rightarrow> dataset_id \<Rightarrow> timeframe \<Rightarrow> candle list \<Rightarrow> month
     \<Rightarrow> planned_partition list \<times> int \<times> int \<Rightarrow> (planned_partition list \<times> int \<times> int) result" where
  "plan_month txn fs ds tf unique ym s = (case s of (planned, stored, dups) \<Rightarrow>
     res_bind (read_file fs ds tf ym) (\<lambda>existing.
     require (distinct (map candle_key existing)) MarketDataInconsistency (
     res_bind (res_fold add_candle (in_month ym unique) (existing, 0, dups)) (\<lambda>(merged, fresh, dups').
     Inr (if fresh = 0 then (planned, stored, dups')
          else (planned @ [plan_partition txn fs ds ym merged], stored + fresh, dups'))))))"

definition plan_upsert :: "hashes \<Rightarrow> files \<Rightarrow> candle list \<Rightarrow> string \<Rightarrow> upsert_plan result" where
  "plan_upsert H fs candles txn =
     (case candles of
        [] \<Rightarrow> res_bind (compose_raw_dataset_version H []) (\<lambda>version.
          Inr \<lparr>up_transaction = txn, up_partitions = [], up_stored = 0, up_duplicates = 0, up_first = None,
               up_last = None, up_count = 0, up_checksum = version, up_entries = []\<rparr>)
      | c # _ \<Rightarrow>
          let ds = candle_identity c; tf = c_timeframe c in
          res_bind (res_fold (add_incoming ds) candles ([], 0, 0)) (\<lambda>(unique, _, dups).
          res_bind (res_fold (plan_month txn fs ds tf unique) (months_of unique) ([], 0, dups))
            (\<lambda>(planned, stored, dups').
          res_bind (future_dataset_integrity H fs ds tf unique) (\<lambda>future.
          Inr \<lparr>up_transaction = txn, up_partitions = planned, up_stored = stored, up_duplicates = dups',
               up_first = ig_first future, up_last = ig_last future, up_count = ig_count future,
               up_checksum = ig_current_version future, up_entries = ig_entries future\<rparr>))))"

end
