(* ===== verification/Candle_Plan.thy ===== *)
theory Candle_Plan
  imports Candle_Store
begin

text \<open>
  What the candle store holds and what a planned upsert makes of it: the invariant of a stored
  dataset, its content as a finite map from open times, reading back, merging, and the integrity
  data computed before and after the write.
\<close>

section \<open>Lists ordered by a key\<close>

definition strict_by :: "('a \<Rightarrow> 'k :: linorder) \<Rightarrow> 'a list \<Rightarrow> bool" where
  "strict_by f xs \<longleftrightarrow> sorted_wrt (\<lambda>l r. f l < f r) xs"

lemma strict_by_simps [simp]:
  "strict_by f []"
  "strict_by f (x # xs) \<longleftrightarrow> (\<forall>y\<in>set xs. f x < f y) \<and> strict_by f xs"
  by (simp_all add: strict_by_def)

lemma strict_by_append:
  "strict_by f (xs @ ys) \<longleftrightarrow> strict_by f xs \<and> strict_by f ys \<and> (\<forall>x\<in>set xs. \<forall>y\<in>set ys. f x < f y)"
  by (simp add: strict_by_def sorted_wrt_append)

lemma strict_by_distinct: "strict_by f xs \<Longrightarrow> distinct (map f xs)"
  by (induction xs) auto

lemma strict_by_sort: "distinct (map f xs) \<Longrightarrow> strict_by f (sort_key f xs)"
proof -
  assume d: "distinct (map f xs)"
  have "sorted (map f (sort_key f xs))" by simp
  moreover have "distinct (map f (sort_key f xs))"
    using d by (metis distinct_map distinct_sort set_sort)
  ultimately have "sorted_wrt (<) (map f (sort_key f xs))" by (simp add: strict_sorted_iff)
  then show ?thesis by (simp add: strict_by_def sorted_wrt_map)
qed

lemma strict_by_unique: "strict_by f xs \<Longrightarrow> strict_by f ys \<Longrightarrow> set xs = set ys \<Longrightarrow> xs = ys"
proof (induction xs arbitrary: ys)
  case Nil
  then show ?case by simp
next
  case (Cons x xs)
  then obtain y zs where ys: "ys = y # zs" by (cases ys) auto
  have "x = y"
  proof (rule ccontr)
    assume "x \<noteq> y"
    then have "x \<in> set zs" "y \<in> set xs" using Cons.prems(3) by (auto simp: ys)
    then show False using Cons.prems(1,2) by (fastforce simp: ys)
  qed
  moreover from this have "set xs = set zs" using Cons.prems by (auto simp: ys)
  ultimately show ?case using Cons by (simp add: ys)
qed

lemma sort_key_strict: "strict_by f xs \<Longrightarrow> sort_key f xs = xs"
  by (rule strict_by_unique) (simp_all add: strict_by_sort strict_by_distinct)

lemma strict_by_filter: "strict_by f xs \<Longrightarrow> strict_by f (filter P xs)"
  by (simp add: strict_by_def sorted_wrt_filter)

lemma strict_by_find: "strict_by f xs \<Longrightarrow> find (\<lambda>x. f x = t) xs = Some c \<longleftrightarrow> c \<in> set xs \<and> f c = t"
  by (induction xs) auto

lemma strict_by_adjacent: "strict_by f xs \<Longrightarrow> list_all (\<lambda>(l, r). \<not> f r \<le> f l) (adjacent xs)"
  by (induction xs rule: induct_list012) auto

section \<open>The stored dataset\<close>

text \<open>A candle the schema holds exactly: it reads back as itself.\<close>

definition storable :: "timeframe \<Rightarrow> candle \<Rightarrow> bool" where
  "storable tf c \<longleftrightarrow> c_timeframe c = tf \<and> row_to_candle c tf = Inr c \<and> validate_candle_serialization c True = Inr ()"

definition partition_ok :: "dataset_id \<Rightarrow> timeframe \<Rightarrow> month \<Rightarrow> candle list \<Rightarrow> bool" where
  "partition_ok ds tf ym rows \<longleftrightarrow> rows \<noteq> [] \<and> strict_by c_open_time rows \<and>
     list_all (\<lambda>c. candle_identity c = ds \<and> storable tf c \<and> month_of (c_open_time c) = ym) rows"

definition rows_of :: "files \<Rightarrow> dataset_id \<Rightarrow> month \<Rightarrow> candle list" where
  "rows_of fs ds ym = (case map_of fs (partition_target ds ym) of None \<Rightarrow> [] | Some rows \<Rightarrow> rows)"

definition dataset_ok :: "files \<Rightarrow> dataset_id \<Rightarrow> timeframe \<Rightarrow> bool" where
  "dataset_ok fs ds tf \<longleftrightarrow> list_all (\<lambda>ym. partition_ok ds tf ym (rows_of fs ds ym)) (partition_months fs ds)"

text \<open>The abstract store: a map from open times to candles.\<close>

definition content :: "files \<Rightarrow> dataset_id \<Rightarrow> instant \<rightharpoonup> candle" where
  "content fs ds t = find (\<lambda>c. c_open_time c = t) (rows_of fs ds (month_of t))"

lemma partition_months_set: "ym \<in> set (partition_months fs ds) \<longleftrightarrow> map_of fs (partition_target ds ym) \<noteq> None"
  by (force simp: partition_months_def partition_target_def map_of_eq_None_iff image_iff)

lemma partition_months_sorted: "sorted_wrt (<) (partition_months fs ds)"
  by (simp add: partition_months_def strict_sorted_iff)

lemma rows_of_None: "ym \<notin> set (partition_months fs ds) \<Longrightarrow> rows_of fs ds ym = []"
  by (simp add: partition_months_set rows_of_def)

lemma dataset_ok_rows: "dataset_ok fs ds tf \<Longrightarrow> ym \<in> set (partition_months fs ds) \<Longrightarrow> partition_ok ds tf ym (rows_of fs ds ym)"
  by (simp add: dataset_ok_def list_all_iff)

lemma dataset_okD:
  assumes "dataset_ok fs ds tf"
  shows "strict_by c_open_time (rows_of fs ds ym)"
    and "c \<in> set (rows_of fs ds ym) \<Longrightarrow> candle_identity c = ds \<and> storable tf c \<and> month_of (c_open_time c) = ym"
    and "ym \<in> set (partition_months fs ds) \<longleftrightarrow> rows_of fs ds ym \<noteq> []"
  using dataset_ok_rows [OF assms, of ym] rows_of_None [where fs = fs and ds = ds and ym = ym]
  by (cases "ym \<in> set (partition_months fs ds)"; auto simp: partition_ok_def list_all_iff)+

lemma same_key: "candle_identity c = candle_identity d \<Longrightarrow> candle_key c = candle_key d \<longleftrightarrow> c_open_time c = c_open_time d"
  by (auto simp: candle_key_def candle_identity_def)

lemma content_iff:
  assumes "dataset_ok fs ds tf"
  shows "content fs ds t = Some c \<longleftrightarrow> c \<in> set (rows_of fs ds (month_of t)) \<and> c_open_time c = t"
  unfolding content_def by (intro strict_by_find dataset_okD(1) [OF assms])

section \<open>Reading back what was written\<close>

lemma read_rows:
  assumes "strict_by c_open_time (acc @ rows)"
    and "\<And>c. c \<in> set (acc @ rows) \<Longrightarrow> candle_identity c = ds \<and> storable tf c \<and> month_of (c_open_time c) = ym"
  shows "res_fold (read_row ds tf ym) rows acc = Inr (acc @ rows)"
  using assms
proof (induction rows arbitrary: acc)
  case Nil
  then show ?case by simp
next
  case (Cons c rows)
  have c: "candle_identity c = ds" "row_to_candle c tf = Inr c" "validate_candle_serialization c True = Inr ()"
    "month_of (c_open_time c) = ym"
    using Cons.prems(2) [of c] by (simp_all add: storable_def)
  have before: "c_open_time d < c_open_time c" if "d \<in> set acc" for d
    using Cons.prems(1) that by (simp add: strict_by_append)
  then have "candle_key c \<notin> candle_key ` set acc"
    using Cons.prems(2) c(1) by (fastforce simp: same_key)
  moreover have "acc = [] \<or> \<not> c_open_time c \<le> c_open_time (last acc)" using before [OF last_in_set] by auto
  ultimately have "read_row ds tf ym c acc = Inr (acc @ [c])" by (simp add: read_row_def c)
  moreover have "res_fold (read_row ds tf ym) rows (acc @ [c]) = Inr ((acc @ [c]) @ rows)"
    using Cons.prems by (intro Cons.IH) simp_all
  ultimately show ?case by simp
qed

lemma read_file_ok:
  assumes "dataset_ok fs ds tf"
  shows "read_file fs ds tf ym = Inr (rows_of fs ds ym)"
proof (cases "map_of fs (partition_target ds ym)")
  case None
  then show ?thesis by (simp add: read_file_def rows_of_def)
next
  case (Some rows)
  then have r: "rows_of fs ds ym = rows" by (simp add: rows_of_def)
  have "res_fold (read_row ds tf ym) rows [] = Inr ([] @ rows)"
    by (rule read_rows) (use dataset_okD [OF assms, where ym = ym] in \<open>auto simp: r\<close>)
  with Some show ?thesis by (simp add: read_file_def r)
qed

section \<open>Merging incoming candles\<close>

lemma find_key:
  assumes "\<And>d. d \<in> set xs \<Longrightarrow> candle_identity d = candle_identity c"
  shows "find (\<lambda>d. candle_key d = candle_key c) xs = find (\<lambda>d. c_open_time d = c_open_time c) xs"
  using assms by (induction xs) (auto simp: same_key)

text \<open>A merge succeeds exactly when equal open times mean equal candles, and then adds what is new.\<close>

lemma add_candle_find:
  assumes "candle_identity ` insert c (set xs) \<subseteq> {ds}"
  shows "add_candle c (xs, n, k) = (case find (\<lambda>d. c_open_time d = c_open_time c) xs of
      None \<Rightarrow> Inr (xs @ [c], n + 1, k) | Some d \<Rightarrow> require (d = c) MarketDataInconsistency (Inr (xs, n, k + 1)))"
    and "find (\<lambda>d. c_open_time d = c_open_time c) xs = None \<Longrightarrow> \<forall>d\<in>set xs. c_open_time d \<noteq> c_open_time c"
    and "find (\<lambda>d. c_open_time d = c_open_time c) xs = Some e \<Longrightarrow> e \<in> set xs \<and> c_open_time e = c_open_time c"
proof -
  have "find (\<lambda>d. candle_key d = candle_key c) xs = find (\<lambda>d. c_open_time d = c_open_time c) xs"
    by (rule find_key) (use assms in auto)
  then show "add_candle c (xs, n, k) = (case find (\<lambda>d. c_open_time d = c_open_time c) xs of
      None \<Rightarrow> Inr (xs @ [c], n + 1, k) | Some d \<Rightarrow> require (d = c) MarketDataInconsistency (Inr (xs, n, k + 1)))"
    by (simp add: add_candle_def)
qed (auto simp: find_None_iff find_Some_iff)

lemma add_candle_ok:
  assumes "candle_identity ` insert c (set xs) \<subseteq> {ds}" and "inj_on c_open_time (insert c (set xs))"
  shows "add_candle c (xs, n, k) = Inr (if c \<in> set xs then (xs, n, k + 1) else (xs @ [c], n + 1, k))"
proof (cases "find (\<lambda>d. c_open_time d = c_open_time c) xs")
  case None
  then show ?thesis using add_candle_find(2) [OF assms(1) None] by (auto simp: add_candle_find(1) [OF assms(1)] None)
next
  case (Some d)
  then have "d = c" "c \<in> set xs" using add_candle_find(3) [OF assms(1) Some] assms(2) by (auto simp: inj_on_def)
  with Some show ?thesis by (simp add: add_candle_find(1) [OF assms(1)])
qed

lemma add_candle_InrD:
  assumes "add_candle c (xs, n, k) = Inr (ys, m, j)" and "candle_identity ` insert c (set xs) \<subseteq> {ds}"
    and "inj_on c_open_time (set xs)"
  shows "inj_on c_open_time (insert c (set xs))" and "set ys = insert c (set xs)"
proof -
  note e = add_candle_find [OF assms(2)]
  have "(\<forall>d\<in>set xs. c_open_time d = c_open_time c \<longrightarrow> d = c) \<and> set ys = insert c (set xs)"
  proof (cases "find (\<lambda>d. c_open_time d = c_open_time c) xs")
    case None
    then have "ys = xs @ [c]" using assms(1) by (simp add: e(1))
    then show ?thesis using e(2) [OF None] by auto
  next
    case (Some d)
    then have "d = c" "ys = xs" using assms(1) by (simp_all add: e(1))
    then show ?thesis using e(3) [OF Some] assms(3) by (auto simp: inj_on_def)
  qed
  then show "set ys = insert c (set xs)" "inj_on c_open_time (insert c (set xs))"
    using assms(3) by (auto simp: inj_on_def)
qed

lemma add_fold_InrD:
  assumes "res_fold add_candle cs (xs, n, k) = Inr (ys, m, j)"
    and "candle_identity ` (set xs \<union> set cs) \<subseteq> {ds}" and "inj_on c_open_time (set xs)"
  shows "inj_on c_open_time (set xs \<union> set cs)"
  using assms
proof (induction cs arbitrary: xs n k)
  case Nil
  then show ?case by simp
next
  case (Cons c cs)
  then obtain zs p q where z: "add_candle c (xs, n, k) = Inr (zs, p, q)" "res_fold add_candle cs (zs, p, q) = Inr (ys, m, j)"
    by auto
  have "inj_on c_open_time (set zs)" "set zs = insert c (set xs)"
    using add_candle_InrD [OF z(1), of ds] Cons.prems(2,3) by (auto simp: image_Un)
  then show ?case using Cons.IH [OF z(2)] Cons.prems(2) by auto
qed

text \<open>Merging candles of distinct open times: the new ones are appended in their order.\<close>

lemma add_fold_distinct:
  assumes "candle_identity ` (set xs \<union> set cs) \<subseteq> {ds}" and "inj_on c_open_time (set xs \<union> set cs)"
    and "distinct cs"
  shows "res_fold add_candle cs (xs, n, k) = Inr (xs @ filter (\<lambda>c. c \<notin> set xs) cs,
    n + int (length (filter (\<lambda>c. c \<notin> set xs) cs)), k + int (length (filter (\<lambda>c. c \<in> set xs) cs)))"
  using assms
proof (induction cs arbitrary: xs n k)
  case Nil
  then show ?case by simp
next
  case (Cons c cs)
  have step: "add_candle c (xs, n, k) = Inr (if c \<in> set xs then (xs, n, k + 1) else (xs @ [c], n + 1, k))"
    by (rule add_candle_ok) (use Cons.prems in \<open>auto intro: inj_on_subset\<close>)
  have same: "filter (\<lambda>d. d \<notin> set (xs @ [c])) cs = filter (\<lambda>d. d \<notin> set xs) cs"
    "filter (\<lambda>d. d \<in> set (xs @ [c])) cs = filter (\<lambda>d. d \<in> set xs) cs"
    using Cons.prems(3) by (auto intro!: filter_cong)
  show ?case
  proof (cases "c \<in> set xs")
    case True
    then show ?thesis using Cons.IH [of xs n "k + 1"] Cons.prems step by (simp add: insert_absorb Un_insert_right)
  next
    case False
    have "res_fold add_candle cs (xs @ [c], n + 1, k) = Inr ((xs @ [c]) @ filter (\<lambda>d. d \<notin> set (xs @ [c])) cs,
      n + 1 + int (length (filter (\<lambda>d. d \<notin> set (xs @ [c])) cs)), k + int (length (filter (\<lambda>d. d \<in> set (xs @ [c])) cs)))"
      by (rule Cons.IH) (use Cons.prems in auto)
    then show ?thesis using False step by (simp only: same res_fold.simps res_bind_simps if_False) simp
  qed
qed

text \<open>The first pass also removes exact duplicates inside the batch.\<close>

lemma add_fold_unique:
  assumes "res_fold add_candle cs (xs, n, k) = Inr (ys, m, j)"
    and "candle_identity ` (set xs \<union> set cs) \<subseteq> {ds}" and "inj_on c_open_time (set xs)" and "distinct xs"
  shows "set ys = set xs \<union> set cs" and "distinct ys" and "int (length ys) + j = int (length xs + length cs) + k"
proof -
  have "set ys = set xs \<union> set cs \<and> distinct ys \<and> int (length ys) + j = int (length xs + length cs) + k"
    using assms
  proof (induction cs arbitrary: xs n k)
    case Nil
    then show ?case by simp
  next
    case (Cons c cs)
    then obtain zs p q where z: "add_candle c (xs, n, k) = Inr (zs, p, q)" "res_fold add_candle cs (zs, p, q) = Inr (ys, m, j)"
      by auto
    note D = add_candle_InrD [OF z(1), of ds]
    have inj: "inj_on c_open_time (insert c (set xs))" using D(1) Cons.prems(2,3) by auto
    have e: "(zs, p, q) = (if c \<in> set xs then (xs, n, k + 1) else (xs @ [c], n + 1, k))"
      using add_candle_ok [of c xs ds n k] Cons.prems(2) inj z(1) by (auto simp: image_Un)
    then have "distinct zs" "set zs = insert c (set xs)" using Cons.prems(4) by (auto split: if_splits)
    moreover from this have "inj_on c_open_time (set zs)" using inj by simp
    ultimately have "set ys = set zs \<union> set cs \<and> distinct ys \<and> int (length ys) + j = int (length zs + length cs) + q"
      using Cons.IH [OF z(2)] Cons.prems(2) by auto
    with e show ?case by (auto split: if_splits)
  qed
  then show "set ys = set xs \<union> set cs" and "distinct ys" and "int (length ys) + j = int (length xs + length cs) + k"
    by blast+
qed

lemma add_fold_total:
  assumes "candle_identity ` (set xs \<union> set cs) \<subseteq> {ds}" and "inj_on c_open_time (set xs \<union> set cs)"
  shows "\<exists>r. res_fold add_candle cs (xs, n, k) = Inr r"
  using assms
proof (induction cs arbitrary: xs n k)
  case Nil
  then show ?case by simp
next
  case (Cons c cs)
  have "add_candle c (xs, n, k) = Inr (if c \<in> set xs then (xs, n, k + 1) else (xs @ [c], n + 1, k))"
    by (rule add_candle_ok) (use Cons.prems in \<open>auto intro: inj_on_subset\<close>)
  moreover have "\<exists>r. res_fold add_candle cs (xs, n, k + 1) = Inr r" if "c \<in> set xs"
    using Cons.IH [of xs n "k + 1"] Cons.prems that by (simp add: insert_absorb)
  moreover have "\<exists>r. res_fold add_candle cs (xs @ [c], n + 1, k) = Inr r"
    using Cons.IH [of "xs @ [c]" "n + 1" k] Cons.prems by simp
  ultimately show ?case by simp
qed

section \<open>The planned partitions\<close>

text \<open>What a month holds after the upsert of \<open>U\<close>, and the candles of \<open>U\<close> that are new to it.\<close>

definition fresh_rows :: "files \<Rightarrow> dataset_id \<Rightarrow> candle list \<Rightarrow> month \<Rightarrow> candle list" where
  "fresh_rows fs ds U ym = filter (\<lambda>c. c \<notin> set (rows_of fs ds ym)) (in_month ym U)"

definition merged_rows :: "files \<Rightarrow> dataset_id \<Rightarrow> candle list \<Rightarrow> month \<Rightarrow> candle list" where
  "merged_rows fs ds U ym = sort_key c_open_time (rows_of fs ds ym @ fresh_rows fs ds U ym)"

definition stored_set :: "files \<Rightarrow> dataset_id \<Rightarrow> candle set" where
  "stored_set fs ds = (\<Union>ym\<in>set (partition_months fs ds). set (rows_of fs ds ym))"

lemma in_stored_set: "c \<in> set (rows_of fs ds ym) \<Longrightarrow> c \<in> stored_set fs ds"
  using rows_of_None [where fs = fs and ds = ds and ym = ym] by (force simp: stored_set_def)

lemma stored_set_iff:
  assumes "dataset_ok fs ds tf"
  shows "c \<in> stored_set fs ds \<longleftrightarrow> c \<in> set (rows_of fs ds (month_of (c_open_time c)))"
proof
  assume "c \<in> stored_set fs ds"
  then obtain ym where "c \<in> set (rows_of fs ds ym)" by (auto simp: stored_set_def)
  then show "c \<in> set (rows_of fs ds (month_of (c_open_time c)))" using dataset_okD(2) [OF assms] by metis
qed (rule in_stored_set)

lemma rows_iff:
  assumes "dataset_ok fs ds tf"
  shows "c \<in> set (rows_of fs ds ym) \<longleftrightarrow> c \<in> stored_set fs ds \<and> month_of (c_open_time c) = ym"
  using dataset_okD(2) [OF assms] stored_set_iff [OF assms] in_stored_set by metis

lemma stored_set_content:
  assumes "dataset_ok fs ds tf"
  shows "c \<in> stored_set fs ds \<longleftrightarrow> content fs ds (c_open_time c) = Some c"
  by (simp add: stored_set_iff [OF assms] content_iff [OF assms])

lemma stored_set_inj: "dataset_ok fs ds tf \<Longrightarrow> inj_on c_open_time (stored_set fs ds)"
  by (auto simp: inj_on_def stored_set_content)

text \<open>A batch fits a dataset when no open time would carry two different candles.\<close>

definition fits :: "files \<Rightarrow> dataset_id \<Rightarrow> timeframe \<Rightarrow> candle list \<Rightarrow> bool" where
  "fits fs ds tf U \<longleftrightarrow> inj_on c_open_time (stored_set fs ds \<union> set U) \<and> (\<forall>c\<in>set U. candle_identity c = ds \<and> storable tf c)"

lemma in_month_set [simp]: "set (in_month ym cs) = {c \<in> set cs. month_of (c_open_time c) = ym}"
  by (auto simp: in_month_def)

lemma distinct_in_month [simp]: "distinct cs \<Longrightarrow> distinct (in_month ym cs)"
  by (simp add: in_month_def)

lemma plan_month_eq:
  assumes ok: "dataset_ok fs ds tf" and fits: "fits fs ds tf U" and "distinct U"
  shows "plan_month txn fs ds tf U ym (ps, st, k) =
    Inr (if fresh_rows fs ds U ym = [] then ps else ps @ [plan_partition txn fs ds ym (rows_of fs ds ym @ fresh_rows fs ds U ym)],
         st + int (length (fresh_rows fs ds U ym)),
         k + int (length (in_month ym U)) - int (length (fresh_rows fs ds U ym)))"
proof -
  let ?rows = "rows_of fs ds ym"
  have sub: "set ?rows \<union> set (in_month ym U) \<subseteq> stored_set fs ds \<union> set U"
    using in_stored_set [of _ fs ds ym] by fastforce
  have inj: "inj_on c_open_time (set ?rows \<union> set (in_month ym U))"
    by (rule inj_on_subset [OF _ sub]) (use fits in \<open>simp add: fits_def\<close>)
  have id: "candle_identity ` (set ?rows \<union> set (in_month ym U)) \<subseteq> {ds}"
    using dataset_okD(2) [OF ok, where ym = ym] fits by (auto simp: fits_def)
  have d: "distinct (map candle_key ?rows)"
    using strict_by_distinct [OF dataset_okD(1) [OF ok, of ym]] dataset_okD(2) [OF ok, where ym = ym]
    by (auto simp: distinct_map inj_on_def candle_key_def)
  have fold: "res_fold add_candle (in_month ym U) (?rows, 0, k) = Inr (?rows @ fresh_rows fs ds U ym,
      0 + int (length (fresh_rows fs ds U ym)), k + int (length (filter (\<lambda>c. c \<in> set ?rows) (in_month ym U))))"
    unfolding fresh_rows_def by (rule add_fold_distinct [OF id inj]) (simp add: assms(3))
  have len: "int (length (filter (\<lambda>c. c \<in> set ?rows) (in_month ym U)))
      = int (length (in_month ym U)) - int (length (fresh_rows fs ds U ym))"
    using sum_length_filter_compl [of "\<lambda>c. c \<in> set ?rows" "in_month ym U"] by (simp add: fresh_rows_def)
  show ?thesis
    by (simp add: plan_month_def read_file_ok [OF ok] d fold len)
qed

lemma plan_months_eq:
  assumes "dataset_ok fs ds tf" and "fits fs ds tf U" and "distinct U"
  shows "res_fold (plan_month txn fs ds tf U) yms (ps, st, k) =
    Inr (ps @ map (\<lambda>ym. plan_partition txn fs ds ym (rows_of fs ds ym @ fresh_rows fs ds U ym))
           (filter (\<lambda>ym. fresh_rows fs ds U ym \<noteq> []) yms),
         st + int (length (concat (map (fresh_rows fs ds U) yms))),
         k + int (length (concat (map (\<lambda>ym. in_month ym U) yms))) - int (length (concat (map (fresh_rows fs ds U) yms))))"
  by (induction yms arbitrary: ps st k) (simp_all add: plan_month_eq [OF assms])

section \<open>The dataset after the upsert\<close>

text \<open>Files in which every month of the dataset holds the merged rows, and nothing else is a target of it.\<close>

definition upserted :: "files \<Rightarrow> dataset_id \<Rightarrow> candle list \<Rightarrow> files \<Rightarrow> bool" where
  "upserted fs ds U fs' \<longleftrightarrow> (\<forall>ym. map_of fs' (partition_target ds ym) =
     (if fresh_rows fs ds U ym = [] then map_of fs (partition_target ds ym) else Some (merged_rows fs ds U ym)))"

lemma upsertedD:
  "upserted fs ds U fs' \<Longrightarrow> map_of fs' (partition_target ds ym) =
     (if fresh_rows fs ds U ym = [] then map_of fs (partition_target ds ym) else Some (merged_rows fs ds U ym))"
  unfolding upserted_def by (erule spec)

text \<open>A duplicate-free batch that fits a sound dataset.\<close>

definition admits :: "files \<Rightarrow> dataset_id \<Rightarrow> timeframe \<Rightarrow> candle list \<Rightarrow> bool" where
  "admits fs ds tf U \<longleftrightarrow> dataset_ok fs ds tf \<and> fits fs ds tf U \<and> distinct U"

lemma admitsD:
  assumes "admits fs ds tf U"
  shows "dataset_ok fs ds tf" and "fits fs ds tf U" and "distinct U"
  using assms by (simp_all add: admits_def)

lemma merged_set: "set (merged_rows fs ds U ym) = set (rows_of fs ds ym) \<union> set (in_month ym U)"
  by (auto simp: merged_rows_def fresh_rows_def)

lemma merged_strict:
  assumes "admits fs ds tf U"
  shows "strict_by c_open_time (merged_rows fs ds U ym)"
proof -
  note ok = admitsD(1) [OF assms] and fits = admitsD(2) [OF assms] and dist = admitsD(3) [OF assms]
  have "distinct (rows_of fs ds ym)"
    using strict_by_distinct [OF dataset_okD(1) [OF ok, of ym]] by (simp add: distinct_map)
  then have "distinct (rows_of fs ds ym @ fresh_rows fs ds U ym)"
    using dist by (auto simp: fresh_rows_def)
  moreover have "set (rows_of fs ds ym @ fresh_rows fs ds U ym) \<subseteq> stored_set fs ds \<union> set U"
    using in_stored_set [of _ fs ds ym] by (auto simp: fresh_rows_def)
  then have "inj_on c_open_time (set (rows_of fs ds ym @ fresh_rows fs ds U ym))"
    using fits inj_on_subset by (auto simp only: fits_def)
  ultimately show ?thesis
    unfolding merged_rows_def by (intro strict_by_sort) (simp only: distinct_map)
qed

lemma merged_candles:
  assumes "admits fs ds tf U" and "c \<in> set (merged_rows fs ds U ym)"
  shows "candle_identity c = ds \<and> storable tf c \<and> month_of (c_open_time c) = ym"
  using admitsD(2) [OF assms(1)] dataset_okD(2) [OF admitsD(1) [OF assms(1)], where ym = ym] assms(2)
  by (auto simp: merged_set fits_def)

lemma merged_no_fresh:
  assumes "admits fs ds tf U" and "fresh_rows fs ds U ym = []"
  shows "merged_rows fs ds U ym = rows_of fs ds ym"
  using assms(2) by (simp add: merged_rows_def sort_key_strict dataset_okD(1) [OF admitsD(1) [OF assms(1)]])

lemma upserted_rows:
  assumes "admits fs ds tf U" and "upserted fs ds U fs'"
  shows "rows_of fs' ds ym = merged_rows fs ds U ym"
  using merged_no_fresh [OF assms(1), of ym] upsertedD [OF assms(2), of ym]
  by (cases "fresh_rows fs ds U ym = []") (simp_all add: rows_of_def)

lemma upserted_ok:
  assumes admits: "admits fs ds tf U" and up: "upserted fs ds U fs'"
  shows "dataset_ok fs' ds tf"
proof -
  have "partition_ok ds tf ym (merged_rows fs ds U ym)" if "ym \<in> set (partition_months fs' ds)" for ym
  proof -
    have "merged_rows fs ds U ym \<noteq> []"
    proof (cases "fresh_rows fs ds U ym = []")
      case True
      then have "ym \<in> set (partition_months fs ds)" using upsertedD [OF up, of ym] that by (simp add: partition_months_set)
      then show ?thesis using merged_no_fresh [OF admits True] dataset_okD(3) [OF admitsD(1) [OF admits]] by simp
    next
      case False
      then show ?thesis by (simp add: merged_rows_def) (metis Nil_is_append_conv length_0_conv length_sort)
    qed
    then show ?thesis using merged_strict [OF admits] merged_candles [OF admits] by (auto simp: partition_ok_def list_all_iff)
  qed
  then show ?thesis by (simp add: dataset_ok_def list_all_iff upserted_rows [OF assms])
qed

lemma upserted_stored:
  assumes "admits fs ds tf U" and "upserted fs ds U fs'"
  shows "stored_set fs' ds = stored_set fs ds \<union> set U"
proof -
  have "c \<in> stored_set fs' ds \<longleftrightarrow> c \<in> stored_set fs ds \<union> set U" for c
    by (simp add: stored_set_iff [OF upserted_ok [OF assms]] stored_set_iff [OF admitsD(1) [OF assms(1)]] upserted_rows [OF assms] merged_set)
  then show ?thesis by blast
qed

lemma map_of_open_times:
  assumes "inj_on c_open_time (set U)"
  shows "map_of (map (\<lambda>c. (c_open_time c, c)) U) t = Some c \<longleftrightarrow> c \<in> set U \<and> c_open_time c = t"
  using assms by (induction U) (auto simp: inj_on_def)

lemma upserted_content:
  assumes "admits fs ds tf U" and "upserted fs ds U fs'"
  shows "content fs' ds = content fs ds ++ map_of (map (\<lambda>c. (c_open_time c, c)) U)"
proof
  fix t
  have inj: "inj_on c_open_time (stored_set fs ds \<union> set U)" using admitsD(2) [OF assms(1)] by (simp add: fits_def)
  have old: "content fs ds t = Some c \<longleftrightarrow> c_open_time c = t \<and> c \<in> stored_set fs ds" for c
    using stored_set_iff [OF admitsD(1) [OF assms(1)]] content_iff [OF admitsD(1) [OF assms(1)]] by auto
  have new: "content fs' ds t = Some c \<longleftrightarrow> c_open_time c = t \<and> (c \<in> stored_set fs ds \<or> c \<in> set U)" for c
    using stored_set_iff [OF upserted_ok [OF assms]] content_iff [OF upserted_ok [OF assms]] upserted_stored [OF assms] by auto
  have batch: "map_of (map (\<lambda>c. (c_open_time c, c)) U) t = Some c \<longleftrightarrow> c \<in> set U \<and> c_open_time c = t" for c
    by (rule map_of_open_times) (rule inj_on_subset [OF inj], simp)
  show "content fs' ds t = (content fs ds ++ map_of (map (\<lambda>c. (c_open_time c, c)) U)) t"
  proof (cases "map_of (map (\<lambda>c. (c_open_time c, c)) U) t")
    case None
    then have "\<forall>c\<in>set U. c_open_time c \<noteq> t" using batch by force
    then have "content fs' ds t = Some c \<longleftrightarrow> content fs ds t = Some c" for c unfolding old new by blast
    then have "content fs' ds t = content fs ds t" by (metis option.exhaust)
    with None show ?thesis by (simp add: map_add_def)
  next
    case (Some d)
    then have "content fs' ds t = Some d" by (simp add: batch new)
    with Some show ?thesis by (simp add: map_add_def)
  qed
qed

section \<open>Integrity data\<close>

lemma scan_rows:
  "fold scan_row rows (es, hs, a, b, n) = (es, hs @ rows,
     (if rows = [] then a else Some (foldl min (case a of None \<Rightarrow> c_open_time (hd rows) | Some t \<Rightarrow> t) (map c_open_time rows))),
     (if rows = [] then b else Some (foldl max (case b of None \<Rightarrow> c_open_time (hd rows) | Some t \<Rightarrow> t) (map c_open_time rows))),
     n + int (length rows))"
  by (induction rows arbitrary: hs a b n) (auto simp: scan_row_def split: option.splits)

lemma checksum_strict: "strict_by c_open_time rows \<Longrightarrow> raw_partition_logical_checksum H rows = Inr (hs_rows H rows)"
  using strict_by_adjacent [of c_open_time rows]
  by (simp add: raw_partition_logical_checksum_def sort_key_strict)

lemma fold_put_set:
  assumes "inj_on c_open_time (set cs \<union> set U)" and "candle_identity ` (set cs \<union> set U) \<subseteq> {ds}" and "distinct cs"
  shows "set (fold put_candle U cs) = set cs \<union> set U \<and> distinct (fold put_candle U cs)"
  using assms
proof (induction U arbitrary: cs)
  case Nil
  then show ?case by simp
next
  case (Cons u U)
  have key: "candle_key d = candle_key u \<longleftrightarrow> d = u" if "d \<in> set cs" for d
    using that Cons.prems(1,2) same_key [of d u] by (auto simp: inj_on_def)
  then have "put_candle u cs = (if u \<in> set cs then cs else cs @ [u])"
    by (force simp: put_candle_def image_iff intro: map_idI)
  then show ?case
    using Cons.IH [of "put_candle u cs"] Cons.prems by (auto simp: insert_absorb)
qed

lemma logical_rows:
  assumes ok: "dataset_ok fs ds tf" and "distinct yms" and "set yms \<subseteq> set (partition_months fs ds)"
    and "distinct acc" and "set acc \<subseteq> stored_set fs ds" and "\<And>c. c \<in> set acc \<Longrightarrow> month_of (c_open_time c) \<notin> set yms"
  shows "res_fold (\<lambda>ym acc. res_bind (read_file fs ds tf ym) (\<lambda>rows.
         res_fold (\<lambda>c l. require (candle_key c \<notin> candle_key ` set l) MarketDataInconsistency (Inr (l @ [c]))) rows acc)) yms acc
     = Inr (acc @ concat (map (rows_of fs ds) yms))"
  using assms(2-)
proof (induction yms arbitrary: acc)
  case Nil
  then show ?case by simp
next
  case (Cons ym yms)
  have step: "res_fold (\<lambda>c l. require (candle_key c \<notin> candle_key ` set l) MarketDataInconsistency (Inr (l @ [c]))) rows l = Inr (l @ rows)"
    if "distinct (l @ rows)" "set (l @ rows) \<subseteq> stored_set fs ds" for rows l
    using that
  proof (induction rows arbitrary: l)
    case Nil
    then show ?case by simp
  next
    case (Cons c rows)
    have "candle_key c \<notin> candle_key ` set l"
      using Cons.prems stored_set_inj [OF ok] by (auto simp: inj_on_def candle_key_def)
    then show ?case using Cons.IH [of "l @ [c]"] Cons.prems by simp
  qed
  have rows: "distinct (rows_of fs ds ym)"
    using strict_by_distinct [OF dataset_okD(1) [OF ok, of ym]] by (simp add: distinct_map)
  have month: "c \<in> set (rows_of fs ds ym) \<Longrightarrow> month_of (c_open_time c) = ym" for c
    using dataset_okD(2) [OF ok] by blast
  have sub: "set (rows_of fs ds ym) \<subseteq> stored_set fs ds" using in_stored_set by blast
  have "res_fold (\<lambda>c l. require (candle_key c \<notin> candle_key ` set l) MarketDataInconsistency (Inr (l @ [c]))) (rows_of fs ds ym) acc
      = Inr (acc @ rows_of fs ds ym)"
    by (rule step) (use Cons.prems rows month sub in auto)
  moreover have "res_fold (\<lambda>ym acc. res_bind (read_file fs ds tf ym) (\<lambda>rows.
         res_fold (\<lambda>c l. require (candle_key c \<notin> candle_key ` set l) MarketDataInconsistency (Inr (l @ [c]))) rows acc)) yms
       (acc @ rows_of fs ds ym) = Inr ((acc @ rows_of fs ds ym) @ concat (map (rows_of fs ds) yms))"
    by (rule Cons.IH) (use Cons.prems rows month sub in auto)
  ultimately show ?case by (simp add: read_file_ok [OF ok])
qed

lemma distinct_rows:
  assumes ok: "dataset_ok fs ds tf" and "distinct yms"
  shows "distinct (concat (map (rows_of fs ds) yms))"
  using assms(2)
proof (induction yms)
  case (Cons ym yms)
  have month: "c \<in> set (rows_of fs ds y) \<Longrightarrow> month_of (c_open_time c) = y" for c y
    using dataset_okD(2) [OF ok] by blast
  have "set (rows_of fs ds ym) \<inter> (\<Union>y\<in>set yms. set (rows_of fs ds y)) = {}"
    using Cons.prems month by (metis (no_types, lifting) UN_E disjoint_iff distinct.simps(2))
  then show ?case
    using Cons strict_by_distinct [OF dataset_okD(1) [OF ok, of ym]] by (simp add: distinct_map)
qed simp

lemma stored_identity: "dataset_ok fs ds tf \<Longrightarrow> candle_identity ` stored_set fs ds \<subseteq> {ds}"
  using dataset_okD(2) by (auto simp: stored_set_iff)

text \<open>The integrity data planned before the write is what an offline scan finds after it.\<close>

lemma future_is_snapshot:
  assumes admits: "admits fs ds tf U" and up: "upserted fs ds U fs'"
  shows "future_dataset_integrity H fs ds tf U = partition_integrity_snapshot H fs' ds tf"
proof -
  note ok = admitsD(1) [OF admits] and ok' = upserted_ok [OF admits up]
  define logical where "logical = concat (map (rows_of fs ds) (partition_months fs ds))"
  have d: "distinct (partition_months fs ds)" using partition_months_sorted [of fs ds] by (simp add: strict_sorted_iff)
  have log: "set logical = stored_set fs ds" "distinct logical"
  proof -
    show "set logical = stored_set fs ds" by (simp add: logical_def stored_set_def)
    from distinct_rows [OF ok d] show "distinct logical" by (simp add: logical_def)
  qed
  have all: "set (fold put_candle U logical) = stored_set fs' ds" "distinct (fold put_candle U logical)"
    using fold_put_set [of logical U ds] log upserted_stored [OF admits up] admitsD(2) [OF admits] stored_identity [OF ok]
    by (auto simp: fits_def image_Un)
  have months: "months_of (fold put_candle U logical) = partition_months fs' ds"
  proof -
    have "set (months_of (fold put_candle U logical)) = set (partition_months fs' ds)"
      using dataset_okD(2,3) [OF ok'] by (auto simp: months_of_def all(1) stored_set_def image_iff) (metis list.set_intros(1) neq_Nil_conv)+
    moreover have "strict_by id (months_of (fold put_candle U logical))" "strict_by id (partition_months fs' ds)"
      using partition_months_sorted [of fs' ds] by (simp_all add: strict_by_def months_of_def strict_sorted_iff)
    ultimately show ?thesis by (intro strict_by_unique [of id]) simp_all
  qed
  have rows: "sort_key c_open_time (in_month ym (fold put_candle U logical)) = rows_of fs' ds ym" for ym
  proof (rule strict_by_unique [of c_open_time])
    have "inj_on c_open_time (set (in_month ym (fold put_candle U logical)))"
      using stored_set_inj [OF ok'] by (rule inj_on_subset) (auto simp: all(1))
    then show "strict_by c_open_time (sort_key c_open_time (in_month ym (fold put_candle U logical)))"
      using all(2) by (intro strict_by_sort) (simp add: distinct_map)
    show "strict_by c_open_time (rows_of fs' ds ym)" by (rule dataset_okD(1) [OF ok'])
    show "set (sort_key c_open_time (in_month ym (fold put_candle U logical))) = set (rows_of fs' ds ym)"
      by (simp add: all(1) rows_iff [OF ok'] set_eq_iff)
  qed
  have "future_dataset_integrity H fs ds tf U = res_bind (res_fold (\<lambda>ym. scan_partition H ds ym (rows_of fs' ds ym))
      (partition_months fs' ds) ([], [], None, None, 0)) (scan_result H)"
    using logical_rows [OF ok d, of "[]"] by (simp add: future_dataset_integrity_def logical_def [symmetric] months rows Let_def)
  then show ?thesis by (simp add: partition_integrity_snapshot_def read_file_ok [OF ok'])
qed

section \<open>Reading a range\<close>

lemma months_from_index:
  assumes "month_ok ym"
  shows "set (months_from ym t) = {m. month_ok m \<and> month_index ym \<le> month_index m \<and> month_start m < t} \<and>
    sorted_wrt (\<lambda>a b. month_index a < month_index b) (months_from ym t)"
  using assms
proof (induction ym t rule: months_from.induct)
  case (1 ym t)
  note e = months_from.simps [of ym t]
  show ?case
  proof (cases "month_start ym < t")
    case True
    have IH: "set (months_from (next_month ym) t) = {m. month_ok m \<and> month_index ym + 1 \<le> month_index m \<and> month_start m < t}"
      "sorted_wrt (\<lambda>a b. month_index a < month_index b) (months_from (next_month ym) t)"
      using 1 True by simp_all
    have "m = ym" if "month_ok m" "month_index m = month_index ym" for m using month_index_inj that 1(2) by blast
    then have "set (months_from ym t) = {m. month_ok m \<and> month_index ym \<le> month_index m \<and> month_start m < t}"
      using True 1(2) unfolding e by (simp add: IH(1)) force
    moreover have "sorted_wrt (\<lambda>a b. month_index a < month_index b) (months_from ym t)"
      using True 1(2) IH(2) unfolding e by (simp add: IH(1))
    ultimately show ?thesis by blast
  next
    case False
    have "\<not> month_start m < t" if "month_ok m" "month_index ym \<le> month_index m" for m
      using month_start_mono [OF 1(2) that] False by simp
    with False show ?thesis unfolding e by auto
  qed
qed

lemma read_months_eq:
  assumes "dataset_ok fs ds tf"
  shows "read_months fs ds tf yms = Inr (concat (map (rows_of fs ds) yms))"
proof -
  have "res_fold (\<lambda>ym acc. res_bind (read_file fs ds tf ym) (\<lambda>rows. Inr (acc @ rows))) yms acc
      = Inr (acc @ concat (map (rows_of fs ds) yms))" for acc
    by (induction yms arbitrary: acc) (simp_all add: read_file_ok [OF assms])
  from this [of "[]"] show ?thesis by (simp add: read_months_def)
qed

lemma store_read_eq:
  assumes ok: "dataset_ok fs ds tf"
  obtains cs where "store_read fs ds tf r = Inr cs" and "strict_by c_open_time cs"
    and "set cs = {c. content fs ds (c_open_time c) = Some c \<and> dr_start r \<le> c_open_time c \<and> c_open_time c < dr_end r}"
proof -
  let ?yms = "range_partitions fs ds r"
  let ?all = "concat (map (rows_of fs ds) ?yms)"
  have yms: "set ?yms = {m. map_of fs (partition_target ds m) \<noteq> None \<and> month_ok m \<and> month_index (month_of (dr_start r)) \<le> month_index m
      \<and> month_start m < dr_end r}"
    using months_from_index [of "month_of (dr_start r)" "dr_end r"] by (auto simp: range_partitions_def)
  have "sorted_wrt (\<lambda>a b. month_index a < month_index b) ?yms"
    unfolding range_partitions_def using months_from_index by (intro sorted_wrt_filter) simp
  then have dist: "distinct ?all"
    by (intro distinct_rows [OF ok]) (metis (mono_tags, lifting) less_irrefl sorted_wrt_iff_nth_less distinct_conv_nth linorder_neq_iff)
  have sub: "set ?all \<subseteq> stored_set fs ds" by (simp add: subset_iff rows_iff [OF ok])
  then have inj: "inj_on c_open_time (set ?all)" by (rule inj_on_subset [OF stored_set_inj [OF ok]])
  let ?in = "\<lambda>c. dr_start r \<le> c_open_time c \<and> c_open_time c < dr_end r"
  let ?cs = "filter ?in (sort_key c_open_time ?all)"
  show thesis
  proof (rule that [of ?cs])
    show "store_read fs ds tf r = Inr ?cs" by (simp add: store_read_def read_months_eq [OF ok])
    show "strict_by c_open_time ?cs" using dist inj by (intro strict_by_filter strict_by_sort) (simp add: distinct_map)
    have "c \<in> set ?all \<longleftrightarrow> c \<in> stored_set fs ds" if "?in c" for c
    proof
      assume c: "c \<in> stored_set fs ds"
      then have "c \<in> set (rows_of fs ds (month_of (c_open_time c)))" by (simp add: stored_set_iff [OF ok])
      moreover have "month_of (c_open_time c) \<in> set ?yms"
      proof -
        have "map_of fs (partition_target ds (month_of (c_open_time c))) \<noteq> None"
          using c by (cases "map_of fs (partition_target ds (month_of (c_open_time c)))")
            (simp_all add: stored_set_iff [OF ok] rows_of_def)
        then show ?thesis using that month_of_mono [of "dr_start r" "c_open_time c"] month_of_within(1) [of "c_open_time c"]
          by (simp add: yms)
      qed
      ultimately show "c \<in> set ?all" by auto
    qed (use sub in blast)
    then show "set ?cs = {c. content fs ds (c_open_time c) = Some c \<and> dr_start r \<le> c_open_time c \<and> c_open_time c < dr_end r}"
      by (auto simp: stored_set_content [OF ok] simp del: set_concat)
  qed
qed

end
