(* ===== verification/Candle_Upsert.thy ===== *)
theory Candle_Upsert
  imports Candle_Plan
begin

text \<open>
  Writing a planned upsert: prepared temporary files, promotion with backups, rollback and commit, as
  \<^verbatim>\<open>ParquetCandleStore.upsert\<close> and \<^verbatim>\<open>ParquetWriteReceipt\<close> of \<^verbatim>\<open>app/market_data/storage.py\<close> do them.  Every
  file-system call of an upsert may raise: a fault function says which.  The calls made while
  recovering from an error are taken to succeed.
\<close>

section \<open>File-system calls that may raise\<close>

datatype call = Write_temporary | Backup_original | Sync_backup | Promote | Sync_target

type_synonym faults = "path \<Rightarrow> call \<Rightarrow> bool"

type_synonym 'a io = "files \<times> 'a result"

definition io_then :: "unit io \<Rightarrow> (files \<Rightarrow> 'a io) \<Rightarrow> 'a io" where
  "io_then m k = (case m of (fs, Inl e) \<Rightarrow> (fs, Inl e) | (fs, Inr _) \<Rightarrow> k fs)"

definition os_replace :: "path \<Rightarrow> path \<Rightarrow> files \<Rightarrow> unit io" where
  "os_replace source target fs =
     (case map_of fs source of None \<Rightarrow> (fs, Inl OSError)
      | Some rows \<Rightarrow> (AList.update target rows (AList.delete source fs), Inr ()))"

definition raising :: "bool \<Rightarrow> files \<Rightarrow> unit io" where
  "raising b fs = (fs, if b then Inl OSError else Inr ())"

text \<open>\<^verbatim>\<open>if backup.exists()\<close> restore it, \<^verbatim>\<open>elif not had_original\<close> remove the target.\<close>

definition restore_target :: "planned_partition \<Rightarrow> files \<Rightarrow> files" where
  "restore_target p fs =
     (case map_of fs (pp_backup p) of
        Some rows \<Rightarrow> AList.update (pp_target p) rows (AList.delete (pp_backup p) (AList.delete (pp_target p) fs))
      | None \<Rightarrow> if pp_had_original p then fs else AList.delete (pp_target p) fs)"

section \<open>Preparing, promoting, rolling back\<close>

definition prepare_partition :: "faults \<Rightarrow> planned_partition \<Rightarrow> files \<Rightarrow> unit io" where
  "prepare_partition faults p fs =
     (case res_fold (\<lambda>c _. validate_candle_serialization c True) (pp_candles p) () of
        Inl e \<Rightarrow> (fs, Inl e)
      | Inr _ \<Rightarrow>
          if faults (pp_target p) Write_temporary then (AList.delete (pp_temporary p) fs, Inl MarketDataStorage)
          else (AList.update (pp_temporary p) (pp_candles p) fs, Inr ()))"

fun prepare_loop :: "faults \<Rightarrow> planned_partition list \<Rightarrow> path list \<Rightarrow> files \<Rightarrow> unit io" where
  "prepare_loop faults [] prepared fs = (fs, Inr ())"
| "prepare_loop faults (p # ps) prepared fs =
     (case prepare_partition faults p fs of
        (fs', Inl e) \<Rightarrow> (fold AList.delete prepared fs', Inl e)
      | (fs', Inr _) \<Rightarrow> prepare_loop faults ps (prepared @ [pp_temporary p]) fs')"

definition prepare_files :: "faults \<Rightarrow> planned_partition list \<Rightarrow> files \<Rightarrow> unit io" where
  "prepare_files faults ps fs = prepare_loop faults ps [] fs"

text \<open>\<^verbatim>\<open>_replace_partition\<close>: any error after the first call restores the original and drops the temporary.\<close>

definition move_original :: "faults \<Rightarrow> planned_partition \<Rightarrow> files \<Rightarrow> unit io" where
  "move_original faults p fs =
     (if pp_had_original p
      then io_then (raising (faults (pp_target p) Backup_original) fs) (\<lambda>fs.
           io_then (os_replace (pp_target p) (pp_backup p) fs) (raising (faults (pp_target p) Sync_backup)))
      else (fs, Inr ()))"

definition promote_partition :: "faults \<Rightarrow> planned_partition \<Rightarrow> files \<Rightarrow> unit io" where
  "promote_partition faults p fs =
     (case io_then (move_original faults p fs) (\<lambda>fs.
           io_then (raising (faults (pp_target p) Promote) fs) (\<lambda>fs.
           io_then (os_replace (pp_temporary p) (pp_target p) fs) (raising (faults (pp_target p) Sync_target)))) of
        (fs', Inl e) \<Rightarrow> (restore_target p (AList.delete (pp_temporary p) fs'), Inl e)
      | (fs', Inr u) \<Rightarrow> (fs', Inr u))"

record receipt =
  rc_changes :: "planned_partition list"
  rc_stored :: int
  rc_duplicates :: int

definition rollback :: "planned_partition list \<Rightarrow> files \<Rightarrow> files" where
  "rollback changes fs = fold restore_target (rev changes) fs"

definition commit :: "planned_partition list \<Rightarrow> files \<Rightarrow> files" where
  "commit changes fs = fold (\<lambda>p. AList.delete (pp_backup p)) changes fs"

fun promote_loop :: "faults \<Rightarrow> planned_partition list \<Rightarrow> planned_partition list \<Rightarrow> files \<Rightarrow> unit io" where
  "promote_loop faults [] changes fs = (fs, Inr ())"
| "promote_loop faults (p # ps) changes fs =
     (case promote_partition faults p fs of
        (fs', Inl e) \<Rightarrow> (rollback changes fs', Inl e)
      | (fs', Inr _) \<Rightarrow> promote_loop faults ps (changes @ [p]) fs')"

definition upsert :: "hashes \<Rightarrow> faults \<Rightarrow> files \<Rightarrow> candle list \<Rightarrow> string \<Rightarrow> receipt io" where
  "upsert H faults fs candles txn =
     (case plan_upsert H fs candles txn of
        Inl e \<Rightarrow> (fs, Inl e)
      | Inr plan \<Rightarrow>
          io_then (prepare_files faults (up_partitions plan) fs) (\<lambda>fs.
          io_then (promote_loop faults (up_partitions plan) [] fs) (\<lambda>fs.
          (fs, Inr \<lparr>rc_changes = up_partitions plan, rc_stored = up_stored plan,
                    rc_duplicates = up_duplicates plan\<rparr>))))"

section \<open>The stages of an upsert\<close>

text \<open>A partition of a plan over files that look like \<open>\<sigma>\<close>.\<close>

definition part_of :: "string \<Rightarrow> (path \<rightharpoonup> candle list) \<Rightarrow> dataset_id \<Rightarrow> (month \<Rightarrow> candle list) \<Rightarrow> month \<Rightarrow> planned_partition" where
  "part_of txn \<sigma> ds K ym =
     \<lparr>pp_target = (ds, ym, Target), pp_temporary = (ds, ym, Temporary txn), pp_backup = (ds, ym, Backup txn),
      pp_had_original = (\<sigma> (ds, ym, Target) \<noteq> None), pp_candles = K ym\<rparr>"

text \<open>
  The files while the months \<open>D\<close> are promoted and the months \<open>T\<close> only prepared: a promoted month has
  its new rows, its original in the backup and no temporary.
\<close>

definition stage :: "string \<Rightarrow> (path \<rightharpoonup> candle list) \<Rightarrow> dataset_id \<Rightarrow> (month \<Rightarrow> candle list) \<Rightarrow> month set \<Rightarrow> month set
    \<Rightarrow> path \<rightharpoonup> candle list" where
  "stage txn \<sigma> ds K D T = (\<lambda>(d, ym, a).
     if d = ds \<and> ym \<in> D
     then (if a = Target then Some (K ym) else if a = Temporary txn then None
           else if a = Backup txn then \<sigma> (ds, ym, Target) else \<sigma> (d, ym, a))
     else if d = ds \<and> ym \<in> T \<and> a = Temporary txn then Some (K ym) else \<sigma> (d, ym, a))"

definition fresh_transaction :: "string \<Rightarrow> files \<Rightarrow> bool" where
  "fresh_transaction txn fs \<longleftrightarrow> list_all (\<lambda>((_, _, a), _). a \<noteq> Temporary txn \<and> a \<noteq> Backup txn) fs"

definition unused :: "string \<Rightarrow> (path \<rightharpoonup> candle list) \<Rightarrow> bool" where
  "unused txn \<sigma> \<longleftrightarrow> (\<forall>ds ym. \<sigma> (ds, ym, Temporary txn) = None \<and> \<sigma> (ds, ym, Backup txn) = None)"

lemma fresh_unused: "fresh_transaction txn fs \<Longrightarrow> unused txn (map_of fs)"
  by (force simp: fresh_transaction_def unused_def list_all_iff map_of_eq_None_iff)

lemma part_of_simps [simp]:
  "pp_target (part_of txn \<sigma> ds K ym) = (ds, ym, Target)"
  "pp_temporary (part_of txn \<sigma> ds K ym) = (ds, ym, Temporary txn)"
  "pp_backup (part_of txn \<sigma> ds K ym) = (ds, ym, Backup txn)"
  "pp_had_original (part_of txn \<sigma> ds K ym) \<longleftrightarrow> \<sigma> (ds, ym, Target) \<noteq> None"
  "pp_candles (part_of txn \<sigma> ds K ym) = K ym"
  by (simp_all add: part_of_def)

lemma stage_empty: "stage txn \<sigma> ds K {} {} = \<sigma>"
  by (simp add: stage_def)

lemma map_of_AList [simp]:
  "map_of (AList.update k v fs) = (map_of fs)(k \<mapsto> v)"
  "map_of (AList.delete k fs) = (map_of fs)(k := None)"
  by (rule update_conv', rule delete_conv')

lemma unusedD:
  assumes "unused txn \<sigma>"
  shows "\<sigma> (ds, ym, Temporary txn) = None" and "\<sigma> (ds, ym, Backup txn) = None"
  using assms unfolding unused_def by blast+

text \<open>The single updates of the files, as moves between stages.\<close>

lemma stage_write:
  assumes "ym \<notin> D"
  shows "(stage txn \<sigma> ds K D T)((ds, ym, Temporary txn) \<mapsto> K ym) = stage txn \<sigma> ds K D (insert ym T)"
proof (rule ext)
  fix p :: path
  obtain d y a where p: "p = (d, y, a)" by (cases p rule: prod_cases3)
  show "((stage txn \<sigma> ds K D T)((ds, ym, Temporary txn) \<mapsto> K ym)) p = (stage txn \<sigma> ds K D (insert ym T)) p"
    unfolding p using assms by (auto simp: stage_def)
qed

lemma stage_drop:
  assumes "unused txn \<sigma>"
  shows "(stage txn \<sigma> ds K D T)((ds, ym, Temporary txn) := None) = stage txn \<sigma> ds K D (T - {ym})"
proof (rule ext)
  fix p :: path
  obtain d y a where p: "p = (d, y, a)" by (cases p rule: prod_cases3)
  show "((stage txn \<sigma> ds K D T)((ds, ym, Temporary txn) := None)) p = (stage txn \<sigma> ds K D (T - {ym})) p"
    unfolding p using assms unusedD [OF assms] by (auto simp: stage_def)
qed

lemma stage_promoted:
  assumes "ym \<notin> D"
  shows "(stage txn \<sigma> ds K D T)((ds, ym, Backup txn) := \<sigma> (ds, ym, Target), (ds, ym, Temporary txn) := None,
    (ds, ym, Target) \<mapsto> K ym) = stage txn \<sigma> ds K (insert ym D) (T - {ym})"
proof (rule ext)
  fix p :: path
  obtain d y a where p: "p = (d, y, a)" by (cases p rule: prod_cases3)
  show "((stage txn \<sigma> ds K D T)((ds, ym, Backup txn) := \<sigma> (ds, ym, Target), (ds, ym, Temporary txn) := None,
    (ds, ym, Target) \<mapsto> K ym)) p = (stage txn \<sigma> ds K (insert ym D) (T - {ym})) p"
    unfolding p using assms by (auto simp: stage_def)
qed

lemma stage_restored:
  assumes "unused txn \<sigma>" and "ym \<in> D"
  shows "(stage txn \<sigma> ds K D T)((ds, ym, Backup txn) := None, (ds, ym, Target) := \<sigma> (ds, ym, Target)) = stage txn \<sigma> ds K (D - {ym}) (T - {ym})"
proof (rule ext)
  fix p :: path
  obtain d y a where p: "p = (d, y, a)" by (cases p rule: prod_cases3)
  show "((stage txn \<sigma> ds K D T)((ds, ym, Backup txn) := None, (ds, ym, Target) := \<sigma> (ds, ym, Target))) p = (stage txn \<sigma> ds K (D - {ym}) (T - {ym})) p"
    unfolding p using assms unusedD [OF assms(1)] by (auto simp: stage_def)
qed

section \<open>Each operation moves between stages\<close>

lemma stage_at:
  assumes "unused txn \<sigma>" and "ym \<notin> D"
  shows "stage txn \<sigma> ds K D T (ds, ym, Target) = \<sigma> (ds, ym, Target)" "stage txn \<sigma> ds K D T (ds, ym, Backup txn) = None"
    "ym \<in> T \<Longrightarrow> stage txn \<sigma> ds K D T (ds, ym, Temporary txn) = Some (K ym)"
  using assms(2) unusedD [OF assms(1)] by (simp_all add: stage_def)

lemma prepare_stage:
  assumes "map_of fs = stage txn \<sigma> ds K {} T" and "unused txn \<sigma>" and "ym \<notin> T"
    and "prepare_partition faults (part_of txn \<sigma> ds K ym) fs = (fs', r)"
  shows "map_of fs' = stage txn \<sigma> ds K {} (if isl r then T else insert ym T)"
proof (cases "res_fold (\<lambda>c _. validate_candle_serialization c True) (K ym) ()")
  case (Inl e)
  then have "fs' = fs \<and> r = Inl e" using assms(4) by (simp add: prepare_partition_def)
  then show ?thesis using assms(1) by simp
next
  case (Inr u)
  then have "(fs', r) = (if faults (ds, ym, Target) Write_temporary
      then (AList.delete (ds, ym, Temporary txn) fs, Inl MarketDataStorage)
      else (AList.update (ds, ym, Temporary txn) (K ym) fs, Inr ()))"
    using assms(4) by (auto simp: prepare_partition_def split: if_splits)
  then show ?thesis
    using assms(1,3) stage_write [of ym "{}" txn \<sigma> ds K T] stage_drop [OF assms(2), of ds K "{}" T ym]
    by (auto split: if_splits)
qed

lemma drop_temporaries:
  assumes "map_of fs = stage txn \<sigma> ds K {} T" and "unused txn \<sigma>"
  shows "map_of (fold AList.delete (map (\<lambda>ym. (ds, ym, Temporary txn)) yms) fs) = stage txn \<sigma> ds K {} (T - set yms)"
  using assms(1)
proof (induction yms arbitrary: fs T)
  case Nil
  then show ?case by simp
next
  case (Cons ym yms)
  have "map_of (AList.delete (ds, ym, Temporary txn) fs) = stage txn \<sigma> ds K {} (T - {ym})"
    using Cons.prems by (simp add: stage_drop [OF assms(2)])
  from Cons.IH [OF this] show ?case by (simp add: set_diff_eq insert_commute Diff_insert2 [symmetric] Diff_insert)
qed

lemma prepare_loop_stage:
  assumes "map_of fs = stage txn \<sigma> ds K {} (set ready)" and "unused txn \<sigma>" and "distinct (ready @ yms)"
    and "prepare_loop faults (map (part_of txn \<sigma> ds K) yms) (map (\<lambda>ym. (ds, ym, Temporary txn)) ready) fs = (fs', r)"
  shows "map_of fs' = stage txn \<sigma> ds K {} (if isl r then {} else set (ready @ yms))"
  using assms(1,3,4)
proof (induction yms arbitrary: ready fs)
  case Nil
  then show ?case by auto
next
  case (Cons ym yms)
  obtain fs1 r1 where p: "prepare_partition faults (part_of txn \<sigma> ds K ym) fs = (fs1, r1)" by fastforce
  have m: "map_of fs1 = stage txn \<sigma> ds K {} (if isl r1 then set ready else insert ym (set ready))"
    by (rule prepare_stage [OF Cons.prems(1) assms(2) _ p]) (use Cons.prems(2) in simp)
  show ?case
  proof (cases r1)
    case (Inl e)
    then have "fs' = fold AList.delete (map (\<lambda>ym. (ds, ym, Temporary txn)) ready) fs1" "isl r" using Cons.prems(3) p by auto
    then show ?thesis using drop_temporaries [OF _ assms(2), of fs1 ds K "set ready" ready] m Inl by simp
  next
    case (Inr u)
    have "map_of fs1 = stage txn \<sigma> ds K {} (set (ready @ [ym]))" using m Inr by simp
    moreover have "prepare_loop faults (map (part_of txn \<sigma> ds K) yms) (map (\<lambda>ym. (ds, ym, Temporary txn)) (ready @ [ym])) fs1 = (fs', r)"
      using Cons.prems(3) p Inr by simp
    ultimately show ?thesis using Cons.IH [of fs1 "ready @ [ym]"] Cons.prems(2) by simp
  qed
qed

lemma restore_map:
  assumes "pp_target p \<noteq> pp_backup p"
  shows "map_of (restore_target p fs) = (if map_of fs (pp_backup p) = None \<and> pp_had_original p then map_of fs
    else (map_of fs)(pp_backup p := None, pp_target p := map_of fs (pp_backup p)))"
proof (rule ext)
  fix x
  show "map_of (restore_target p fs) x = (if map_of fs (pp_backup p) = None \<and> pp_had_original p then map_of fs
    else (map_of fs)(pp_backup p := None, pp_target p := map_of fs (pp_backup p))) x"
    using assms by (auto simp: restore_target_def split: option.splits)
qed

lemma promote_map:
  assumes d: "pp_target p \<noteq> pp_backup p" "pp_target p \<noteq> pp_temporary p" "pp_temporary p \<noteq> pp_backup p"
    and m: "map_of fs (pp_target p) = None \<longleftrightarrow> \<not> pp_had_original p" "map_of fs (pp_temporary p) = Some rows"
      "map_of fs (pp_backup p) = None"
    and r: "promote_partition faults p fs = (fs', r)"
  shows "map_of fs' = (if isl r then (map_of fs)(pp_temporary p := None)
    else (map_of fs)(pp_backup p := map_of fs (pp_target p), pp_temporary p := None, pp_target p \<mapsto> rows))"
proof (rule ext)
  fix x
  show "map_of fs' x = (if isl r then (map_of fs)(pp_temporary p := None)
    else (map_of fs)(pp_backup p := map_of fs (pp_target p), pp_temporary p := None, pp_target p \<mapsto> rows)) x"
  proof (cases "pp_had_original p")
    case True
    then obtain old where "map_of fs (pp_target p) = Some old" using m(1) by auto
    then show ?thesis
      using True d m r by (auto simp: promote_partition_def move_original_def io_then_def raising_def os_replace_def restore_map
          split: if_splits)
  next
    case False
    then have "map_of fs (pp_target p) = None" using m(1) by simp
    then show ?thesis
      using False d m r by (auto simp: promote_partition_def move_original_def io_then_def raising_def os_replace_def restore_map
          split: if_splits)
  qed
qed

lemma promote_stage:
  assumes "map_of fs = stage txn \<sigma> ds K D T" and "unused txn \<sigma>" and "ym \<notin> D" and "ym \<in> T"
    and "promote_partition faults (part_of txn \<sigma> ds K ym) fs = (fs', r)"
  shows "map_of fs' = (if isl r then stage txn \<sigma> ds K D (T - {ym}) else stage txn \<sigma> ds K (insert ym D) (T - {ym}))"
proof -
  let ?p = "part_of txn \<sigma> ds K ym"
  note at = stage_at [OF assms(2,3), where ds = ds and K = K and T = T]
  have "map_of fs' = (if isl r then (map_of fs)(pp_temporary ?p := None)
    else (map_of fs)(pp_backup ?p := map_of fs (pp_target ?p), pp_temporary ?p := None, pp_target ?p \<mapsto> K ym))"
    by (rule promote_map [OF _ _ _ _ _ _ assms(5)]) (simp_all add: assms(1,4) at)
  then show ?thesis
    by (simp add: assms(1) at stage_drop [OF assms(2)] stage_promoted [OF assms(3)])
qed

lemma rollback_stage:
  assumes "map_of fs = stage txn \<sigma> ds K (set yms) T" and "unused txn \<sigma>" and "set yms \<inter> T = {}" and "distinct yms"
  shows "map_of (rollback (map (part_of txn \<sigma> ds K) yms) fs) = stage txn \<sigma> ds K {} T"
  using assms(1,3,4)
proof (induction yms arbitrary: fs rule: rev_induct)
  case Nil
  then show ?case by (simp add: rollback_def)
next
  case (snoc ym yms)
  let ?p = "part_of txn \<sigma> ds K ym"
  have b: "map_of fs (pp_backup ?p) = \<sigma> (ds, ym, Target)" using snoc.prems(1) by (simp add: stage_def)
  have "map_of (restore_target ?p fs) = (map_of fs)(pp_backup ?p := None, pp_target ?p := \<sigma> (ds, ym, Target))"
    by (subst restore_map) (auto simp: b [simplified])
  also have "\<dots> = stage txn \<sigma> ds K (set yms) T"
  proof -
    have "set (yms @ [ym]) - {ym} = set yms" "T - {ym} = T" using snoc.prems(2,3) by auto
    then show ?thesis using stage_restored [OF assms(2), of ym "set (yms @ [ym])" ds K T] snoc.prems(1) by simp
  qed
  finally show ?case using snoc.IH [of "restore_target ?p fs"] snoc.prems(2,3) by (simp add: rollback_def)
qed

lemma promote_loop_stage:
  assumes "map_of fs = stage txn \<sigma> ds K (set ready) (set yms)" and "unused txn \<sigma>" and "distinct (ready @ yms)"
    and "promote_loop faults (map (part_of txn \<sigma> ds K) yms) (map (part_of txn \<sigma> ds K) ready) fs = (fs', r)"
  shows "\<exists>T. map_of fs' = (if isl r then stage txn \<sigma> ds K {} T else stage txn \<sigma> ds K (set (ready @ yms)) {})"
  using assms(1,3,4)
proof (induction yms arbitrary: ready fs)
  case Nil
  then show ?case by auto
next
  case (Cons ym yms)
  obtain fs1 r1 where p: "promote_partition faults (part_of txn \<sigma> ds K ym) fs = (fs1, r1)" by fastforce
  have t: "set (ym # yms) - {ym} = set yms" using Cons.prems(2) by auto
  have m: "map_of fs1 = (if isl r1 then stage txn \<sigma> ds K (set ready) (set yms) else stage txn \<sigma> ds K (insert ym (set ready)) (set yms))"
    using promote_stage [OF Cons.prems(1) assms(2) _ _ p] Cons.prems(2) unfolding t by simp
  show ?case
  proof (cases r1)
    case (Inl e)
    then have "fs' = rollback (map (part_of txn \<sigma> ds K) ready) fs1" "isl r" using Cons.prems(3) p by auto
    then show ?thesis using rollback_stage [OF _ assms(2), of fs1 ds K "ready" "set yms"] m Inl Cons.prems(2) by auto
  next
    case (Inr u)
    have "map_of fs1 = stage txn \<sigma> ds K (set (ready @ [ym])) (set yms)" using m Inr by simp
    moreover have "promote_loop faults (map (part_of txn \<sigma> ds K) yms) (map (part_of txn \<sigma> ds K) (ready @ [ym])) fs1 = (fs', r)"
      using Cons.prems(3) p Inr by simp
    ultimately show ?thesis using Cons.IH [of fs1 "ready @ [ym]"] Cons.prems(2) by (cases "isl r") auto
  qed
qed

section \<open>What a plan contains\<close>

text \<open>A value of the \<^verbatim>\<open>Candle\<close> class: its constructor accepts it unchanged.\<close>

definition candle_object :: "candle \<Rightarrow> bool" where
  "candle_object c \<longleftrightarrow> make_candle c (Aware (c_open_time c) 0) (Aware (c_close_time c) 0) = Inr c"

definition batch_ok :: "timeframe \<Rightarrow> candle list \<Rightarrow> bool" where
  "batch_ok tf cs \<longleftrightarrow> list_all (\<lambda>c. candle_object c \<and> c_timeframe c = tf) cs"

lemma storable_object:
  assumes "candle_object c" and "c_timeframe c = tf" and "validate_candle_serialization c True = Inr ()"
  shows "storable tf c"
proof -
  have "c\<lparr>c_timeframe := tf\<rparr> = c" using assms(2) by simp
  then show ?thesis
    using assms by (auto simp: storable_def row_to_candle_def candle_object_def validate_candle_serialization_def)
qed

lemma add_incoming_fold:
  "res_fold (add_incoming ds) cs s = Inr r \<longleftrightarrow>
     (\<forall>c\<in>set cs. validate_candle_serialization c True = Inr () \<and> candle_identity c = ds) \<and> res_fold add_candle cs s = Inr r"
  by (induction cs arbitrary: s) (auto simp: add_incoming_def)

lemma plan_month_InrD:
  assumes "plan_month txn fs ds tf U ym s = Inr s'" and ok: "dataset_ok fs ds tf" and "\<forall>c\<in>set U. candle_identity c = ds"
  shows "inj_on c_open_time (set (rows_of fs ds ym) \<union> set (in_month ym U))"
proof -
  obtain ps st k where s: "s = (ps, st, k)" by (cases s rule: prod_cases3)
  obtain ys m j where f: "res_fold add_candle (in_month ym U) (rows_of fs ds ym, 0, k) = Inr (ys, m, j)"
    using assms(1) by (auto simp: s plan_month_def read_file_ok [OF ok])
  show ?thesis
  proof (rule add_fold_InrD [OF f])
    show "candle_identity ` (set (rows_of fs ds ym) \<union> set (in_month ym U)) \<subseteq> {ds}"
      using dataset_okD(2) [OF ok, where ym = ym] assms(3) by auto
    show "inj_on c_open_time (set (rows_of fs ds ym))"
      using strict_by_distinct [OF dataset_okD(1) [OF ok, of ym]] by (simp add: distinct_map)
  qed
qed

lemma plan_months_InrD:
  assumes "res_fold (plan_month txn fs ds tf U) yms s = Inr s'" and "dataset_ok fs ds tf" and "\<forall>c\<in>set U. candle_identity c = ds"
    and "ym \<in> set yms"
  shows "inj_on c_open_time (set (rows_of fs ds ym) \<union> set (in_month ym U))"
  using assms(1,4)
proof (induction yms arbitrary: s)
  case (Cons y yms)
  then obtain t where "plan_month txn fs ds tf U y s = Inr t" "res_fold (plan_month txn fs ds tf U) yms t = Inr s'" by auto
  then show ?case using Cons plan_month_InrD [OF _ assms(2,3)] by (cases "ym = y") auto
qed simp

lemma distinct_months_of [simp]: "distinct (months_of U)"
  by (simp add: months_of_def)

lemma set_months_of: "set (months_of U) = (\<lambda>c. month_of (c_open_time c)) ` set U"
  by (simp add: months_of_def)

lemma in_month_empty: "ym \<notin> set (months_of U) \<Longrightarrow> set (in_month ym U) = {}"
  unfolding set_months_of in_month_set by blast

lemma fits_by_month:
  assumes ok: "dataset_ok fs ds tf" and U: "\<forall>c\<in>set U. candle_identity c = ds \<and> storable tf c"
    and months: "\<And>ym. ym \<in> set (months_of U) \<Longrightarrow> inj_on c_open_time (set (rows_of fs ds ym) \<union> set (in_month ym U))"
  shows "fits fs ds tf U"
  unfolding fits_def
proof (intro conjI inj_onI)
  fix c d
  assume cd: "c \<in> stored_set fs ds \<union> set U" "d \<in> stored_set fs ds \<union> set U" "c_open_time c = c_open_time d"
  let ?m = "month_of (c_open_time d)"
  have in_m: "x \<in> set (rows_of fs ds ?m) \<union> set (in_month ?m U)" if "x \<in> stored_set fs ds \<union> set U" "c_open_time x = c_open_time d" for x
    using that by (auto simp: rows_iff [OF ok])
  show "c = d"
  proof (cases "?m \<in> set (months_of U)")
    case True
    from months [OF True] show ?thesis using in_m [OF cd(1,3)] in_m [OF cd(2) refl] cd(3) by (blast dest: inj_onD)
  next
    case False
    then have "set (in_month ?m U) = {}" by (rule in_month_empty)
    then have "c \<in> stored_set fs ds" "d \<in> stored_set fs ds"
      using in_m [OF cd(1,3)] in_m [OF cd(2) refl] by (auto simp: rows_iff [OF ok])
    then show ?thesis using stored_set_inj [OF ok] cd(3) by (blast dest: inj_onD)
  qed
qed (use U in blast)

lemma fresh_in_months: "fresh_rows fs ds U ym \<noteq> [] \<Longrightarrow> ym \<in> set (months_of U)"
  by (auto simp: fresh_rows_def set_months_of image_iff filter_empty_conv)

lemma length_by_month:
  assumes "distinct U"
  shows "length (concat (map (\<lambda>ym. filter P (in_month ym U)) (months_of U))) = card {c \<in> set U. P c}"
proof -
  have d: "distinct (concat (map (\<lambda>ym. filter P (in_month ym U)) yms))" if "distinct yms" for yms
    using that assms by (induction yms) auto
  have "set (concat (map (\<lambda>ym. filter P (in_month ym U)) (months_of U))) = {c \<in> set U. P c}"
    by (auto simp: set_months_of)
  with distinct_card [OF d [OF distinct_months_of]] show ?thesis by metis
qed

lemma plan_partition_part_of:
  "plan_partition txn fs ds ym (rows_of fs ds ym @ fresh_rows fs ds U ym) = part_of txn (map_of fs) ds (merged_rows fs ds U) ym"
  by (simp add: plan_partition_def part_of_def merged_rows_def partition_target_def)

definition planned_months :: "files \<Rightarrow> dataset_id \<Rightarrow> candle list \<Rightarrow> month list" where
  "planned_months fs ds U = filter (\<lambda>ym. fresh_rows fs ds U ym \<noteq> []) (months_of U)"

lemma new_count:
  assumes "admits fs ds tf U"
  shows "length (concat (map (fresh_rows fs ds U) (months_of U))) = card (set U - stored_set fs ds)"
proof -
  have "map (fresh_rows fs ds U) (months_of U) = map (\<lambda>ym. filter (\<lambda>c. c \<notin> stored_set fs ds) (in_month ym U)) (months_of U)"
    by (auto simp: fresh_rows_def in_month_def rows_iff [OF admitsD(1) [OF assms]] intro!: filter_cong)
  then have "length (concat (map (fresh_rows fs ds U) (months_of U))) = card {c \<in> set U. c \<notin> stored_set fs ds}"
    using length_by_month [OF admitsD(3) [OF assms]] by (simp only:)
  also have "{c \<in> set U. c \<notin> stored_set fs ds} = set U - stored_set fs ds" by blast
  finally show ?thesis .
qed

lemma plan_upsert_Inr:
  assumes "plan_upsert H fs cs txn = Inr p" and "cs \<noteq> []" and ds: "ds = candle_identity (hd cs)" and tf: "tf = c_timeframe (hd cs)"
    and ok: "dataset_ok fs ds tf" and batch: "batch_ok tf cs"
  obtains U ig where "admits fs ds tf U" and "set U = set cs"
    and "up_partitions p = map (part_of txn (map_of fs) ds (merged_rows fs ds U)) (planned_months fs ds U)"
    and "up_stored p = int (card (set U - stored_set fs ds))" and "up_stored p + up_duplicates p = int (length cs)"
    and "future_dataset_integrity H fs ds tf U = Inr ig"
    and "up_first p = ig_first ig \<and> up_last p = ig_last ig \<and> up_count p = ig_count ig \<and> up_checksum p = ig_current_version ig \<and> up_entries p = ig_entries ig"
proof -
  obtain c cs' where cs: "cs = c # cs'" using assms(2) by (cases cs) auto
  obtain U n k planned stored dups ig where
    U: "res_fold (add_incoming ds) cs ([], 0, 0) = Inr (U, n, k)"
    and P: "res_fold (plan_month txn fs ds tf U) (months_of U) ([], 0, k) = Inr (planned, stored, dups)"
    and F: "future_dataset_integrity H fs ds tf U = Inr ig"
    and p: "p = \<lparr>up_transaction = txn, up_partitions = planned, up_stored = stored, up_duplicates = dups, up_first = ig_first ig,
       up_last = ig_last ig, up_count = ig_count ig, up_checksum = ig_current_version ig, up_entries = ig_entries ig\<rparr>"
    using assms(1) by (auto simp: cs ds tf plan_upsert_def Let_def)
  have ser: "\<forall>c\<in>set cs. validate_candle_serialization c True = Inr () \<and> candle_identity c = ds"
    and U': "res_fold add_candle cs ([], 0, 0) = Inr (U, n, k)"
    using U by (simp_all add: add_incoming_fold)
  have Us: "set U = set cs" "distinct U" "int (length U) + k = int (length cs)"
    using add_fold_unique [OF U', of ds] ser by auto
  have st: "\<forall>c\<in>set U. candle_identity c = ds \<and> storable tf c"
    using ser batch storable_object by (auto simp: Us(1) batch_ok_def list_all_iff)
  have "fits fs ds tf U"
    by (rule fits_by_month [OF ok st]) (rule plan_months_InrD [OF P ok], use st in auto)
  then have adm: "admits fs ds tf U" using ok Us(2) by (simp add: admits_def)
  note eq = plan_months_eq [OF ok admitsD(2,3) [OF adm], of txn "months_of U" "[]" 0 k, unfolded P plan_partition_part_of]
  have len: "length (concat (map (\<lambda>ym. in_month ym U) (months_of U))) = length U"
    using length_by_month [OF Us(2), of "\<lambda>_. True"] Us(2) by (simp add: distinct_card)
  show thesis
  proof (rule that [OF adm Us(1) _ _ _ F])
    show "up_partitions p = map (part_of txn (map_of fs) ds (merged_rows fs ds U)) (planned_months fs ds U)"
      using eq by (simp add: p planned_months_def)
    show "up_stored p = int (card (set U - stored_set fs ds))" using eq new_count [OF adm] by (simp add: p)
    show "up_stored p + up_duplicates p = int (length cs)" using eq Us(3) by (simp add: p len)
  qed (simp add: p)
qed

section \<open>The files after an upsert\<close>

text \<open>Whatever the dataset holds, the partitions of a plan have distinct months and its own paths.\<close>

lemma plan_months_parts:
  assumes "res_fold (plan_month txn fs ds tf U) yms (ps, st, k) = Inr (qs, st', k')" and "distinct yms"
  shows "\<exists>K zs. distinct zs \<and> set zs \<subseteq> set yms \<and> qs = ps @ map (part_of txn (map_of fs) ds K) zs"
  using assms
proof (induction yms arbitrary: ps st k)
  case Nil
  then show ?case by (auto intro!: exI [of _ "[]"])
next
  case (Cons y yms)
  then obtain ps1 st1 k1 where s: "plan_month txn fs ds tf U y (ps, st, k) = Inr (ps1, st1, k1)"
    "res_fold (plan_month txn fs ds tf U) yms (ps1, st1, k1) = Inr (qs, st', k')" by auto
  obtain K zs where IH: "distinct zs" "set zs \<subseteq> set yms" "qs = ps1 @ map (part_of txn (map_of fs) ds K) zs"
    using Cons.IH [OF s(2)] Cons.prems(2) by auto
  have "ps1 = ps \<or> (\<exists>m. ps1 = ps @ [plan_partition txn fs ds y m])"
    using s(1) by (auto simp: plan_month_def split: if_splits)
  then show ?case
  proof
    assume "ps1 = ps"
    with IH show ?thesis by (intro exI [of _ K] exI [of _ zs]) auto
  next
    assume "\<exists>m. ps1 = ps @ [plan_partition txn fs ds y m]"
    then obtain m where m: "ps1 = ps @ [plan_partition txn fs ds y m]" by blast
    let ?K = "K(y := sort_key c_open_time m)"
    have "y \<notin> set zs" using IH(2) Cons.prems(2) by auto
    then have "map (part_of txn (map_of fs) ds K) zs = map (part_of txn (map_of fs) ds ?K) zs"
      by (auto simp: part_of_def)
    then have "qs = ps @ map (part_of txn (map_of fs) ds ?K) (y # zs)"
      by (simp add: IH(3) m part_of_def plan_partition_def partition_target_def)
    then show ?thesis using \<open>y \<notin> set zs\<close> IH(1,2) by (intro exI [of _ ?K] exI [of _ "y # zs"]) auto
  qed
qed

lemma plan_upsert_parts:
  assumes "plan_upsert H fs cs txn = Inr p"
  shows "\<exists>ds K zs. distinct zs \<and> up_partitions p = map (part_of txn (map_of fs) ds K) zs"
proof (cases cs)
  case Nil
  then show ?thesis using assms by (auto simp: plan_upsert_def intro!: exI [of _ "[]"])
next
  case (Cons c cs')
  then obtain U n k planned stored dups where
    "res_fold (plan_month txn fs (candle_identity c) (c_timeframe c) U) (months_of U) ([], 0, k) = Inr (planned, stored, dups)"
    "up_partitions p = planned"
    using assms by (auto simp: plan_upsert_def Let_def)
  then show ?thesis using plan_months_parts [OF _ distinct_months_of] by (metis append_Nil)
qed

lemma write_plan:
  assumes "unused txn (map_of fs)" and "distinct yms" and ps: "ps = map (part_of txn (map_of fs) ds K) yms"
    and "io_then (prepare_files faults ps fs) (promote_loop faults ps []) = (fs', r)"
  shows "\<exists>T. map_of fs' = (if isl r then stage txn (map_of fs) ds K {} T else stage txn (map_of fs) ds K (set yms) {})"
proof -
  obtain fs1 r1 where p: "prepare_files faults ps fs = (fs1, r1)" by fastforce
  have m: "map_of fs1 = stage txn (map_of fs) ds K {} (if isl r1 then {} else set yms)"
    using prepare_loop_stage [of fs txn "map_of fs" ds K "[]" yms faults fs1 r1] assms(1,2) p
    by (simp add: prepare_files_def ps stage_empty)
  show ?thesis
  proof (cases r1)
    case (Inl e)
    then have "fs' = fs1" "isl r" using assms(4) p by (auto simp: io_then_def)
    then show ?thesis using m Inl by auto
  next
    case (Inr u)
    then have "promote_loop faults ps [] fs1 = (fs', r)" using assms(4) p by (simp add: io_then_def)
    then show ?thesis
      using promote_loop_stage [of fs1 txn "map_of fs" ds K "[]" yms faults fs' r] assms(1,2) m Inr by (cases "isl r") (auto simp: ps)
  qed
qed

lemma upsert_cases:
  assumes "upsert H faults fs cs txn = (fs', r)"
  obtains (plan) e where "plan_upsert H fs cs txn = Inl e" and "fs' = fs" and "r = Inl e"
  | (failed) p e where "plan_upsert H fs cs txn = Inr p" and "r = Inl e"
      and "io_then (prepare_files faults (up_partitions p) fs) (promote_loop faults (up_partitions p) []) = (fs', Inl e)"
  | (written) p u where "plan_upsert H fs cs txn = Inr p"
      and "r = Inr \<lparr>rc_changes = up_partitions p, rc_stored = up_stored p, rc_duplicates = up_duplicates p\<rparr>"
      and "io_then (prepare_files faults (up_partitions p) fs) (promote_loop faults (up_partitions p) []) = (fs', Inr u)"
proof (cases "plan_upsert H fs cs txn")
  case (Inl e)
  then have "fs' = fs" "r = Inl e" using assms by (simp_all add: upsert_def)
  with Inl show thesis by (rule plan)
next
  case (Inr p)
  obtain fs1 r1 where w: "io_then (prepare_files faults (up_partitions p) fs) (promote_loop faults (up_partitions p) []) = (fs1, r1)"
    by fastforce
  have "upsert H faults fs cs txn = io_then (io_then (prepare_files faults (up_partitions p) fs) (promote_loop faults (up_partitions p) []))
      (\<lambda>fs. (fs, Inr \<lparr>rc_changes = up_partitions p, rc_stored = up_stored p, rc_duplicates = up_duplicates p\<rparr>))"
    by (simp add: upsert_def Inr io_then_def split: prod.splits sum.splits)
  then have e: "io_then (fs1, r1) (\<lambda>fs. (fs, Inr \<lparr>rc_changes = up_partitions p, rc_stored = up_stored p, rc_duplicates = up_duplicates p\<rparr>)) = (fs', r)"
    using assms by (simp only: w)
  show thesis
  proof (cases r1)
    case (Inl x)
    then have "fs' = fs1" "r = Inl x" using e by (simp_all add: io_then_def)
    then show thesis using failed [OF Inr] w Inl by blast
  next
    case (Inr u)
    then have "fs' = fs1" "r = Inr \<lparr>rc_changes = up_partitions p, rc_stored = up_stored p, rc_duplicates = up_duplicates p\<rparr>"
      using e by (simp_all add: io_then_def)
    then show thesis using written [OF \<open>plan_upsert H fs cs txn = Inr p\<close>] w Inr by blast
  qed
qed

text \<open>A failed upsert leaves nothing but temporary files behind.\<close>

lemma failed_upsert_files:
  assumes "fresh_transaction txn fs" and "upsert H faults fs cs txn = (fs', Inl e)" and "snd (snd path) \<noteq> Temporary txn"
  shows "map_of fs' path = map_of fs path"
  using assms(2)
proof (cases rule: upsert_cases)
  case (failed p e')
  obtain ds K zs where z: "distinct zs" "up_partitions p = map (part_of txn (map_of fs) ds K) zs"
    using plan_upsert_parts [OF failed(1)] by blast
  obtain T where "map_of fs' = stage txn (map_of fs) ds K {} T"
    using write_plan [OF fresh_unused [OF assms(1)] z failed(3)] by auto
  moreover obtain d y a where "path = (d, y, a)" by (cases path rule: prod_cases3)
  ultimately show ?thesis using assms(3) by (auto simp: stage_def)
qed auto

lemma written_stage:
  assumes "fresh_transaction txn fs" and "upsert H faults fs cs txn = (fs', Inr r)" and "plan_upsert H fs cs txn = Inr p"
    and "distinct zs" and "up_partitions p = map (part_of txn (map_of fs) ds K) zs"
  shows "map_of fs' = stage txn (map_of fs) ds K (set zs) {}"
  using assms(2)
proof (cases rule: upsert_cases)
  case (written q u)
  then have "q = p" using assms(3) by simp
  then show ?thesis using write_plan [OF fresh_unused [OF assms(1)] assms(4,5)] written(3) by fastforce
qed (use assms(3) in auto)

end
