(* ===== verification/Candle_Guarantees.thy ===== *)
theory Candle_Guarantees
  imports Candle_Upsert
begin

text \<open>
  What the candle store promises: an upsert merges the batch into the map of stored candles or changes
  nothing, repeating it changes nothing, its receipt can be taken back, and the integrity data it
  planned are those an offline scan finds.  The promise is a locale, instantiated by the store; in
  it, any history of upserts with any faults amounts to the merges of the successful ones.
\<close>

section \<open>Success and failure of one upsert\<close>

definition entries_of :: "candle list \<Rightarrow> instant \<rightharpoonup> candle" where
  "entries_of cs = map_of (map (\<lambda>c. (c_open_time c, c)) cs)"

definition sound :: "files \<Rightarrow> candle list \<Rightarrow> string \<Rightarrow> bool" where
  "sound fs cs txn \<longleftrightarrow> cs \<noteq> [] \<and> dataset_ok fs (candle_identity (hd cs)) (c_timeframe (hd cs)) \<and>
     batch_ok (c_timeframe (hd cs)) cs \<and> fresh_transaction txn fs"

lemma soundD:
  assumes "sound fs cs txn"
  shows "cs \<noteq> []" and "dataset_ok fs (candle_identity (hd cs)) (c_timeframe (hd cs))"
    and "batch_ok (c_timeframe (hd cs)) cs" and "fresh_transaction txn fs"
  using assms by (simp_all add: sound_def)

lemma entries_of_cong:
  assumes "inj_on c_open_time (set U)" and "set U = set cs"
  shows "entries_of U = entries_of cs"
proof
  fix t
  have "entries_of U t = Some c \<longleftrightarrow> entries_of cs t = Some c" for c
    using map_of_open_times [OF assms(1)] map_of_open_times [of cs t c] assms by (simp add: entries_of_def)
  then show "entries_of U t = entries_of cs t" by (metis option.exhaust)
qed

lemma upsert_written:
  assumes s: "sound fs cs txn" and u: "upsert H faults fs cs txn = (fs', Inr r)"
    and ds: "ds = candle_identity (hd cs)" and tf: "tf = c_timeframe (hd cs)"
  obtains U p ig where "plan_upsert H fs cs txn = Inr p" and "admits fs ds tf U" and "set U = set cs" and "upserted fs ds U fs'"
    and "rc_changes r = map (part_of txn (map_of fs) ds (merged_rows fs ds U)) (planned_months fs ds U)"
    and "map_of fs' = stage txn (map_of fs) ds (merged_rows fs ds U) (set (planned_months fs ds U)) {}"
    and "rc_stored r = int (card (set U - stored_set fs ds))" and "rc_stored r + rc_duplicates r = int (length cs)"
    and "future_dataset_integrity H fs ds tf U = Inr ig"
    and "up_first p = ig_first ig \<and> up_last p = ig_last ig \<and> up_count p = ig_count ig \<and> up_checksum p = ig_current_version ig \<and> up_entries p = ig_entries ig"
proof -
  note sd = soundD [OF s, folded ds tf]
  obtain p where p: "plan_upsert H fs cs txn = Inr p"
    "r = \<lparr>rc_changes = up_partitions p, rc_stored = up_stored p, rc_duplicates = up_duplicates p\<rparr>"
    using u by (cases rule: upsert_cases) auto
  obtain U ig where U: "admits fs ds tf U" "set U = set cs"
    "up_partitions p = map (part_of txn (map_of fs) ds (merged_rows fs ds U)) (planned_months fs ds U)"
    "up_stored p = int (card (set U - stored_set fs ds))" "up_stored p + up_duplicates p = int (length cs)"
    "future_dataset_integrity H fs ds tf U = Inr ig"
    "up_first p = ig_first ig \<and> up_last p = ig_last ig \<and> up_count p = ig_count ig \<and> up_checksum p = ig_current_version ig \<and> up_entries p = ig_entries ig"
    using plan_upsert_Inr [OF p(1) sd(1) ds tf sd(2,3)] by blast
  have st: "map_of fs' = stage txn (map_of fs) ds (merged_rows fs ds U) (set (planned_months fs ds U)) {}"
    by (rule written_stage [OF sd(4) u p(1) _ U(3)]) (simp add: planned_months_def)
  have "map_of fs' (partition_target ds ym) = (if fresh_rows fs ds U ym = [] then map_of fs (partition_target ds ym)
      else Some (merged_rows fs ds U ym))" for ym
    using fresh_in_months [of fs ds U ym] by (simp add: st stage_def partition_target_def planned_months_def)
  then have "upserted fs ds U fs'" unfolding upserted_def by blast
  with U st p that show thesis by simp
qed

lemma upsert_merges_content:
  assumes "sound fs cs txn" and "upsert H faults fs cs txn = (fs', Inr r)"
    and ds: "ds = candle_identity (hd cs)" and tf: "tf = c_timeframe (hd cs)"
  shows "dataset_ok fs' ds tf" and "content fs' ds = content fs ds ++ entries_of cs" and "content fs ds \<subseteq>\<^sub>m content fs' ds"
    and "rc_stored r = int (card (dom (content fs' ds) - dom (content fs ds)))" and "rc_stored r + rc_duplicates r = int (length cs)"
proof -
  obtain U p ig where U: "admits fs ds tf U" "set U = set cs" "upserted fs ds U fs'"
    "rc_stored r = int (card (set U - stored_set fs ds))" "rc_stored r + rc_duplicates r = int (length cs)"
    by (rule upsert_written [OF assms(1,2) ds tf]) blast
  note ok = admitsD(1) [OF U(1)] and ok' = upserted_ok [OF U(1,3)]
  have inj: "inj_on c_open_time (stored_set fs ds \<union> set U)" using admitsD(2) [OF U(1)] by (simp add: fits_def)
  show "dataset_ok fs' ds tf" by (rule ok')
  show "content fs' ds = content fs ds ++ entries_of cs"
    using upserted_content [OF U(1,3)] entries_of_cong [OF inj_on_subset [OF inj] U(2)] by (simp add: entries_of_def)
  have "content fs ds t = content fs' ds t" if "t \<in> dom (content fs ds)" for t
  proof -
    from that obtain c where c: "content fs ds t = Some c" by blast
    then have "c \<in> stored_set fs' ds" "c_open_time c = t"
      using content_iff [OF ok] stored_set_iff [OF ok] upserted_stored [OF U(1,3)] by auto
    then show ?thesis using stored_set_content [OF ok'] c by metis
  qed
  then show "content fs ds \<subseteq>\<^sub>m content fs' ds" by (simp add: map_le_def)
  have dom: "dom (content gs ds) = c_open_time ` stored_set gs ds" if "dataset_ok gs ds tf" for gs
    using stored_set_content [OF that] content_iff [OF that] by (force simp: dom_def image_iff)
  have "dom (content fs' ds) - dom (content fs ds) = c_open_time ` (set U - stored_set fs ds)"
    using inj by (auto simp: dom [OF ok] dom [OF ok'] upserted_stored [OF U(1,3)] inj_on_def)
  moreover have "card (c_open_time ` (set U - stored_set fs ds)) = card (set U - stored_set fs ds)"
    by (rule card_image) (rule inj_on_subset [OF inj], blast)
  ultimately show "rc_stored r = int (card (dom (content fs' ds) - dom (content fs ds)))" using U(4) by simp
  show "rc_stored r + rc_duplicates r = int (length cs)" by (rule U(5))
qed

section \<open>Taking an upsert back, or keeping it\<close>

lemma commit_map: "map_of (commit changes fs) x = (if x \<in> pp_backup ` set changes then None else map_of fs x)"
  by (induction changes arbitrary: fs) (simp_all add: commit_def)

lemma upsert_taken_back:
  assumes "sound fs cs txn" and "upsert H faults fs cs txn = (fs', Inr r)"
  shows "map_of (rollback (rc_changes r) fs') = map_of fs"
proof -
  let ?ds = "candle_identity (hd cs)"
  obtain U where U: "rc_changes r = map (part_of txn (map_of fs) ?ds (merged_rows fs ?ds U)) (planned_months fs ?ds U)"
    "map_of fs' = stage txn (map_of fs) ?ds (merged_rows fs ?ds U) (set (planned_months fs ?ds U)) {}"
    by (rule upsert_written [OF assms refl refl]) blast
  show ?thesis
    using rollback_stage [OF U(2) fresh_unused [OF soundD(4) [OF assms(1)]]] by (simp add: U(1) stage_empty planned_months_def)
qed

lemma upsert_kept:
  assumes "sound fs cs txn" and "upsert H faults fs cs txn = (fs', Inr r)"
  shows "map_of (commit (rc_changes r) fs') (d, ym, Target) = map_of fs' (d, ym, Target)"
    and "a \<noteq> Target \<Longrightarrow> map_of (commit (rc_changes r) fs') (d, ym, a) = map_of fs (d, ym, a)"
proof -
  let ?ds = "candle_identity (hd cs)"
  obtain U where U: "rc_changes r = map (part_of txn (map_of fs) ?ds (merged_rows fs ?ds U)) (planned_months fs ?ds U)"
    "map_of fs' = stage txn (map_of fs) ?ds (merged_rows fs ?ds U) (set (planned_months fs ?ds U)) {}"
    by (rule upsert_written [OF assms refl refl]) blast
  note un = unusedD [OF fresh_unused [OF soundD(4) [OF assms(1)]]]
  have b: "pp_backup ` set (rc_changes r) = (\<lambda>ym. (?ds, ym, Backup txn)) ` set (planned_months fs ?ds U)"
    by (simp add: U(1) image_image)
  show "map_of (commit (rc_changes r) fs') (d, ym, Target) = map_of fs' (d, ym, Target)"
    by (auto simp: commit_map b)
  show "a \<noteq> Target \<Longrightarrow> map_of (commit (rc_changes r) fs') (d, ym, a) = map_of fs (d, ym, a)"
    by (auto simp: commit_map b U(2) stage_def un image_iff)
qed

section \<open>Repeating an upsert\<close>

lemma fresh_rows_stored:
  assumes "dataset_ok fs ds tf" and "set U \<subseteq> stored_set fs ds"
  shows "fresh_rows fs ds U ym = []"
  using assms(2) by (auto simp: fresh_rows_def filter_empty_conv rows_iff [OF assms(1)])

lemma plan_upsert_nonempty:
  "cs \<noteq> [] \<Longrightarrow> plan_upsert H fs cs txn =
     (let ds = candle_identity (hd cs); tf = c_timeframe (hd cs) in
      res_bind (res_fold (add_incoming ds) cs ([], 0, 0)) (\<lambda>(unique, _, dups).
      res_bind (res_fold (plan_month txn fs ds tf unique) (months_of unique) ([], 0, dups)) (\<lambda>(planned, stored, dups').
      res_bind (future_dataset_integrity H fs ds tf unique) (\<lambda>future.
      Inr \<lparr>up_transaction = txn, up_partitions = planned, up_stored = stored, up_duplicates = dups',
           up_first = ig_first future, up_last = ig_last future, up_count = ig_count future,
           up_checksum = ig_current_version future, up_entries = ig_entries future\<rparr>))))"
  by (cases cs) (simp_all add: plan_upsert_def)

text \<open>A batch plans successfully when its candles can be stored and agree with what is stored.\<close>

lemma plan_upsert_total:
  assumes "cs \<noteq> []" and ds: "ds = candle_identity (hd cs)" and tf: "tf = c_timeframe (hd cs)"
    and ok: "dataset_ok fs ds tf" and batch: "batch_ok tf cs"
    and ser: "\<forall>c\<in>set cs. validate_candle_serialization c True = Inr () \<and> candle_identity c = ds"
    and inj: "inj_on c_open_time (stored_set fs ds \<union> set cs)"
    and future: "\<And>U. admits fs ds tf U \<Longrightarrow> set U = set cs \<Longrightarrow> \<exists>ig. future_dataset_integrity H fs ds tf U = Inr ig"
  shows "\<exists>p. plan_upsert H fs cs txn = Inr p"
proof -
  have "\<exists>r. res_fold add_candle cs ([], 0, 0) = Inr r"
    by (rule add_fold_total [of _ _ ds]) (use ser inj in \<open>auto intro: inj_on_subset\<close>)
  then obtain U n k where U: "res_fold add_candle cs ([], 0, 0) = Inr (U, n, k)" by auto
  then have U': "res_fold (add_incoming ds) cs ([], 0, 0) = Inr (U, n, k)" using ser by (simp add: add_incoming_fold)
  have Us: "set U = set cs" "distinct U" using add_fold_unique [OF U, of ds] ser by auto
  have "\<forall>c\<in>set U. candle_identity c = ds \<and> storable tf c"
    using ser batch storable_object by (auto simp: Us(1) batch_ok_def list_all_iff)
  then have adm: "admits fs ds tf U" using ok inj Us by (simp add: admits_def fits_def)
  obtain ig where "future_dataset_integrity H fs ds tf U = Inr ig" using future [OF adm Us(1)] by blast
  then show ?thesis
    using U' plan_months_eq [OF ok admitsD(2,3) [OF adm], of txn "months_of U" "[]" 0 k]
    by (simp only: plan_upsert_nonempty [OF assms(1)] ds [symmetric] tf [symmetric] Let_def res_bind_simps case_prod_conv)
      blast
qed

text \<open>The offline scan of a sound dataset succeeds.\<close>

lemma scan_partitions:
  assumes "\<And>ym. ym \<in> set yms \<Longrightarrow> strict_by c_open_time (R ym)"
  shows "\<exists>t. res_fold (\<lambda>ym. scan_partition H ds ym (R ym)) yms (es, rest) = Inr (es @ map (\<lambda>ym. ((ds, ym), hs_rows H (R ym))) yms, t)"
  using assms
proof (induction yms arbitrary: es rest)
  case Nil
  show ?case by (intro exI [of _ rest]) simp
next
  case (Cons ym yms)
  obtain hs a b n where rest: "rest = (hs, a, b, n)" by (cases rest rule: prod_cases4) blast
  obtain rest' where s: "scan_partition H ds ym (R ym) (es, rest) = Inr (es @ [((ds, ym), hs_rows H (R ym))], rest')"
    using checksum_strict [of "R ym" H] Cons.prems by (simp add: scan_partition_def rest scan_rows)
  show ?case using Cons.IH [of "es @ [((ds, ym), hs_rows H (R ym))]" rest'] Cons.prems by (simp add: s)
qed

lemma snapshot_total:
  assumes "dataset_ok fs ds tf"
  shows "\<exists>ig. partition_integrity_snapshot H fs ds tf = Inr ig"
proof -
  obtain t where t: "res_fold (\<lambda>ym. scan_partition H ds ym (rows_of fs ds ym)) (partition_months fs ds) ([], [], None, None, 0)
      = Inr ([] @ map (\<lambda>ym. ((ds, ym), hs_rows H (rows_of fs ds ym))) (partition_months fs ds), t)"
    using scan_partitions [where R = "rows_of fs ds" and es = "[]"] dataset_okD(1) [OF assms] by blast
  have "distinct (partition_months fs ds)" using partition_months_sorted [of fs ds] by (simp add: strict_sorted_iff)
  then have "distinct (map fst (map (\<lambda>ym. ((ds, ym), hs_rows H (rows_of fs ds ym))) (partition_months fs ds)))"
    by (simp add: comp_def distinct_map inj_on_def)
  then show ?thesis
    using t by (cases t rule: prod_cases4)
      (simp add: partition_integrity_snapshot_def read_file_ok [OF assms] scan_result_def compose_raw_dataset_version_def)
qed

lemma future_total:
  assumes "admits fs ds tf U"
  shows "\<exists>ig. future_dataset_integrity H fs ds tf U = Inr ig"
proof -
  define yms where "yms = filter (\<lambda>ym. fresh_rows fs ds U ym \<noteq> []) (months_of U)"
  define gs where "gs = map (\<lambda>ym. (partition_target ds ym, merged_rows fs ds U ym)) yms @ fs"
  have "map_of gs (partition_target ds ym) = (if fresh_rows fs ds U ym = [] then map_of fs (partition_target ds ym)
      else Some (merged_rows fs ds U ym))" for ym
  proof -
    have "map_of (map (\<lambda>ym. (partition_target ds ym, merged_rows fs ds U ym)) zs) (partition_target ds ym)
        = (if ym \<in> set zs then Some (merged_rows fs ds U ym) else None)" for zs
      by (induction zs) (auto simp: partition_target_def)
    then show ?thesis using fresh_in_months [of fs ds U ym] by (simp add: gs_def yms_def map_add_def)
  qed
  then have "upserted fs ds U gs" unfolding upserted_def by blast
  from future_is_snapshot [OF assms this] snapshot_total [OF upserted_ok [OF assms this]] show ?thesis by simp
qed

lemma upsert_again:
  assumes s: "sound fs cs txn" and u: "upsert H faults fs cs txn = (fs', Inr r)"
  shows "upsert H faults' fs' cs txn' = (fs', Inr \<lparr>rc_changes = [], rc_stored = 0, rc_duplicates = int (length cs)\<rparr>)"
proof -
  let ?ds = "candle_identity (hd cs)" and ?tf = "c_timeframe (hd cs)"
  obtain U p where U: "plan_upsert H fs cs txn = Inr p" "admits fs ?ds ?tf U" "set U = set cs" "upserted fs ?ds U fs'"
    by (rule upsert_written [OF s u refl refl]) blast
  note sd = soundD [OF s] and ok' = upserted_ok [OF U(2,4)]
  have sub: "set cs \<subseteq> stored_set fs' ?ds" using upserted_stored [OF U(2,4)] U(3) by simp
  have ser: "\<forall>c\<in>set cs. validate_candle_serialization c True = Inr () \<and> candle_identity c = ?ds"
    using admitsD(2) [OF U(2)] U(3) by (auto simp: fits_def storable_def)
  have inj: "inj_on c_open_time (stored_set fs' ?ds \<union> set cs)" using sub stored_set_inj [OF ok'] by (simp add: Un_absorb2)
  obtain q where q: "plan_upsert H fs' cs txn' = Inr q"
    using plan_upsert_total [OF sd(1) refl refl ok' sd(3) ser inj future_total] by blast
  obtain V where V: "admits fs' ?ds ?tf V" "set V = set cs"
    "up_partitions q = map (part_of txn' (map_of fs') ?ds (merged_rows fs' ?ds V)) (planned_months fs' ?ds V)"
    "up_stored q = int (card (set V - stored_set fs' ?ds))" "up_stored q + up_duplicates q = int (length cs)"
    by (rule plan_upsert_Inr [OF q sd(1) refl refl ok' sd(3)]) blast
  have "planned_months fs' ?ds V = []"
    using fresh_rows_stored [OF ok', of V] V(2) sub by (simp add: planned_months_def)
  then have "up_partitions q = []" "up_stored q = 0" "up_duplicates q = int (length cs)"
    using V(2-5) sub by (simp_all add: Diff_eq_empty_iff [THEN iffD2])
  then show ?thesis by (simp add: upsert_def q io_then_def prepare_files_def)
qed

section \<open>The interface of the store\<close>

text \<open>
  A store of keyed records with an operation that may fail: success merges the batch and failure
  changes nothing.  A request carries the batch and whatever decides about its success.
\<close>

locale merge_store =
  fixes inv :: "'s \<Rightarrow> bool" and view :: "'s \<Rightarrow> 'k \<rightharpoonup> 'v" and admissible :: "'s \<Rightarrow> 'a \<Rightarrow> bool"
    and batch :: "'a \<Rightarrow> 'k \<rightharpoonup> 'v" and key :: "'a \<Rightarrow> 'i" and put :: "'a \<Rightarrow> 's \<Rightarrow> 's \<times> bool"
  assumes put_inv: "inv s \<Longrightarrow> admissible s a \<Longrightarrow> inv (fst (put a s))"
    and put_merges: "inv s \<Longrightarrow> admissible s a \<Longrightarrow> snd (put a s) \<Longrightarrow> view (fst (put a s)) = view s ++ batch a"
    and put_grows: "inv s \<Longrightarrow> admissible s a \<Longrightarrow> view s \<subseteq>\<^sub>m view (fst (put a s))"
    and put_fails: "inv s \<Longrightarrow> admissible s a \<Longrightarrow> \<not> snd (put a s) \<Longrightarrow> view (fst (put a s)) = view s"
    and put_keeps: "inv s \<Longrightarrow> admissible s a \<Longrightarrow> admissible s b \<Longrightarrow> key a \<noteq> key b \<Longrightarrow> admissible (fst (put a s)) b"
begin

fun history :: "'a list \<Rightarrow> 's \<Rightarrow> 's \<times> 'a list" where
  "history [] s = (s, [])"
| "history (a # as) s = (let (s1, ok) = put a s; (s2, acc) = history as s1 in (s2, if ok then a # acc else acc))"

lemma history_inv:
  assumes "inv s" and "\<forall>a\<in>set as. admissible s a" and "distinct (map key as)"
  shows "inv (fst (history as s))"
  using assms
proof (induction as arbitrary: s)
  case (Cons a as)
  have "\<forall>b\<in>set as. admissible (fst (put a s)) b" using Cons.prems put_keeps [OF Cons.prems(1), of a] by fastforce
  then show ?case
    using Cons.IH [of "fst (put a s)"] Cons.prems put_inv by (auto simp: Let_def split: prod.splits)
qed simp

text \<open>Any history amounts to the merges of its successful requests, in their order.\<close>

lemma history_merges:
  assumes "inv s" and "\<forall>a\<in>set as. admissible s a" and "distinct (map key as)"
  shows "view (fst (history as s)) = foldl (\<lambda>m a. m ++ batch a) (view s) (snd (history as s)) \<and> view s \<subseteq>\<^sub>m view (fst (history as s))"
  using assms
proof (induction as arbitrary: s)
  case (Cons a as)
  obtain s1 ok where p: "put a s = (s1, ok)" by fastforce
  obtain s2 d where h: "history as s1 = (s2, d)" by fastforce
  have adm: "\<forall>b\<in>set as. admissible s1 b" using Cons.prems put_keeps [OF Cons.prems(1), of a] p by fastforce
  have s1: "inv s1" using put_inv [OF Cons.prems(1), of a] Cons.prems(2) p by simp
  have IH: "view s2 = foldl (\<lambda>m a. m ++ batch a) (view s1) d" "view s1 \<subseteq>\<^sub>m view s2"
    using Cons.IH [OF s1 adm] Cons.prems(3) h by (metis distinct.simps(2) fst_conv list.simps(9) snd_conv)+
  have "view s \<subseteq>\<^sub>m view s1" using put_grows [OF Cons.prems(1), of a] Cons.prems(2) p by simp
  then have grows: "view s \<subseteq>\<^sub>m view s2" using IH(2) by (rule map_le_trans)
  show ?case
    using IH(1) grows put_merges [OF Cons.prems(1), of a] put_fails [OF Cons.prems(1), of a] Cons.prems(2) p
    by (cases ok) (simp_all add: h)
qed simp

end

section \<open>The store keeps its promise\<close>

lemma fresh_iff: "fresh_transaction txn fs \<longleftrightarrow> unused txn (map_of fs)"
proof
  assume "unused txn (map_of fs)"
  then have "a \<noteq> Temporary txn \<and> a \<noteq> Backup txn" if "((d, ym, a), rows) \<in> set fs" for d ym a rows
    using that unusedD [of txn "map_of fs" d ym] by (metis fst_conv image_eqI map_of_eq_None_iff)
  then show "fresh_transaction txn fs" by (fastforce simp: fresh_transaction_def list_all_iff)
qed (rule fresh_unused)

lemma dataset_cong:
  assumes "\<And>ym. map_of gs (partition_target ds ym) = map_of fs (partition_target ds ym)"
  shows "dataset_ok gs ds tf \<longleftrightarrow> dataset_ok fs ds tf" and "content gs ds = content fs ds"
proof -
  have r: "rows_of gs ds ym = rows_of fs ds ym" for ym by (simp add: rows_of_def assms)
  have "set (partition_months gs ds) = set (partition_months fs ds)" using assms by (auto simp: partition_months_set)
  then show "dataset_ok gs ds tf \<longleftrightarrow> dataset_ok fs ds tf" by (simp add: dataset_ok_def list_all_iff r)
  show "content gs ds = content fs ds" by (rule ext) (simp add: content_def r)
qed

text \<open>A request to the store: the faults it meets, its transaction and its candles; a returned receipt is committed.\<close>

record request =
  rq_faults :: faults
  rq_transaction :: string
  rq_candles :: "candle list"

definition ingest :: "hashes \<Rightarrow> request \<Rightarrow> files \<Rightarrow> files \<times> bool" where
  "ingest H q fs =
     (case upsert H (rq_faults q) fs (rq_candles q) (rq_transaction q) of
        (fs', Inl _) \<Rightarrow> (fs', False)
      | (fs', Inr r) \<Rightarrow> (commit (rc_changes r) fs', True))"

definition admissible :: "dataset_id \<Rightarrow> timeframe \<Rightarrow> files \<Rightarrow> request \<Rightarrow> bool" where
  "admissible ds tf fs q \<longleftrightarrow> rq_candles q \<noteq> [] \<and> candle_identity (hd (rq_candles q)) = ds \<and>
     c_timeframe (hd (rq_candles q)) = tf \<and> batch_ok tf (rq_candles q) \<and> fresh_transaction (rq_transaction q) fs"

fun ingest_all :: "hashes \<Rightarrow> request list \<Rightarrow> files \<Rightarrow> files \<times> request list" where
  "ingest_all H [] fs = (fs, [])"
| "ingest_all H (q # qs) fs =
     (let (fs1, ok) = ingest H q fs; (fs2, acc) = ingest_all H qs fs1 in (fs2, if ok then q # acc else acc))"

lemma admissible_sound: "dataset_ok fs ds tf \<Longrightarrow> admissible ds tf fs q \<Longrightarrow> sound fs (rq_candles q) (rq_transaction q)"
  by (simp add: admissible_def sound_def)

lemma ingest_cases:
  assumes "dataset_ok fs ds tf" and "admissible ds tf fs q"
  obtains (failed) "\<not> snd (ingest H q fs)" and "dataset_ok (fst (ingest H q fs)) ds tf" and "content (fst (ingest H q fs)) ds = content fs ds"
  | (merged) "snd (ingest H q fs)" and "dataset_ok (fst (ingest H q fs)) ds tf"
      and "content (fst (ingest H q fs)) ds = content fs ds ++ entries_of (rq_candles q)"
      and "content fs ds \<subseteq>\<^sub>m content (fst (ingest H q fs)) ds"
proof -
  note s = admissible_sound [OF assms]
  obtain fs' r where u: "upsert H (rq_faults q) fs (rq_candles q) (rq_transaction q) = (fs', r)" by fastforce
  show thesis
  proof (cases r)
    case (Inl e)
    then have "map_of fs' (partition_target ds ym) = map_of fs (partition_target ds ym)" for ym
      using failed_upsert_files [OF soundD(4) [OF s]] u by (simp add: partition_target_def)
    note c = dataset_cong [OF this]
    have i: "ingest H q fs = (fs', False)" using u Inl by (simp add: ingest_def)
    show thesis by (rule failed) (use assms(1) in \<open>simp_all add: i c\<close>)
  next
    case (Inr rc)
    have e: "ds = candle_identity (hd (rq_candles q))" "tf = c_timeframe (hd (rq_candles q))"
      using assms(2) by (simp_all add: admissible_def)
    have "map_of (commit (rc_changes rc) fs') (partition_target ds ym) = map_of fs' (partition_target ds ym)" for ym
      using upsert_kept(1) [OF s] u Inr by (simp add: partition_target_def)
    note c = dataset_cong [OF this]
    have i: "ingest H q fs = (commit (rc_changes rc) fs', True)" using u Inr by (simp add: ingest_def)
    note m = upsert_merges_content(1-3) [OF s u [unfolded Inr] e]
    show thesis by (rule merged) (use m in \<open>simp_all add: i c\<close>)
  qed
qed

lemma ingest_keeps_fresh:
  assumes "dataset_ok fs ds tf" and "admissible ds tf fs q" and "txn \<noteq> rq_transaction q" and "fresh_transaction txn fs"
  shows "fresh_transaction txn (fst (ingest H q fs))"
proof -
  note s = admissible_sound [OF assms(1,2)]
  obtain fs' r where u: "upsert H (rq_faults q) fs (rq_candles q) (rq_transaction q) = (fs', r)" by fastforce
  have same: "map_of (fst (ingest H q fs)) (d, ym, a) = map_of fs (d, ym, a)" if "a = Temporary txn \<or> a = Backup txn" for d ym a
  proof (cases r)
    case (Inl e)
    then show ?thesis
      using failed_upsert_files [OF soundD(4) [OF s], of H "rq_faults q" "rq_candles q" fs' e "(d, ym, a)"] u that assms(3)
      by (auto simp: ingest_def)
  next
    case (Inr rc)
    then show ?thesis using upsert_kept(2) [OF s, of H "rq_faults q" fs' rc a d ym] u that by (auto simp: ingest_def)
  qed
  have "map_of (fst (ingest H q fs)) (d, ym, Temporary txn) = None" "map_of (fst (ingest H q fs)) (d, ym, Backup txn) = None" for d ym
    using same unusedD [OF assms(4) [unfolded fresh_iff], of d ym] by simp_all
  then show ?thesis unfolding fresh_iff unused_def by (intro allI conjI)
qed

interpretation candle_store: merge_store "\<lambda>fs. dataset_ok fs ds tf" "\<lambda>fs. content fs ds" "admissible ds tf"
    "\<lambda>q. entries_of (rq_candles q)" rq_transaction "ingest H" for H ds tf
proof
  fix fs q
  assume a: "dataset_ok fs ds tf" "admissible ds tf fs q"
  show "dataset_ok (fst (ingest H q fs)) ds tf" by (rule ingest_cases [OF a]) blast+
  show "snd (ingest H q fs) \<Longrightarrow> content (fst (ingest H q fs)) ds = content fs ds ++ entries_of (rq_candles q)"
    by (rule ingest_cases [OF a, of H]) blast+
  show "content fs ds \<subseteq>\<^sub>m content (fst (ingest H q fs)) ds" by (rule ingest_cases [OF a, of H]) simp_all
  show "\<not> snd (ingest H q fs) \<Longrightarrow> content (fst (ingest H q fs)) ds = content fs ds"
    by (rule ingest_cases [OF a, of H]) blast+
  fix b
  assume "admissible ds tf fs b" "rq_transaction q \<noteq> rq_transaction b"
  then show "admissible ds tf (fst (ingest H q fs)) b"
    using ingest_keeps_fresh [OF a, of "rq_transaction b" H] by (simp add: admissible_def)
qed

lemma ingest_all_history: "candle_store.history H = ingest_all H"
proof (intro ext)
  fix qs fs
  show "candle_store.history H qs fs = ingest_all H qs fs"
    by (induction qs arbitrary: fs) (simp_all add: Let_def split: prod.splits)
qed

section \<open>A concrete store\<close>

definition example_hashes :: hashes where
  "example_hashes = \<lparr>hs_rows = (\<lambda>_. ''rows''), hs_version = (\<lambda>_. ''version'')\<rparr>"

definition no_fault :: faults where
  "no_fault = (\<lambda>_ _. False)"

lemma example_sound: "sound [] example_candles ''t1''"
  by code_simp

lemma example_upsert:
  obtains fs r where "upsert example_hashes no_fault [] example_candles ''t1'' = (fs, Inr r)" and "rc_stored r = 2"
proof -
  have "\<not> isl (snd (upsert example_hashes no_fault [] example_candles ''t1'')) \<and>
      rc_stored (projr (snd (upsert example_hashes no_fault [] example_candles ''t1''))) = 2"
    by code_simp
  then show thesis
    using that by (cases "upsert example_hashes no_fault [] example_candles ''t1''"; cases "snd (upsert example_hashes no_fault [] example_candles ''t1'')") auto
qed

lemma example_failure:
  obtains fs e where "upsert example_hashes (\<lambda>_ c. c = Sync_target) [] example_candles ''t1'' = (fs, Inl e)"
proof -
  have "isl (snd (upsert example_hashes (\<lambda>_ c. c = Sync_target) [] example_candles ''t1''))" by code_simp
  then show thesis
    using that by (cases "upsert example_hashes (\<lambda>_ c. c = Sync_target) [] example_candles ''t1''") (auto simp: isl_def)
qed

section \<open>Properties\<close>

text \<open>C2: An upsert that returns refines a merge of finite maps: the dataset stays sound, its content
  becomes the old content overlaid with the batch, nothing stored is lost or changed, and the receipt
  counts exactly the new candles and the exact duplicates of the batch.\<close>

theorem upsert_refines_merge:
  assumes "sound fs cs txn" and "upsert H faults fs cs txn = (fs', Inr r)"
  shows "dataset_ok fs' (candle_identity (hd cs)) (c_timeframe (hd cs)) \<and>
    content fs' (candle_identity (hd cs)) = content fs (candle_identity (hd cs)) ++ entries_of cs \<and>
    content fs (candle_identity (hd cs)) \<subseteq>\<^sub>m content fs' (candle_identity (hd cs)) \<and>
    rc_stored r = int (card (dom (content fs' (candle_identity (hd cs))) - dom (content fs (candle_identity (hd cs))))) \<and>
    rc_stored r + rc_duplicates r = int (length cs)"
  using upsert_merges_content [OF assms refl refl] by blast

theorem upsert_refines_merge_witness:
  "\<exists>fs' r. upsert example_hashes no_fault [] example_candles ''t1'' = (fs', Inr r) \<and> rc_stored r = 2 \<and>
     content fs' (candle_identity (hd example_candles)) = content [] (candle_identity (hd example_candles)) ++ entries_of example_candles"
proof -
  obtain fs r where u: "upsert example_hashes no_fault [] example_candles ''t1'' = (fs, Inr r)" "rc_stored r = 2"
    by (rule example_upsert)
  from upsert_refines_merge [OF example_sound u(1)] u show ?thesis by blast
qed





text \<open>C17: The integrity data an upsert plans - first and last open time, candle count, dataset version
  and the checksum of every partition - are exactly those an offline scan of the dataset computes
  after the upsert.\<close>

theorem planned_integrity_is_found:
  assumes "sound fs cs txn" and "plan_upsert H fs cs txn = Inr p" and "upsert H faults fs cs txn = (fs', Inr r)"
  shows "\<exists>ig. partition_integrity_snapshot H fs' (candle_identity (hd cs)) (c_timeframe (hd cs)) = Inr ig \<and>
    ig_entries ig = up_entries p \<and> ig_current_version ig = up_checksum p \<and> ig_first ig = up_first p \<and>
    ig_last ig = up_last p \<and> ig_count ig = up_count p"
proof -
  obtain U q ig where U: "plan_upsert H fs cs txn = Inr q" "admits fs (candle_identity (hd cs)) (c_timeframe (hd cs)) U"
    "upserted fs (candle_identity (hd cs)) U fs'"
    "future_dataset_integrity H fs (candle_identity (hd cs)) (c_timeframe (hd cs)) U = Inr ig"
    "up_first q = ig_first ig \<and> up_last q = ig_last ig \<and> up_count q = ig_count ig \<and> up_checksum q = ig_current_version ig \<and> up_entries q = ig_entries ig"
    by (rule upsert_written [OF assms(1,3) refl refl]) blast
  have "q = p" using U(1) assms(2) by simp
  moreover have "partition_integrity_snapshot H fs' (candle_identity (hd cs)) (c_timeframe (hd cs)) = Inr ig"
    using future_is_snapshot [OF U(2,3), of H] U(4) by simp
  ultimately show ?thesis using U(5) by simp
qed

theorem planned_integrity_is_found_witness:
  "\<exists>fs' r p ig. upsert example_hashes no_fault [] example_candles ''t1'' = (fs', Inr r) \<and>
     plan_upsert example_hashes [] example_candles ''t1'' = Inr p \<and> up_count p = ig_count ig \<and>
     partition_integrity_snapshot example_hashes fs' (candle_identity (hd example_candles)) (c_timeframe (hd example_candles)) = Inr ig"
proof -
  obtain fs r where u: "upsert example_hashes no_fault [] example_candles ''t1'' = (fs, Inr r)"
    by (rule example_upsert)
  obtain p where p: "plan_upsert example_hashes [] example_candles ''t1'' = Inr p"
    using u by (cases rule: upsert_cases) auto
  from planned_integrity_is_found [OF example_sound p u] u p show ?thesis by metis
qed

text \<open>C35: The receipt of an upsert can be taken back or kept: rolling it back restores every file, and
  committing it keeps the new partitions and removes everything else the upsert wrote.\<close>

theorem receipt_round_trip:
  assumes "sound fs cs txn" and "upsert H faults fs cs txn = (fs', Inr r)"
  shows "map_of (rollback (rc_changes r) fs') = map_of fs \<and>
    (\<forall>d ym a. map_of (commit (rc_changes r) fs') (d, ym, a) = map_of (if a = Target then fs' else fs) (d, ym, a))"
  using upsert_taken_back [OF assms] upsert_kept [OF assms] by auto

theorem receipt_round_trip_witness:
  "\<exists>fs' r. upsert example_hashes no_fault [] example_candles ''t1'' = (fs', Inr r) \<and> rc_stored r = 2 \<and>
     map_of (rollback (rc_changes r) fs') = Map.empty"
proof -
  obtain fs r where u: "upsert example_hashes no_fault [] example_candles ''t1'' = (fs, Inr r)" "rc_stored r = 2"
    by (rule example_upsert)
  from receipt_round_trip [OF example_sound u(1)] u show ?thesis by auto
qed

text \<open>Repeating an upsert that returned writes nothing, whatever faults are waiting: every candle of
  the batch is now an exact duplicate.\<close>

theorem upsert_idempotent:
  assumes "sound fs cs txn" and "upsert H faults fs cs txn = (fs', Inr r)"
  shows "upsert H faults' fs' cs txn' = (fs', Inr \<lparr>rc_changes = [], rc_stored = 0, rc_duplicates = int (length cs)\<rparr>)"
  using assms by (rule upsert_again)

theorem upsert_idempotent_witness:
  "\<exists>fs' r. upsert example_hashes no_fault [] example_candles ''t1'' = (fs', Inr r) \<and> rc_stored r = 2 \<and>
     upsert example_hashes (\<lambda>_ _. True) fs' example_candles ''t2'' = (fs', Inr \<lparr>rc_changes = [], rc_stored = 0, rc_duplicates = 2\<rparr>)"
proof -
  obtain fs r where u: "upsert example_hashes no_fault [] example_candles ''t1'' = (fs, Inr r)" "rc_stored r = 2"
    by (rule example_upsert)
  from upsert_idempotent [OF example_sound u(1), of "\<lambda>_ _. True" "''t2''"] u show ?thesis
    by (auto simp: example_candles_def)
qed

text \<open>C31: A batch is planned exactly when every candle of it can be stored without rescaling, belongs to
  one dataset, and no open time would carry two different candles in the batch and the store.\<close>

theorem upsert_accepts_consistent:
  assumes "sound fs cs txn"
  shows "(\<exists>p. plan_upsert H fs cs txn = Inr p) \<longleftrightarrow>
    (\<forall>c\<in>set cs. validate_candle_serialization c True = Inr () \<and> candle_identity c = candle_identity (hd cs)) \<and>
    inj_on c_open_time (stored_set fs (candle_identity (hd cs)) \<union> set cs)"
proof
  note sd = soundD [OF assms]
  assume "\<exists>p. plan_upsert H fs cs txn = Inr p"
  then obtain p where p: "plan_upsert H fs cs txn = Inr p" by blast
  obtain U where U: "admits fs (candle_identity (hd cs)) (c_timeframe (hd cs)) U" "set U = set cs"
    by (rule plan_upsert_Inr [OF p sd(1) refl refl sd(2,3)])
  show "(\<forall>c\<in>set cs. validate_candle_serialization c True = Inr () \<and> candle_identity c = candle_identity (hd cs)) \<and>
    inj_on c_open_time (stored_set fs (candle_identity (hd cs)) \<union> set cs)"
    using admitsD(2) [OF U(1)] U(2) by (auto simp: fits_def storable_def)
next
  note sd = soundD [OF assms]
  assume "(\<forall>c\<in>set cs. validate_candle_serialization c True = Inr () \<and> candle_identity c = candle_identity (hd cs)) \<and>
    inj_on c_open_time (stored_set fs (candle_identity (hd cs)) \<union> set cs)"
  then show "\<exists>p. plan_upsert H fs cs txn = Inr p"
    by (intro plan_upsert_total [OF sd(1) refl refl sd(2,3)] future_total) blast+
qed

theorem upsert_accepts_consistent_witness:
  "(\<exists>p. plan_upsert example_hashes [] example_candles ''t1'' = Inr p) \<and>
   inj_on c_open_time (stored_set [] (candle_identity (hd example_candles)) \<union> set example_candles)"
proof -
  obtain fs r where u: "upsert example_hashes no_fault [] example_candles ''t1'' = (fs, Inr r)"
    by (rule example_upsert)
  then obtain p where "plan_upsert example_hashes [] example_candles ''t1'' = Inr p"
    by (cases rule: upsert_cases) auto
  then show ?thesis using upsert_accepts_consistent [OF example_sound, of example_hashes] by blast
qed

text \<open>C28: Reading a range of a sound dataset returns exactly its candles of the range, once each and in
  order; the month cursor misses no partition.\<close>

theorem store_read_exact:
  assumes "dataset_ok fs ds tf"
  shows "\<exists>cs. store_read fs ds tf r = Inr cs \<and> sorted_wrt (\<lambda>a b. c_open_time a < c_open_time b) cs \<and>
    (\<forall>c. c \<in> set cs \<longleftrightarrow> content fs ds (c_open_time c) = Some c \<and> dr_start r \<le> c_open_time c \<and> c_open_time c < dr_end r)"
  by (rule store_read_eq [OF assms, of r]) (auto simp: strict_by_def)

theorem store_read_exact_witness:
  "\<exists>cs. store_read [(partition_target (candle_identity (example_candle 0)) (1970, 1), example_candles)]
     (candle_identity (example_candle 0)) example_15m \<lparr>dr_start = 0, dr_end = 900000000\<rparr> = Inr cs \<and>
     sorted_wrt (\<lambda>a b. c_open_time a < c_open_time b) cs"
proof -
  have "dataset_ok [(partition_target (candle_identity (example_candle 0)) (1970, 1), example_candles)]
     (candle_identity (example_candle 0)) example_15m" by code_simp
  from store_read_exact [OF this, of "\<lparr>dr_start = 0, dr_end = 900000000\<rparr>"] show ?thesis by blast
qed

end
