(* ===== verification/Canonical.thy ===== *)
theory Canonical
  imports Decimal
begin

text \<open>
  The canonical texts of \<^verbatim>\<open>app/optimization/canonical.py\<close>: a decimal in plain notation without trailing
  zeros, a bounded integer, and JSON values, whose digests are taken over the form with sorted keys.
\<close>

abbreviation search_error :: "search_error \<Rightarrow> error" where
  "search_error \<equiv> ParameterSearchError"

section \<open>Decimal texts\<close>

definition MAX_CANONICAL_DECIMAL_CHARACTERS :: int where
  "MAX_CANONICAL_DECIMAL_CHARACTERS = 128"

definition MAX_CANONICAL_INTEGER_MAGNITUDE :: int where
  "MAX_CANONICAL_INTEGER_MAGNITUDE = 10 ^ 128 - 1"

text \<open>The number of fractional digits of a value with denominator \<open>m\<close>.\<close>

function scale_of :: "int \<Rightarrow> nat" where
  "scale_of m = (if m \<le> 0 \<or> gcd m 10 = 1 then 0 else Suc (scale_of (m div gcd m 10)))"
  by pat_completeness auto

termination
proof (relation "measure nat")
  fix m :: int
  assume h: "\<not> (m \<le> 0 \<or> gcd m 10 = 1)"
  have "gcd m 10 \<noteq> 0" "0 \<le> gcd m 10" by simp_all
  then have "1 < gcd m 10" using h by linarith
  then have "m div gcd m 10 < m" using h by (intro int_div_less_self) simp_all
  then show "(m div gcd m 10, m) \<in> measure nat" using h by simp
qed simp

declare scale_of.simps [simp del]

text \<open>The loop of \<^verbatim>\<open>_decimal_layout\<close>: trailing zeros of the coefficient move to the exponent.\<close>

function strip_zeros :: "int \<Rightarrow> int \<Rightarrow> int \<times> int" where
  "strip_zeros c e = (if 10 \<le> c \<and> c mod 10 = 0 then strip_zeros (c div 10) (e + 1) else (c, e))"
  by pat_completeness auto

termination by (relation "measure (\<lambda>(c, e). nat c)") auto

declare strip_zeros.simps [simp del]

record decimal_layout =
  dl_sign :: bool
  dl_digits :: string
  dl_exponent :: int
  dl_point_position :: int
  dl_output_length :: int

definition coefficient_exponent :: "decimal \<Rightarrow> int \<times> int" where
  "coefficient_exponent d =
     (case quotient_of d of (n, m) \<Rightarrow>
        let k = scale_of m in strip_zeros (\<bar>n\<bar> * 10 ^ k div m) (- int k))"

definition decimal_layout_of :: "decimal \<Rightarrow> decimal_layout" where
  "decimal_layout_of d =
     (case coefficient_exponent d of (c, e) \<Rightarrow>
        let digits = show_nat (nat c); digit_count = int (length digits); point = digit_count + e;
            sign_length = (if d < 0 then 1 else 0)
        in \<lparr>dl_sign = d < 0, dl_digits = digits, dl_exponent = e, dl_point_position = point,
            dl_output_length =
              (if 0 \<le> e then sign_length + digit_count + e
               else if 0 < point then sign_length + digit_count + 1
               else sign_length + 2 + - point + digit_count)\<rparr>)"

definition canonical_decimal_length :: "decimal \<Rightarrow> int" where
  "canonical_decimal_length d = (if d = 0 then 1 else dl_output_length (decimal_layout_of d))"

definition unsigned_text :: "decimal_layout \<Rightarrow> string" where
  "unsigned_text l =
     (if 0 \<le> dl_exponent l then dl_digits l @ replicate (nat (dl_exponent l)) (CHR ''0'')
      else if 0 < dl_point_position l
      then take (nat (dl_point_position l)) (dl_digits l) @ [CHR ''.''] @ drop (nat (dl_point_position l)) (dl_digits l)
      else ''0.'' @ replicate (nat (- dl_point_position l)) (CHR ''0'') @ dl_digits l)"

definition decimal_text :: "decimal \<Rightarrow> string result" where
  "decimal_text d =
     (if d = 0 then Inr ''0''
      else let l = decimal_layout_of d in
        require (\<not> MAX_CANONICAL_DECIMAL_CHARACTERS < dl_output_length l) (search_error IncompatibleSearchSpaceDocument)
          (Inr ((if dl_sign l then ''-'' else []) @ unsigned_text l)))"

definition integer_text :: "int \<Rightarrow> string result" where
  "integer_text i =
     require (\<not> (MAX_CANONICAL_INTEGER_MAGNITUDE < i \<or> i < - MAX_CANONICAL_INTEGER_MAGNITUDE))
       (search_error IncompatibleSearchSpaceDocument) (Inr (show_int i))"

text \<open>\<^verbatim>\<open>Decimal(text)\<close> on plain notation.  The decoders compare \<open>decimal_text\<close> of the value with the text,
  so every other notation \<^verbatim>\<open>Decimal\<close> accepts ends in the same error as a text it does not accept.\<close>

definition parse_unsigned :: "string \<Rightarrow> decimal option" where
  "parse_unsigned s =
     (let whole = takeWhile (\<lambda>c. c \<noteq> CHR ''.'') s; fraction = drop 1 (dropWhile (\<lambda>c. c \<noteq> CHR ''.'') s)
      in if whole @ fraction \<noteq> [] \<and> list_all is_digit (whole @ fraction)
         then Some (of_nat (digits_value (whole @ fraction)) / 10 ^ length fraction) else None)"

definition parse_decimal :: "string \<Rightarrow> decimal option" where
  "parse_decimal s =
     (case s of c # cs \<Rightarrow> if c = CHR ''-'' then map_option uminus (parse_unsigned cs) else parse_unsigned s
      | [] \<Rightarrow> None)"

section \<open>JSON values and their digests\<close>

datatype json = J_Null | J_Bool bool | J_Int int | J_Str string | J_Arr "json list" | J_Obj "(string \<times> json) list"

text \<open>\<^verbatim>\<open>sort_keys=True\<close>\<close>

fun sorted_keys :: "json \<Rightarrow> json" where
  "sorted_keys (J_Arr xs) = J_Arr (map sorted_keys xs)"
| "sorted_keys (J_Obj members) = J_Obj (sort_key fst (map (\<lambda>(k, v). (k, sorted_keys v)) members))"
| "sorted_keys j = j"

record sha =
  sha_json :: "json \<Rightarrow> string"
  sha_named :: "string \<Rightarrow> json \<Rightarrow> string"

definition document_checksum :: "sha \<Rightarrow> json \<Rightarrow> string" where
  "document_checksum H payload = sha_json H (sorted_keys payload)"

definition deterministic_id :: "sha \<Rightarrow> string \<Rightarrow> json \<Rightarrow> string" where
  "deterministic_id H namespace payload = sha_named H namespace (sorted_keys payload)"

section \<open>A decimal is its coefficient and exponent\<close>

text \<open>The rationals a \<^verbatim>\<open>Decimal\<close> can hold.\<close>

definition finite_decimal :: "decimal \<Rightarrow> bool" where
  "finite_decimal d \<longleftrightarrow> (\<exists>n (k :: nat). d = of_int n / 10 ^ k)"

lemma scale_of_dvd: "0 < m \<Longrightarrow> m dvd 10 ^ k \<Longrightarrow> m dvd 10 ^ scale_of m"
proof (induction m rule: scale_of.induct)
  case (1 m)
  show ?case
  proof (cases "gcd m 10 = 1")
    case True
    then have "coprime m (10 ^ k)" by (metis coprime_iff_gcd_eq_1 coprime_power_right_iff)
    then have "is_unit m" using 1(3) by (rule coprime_common_divisor [OF _ dvd_refl])
    then show ?thesis by (rule unit_imp_dvd)
  next
    case False
    let ?g = "gcd m 10"
    have m: "m = ?g * (m div ?g)" by simp
    have g: "0 < ?g" by simp
    have p: "0 < m div ?g" using 1(2) m g by (metis zero_less_mult_pos)
    have "m div ?g dvd m" by (metis dvd_triv_right m)
    then have "m div ?g dvd 10 ^ scale_of (m div ?g)" using 1(1) [OF _ p] 1(2,3) False dvd_trans by auto
    then have "?g * (m div ?g) dvd 10 * 10 ^ scale_of (m div ?g)" by (rule mult_dvd_mono [OF gcd_dvd2])
    moreover have "10 * 10 ^ scale_of (m div ?g) = (10 :: int) ^ scale_of m" using False 1(2) by (subst (2) scale_of.simps) simp
    ultimately show ?thesis using m by simp
  qed
qed

lemma strip_zeros_value:
  "0 \<le> c \<Longrightarrow> strip_zeros c e = (c', e') \<Longrightarrow> 0 \<le> c' \<and> rat_of_int c' * 10 powi e' = rat_of_int c * 10 powi e"
proof (induction c e rule: strip_zeros.induct)
  case (1 c e)
  show ?case
  proof (cases "10 \<le> c \<and> c mod 10 = 0")
    case True
    have c: "c = 10 * (c div 10)" using True by auto
    have "rat_of_int c * 10 powi e = rat_of_int (10 * (c div 10)) * 10 powi e" using c by simp
    also have "\<dots> = rat_of_int (c div 10) * (10 powi e * 10)" by simp
    also have "10 powi e * 10 = (10 :: rat) powi (e + 1)" by (simp add: power_int_add)
    finally have e: "rat_of_int c * 10 powi e = rat_of_int (c div 10) * 10 powi (e + 1)" .
    have "strip_zeros (c div 10) (e + 1) = (c', e')" using 1(3) True by (subst (asm) strip_zeros.simps) simp
    moreover have "0 \<le> c div 10" using 1(2) by simp
    ultimately show ?thesis using 1(1) True e by simp
  next
    case False
    then have "strip_zeros c e = (c, e)" by (subst strip_zeros.simps) (simp only: if_False)
    then show ?thesis using 1(2,3) by simp
  qed
qed

lemma coefficient_exponent_value:
  assumes "finite_decimal d" and ce: "coefficient_exponent d = (c, e)"
  shows "\<bar>d\<bar> = rat_of_int c * 10 powi e" and "0 \<le> c"
proof -
  obtain n k where d: "d = of_int n / 10 ^ k" using assms(1) by (auto simp: finite_decimal_def)
  obtain a m where q: "quotient_of d = (a, m)" by (cases "quotient_of d")
  have m: "0 < m" "d = of_int a / of_int m" "coprime a m"
    using quotient_of_denom_pos [OF q] quotient_of_div [OF q] quotient_of_coprime [OF q] by simp_all
  have "rat_of_int a * 10 ^ k = of_int n * of_int m" using d m by (simp add: field_simps)
  then have "rat_of_int (a * 10 ^ k) = of_int (n * m)" by simp
  then have "a * 10 ^ k = n * m" by (simp only: of_int_eq_iff)
  then have "m dvd a * 10 ^ k" by simp
  then have "m dvd 10 ^ k" using m(3) by (simp add: coprime_commute coprime_dvd_mult_right_iff)
  then have s: "m dvd 10 ^ scale_of m" by (rule scale_of_dvd [OF m(1)])
  let ?k = "scale_of m"
  obtain r where r: "10 ^ ?k = m * r" using s by (elim dvdE)
  have "0 < m * r" unfolding r [symmetric] by simp
  then have pos: "0 < r" using m(1) by (simp add: zero_less_mult_iff)
  have div: "\<bar>a\<bar> * 10 ^ ?k div m = \<bar>a\<bar> * r" using r m(1) by simp
  have v: "0 \<le> c \<and> rat_of_int c * 10 powi e = rat_of_int (\<bar>a\<bar> * r) * 10 powi (- int ?k)"
    using ce pos unfolding coefficient_exponent_def q Let_def prod.case div by (intro strip_zeros_value) simp_all
  then show "0 \<le> c" by blast
  have "rat_of_int (\<bar>a\<bar> * r) * 10 powi (- int ?k) = of_int \<bar>a\<bar> * of_int r / 10 ^ ?k"
    by (simp add: power_int_minus field_simps)
  also have "(10 :: rat) ^ ?k = of_int m * of_int r"
    using arg_cong [OF r, of rat_of_int] by simp
  also have "of_int \<bar>a\<bar> * of_int r / (of_int m * of_int r) = \<bar>d\<bar>"
    using pos m by (simp add: abs_divide)
  finally show "\<bar>d\<bar> = rat_of_int c * 10 powi e" using v by simp
qed

section \<open>Texts are read back\<close>

lemma digits_value_append: "digits_value (xs @ ys) = digits_value xs * 10 ^ length ys + digits_value ys"
proof -
  have f: "foldl (\<lambda>a c. 10 * a + (of_char c - 48)) n ys = n * 10 ^ length ys + digits_value ys" for n :: nat and ys
  proof (induction ys rule: rev_induct)
    case (snoc y ys)
    then show ?case by (simp add: digits_value_def algebra_simps)
  qed (simp add: digits_value_def)
  show ?thesis using f [of "digits_value xs" ys] by (simp add: digits_value_def)
qed

lemma digit_char_digit: "is_digit (digit_char n)"
proof -
  have "48 + n mod 10 < 256" by simp
  then have "(of_char (digit_char n) :: nat) = 48 + n mod 10" by (simp add: digit_char_def of_char_of)
  then show ?thesis by (simp add: is_digit_def)
qed

lemma show_nat_digits: "list_all is_digit (show_nat n)" "show_nat n \<noteq> []"
proof (induction n rule: show_nat.induct)
  case (1 n)
  show "list_all is_digit (show_nat n)" using 1 by (subst show_nat.simps) (simp add: digit_char_digit)
  show "show_nat n \<noteq> []" by (subst show_nat.simps) simp
qed

lemma digit_facts: "is_digit c \<Longrightarrow> c \<noteq> CHR ''.'' \<and> c \<noteq> CHR ''-''"
  by (auto simp: is_digit_def)

lemma parse_whole:
  assumes "list_all is_digit w" and "w \<noteq> []"
  shows "parse_unsigned w = Some (of_nat (digits_value w))"
proof -
  have "\<forall>c\<in>set w. c \<noteq> CHR ''.''" using assms(1) digit_facts by (auto simp: list_all_iff)
  then have t: "takeWhile (\<lambda>c. c \<noteq> CHR ''.'') w = w" and d: "dropWhile (\<lambda>c. c \<noteq> CHR ''.'') w = []" by simp_all
  show ?thesis using assms unfolding parse_unsigned_def Let_def t d by simp
qed

lemma parse_fraction:
  assumes "list_all is_digit (w @ f)" and "w @ f \<noteq> []"
  shows "parse_unsigned (w @ [CHR ''.''] @ f) = Some (of_nat (digits_value (w @ f)) / 10 ^ length f)"
proof -
  have w: "\<forall>c\<in>set w. c \<noteq> CHR ''.''" using assms(1) digit_facts by (auto simp: list_all_iff)
  then have "takeWhile (\<lambda>c. c \<noteq> CHR ''.'') (w @ [CHR ''.''] @ f) = w" "dropWhile (\<lambda>c. c \<noteq> CHR ''.'') (w @ [CHR ''.''] @ f) = CHR ''.'' # f"
    by (auto simp: takeWhile_append2 dropWhile_append2)
  then show ?thesis using assms unfolding parse_unsigned_def by (simp add: Let_def)
qed

lemma parse_unsigned_text:
  assumes "finite_decimal d"
  shows "parse_unsigned (unsigned_text (decimal_layout_of d)) = Some \<bar>d\<bar>"
proof -
  obtain c e where ce: "coefficient_exponent d = (c, e)" by (cases "coefficient_exponent d")
  have v: "\<bar>d\<bar> = rat_of_nat (nat c) * 10 powi e" using coefficient_exponent_value [OF assms ce] by simp
  let ?s = "show_nat (nat c)" and ?p = "int (length (show_nat (nat c))) + e"
  have z: "list_all is_digit (replicate k (CHR ''0''))" "digits_value (replicate k (CHR ''0'')) = 0" for k
    using digits_value_zeros [of k "[]"] by (auto simp: list_all_iff is_digit_def digits_value_def)
  note s = show_nat_digits [of "nat c"] digits_value_show_nat [of "nat c"]
  consider "0 \<le> e" | "e < 0" "0 < ?p" | "e < 0" "?p \<le> 0" by linarith
  then show ?thesis
  proof cases
    case 1
    then have t: "unsigned_text (decimal_layout_of d) = ?s @ replicate (nat e) (CHR ''0'')"
      by (simp add: unsigned_text_def decimal_layout_of_def ce Let_def)
    have "(10 :: rat) powi e = 10 ^ nat e" using 1 by (simp add: power_int_def)
    then show ?thesis unfolding t using s z by (subst parse_whole) (simp_all add: digits_value_append v)
  next
    case 2
    let ?q = "nat ?p"
    have t: "unsigned_text (decimal_layout_of d) = take ?q ?s @ [CHR ''.''] @ drop ?q ?s"
      using 2 by (simp add: unsigned_text_def decimal_layout_of_def ce Let_def)
    have l: "length (drop ?q ?s) = nat (- e)" using 2 by simp
    have "(10 :: rat) powi e = 1 / 10 ^ nat (- e)" using 2 by (simp add: power_int_def power_one_over)
    then show ?thesis unfolding t using s l by (subst parse_fraction) (simp_all add: v)
  next
    case 3
    let ?z = "replicate (nat (- ?p)) (CHR ''0'')"
    have t: "unsigned_text (decimal_layout_of d) = ''0'' @ [CHR ''.''] @ ?z @ ?s"
      using 3 by (simp add: unsigned_text_def decimal_layout_of_def ce Let_def)
    have l: "length (?z @ ?s) = nat (- e)" using 3 by simp
    have d: "digits_value (''0'' @ ?z @ ?s) = nat c"
      using digits_value_zeros [of "Suc (nat (- ?p))" ?s] s by simp
    have "(10 :: rat) powi e = 1 / 10 ^ nat (- e)" using 3 by (simp add: power_int_def power_one_over)
    then show ?thesis unfolding t using s z l d by (subst parse_fraction) (simp_all add: is_digit_def v)
  qed
qed

lemma unsigned_text_head: "\<exists>c cs. unsigned_text (decimal_layout_of d) = c # cs \<and> c \<noteq> CHR ''-''"
proof -
  obtain c e where ce: "coefficient_exponent d = (c, e)" by (cases "coefficient_exponent d")
  obtain x xs where x: "show_nat (nat c) = x # xs" "is_digit x"
    using show_nat_digits [of "nat c"] by (cases "show_nat (nat c)") auto
  have "take (nat n) (x # xs) = x # take (nat n - 1) xs" if "0 < n" for n using that by (cases "nat n") auto
  then show ?thesis using digit_facts [OF x(2)]
    by (auto simp: unsigned_text_def decimal_layout_of_def ce Let_def x)
qed

lemma decimal_text_Inr:
  assumes "decimal_text d = Inr t" and "d \<noteq> 0"
  shows "t = (if d < 0 then ''-'' else []) @ unsigned_text (decimal_layout_of d)"
  using assms by (auto simp: decimal_text_def Let_def decimal_layout_of_def split: prod.splits)

lemma parse_decimal_text:
  assumes "finite_decimal d" and "decimal_text d = Inr t"
  shows "parse_decimal t = Some d"
proof (cases "d = 0")
  case True
  then have "t = ''0''" using assms(2) by (simp add: decimal_text_def)
  then show ?thesis using True by (simp add: parse_decimal_def parse_unsigned_def is_digit_def digits_value_def)
next
  case False
  obtain c cs where h: "unsigned_text (decimal_layout_of d) = c # cs" "c \<noteq> CHR ''-''" using unsigned_text_head by blast
  show ?thesis
    using decimal_text_Inr [OF assms(2) False] parse_unsigned_text [OF assms(1)] h
    by (auto simp: parse_decimal_def abs_if split: if_splits)
qed

lemma finite_decimal_parse: "parse_decimal t = Some d \<Longrightarrow> finite_decimal d"
proof -
  have u: "finite_decimal x" if h: "parse_unsigned s = Some x" for s x
  proof -
    obtain n :: nat and k :: nat where "x = rat_of_nat n / 10 ^ k"
      using h unfolding parse_unsigned_def Let_def by (metis option.distinct(1) option.inject)
    then have "x = of_int (int n) / 10 ^ k" by simp
    then show ?thesis unfolding finite_decimal_def by blast
  qed
  have n: "finite_decimal (- x)" if "finite_decimal x" for x
    using that unfolding finite_decimal_def by (metis minus_divide_left of_int_minus)
  show "parse_decimal t = Some d \<Longrightarrow> finite_decimal d"
    by (auto simp: parse_decimal_def u n split: list.splits if_splits)
qed

lemma decimal_text_length: "decimal_text d = Inr t \<Longrightarrow> int (length t) = canonical_decimal_length d \<and> length t \<le> 128"
proof (cases "d = 0")
  case True
  then show "decimal_text d = Inr t \<Longrightarrow> ?thesis" by (auto simp: decimal_text_def canonical_decimal_length_def)
next
  case False
  assume t: "decimal_text d = Inr t"
  obtain c e where ce: "coefficient_exponent d = (c, e)" by (cases "coefficient_exponent d")
  have "int (length t) = canonical_decimal_length d"
    using decimal_text_Inr [OF t False] False
    by (auto simp: canonical_decimal_length_def unsigned_text_def decimal_layout_of_def ce Let_def)
  moreover have "canonical_decimal_length d \<le> 128"
    using t False by (simp add: decimal_text_def canonical_decimal_length_def Let_def MAX_CANONICAL_DECIMAL_CHARACTERS_def)
  ultimately show ?thesis by linarith
qed

text \<open>C22: the canonical text of a decimal loses nothing and has the announced size: whenever a text is produced, reading
it gives the value back, its length is the one computed without building it, and a text is refused exactly when that
length passes 128 characters.\<close>
theorem decimal_text_exact:
  assumes "finite_decimal d"
  shows "(case decimal_text d of
      Inr t \<Rightarrow> parse_decimal t = Some d \<and> int (length t) = canonical_decimal_length d \<and> canonical_decimal_length d \<le> 128
    | Inl e \<Rightarrow> e = search_error IncompatibleSearchSpaceDocument \<and> 128 < canonical_decimal_length d)"
proof (cases "decimal_text d")
  case (Inl e)
  then show ?thesis
    by (auto simp: decimal_text_def canonical_decimal_length_def Let_def require_def MAX_CANONICAL_DECIMAL_CHARACTERS_def split: if_splits)
next
  case (Inr t)
  then show ?thesis using parse_decimal_text [OF assms Inr] decimal_text_length [OF Inr] by simp
qed

theorem decimal_text_exact_witness:
  "decimal_text (- 5 / 400) = Inr ''-0.0125'' \<and> canonical_decimal_length (- 5 / 400) = 7 \<and> parse_decimal ''-0.0125'' = Some (- 5 / 400)"
proof -
  have f: "finite_decimal (- 5 / 400)"
    unfolding finite_decimal_def by (intro exI [of _ "- 125"] exI [of _ 4]) simp
  have t: "decimal_text (- 5 / 400) = Inr ''-0.0125''" by code_simp
  show ?thesis using decimal_text_exact [OF f] t by simp
qed

end
