(* ===== verification/Search_Space.thy ===== *)
theory Search_Space
  imports Canonical Backtest_Domain "HOL-Library.AList" "HOL-Library.Multiset"
begin

text \<open>
  Finite parameter spaces of \<^verbatim>\<open>app/optimization/domain.py\<close>, \<^verbatim>\<open>parameter_search.py\<close> and \<^verbatim>\<open>documents.py\<close>: typed
  scalars and their canonical keys, the validation of a space, its construction from raw values, the
  Cartesian expansion and the JSON document of a space.  The plugin registry (which descriptor a name
  resolves to and whether its factory accepts a combination) is a parameter.
\<close>

section \<open>Scalars and their keys\<close>

definition ABSOLUTE_MAX_COMBINATIONS :: int where
  "ABSOLUTE_MAX_COMBINATIONS = 100000"

datatype parameter_kind = BOOLEAN | INTEGER | DECIMAL | STRING

datatype scalar = Bool_value bool | Int_value int | Dec_value decimal | Str_value string

fun canonical_scalar_key :: "parameter_kind \<Rightarrow> scalar \<Rightarrow> (int \<times> string) result" where
  "canonical_scalar_key BOOLEAN (Bool_value b) = Inr (0, if b then ''1'' else ''0'')"
| "canonical_scalar_key INTEGER (Int_value i) = res_bind (integer_text i) (\<lambda>t. Inr (1, t))"
| "canonical_scalar_key DECIMAL (Dec_value d) = res_bind (decimal_text d) (\<lambda>t. Inr (2, t))"
| "canonical_scalar_key STRING (Str_value s) =
     require (s \<noteq> [] \<and> s = strip s) (search_error IncompatibleSearchParameterType) (Inr (3, s))"
| "canonical_scalar_key kind value = Inl (search_error IncompatibleSearchParameterType)"

definition validate_scalar :: "parameter_kind \<Rightarrow> scalar \<Rightarrow> unit result" where
  "validate_scalar kind value = res_bind (canonical_scalar_key kind value) (\<lambda>_. Inr ())"

definition validate_safe_token :: "string \<Rightarrow> unit result" where
  "validate_safe_token s =
     require (s \<noteq> [] \<and> s = strip s) (search_error IncompatibleSearchSpaceDocument) (
     require (safe_identifier 127 s) (search_error IncompatibleSearchSpaceDocument) (Inr ()))"

section \<open>The contracts\<close>

record fixed_parameter =
  fx_name :: string
  fx_kind :: parameter_kind
  fx_value :: scalar

record search_parameter =
  sq_name :: string
  sq_kind :: parameter_kind
  sq_values :: "scalar list"

record search_space =
  ss_plugin_name :: string
  ss_plugin_version :: string
  ss_plugin_schema_version :: int
  ss_plugin_lifecycle_version :: int
  ss_fixed :: "fixed_parameter list"
  ss_search :: "search_parameter list"
  ss_cardinality :: int
  ss_max_combinations :: int
  ss_checksum :: string
  ss_id :: string
  ss_schema_version :: int

definition validate_fixed_parameter :: "fixed_parameter \<Rightarrow> unit result" where
  "validate_fixed_parameter p =
     res_bind (validate_safe_token (fx_name p)) (\<lambda>_. validate_scalar (fx_kind p) (fx_value p))"

definition validate_search_parameter :: "search_parameter \<Rightarrow> unit result" where
  "validate_search_parameter p =
     res_bind (validate_safe_token (sq_name p)) (\<lambda>_.
     require (sq_values p \<noteq> []) (search_error EmptySearchParameterValues) (
     res_bind (res_map (canonical_scalar_key (sq_kind p)) (sq_values p)) (\<lambda>keys.
     require (distinct keys) (search_error DuplicateSearchParameterValue) (
     require (keys = sort keys) (search_error IncompatibleSearchParameterType) (Inr ())))))"

definition validate_unique_canonical_names :: "string list \<Rightarrow> unit result" where
  "validate_unique_canonical_names names =
     require (distinct names) (search_error IncompatibleSearchSpaceDocument) (
     require (names = sort names) (search_error IncompatibleSearchSpaceDocument) (Inr ()))"

definition validate_combination_limit :: "int \<Rightarrow> unit result" where
  "validate_combination_limit maximum =
     require (\<not> maximum < 1) (search_error InvalidCombinationLimit) (
     require (\<not> ABSOLUTE_MAX_COMBINATIONS < maximum) (search_error InvalidCombinationLimit) (Inr ()))"

text \<open>One dimension multiplies the product, unless it would pass the maximum.\<close>

definition multiply_cardinality :: "int \<Rightarrow> search_parameter \<Rightarrow> int \<Rightarrow> int result" where
  "multiply_cardinality maximum p cardinality =
     res_bind (validate_search_parameter p) (\<lambda>_.
     require (\<not> maximum div int (length (sq_values p)) < cardinality) (search_error SearchCardinalityExceeded)
       (Inr (cardinality * int (length (sq_values p)))))"

definition calculate_cardinality :: "search_parameter list \<Rightarrow> int \<Rightarrow> int result" where
  "calculate_cardinality parameters maximum =
     res_bind (validate_combination_limit maximum) (\<lambda>_.
     require (parameters \<noteq> []) (search_error EmptyParameterSearchSpace)
       (res_fold (multiply_cardinality maximum) parameters 1))"

definition validate_search_space :: "search_space \<Rightarrow> int result" where
  "validate_search_space s =
     require (ss_schema_version s = 1) (search_error UnsupportedSearchSpaceSchema) (
     res_bind (validate_safe_token (ss_plugin_name s)) (\<lambda>_.
     res_bind (validate_safe_token (ss_plugin_version s)) (\<lambda>_.
     require (\<not> ss_plugin_schema_version s < 1) (search_error IncompatibleSearchSpaceDocument) (
     require (\<not> ss_plugin_lifecycle_version s < 1) (search_error IncompatibleSearchSpaceDocument) (
     require (ss_search s \<noteq> []) (search_error EmptyParameterSearchSpace) (
     res_bind (res_fold (\<lambda>p _. validate_fixed_parameter p) (ss_fixed s) ()) (\<lambda>_.
     res_bind (res_fold (\<lambda>p _. validate_search_parameter p) (ss_search s) ()) (\<lambda>_.
     res_bind (validate_unique_canonical_names (map fx_name (ss_fixed s))) (\<lambda>_.
     res_bind (validate_unique_canonical_names (map sq_name (ss_search s))) (\<lambda>_.
     require (set (map fx_name (ss_fixed s)) \<inter> set (map sq_name (ss_search s)) = {}) (search_error SearchParameterConflict) (
     res_bind (validate_combination_limit (ss_max_combinations s)) (\<lambda>_.
     require (\<not> ss_cardinality s < 1) (search_error IncompatibleSearchSpaceDocument) (
     res_bind (calculate_cardinality (ss_search s) (ss_max_combinations s)) (\<lambda>calculated.
     require (calculated = ss_cardinality s) (search_error IncompatibleSearchSpaceDocument) (
     require (is_sha256 (ss_checksum s)) (search_error IncompatibleSearchSpaceDocument) (
     require (is_sha256 (ss_id s)) (search_error IncompatibleSearchSpaceDocument)
       (Inr calculated)))))))))))))))))"

section \<open>The document of a space\<close>

fun kind_text :: "parameter_kind \<Rightarrow> string" where
  "kind_text BOOLEAN = ''boolean''"
| "kind_text INTEGER = ''integer''"
| "kind_text DECIMAL = ''decimal''"
| "kind_text STRING = ''string''"

text \<open>A value stored as it is; a decimal has no JSON form and \<^verbatim>\<open>canonical_json_bytes\<close> refuses it.\<close>

fun plain_value :: "scalar \<Rightarrow> json result" where
  "plain_value (Bool_value b) = Inr (J_Bool b)"
| "plain_value (Int_value i) = Inr (J_Int i)"
| "plain_value (Str_value s) = Inr (J_Str s)"
| "plain_value (Dec_value d) = Inl (search_error IncompatibleSearchSpaceDocument)"

definition stored_value :: "parameter_kind \<Rightarrow> scalar \<Rightarrow> json result" where
  "stored_value kind value =
     (case kind of
        DECIMAL \<Rightarrow> (case value of Dec_value d \<Rightarrow> res_bind (decimal_text d) (\<lambda>t. Inr (J_Str t))
                      | _ \<Rightarrow> Inl (search_error IncompatibleSearchSpaceDocument))
      | INTEGER \<Rightarrow> (case value of Int_value i \<Rightarrow> res_bind (integer_text i) (\<lambda>_. Inr (J_Int i))
                      | _ \<Rightarrow> Inl (search_error IncompatibleSearchSpaceDocument))
      | _ \<Rightarrow> plain_value value)"

definition fixed_payload :: "fixed_parameter \<Rightarrow> json result" where
  "fixed_payload p = res_bind (stored_value (fx_kind p) (fx_value p)) (\<lambda>v.
     Inr (J_Obj [(''name'', J_Str (fx_name p)), (''kind'', J_Str (kind_text (fx_kind p))), (''value'', v)]))"

definition search_payload :: "search_parameter \<Rightarrow> json result" where
  "search_payload p = res_bind (res_map (stored_value (sq_kind p)) (sq_values p)) (\<lambda>vs.
     Inr (J_Obj [(''name'', J_Str (sq_name p)), (''kind'', J_Str (kind_text (sq_kind p))), (''values'', J_Arr vs)]))"

text \<open>\<open>plugin\<close> is the identity of a descriptor or of a space.\<close>

record plugin_identity =
  pg_name :: string
  pg_version :: string
  pg_schema_version :: int
  pg_lifecycle_version :: int

definition space_payload ::
    "plugin_identity \<Rightarrow> fixed_parameter list \<Rightarrow> search_parameter list \<Rightarrow> int \<Rightarrow> int \<Rightarrow> int \<Rightarrow> json result" where
  "space_payload plugin fixed searchable schema cardinality max_combinations =
     res_bind (res_map fixed_payload fixed) (\<lambda>fs. res_bind (res_map search_payload searchable) (\<lambda>qs.
     Inr (J_Obj [(''schema_version'', J_Int schema),
       (''plugin'', J_Obj [(''name'', J_Str (pg_name plugin)), (''version'', J_Str (pg_version plugin)),
          (''schema_version'', J_Int (pg_schema_version plugin)), (''lifecycle_version'', J_Int (pg_lifecycle_version plugin))]),
       (''combination_policy'', J_Str ''REJECT_SPACE''), (''max_combinations'', J_Int max_combinations),
       (''cardinality'', J_Int cardinality), (''fixed_parameters'', J_Arr fs), (''search_parameters'', J_Arr qs)])))"

definition verify_space_identity :: "sha \<Rightarrow> search_space \<Rightarrow> json \<Rightarrow> unit result" where
  "verify_space_identity H s payload =
     require (document_checksum H payload = ss_checksum s) (search_error SearchSpaceChecksum) (
     require (deterministic_id H ''adt-parameter-search-space-v1'' payload = ss_id s)
       (search_error IncompatibleSearchSpaceDocument) (Inr ()))"

definition space_projection :: "search_space \<Rightarrow> plugin_identity" where
  "space_projection s = \<lparr>pg_name = ss_plugin_name s, pg_version = ss_plugin_version s,
     pg_schema_version = ss_plugin_schema_version s, pg_lifecycle_version = ss_plugin_lifecycle_version s\<rparr>"

definition to_document :: "sha \<Rightarrow> search_space \<Rightarrow> json result" where
  "to_document H s =
     res_bind (validate_search_space s) (\<lambda>_.
     res_bind (space_payload (space_projection s) (ss_fixed s) (ss_search s) (ss_schema_version s) (ss_cardinality s)
       (ss_max_combinations s)) (\<lambda>payload.
     res_bind (verify_space_identity H s payload) (\<lambda>_.
     Inr (J_Obj [(''search_space'', payload), (''checksum'', J_Str (ss_checksum s)), (''search_space_id'', J_Str (ss_id s))]))))"

text \<open>\<^verbatim>\<open>_mapping\<close>, \<^verbatim>\<open>_sequence\<close>, \<^verbatim>\<open>dict.get\<close> and the required fields.\<close>

definition document_error :: "'a result" where
  "document_error = Inl (search_error IncompatibleSearchSpaceDocument)"

definition json_mapping :: "json \<Rightarrow> (string \<times> json) list result" where
  "json_mapping j = (case j of J_Obj members \<Rightarrow> Inr members | _ \<Rightarrow> document_error)"

definition json_sequence :: "json \<Rightarrow> json list result" where
  "json_sequence j = (case j of J_Arr xs \<Rightarrow> Inr xs | _ \<Rightarrow> document_error)"

definition json_get :: "string \<Rightarrow> (string \<times> json) list \<Rightarrow> json" where
  "json_get key members = (case map_of members key of None \<Rightarrow> J_Null | Some v \<Rightarrow> v)"

definition has_exactly :: "string list \<Rightarrow> (string \<times> json) list \<Rightarrow> bool" where
  "has_exactly keys members \<longleftrightarrow> set (map fst members) = set keys"

definition required_str :: "(string \<times> json) list \<Rightarrow> string \<Rightarrow> string result" where
  "required_str members key =
     (case json_get key members of J_Str s \<Rightarrow> require (s \<noteq> []) (search_error IncompatibleSearchSpaceDocument) (Inr s)
      | _ \<Rightarrow> document_error)"

definition required_int :: "(string \<times> json) list \<Rightarrow> string \<Rightarrow> int result" where
  "required_int members key = (case json_get key members of J_Int i \<Rightarrow> Inr i | _ \<Rightarrow> document_error)"

definition decode_kind :: "json \<Rightarrow> parameter_kind result" where
  "decode_kind j =
     (case j of J_Str s \<Rightarrow>
        if s = ''boolean'' then Inr BOOLEAN else if s = ''integer'' then Inr INTEGER
        else if s = ''decimal'' then Inr DECIMAL else if s = ''string'' then Inr STRING else document_error
      | _ \<Rightarrow> document_error)"

definition decoded_value :: "parameter_kind \<Rightarrow> json \<Rightarrow> scalar result" where
  "decoded_value kind j =
     (case kind of
        BOOLEAN \<Rightarrow> (case j of J_Bool b \<Rightarrow> Inr (Bool_value b) | _ \<Rightarrow> document_error)
      | INTEGER \<Rightarrow> (case j of J_Int i \<Rightarrow> res_bind (integer_text i) (\<lambda>_. Inr (Int_value i)) | _ \<Rightarrow> document_error)
      | DECIMAL \<Rightarrow> (case j of
            J_Str s \<Rightarrow> (case parse_decimal s of
                None \<Rightarrow> document_error
              | Some d \<Rightarrow> res_bind (decimal_text d) (\<lambda>t.
                  require (t = s) (search_error IncompatibleSearchSpaceDocument) (Inr (Dec_value d))))
          | _ \<Rightarrow> document_error)
      | STRING \<Rightarrow> (case j of J_Str s \<Rightarrow> Inr (Str_value s) | _ \<Rightarrow> document_error))"

definition decode_fixed_entry :: "json \<Rightarrow> fixed_parameter result" where
  "decode_fixed_entry j =
     res_bind (json_mapping j) (\<lambda>item.
     require (has_exactly [''name'', ''kind'', ''value''] item) (search_error IncompatibleSearchSpaceDocument) (
     res_bind (required_str item ''name'') (\<lambda>name.
     res_bind (decode_kind (json_get ''kind'' item)) (\<lambda>kind.
     res_bind (decoded_value kind (json_get ''value'' item)) (\<lambda>value.
     let p = \<lparr>fx_name = name, fx_kind = kind, fx_value = value\<rparr>
     in res_bind (validate_fixed_parameter p) (\<lambda>_. Inr p))))))"

definition decode_search_entry :: "json \<Rightarrow> search_parameter result" where
  "decode_search_entry j =
     res_bind (json_mapping j) (\<lambda>item.
     require (has_exactly [''name'', ''kind'', ''values''] item) (search_error IncompatibleSearchSpaceDocument) (
     res_bind (required_str item ''name'') (\<lambda>name.
     res_bind (decode_kind (json_get ''kind'' item)) (\<lambda>kind.
     res_bind (json_sequence (json_get ''values'' item)) (\<lambda>raw.
     res_bind (res_map (decoded_value kind) raw) (\<lambda>values.
     let p = \<lparr>sq_name = name, sq_kind = kind, sq_values = values\<rparr>
     in res_bind (validate_search_parameter p) (\<lambda>_. Inr p)))))))"

text \<open>\<^verbatim>\<open>_parse_envelope\<close>: the payload with its claimed checksum and identifier.\<close>

definition parse_envelope :: "json \<Rightarrow> ((string \<times> json) list \<times> string \<times> string) result" where
  "parse_envelope envelope =
     res_bind (json_mapping envelope) (\<lambda>members.
     require (has_exactly [''search_space'', ''checksum'', ''search_space_id''] members)
       (search_error IncompatibleSearchSpaceDocument) (
     res_bind (json_mapping (json_get ''search_space'' members)) (\<lambda>payload.
     require (has_exactly [''schema_version'', ''plugin'', ''combination_policy'', ''max_combinations'', ''cardinality'',
         ''fixed_parameters'', ''search_parameters''] payload) (search_error IncompatibleSearchSpaceDocument) (
     case (json_get ''checksum'' members, json_get ''search_space_id'' members) of
       (J_Str checksum, J_Str search_space_id) \<Rightarrow> Inr (payload, checksum, search_space_id)
     | _ \<Rightarrow> document_error))))"

text \<open>The constructor \<^verbatim>\<open>ParameterSearchSpace\<close>.\<close>

definition make_search_space :: "search_space \<Rightarrow> search_space result" where
  "make_search_space s = res_bind (validate_search_space s) (\<lambda>_. Inr s)"

definition decode_document :: "sha \<Rightarrow> json \<Rightarrow> search_space result" where
  "decode_document H envelope =
     res_bind (parse_envelope envelope) (\<lambda>(payload, checksum, search_space_id).
     require (json_get ''schema_version'' payload = J_Int 1) (search_error UnsupportedSearchSpaceSchema) (
     require (document_checksum H (J_Obj payload) = checksum) (search_error SearchSpaceChecksum) (
     require (deterministic_id H ''adt-parameter-search-space-v1'' (J_Obj payload) = search_space_id)
       (search_error IncompatibleSearchSpaceDocument) (
     res_bind (json_mapping (json_get ''plugin'' payload)) (\<lambda>plugin.
     require (has_exactly [''name'', ''version'', ''schema_version'', ''lifecycle_version''] plugin)
       (search_error IncompatibleSearchSpaceDocument) (
     require (json_get ''combination_policy'' payload = J_Str ''REJECT_SPACE'') (search_error IncompatibleSearchSpaceDocument) (
     res_bind (required_str plugin ''name'') (\<lambda>name.
     res_bind (required_str plugin ''version'') (\<lambda>version.
     res_bind (required_int plugin ''schema_version'') (\<lambda>plugin_schema.
     res_bind (required_int plugin ''lifecycle_version'') (\<lambda>lifecycle.
     res_bind (json_sequence (json_get ''fixed_parameters'' payload)) (\<lambda>raw_fixed.
     res_bind (res_map decode_fixed_entry raw_fixed) (\<lambda>fixed.
     res_bind (json_sequence (json_get ''search_parameters'' payload)) (\<lambda>raw_search.
     res_bind (res_map decode_search_entry raw_search) (\<lambda>searchable.
     res_bind (required_int payload ''cardinality'') (\<lambda>cardinality.
     res_bind (required_int payload ''max_combinations'') (\<lambda>max_combinations.
     res_bind (make_search_space \<lparr>ss_plugin_name = name, ss_plugin_version = version,
         ss_plugin_schema_version = plugin_schema, ss_plugin_lifecycle_version = lifecycle, ss_fixed = fixed,
         ss_search = searchable, ss_cardinality = cardinality, ss_max_combinations = max_combinations,
         ss_checksum = checksum, ss_id = search_space_id, ss_schema_version = 1\<rparr>) (\<lambda>s.
     res_bind (verify_space_identity H s (J_Obj payload)) (\<lambda>_. Inr s)))))))))))))))))))"

section \<open>Building and expanding a space\<close>

text \<open>A declared parameter, its bounds compared as numbers; \<open>None\<close> is \<^verbatim>\<open>StrategyParameterValidationError\<close>.\<close>

record parameter_spec =
  ps_name :: string
  ps_kind :: parameter_kind
  ps_minimum :: "decimal option"
  ps_maximum :: "decimal option"

record plugin_descriptor =
  pd_identity :: plugin_identity
  pd_parameters :: "parameter_spec list"

fun numeric_value :: "scalar \<Rightarrow> decimal option" where
  "numeric_value (Int_value i) = Some (of_int i)"
| "numeric_value (Dec_value d) = Some d"
| "numeric_value v = None"

definition in_bounds :: "parameter_spec \<Rightarrow> scalar \<Rightarrow> bool" where
  "in_bounds p v =
     (case numeric_value v of None \<Rightarrow> True
      | Some x \<Rightarrow> \<not> (case ps_minimum p of None \<Rightarrow> False | Some m \<Rightarrow> x < m) \<and> \<not> (case ps_maximum p of None \<Rightarrow> False | Some m \<Rightarrow> m < x))"

definition spec_normalize :: "parameter_spec \<Rightarrow> scalar \<Rightarrow> scalar option" where
  "spec_normalize p v =
     (case (ps_kind p, v) of
        (BOOLEAN, Bool_value b) \<Rightarrow> Some v
      | (INTEGER, Int_value i) \<Rightarrow> if in_bounds p v then Some v else None
      | (DECIMAL, Dec_value d) \<Rightarrow> if in_bounds p v then Some v else None
      | (STRING, Str_value s) \<Rightarrow> if strip s \<noteq> [] then Some (Str_value (strip s)) else None
      | _ \<Rightarrow> None)"

text \<open>A raw value is a scalar or, as \<open>None\<close>, any other object.\<close>

definition normalize_value :: "parameter_spec \<Rightarrow> scalar option \<Rightarrow> scalar result" where
  "normalize_value p raw =
     (case raw of None \<Rightarrow> Inl (search_error IncompatibleSearchParameterType)
      | Some v \<Rightarrow> (case spec_normalize p v of None \<Rightarrow> Inl (search_error IncompatibleSearchParameterType)
          | Some w \<Rightarrow> res_bind (catch_as (search_error IncompatibleSearchParameterType) (canonical_scalar_key (ps_kind p) w))
              (\<lambda>_. Inr w)))"

definition raise_unknown :: "string list \<Rightarrow> parameter_spec list \<Rightarrow> unit result" where
  "raise_unknown names specs =
     require (set names \<subseteq> set (map ps_name specs)) (search_error UnknownSearchParameter) (Inr ())"

definition normalize_fixed_step ::
    "(string \<times> scalar option) list \<Rightarrow> parameter_spec \<Rightarrow> fixed_parameter list \<Rightarrow> fixed_parameter list result" where
  "normalize_fixed_step raw p built =
     (case map_of raw (ps_name p) of None \<Rightarrow> Inr built
      | Some v \<Rightarrow> res_bind (normalize_value p v) (\<lambda>w.
          let f = \<lparr>fx_name = ps_name p, fx_kind = ps_kind p, fx_value = w\<rparr>
          in res_bind (validate_fixed_parameter f) (\<lambda>_. Inr (built @ [f]))))"

definition normalize_fixed :: "plugin_descriptor \<Rightarrow> (string \<times> scalar option) list \<Rightarrow> fixed_parameter list result" where
  "normalize_fixed desc raw =
     res_bind (raise_unknown (map fst raw) (pd_parameters desc)) (\<lambda>_.
     res_fold (normalize_fixed_step raw) (pd_parameters desc) [])"

definition order_values :: "parameter_spec \<Rightarrow> scalar option list \<Rightarrow> scalar list result" where
  "order_values p values =
     require (values \<noteq> []) (search_error EmptySearchParameterValues) (
     res_bind (res_map (normalize_value p) values) (\<lambda>normalized.
     res_bind (res_map (canonical_scalar_key (ps_kind p)) normalized) (\<lambda>keys.
     require (distinct keys) (search_error DuplicateSearchParameterValue) (
     Inr (map snd (sort_key fst (zip keys normalized)))))))"

definition normalize_search_step ::
    "(string \<times> scalar option list) list \<Rightarrow> parameter_spec \<Rightarrow> search_parameter list \<Rightarrow> search_parameter list result" where
  "normalize_search_step raw p built =
     (case map_of raw (ps_name p) of None \<Rightarrow> Inr built
      | Some values \<Rightarrow> res_bind (order_values p values) (\<lambda>ordered.
          let q = \<lparr>sq_name = ps_name p, sq_kind = ps_kind p, sq_values = ordered\<rparr>
          in res_bind (validate_search_parameter q) (\<lambda>_. Inr (built @ [q]))))"

definition normalize_search :: "plugin_descriptor \<Rightarrow> (string \<times> scalar option list) list \<Rightarrow> search_parameter list result" where
  "normalize_search desc raw =
     require (raw \<noteq> []) (search_error EmptyParameterSearchSpace) (
     res_bind (raise_unknown (map fst raw) (pd_parameters desc)) (\<lambda>_.
     res_fold (normalize_search_step raw) (pd_parameters desc) []))"

definition dict_of :: "(string \<times> scalar) list \<Rightarrow> (string \<times> scalar) list \<Rightarrow> (string \<times> scalar) list" where
  "dict_of raw items = fold (\<lambda>(k, v). AList.update k v) items raw"

definition raw_combinations :: "search_space \<Rightarrow> (string \<times> scalar) list list" where
  "raw_combinations s =
     (let fixed = dict_of [] (map (\<lambda>p. (fx_name p, fx_value p)) (ss_fixed s))
      in map (\<lambda>values. dict_of fixed (zip (map sq_name (ss_search s)) values))
           (product_lists (map sq_values (ss_search s))))"

text \<open>\<open>descriptor\<close> is what the registry resolves; \<open>build\<close> makes the combination with a given index.\<close>

definition create_space ::
    "sha \<Rightarrow> plugin_descriptor result \<Rightarrow> (search_space \<Rightarrow> int \<Rightarrow> (string \<times> scalar) list \<Rightarrow> 'c result)
     \<Rightarrow> (string \<times> scalar option list) list \<Rightarrow> (string \<times> scalar option) list \<Rightarrow> int \<Rightarrow> search_space result" where
  "create_space H descriptor build raw_search raw_fixed max_combinations =
     res_bind descriptor (\<lambda>desc.
     res_bind (validate_combination_limit max_combinations) (\<lambda>_.
     res_bind (normalize_fixed desc raw_fixed) (\<lambda>fixed.
     res_bind (normalize_search desc raw_search) (\<lambda>searchable.
     require (set (map fx_name fixed) \<inter> set (map sq_name searchable) = {}) (search_error SearchParameterConflict) (
     res_bind (calculate_cardinality searchable max_combinations) (\<lambda>cardinality.
     res_bind (space_payload (pd_identity desc) fixed searchable 1 cardinality max_combinations) (\<lambda>payload.
     res_bind (make_search_space \<lparr>ss_plugin_name = pg_name (pd_identity desc), ss_plugin_version = pg_version (pd_identity desc),
         ss_plugin_schema_version = pg_schema_version (pd_identity desc),
         ss_plugin_lifecycle_version = pg_lifecycle_version (pd_identity desc), ss_fixed = fixed, ss_search = searchable,
         ss_cardinality = cardinality, ss_max_combinations = max_combinations,
         ss_checksum = document_checksum H payload,
         ss_id = deterministic_id H ''adt-parameter-search-space-v1'' payload, ss_schema_version = 1\<rparr>) (\<lambda>s.
     res_bind (res_map (\<lambda>(i, raw). build s i raw)
         (zip (map int [0 ..< length (raw_combinations s)]) (raw_combinations s))) (\<lambda>_. Inr s)))))))))"

text \<open>\<^verbatim>\<open>ParameterSearchService.expand\<close> up to the checks of the finished combinations.\<close>

definition expand_space ::
    "sha \<Rightarrow> plugin_descriptor result \<Rightarrow> (search_space \<Rightarrow> int \<Rightarrow> (string \<times> scalar) list \<Rightarrow> 'c result) \<Rightarrow> search_space
     \<Rightarrow> 'c list result" where
  "expand_space H descriptor build s =
     res_bind (validate_search_space s) (\<lambda>_.
     res_bind descriptor (\<lambda>desc.
     require (\<not> (pg_schema_version (pd_identity desc) \<noteq> ss_plugin_schema_version s
         \<or> pg_lifecycle_version (pd_identity desc) \<noteq> ss_plugin_lifecycle_version s))
       (search_error IncompatibleSearchSpaceDocument) (
     res_bind (space_payload (pd_identity desc) (ss_fixed s) (ss_search s) (ss_schema_version s) (ss_cardinality s)
       (ss_max_combinations s)) (\<lambda>payload.
     res_bind (verify_space_identity H s payload) (\<lambda>_.
     res_map (\<lambda>(i, raw). build s i raw) (zip (map int [0 ..< length (raw_combinations s)]) (raw_combinations s)))))))"

end
