(* ===== verification/Search_Guarantees.thy ===== *)
theory Search_Guarantees
  imports Search_Space Civil
begin

text \<open>
  What a parameter search space guarantees: its expansion is the exact Cartesian product, its
  construction does not depend on the order in which values are supplied, and its document is read
  back as the same space.
\<close>

section \<open>Cardinality\<close>

lemma validate_search_parameter_iff:
  "validate_search_parameter p = Inr u \<longleftrightarrow> validate_safe_token (sq_name p) = Inr () \<and> sq_values p \<noteq> [] \<and>
     (\<exists>keys. res_map (canonical_scalar_key (sq_kind p)) (sq_values p) = Inr keys \<and> distinct keys \<and> sorted keys)"
proof -
  have "keys = sort keys \<longleftrightarrow> sorted keys" for keys :: "(int \<times> string) list" by (metis sorted_sort sorted_sort_id)
  then show ?thesis by (auto simp: validate_search_parameter_def)
qed

definition dimension_product :: "search_parameter list \<Rightarrow> int" where
  "dimension_product ps = prod_list (map (\<lambda>p. int (length (sq_values p))) ps)"

lemma dimension_product_simps [simp]:
  "dimension_product [] = 1" "dimension_product (p # ps) = int (length (sq_values p)) * dimension_product ps"
  by (simp_all add: dimension_product_def)

lemma dimension_product_pos: "\<forall>p\<in>set ps. sq_values p \<noteq> [] \<Longrightarrow> 1 \<le> dimension_product ps"
proof (induction ps)
  case (Cons p ps)
  then have "1 \<le> int (length (sq_values p))" "1 \<le> dimension_product ps" by (simp_all add: Suc_le_eq)
  then have "1 * 1 \<le> int (length (sq_values p)) * dimension_product ps" by (intro mult_mono) simp_all
  then show ?case by simp
qed simp

lemma multiply_cardinality_eq:
  assumes "validate_search_parameter p = Inr ()"
  shows "multiply_cardinality maximum p c =
    (if c * int (length (sq_values p)) \<le> maximum then Inr (c * int (length (sq_values p))) else Inl (search_error SearchCardinalityExceeded))"
proof -
  have n: "0 < int (length (sq_values p))" using assms by (simp add: validate_search_parameter_iff)
  have "maximum div int (length (sq_values p)) < c \<longleftrightarrow> maximum < c * int (length (sq_values p))"
  proof
    assume "maximum div int (length (sq_values p)) < c"
    then have "(maximum div int (length (sq_values p)) + 1) * int (length (sq_values p)) \<le> c * int (length (sq_values p))"
      by (intro mult_right_mono) simp_all
    then show "maximum < c * int (length (sq_values p))" using div_bounds(4) [OF n, of maximum] by linarith
  next
    assume h: "maximum < c * int (length (sq_values p))"
    show "maximum div int (length (sq_values p)) < c"
    proof (rule ccontr)
      assume "\<not> maximum div int (length (sq_values p)) < c"
      then have "c * int (length (sq_values p)) \<le> maximum div int (length (sq_values p)) * int (length (sq_values p))"
        by (intro mult_right_mono) simp_all
      then show False using div_bounds(3) [OF n, of maximum] h by linarith
    qed
  qed
  then show ?thesis using assms by (simp add: multiply_cardinality_def require_def)
qed

lemma cardinality_fold:
  assumes "\<forall>p\<in>set ps. validate_search_parameter p = Inr ()" and "1 \<le> c" and "c \<le> maximum"
  shows "res_fold (multiply_cardinality maximum) ps c =
    (if c * dimension_product ps \<le> maximum then Inr (c * dimension_product ps) else Inl (search_error SearchCardinalityExceeded))"
  using assms
proof (induction ps arbitrary: c)
  case (Cons p ps)
  let ?n = "int (length (sq_values p))"
  have v: "\<forall>p\<in>set (p # ps). sq_values p \<noteq> []" using Cons.prems(1) by (auto simp: validate_search_parameter_iff)
  then have n: "1 \<le> ?n" and d: "1 \<le> dimension_product ps" using dimension_product_pos [of ps] by (simp_all add: Suc_le_eq)
  have cn: "1 \<le> c * ?n" using mult_mono [of 1 c 1 ?n] n Cons.prems(2) by simp
  have le: "c * ?n \<le> c * ?n * dimension_product ps" using mult_left_mono [of 1 "dimension_product ps" "c * ?n"] cn d by simp
  show ?case
  proof (cases "c * ?n \<le> maximum")
    case True
    then show ?thesis using Cons.IH [of "c * ?n"] Cons.prems(1) cn by (simp add: multiply_cardinality_eq mult.assoc)
  next
    case False
    then have "\<not> c * ?n * dimension_product ps \<le> maximum" using le by linarith
    then show ?thesis using False Cons.prems(1) by (simp add: multiply_cardinality_eq mult.assoc)
  qed
qed simp

lemma cardinality_fold_dims:
  "res_fold (multiply_cardinality maximum) ps c = Inr n \<Longrightarrow> \<forall>p\<in>set ps. validate_search_parameter p = Inr ()"
  by (induction ps arbitrary: c) (auto simp: multiply_cardinality_def)

lemma calculate_cardinality_Inr:
  assumes "calculate_cardinality ps maximum = Inr n"
  shows "n = dimension_product ps" and "n \<le> maximum" and "maximum \<le> ABSOLUTE_MAX_COMBINATIONS" and "ps \<noteq> []"
    and "\<forall>p\<in>set ps. validate_search_parameter p = Inr ()"
proof -
  have h: "validate_combination_limit maximum = Inr ()" "ps \<noteq> []" "res_fold (multiply_cardinality maximum) ps 1 = Inr n"
    using assms by (auto simp: calculate_cardinality_def)
  show v: "\<forall>p\<in>set ps. validate_search_parameter p = Inr ()" and "ps \<noteq> []" using cardinality_fold_dims [OF h(3)] h(2) by blast+
  have m: "1 \<le> maximum" "maximum \<le> ABSOLUTE_MAX_COMBINATIONS" using h(1) by (auto simp: validate_combination_limit_def)
  show "n = dimension_product ps" "n \<le> maximum"
    using cardinality_fold [OF v, of 1 maximum] m h(3) by (auto split: if_splits)
  show "maximum \<le> ABSOLUTE_MAX_COMBINATIONS" by (rule m)
qed

lemma validate_search_space_Inr:
  assumes "validate_search_space s = Inr n"
  shows "n = ss_cardinality s" and "n = dimension_product (ss_search s)" and "1 \<le> n" and "n \<le> ss_max_combinations s"
    and "ss_max_combinations s \<le> ABSOLUTE_MAX_COMBINATIONS"
    and "\<forall>p\<in>set (ss_search s). validate_search_parameter p = Inr ()" and "\<forall>p\<in>set (ss_fixed s). validate_fixed_parameter p = Inr ()"
    and "distinct (map fx_name (ss_fixed s) @ map sq_name (ss_search s))" and "ss_schema_version s = 1"
    and "validate_safe_token (ss_plugin_name s) = Inr ()" and "validate_safe_token (ss_plugin_version s) = Inr ()"
proof -
  have fold: "\<forall>p\<in>set ps. validate_fixed_parameter p = Inr ()" if "res_fold (\<lambda>p _. validate_fixed_parameter p) ps () = Inr ()" for ps
    using that by (induction ps) auto
  note h = assms [unfolded validate_search_space_def]
  have c: "calculate_cardinality (ss_search s) (ss_max_combinations s) = Inr n" "n = ss_cardinality s" "1 \<le> ss_cardinality s"
    and f: "res_fold (\<lambda>p _. validate_fixed_parameter p) (ss_fixed s) () = Inr ()"
    and d: "validate_unique_canonical_names (map fx_name (ss_fixed s)) = Inr ()" "validate_unique_canonical_names (map sq_name (ss_search s)) = Inr ()"
    "set (map fx_name (ss_fixed s)) \<inter> set (map sq_name (ss_search s)) = {}"
    using h by (auto simp del: res_fold.simps)
  show "n = ss_cardinality s" "1 \<le> n" using c by simp_all
  note k = calculate_cardinality_Inr [OF c(1)]
  show "n = dimension_product (ss_search s)" "n \<le> ss_max_combinations s" "ss_max_combinations s \<le> ABSOLUTE_MAX_COMBINATIONS"
    "\<forall>p\<in>set (ss_search s). validate_search_parameter p = Inr ()"
    by (rule k)+
  show "\<forall>p\<in>set (ss_fixed s). validate_fixed_parameter p = Inr ()" by (rule fold [OF f])
  show "distinct (map fx_name (ss_fixed s) @ map sq_name (ss_search s))"
    using d by (auto simp: validate_unique_canonical_names_def)
  show "ss_schema_version s = 1" "validate_safe_token (ss_plugin_name s) = Inr ()" "validate_safe_token (ss_plugin_version s) = Inr ()"
    using h by (auto simp del: res_fold.simps)
qed

section \<open>Expansion\<close>

lemma dict_of_Cons: "dict_of raw ((k, v) # items) = dict_of (AList.update k v raw) items"
  by (simp add: dict_of_def)

lemma map_of_dict_of: "distinct (map fst items) \<Longrightarrow> map_of (dict_of raw items) = map_of raw ++ map_of items"
proof (induction items arbitrary: raw)
  case (Cons kv items)
  obtain k v where kv: "kv = (k, v)" by (cases kv)
  have "k \<notin> dom (map_of items)" using Cons.prems kv by (simp add: dom_map_of_conv_image_fst)
  then show ?case using Cons by (auto simp: kv dict_of_Cons update_conv' map_add_def domIff fun_eq_iff split: option.splits)
qed (simp add: dict_of_def)

definition space_names :: "search_space \<Rightarrow> string list" where
  "space_names s = map fx_name (ss_fixed s) @ map sq_name (ss_search s)"

definition fixed_map :: "search_space \<Rightarrow> string \<rightharpoonup> scalar" where
  "fixed_map s = map_of (map (\<lambda>p. (fx_name p, fx_value p)) (ss_fixed s))"

text \<open>An assignment of the space: the fixed vs, and a listed value for every searchable parameter.\<close>

definition assigns :: "search_space \<Rightarrow> (string \<rightharpoonup> scalar) \<Rightarrow> bool" where
  "assigns s m \<longleftrightarrow> dom m = set (space_names s) \<and> (\<forall>p\<in>set (ss_fixed s). m (fx_name p) = Some (fx_value p)) \<and>
     (\<forall>p\<in>set (ss_search s). \<exists>v\<in>set (sq_values p). m (sq_name p) = Some v)"

definition choice_map :: "search_space \<Rightarrow> scalar list \<Rightarrow> string \<rightharpoonup> scalar" where
  "choice_map s vs = fixed_map s ++ map_of (zip (map sq_name (ss_search s)) vs)"

lemma raw_combinations_maps:
  assumes d: "distinct (space_names s)"
  shows "map map_of (raw_combinations s) = map (choice_map s) (product_lists (map sq_values (ss_search s)))"
proof -
  have f: "map_of (dict_of [] (map (\<lambda>p. (fx_name p, fx_value p)) (ss_fixed s))) = fixed_map s"
    using d by (subst map_of_dict_of) (simp_all add: fixed_map_def space_names_def comp_def)
  have "map_of (dict_of r (zip (map sq_name (ss_search s)) vs)) = map_of r ++ map_of (zip (map sq_name (ss_search s)) vs)"
    if "vs \<in> set (product_lists (map sq_values (ss_search s)))" for r vs
    using d in_set_product_lists_length [OF that] by (intro map_of_dict_of) (simp add: space_names_def)
  then show ?thesis by (auto simp: raw_combinations_def Let_def choice_map_def f)
qed

lemma choice_at:
  assumes d: "distinct (space_names s)" and l: "length vs = length (ss_search s)" and i: "i < length (ss_search s)"
  shows "choice_map s vs (sq_name (ss_search s ! i)) = Some (vs ! i)"
proof -
  have "(sq_name (ss_search s ! i), vs ! i) \<in> set (zip (map sq_name (ss_search s)) vs)"
    using l i by (auto simp: in_set_zip intro!: exI [of _ i])
  moreover have "distinct (map fst (zip (map sq_name (ss_search s)) vs))" using d l by (simp add: space_names_def)
  ultimately have "map_of (zip (map sq_name (ss_search s)) vs) (sq_name (ss_search s ! i)) = Some (vs ! i)" by simp
  then show ?thesis by (simp add: choice_map_def)
qed

lemma choice_map_inj:
  assumes d: "distinct (space_names s)"
  shows "inj_on (choice_map s) {vs. length vs = length (ss_search s)}"
proof (rule inj_onI)
  fix x y
  assume h: "x \<in> {vs. length vs = length (ss_search s)}" "y \<in> {vs. length vs = length (ss_search s)}"
    "choice_map s x = choice_map s y"
  have "x ! i = y ! i" if "i < length (ss_search s)" for i
    using choice_at [OF d _ that, of x] choice_at [OF d _ that, of y] h by simp
  then show "x = y" using h by (auto intro: nth_equalityI)
qed

lemma choice_assigns:
  assumes d: "distinct (space_names s)" and v: "list_all2 (\<lambda>v p. v \<in> set (sq_values p)) vs (ss_search s)"
  shows "assigns s (choice_map s vs)"
proof -
  have l: "length vs = length (ss_search s)" using v by (rule list_all2_lengthD)
  have z: "map_of (zip (map sq_name (ss_search s)) vs) (fx_name p) = None" if "p \<in> set (ss_fixed s)" for p
    using d that l by (force simp: map_of_eq_None_iff space_names_def dest: set_zip_leftD)
  have fx: "fixed_map s (fx_name p) = Some (fx_value p)" if "p \<in> set (ss_fixed s)" for p
    using d that by (auto simp: fixed_map_def space_names_def comp_def)
  have "dom (choice_map s vs) = set (space_names s)"
  proof -
    have "dom (map_of (zip (map sq_name (ss_search s)) vs)) = sq_name ` set (ss_search s)" using l by simp
    moreover have "dom (fixed_map s) = fx_name ` set (ss_fixed s)"
      by (simp add: fixed_map_def dom_map_of_conv_image_fst image_image)
    ultimately show ?thesis by (auto simp: choice_map_def space_names_def)
  qed
  moreover have "\<exists>v\<in>set (sq_values p). choice_map s vs (sq_name p) = Some v" if "p \<in> set (ss_search s)" for p
  proof -
    obtain i where i: "i < length (ss_search s)" "p = ss_search s ! i" using \<open>p \<in> set (ss_search s)\<close> by (auto simp: in_set_conv_nth)
    show ?thesis using choice_at [OF d l i(1)] list_all2_nthD2 [OF v i(1)] i(2) by blast
  qed
  ultimately show ?thesis using z fx by (auto simp: assigns_def choice_map_def map_add_def)
qed

lemma assigned_choice:
  assumes d: "distinct (space_names s)" and a: "assigns s m"
  shows "\<exists>vs. list_all2 (\<lambda>v p. v \<in> set (sq_values p)) vs (ss_search s) \<and> choice_map s vs = m"
proof -
  let ?ws = "map (\<lambda>p. the (m (sq_name p))) (ss_search s)"
  have v: "list_all2 (\<lambda>v p. v \<in> set (sq_values p)) ?ws (ss_search s)"
  proof (unfold list_all2_map1, rule list_all2_same [THEN iffD2], rule ballI)
    fix p
    assume "p \<in> set (ss_search s)"
    then show "the (m (sq_name p)) \<in> set (sq_values p)" using a unfolding assigns_def by (metis option.sel)
  qed
  have c: "assigns s (choice_map s ?ws)" by (rule choice_assigns [OF d v])
  have "choice_map s ?ws x = m x" for x
  proof -
    consider p where "p \<in> set (ss_fixed s)" "x = fx_name p" | p where "p \<in> set (ss_search s)" "x = sq_name p" | "x \<notin> set (space_names s)"
      by (auto simp: space_names_def)
    then show ?thesis
    proof cases
      case 1
      then show ?thesis using a c by (simp add: assigns_def)
    next
      case 2
      then obtain i where i: "i < length (ss_search s)" "p = ss_search s ! i" by (auto simp: in_set_conv_nth)
      have "m x \<noteq> None" using a 2 by (auto simp: assigns_def)
      then show ?thesis using choice_at [OF d _ i(1), of ?ws] i 2 by simp
    next
      case 3
      then have "x \<notin> dom m" "x \<notin> dom (choice_map s ?ws)" using a c by (simp_all add: assigns_def)
      then show ?thesis by (simp add: domIff)
    qed
  qed
  then show ?thesis using v by blast
qed

lemma length_product: "length (product_lists (map sq_values ps)) = nat (dimension_product ps)"
proof -
  have "int (length (product_lists (map sq_values ps))) = dimension_product ps"
    by (induction ps) (simp_all add: length_concat comp_def sum_list_triv)
  then show ?thesis by simp
qed

lemma valid_values_distinct:
  assumes "validate_search_parameter p = Inr ()"
  shows "distinct (sq_values p)"
proof -
  obtain keys where k: "res_map (canonical_scalar_key (sq_kind p)) (sq_values p) = Inr keys" "distinct keys"
    using assms by (auto simp: validate_search_parameter_iff)
  have "map (canonical_scalar_key (sq_kind p)) (sq_values p) = map Inr keys"
    using k(1) by (simp add: res_map_Inr_iff list_all2_conv_all_nth list_eq_iff_nth_eq)
  then have "distinct (map (canonical_scalar_key (sq_kind p)) (sq_values p))" using k(2) by (simp add: distinct_map inj_on_def)
  then show ?thesis by (simp add: distinct_map)
qed

section \<open>Canonical order\<close>

lemma normalize_value_Inl: "normalize_value p v = Inl e \<Longrightarrow> e = search_error IncompatibleSearchParameterType"
  by (auto simp: normalize_value_def catch_as_def split: option.splits sum.splits)

lemma normalize_value_key: "normalize_value p v = Inr w \<Longrightarrow> \<exists>k. canonical_scalar_key (ps_kind p) w = Inr k"
  by (auto simp: normalize_value_def split: option.splits)

lemma res_map_Inl_const:
  assumes "\<And>x e. x \<in> set xs \<Longrightarrow> f x = Inl e \<Longrightarrow> e = e0" and "x \<in> set xs" and "f x = Inl e"
  shows "res_map f xs = Inl e0"
  using assms
proof (induction xs)
  case (Cons y ys)
  show ?case
  proof (cases "f y")
    case (Inl e')
    then show ?thesis using Cons.prems(1) [of y e'] by simp
  next
    case (Inr z)
    then have x: "x \<in> set ys" using Cons.prems(2,3) by auto
    have "res_map f ys = Inl e0"
    proof (rule Cons.IH [OF _ x Cons.prems(3)])
      fix z e
      assume "z \<in> set ys" and "f z = Inl e"
      then show "e = e0" by (intro Cons.prems(1) [of z]) simp_all
    qed
    then show ?thesis using Inr by simp
  qed
qed simp

lemma res_map_total: "(\<And>x. x \<in> set xs \<Longrightarrow> f x = Inr (g x)) \<Longrightarrow> res_map f xs = Inr (map g xs)"
  by (induction xs) simp_all

definition value_of :: "parameter_spec \<Rightarrow> scalar option \<Rightarrow> scalar" where
  "value_of p v = (case normalize_value p v of Inr w \<Rightarrow> w)"

definition key_of :: "parameter_spec \<Rightarrow> scalar option \<Rightarrow> int \<times> string" where
  "key_of p v = (case canonical_scalar_key (ps_kind p) (value_of p v) of Inr k \<Rightarrow> k)"

lemma order_values_cases:
  "order_values p vs =
     (if vs = [] then Inl (search_error EmptySearchParameterValues)
      else if \<exists>v\<in>set vs. \<exists>e. normalize_value p v = Inl e then Inl (search_error IncompatibleSearchParameterType)
      else if distinct (map (key_of p) vs) then Inr (map (value_of p) (sort_key (key_of p) vs))
      else Inl (search_error DuplicateSearchParameterValue))"
proof (cases "\<exists>v\<in>set vs. \<exists>e. normalize_value p v = Inl e")
  case True
  then obtain v e where v: "v \<in> set vs" "normalize_value p v = Inl e" by blast
  have "res_map (normalize_value p) vs = Inl (search_error IncompatibleSearchParameterType)"
    using normalize_value_Inl v by (intro res_map_Inl_const [of vs "normalize_value p" _ v e]) blast+
  then show ?thesis using True v(1) by (auto simp: order_values_def)
next
  case False
  have n: "normalize_value p v = Inr (value_of p v)" if "v \<in> set vs" for v
    using False that by (cases "normalize_value p v") (auto simp: value_of_def)
  have k: "canonical_scalar_key (ps_kind p) (value_of p v) = Inr (key_of p v)" if "v \<in> set vs" for v
    using normalize_value_key [OF n [OF that]] by (auto simp: key_of_def)
  have rn: "res_map (normalize_value p) vs = Inr (map (value_of p) vs)" by (rule res_map_total [OF n])
  have rk: "res_map (canonical_scalar_key (ps_kind p)) (map (value_of p) vs) = Inr (map (key_of p) vs)"
    using res_map_total [of vs "\<lambda>v. canonical_scalar_key (ps_kind p) (value_of p v)" "key_of p", OF k]
    by (simp add: res_map_Inr_iff list_all2_map1)
  have z: "zip (map (key_of p) vs) (map (value_of p) vs) = map (\<lambda>v. (key_of p v, value_of p v)) vs"
    by (simp add: zip_map_map zip_same_conv_map)
  have sk: "sort_key fst (map (\<lambda>v. (key_of p v, value_of p v)) vs) = map (\<lambda>v. (key_of p v, value_of p v)) (sort_key (key_of p) vs)"
  proof -
    have i: "insort_key fst (key_of p v, value_of p v) (map (\<lambda>v. (key_of p v, value_of p v)) ws)
        = map (\<lambda>v. (key_of p v, value_of p v)) (insort_key (key_of p) v ws)" for v ws
      by (induction ws) auto
    show ?thesis by (induction vs) (simp_all add: i)
  qed
  show ?thesis using False by (simp add: order_values_def rn rk z sk comp_def require_def)
qed

lemma order_values_mset:
  assumes "mset vs = mset ws"
  shows "order_values p vs = order_values p ws"
proof -
  have s: "set vs = set ws" and e: "vs = [] \<longleftrightarrow> ws = []" using assms by (metis mset_eq_setD, metis assms mset.simps(1) mset_zero_iff)
  have d: "distinct (map (key_of p) vs) \<longleftrightarrow> distinct (map (key_of p) ws)"
    by (rule mset_eq_imp_distinct_iff) (simp add: assms)
  have "sort_key (key_of p) vs = sort_key (key_of p) ws" if "distinct (map (key_of p) vs)"
    by (rule sort_key_inj_key_eq) (use that assms in \<open>simp_all add: distinct_map\<close>)
  then show ?thesis using s e d by (simp add: order_values_cases)
qed

lemma normalize_search_mset:
  assumes rel: "\<And>k. rel_option (\<lambda>vs ws. mset vs = mset ws) (map_of raw k) (map_of raw' k)"
  shows "normalize_search desc raw = normalize_search desc raw'"
proof -
  have dom: "set (map fst raw) = set (map fst raw')"
  proof -
    have "map_of raw k = None \<longleftrightarrow> map_of raw' k = None" for k using rel [of k] by (auto elim: option.rel_cases)
    then show ?thesis by (auto simp: map_of_eq_None_iff)
  qed
  then have e: "raw = [] \<longleftrightarrow> raw' = []" by (cases raw; cases raw') auto
  have step: "normalize_search_step raw p built = normalize_search_step raw' p built" for p built
    using rel [of "ps_name p"] by (cases rule: option.rel_cases) (auto simp: normalize_search_step_def dest: order_values_mset [of _ _ p])
  then have "normalize_search_step raw = normalize_search_step raw'" by blast
  then show ?thesis using dom e by (simp add: normalize_search_def raise_unknown_def)
qed

section \<open>Documents\<close>

definition finite_scalar :: "scalar \<Rightarrow> bool" where
  "finite_scalar v = (case v of Dec_value d \<Rightarrow> finite_decimal d | _ \<Rightarrow> True)"

text \<open>Every decimal of the space is a value a \<^verbatim>\<open>Decimal\<close> can hold.\<close>

definition finite_space :: "search_space \<Rightarrow> bool" where
  "finite_space s \<longleftrightarrow> list_all (\<lambda>p. finite_scalar (fx_value p)) (ss_fixed s) \<and>
     list_all (\<lambda>p. list_all finite_scalar (sq_values p)) (ss_search s)"

lemma stored_decoded:
  assumes "canonical_scalar_key kind v = Inr key" and "finite_scalar v" and "stored_value kind v = Inr j"
  shows "decoded_value kind j = Inr v"
  using assms
  by (cases kind; cases v) (auto simp: stored_value_def decoded_value_def finite_scalar_def parse_decimal_text)

lemma stored_total: "canonical_scalar_key kind v = Inr key \<Longrightarrow> \<exists>j. stored_value kind v = Inr j"
  by (cases kind; cases v) (auto simp: stored_value_def)

lemma decode_kind_text [simp]: "decode_kind (J_Str (kind_text k)) = Inr k"
  by (cases k) (simp_all add: decode_kind_def)

lemma json_get_simps [simp]:
  "json_get k ((k, v) # r) = v" "k \<noteq> k' \<Longrightarrow> json_get k ((k', v) # r) = json_get k r"
  by (simp_all add: json_get_def)

lemma safe_token_nonempty: "validate_safe_token s = Inr u \<Longrightarrow> s \<noteq> []"
  by (simp add: validate_safe_token_def)

lemma fixed_entry_round_trip:
  assumes v: "validate_fixed_parameter p = Inr ()" and "finite_scalar (fx_value p)" and j: "fixed_payload p = Inr j"
  shows "decode_fixed_entry j = Inr p"
proof -
  obtain key where n: "validate_safe_token (fx_name p) = Inr ()" and k: "canonical_scalar_key (fx_kind p) (fx_value p) = Inr key"
    using v by (auto simp: validate_fixed_parameter_def validate_scalar_def)
  obtain w where w: "stored_value (fx_kind p) (fx_value p) = Inr w"
    and jw: "j = J_Obj [(''name'', J_Str (fx_name p)), (''kind'', J_Str (kind_text (fx_kind p))), (''value'', w)]"
    using j by (auto simp: fixed_payload_def)
  have d: "decoded_value (fx_kind p) w = Inr (fx_value p)" by (rule stored_decoded [OF k assms(2) w])
  have p: "\<lparr>fx_name = fx_name p, fx_kind = fx_kind p, fx_value = fx_value p\<rparr> = p" by (cases p) simp
  show ?thesis
    using d v safe_token_nonempty [OF n]
    by (simp add: p jw decode_fixed_entry_def json_mapping_def has_exactly_def required_str_def Let_def insert_commute)
qed

lemma search_entry_round_trip:
  assumes v: "validate_search_parameter p = Inr ()" and f: "list_all finite_scalar (sq_values p)" and j: "search_payload p = Inr j"
  shows "decode_search_entry j = Inr p"
proof -
  obtain keys where n: "validate_safe_token (sq_name p) = Inr ()" and k: "res_map (canonical_scalar_key (sq_kind p)) (sq_values p) = Inr keys"
    using v by (auto simp: validate_search_parameter_iff)
  obtain ws where w: "res_map (stored_value (sq_kind p)) (sq_values p) = Inr ws"
    and jw: "j = J_Obj [(''name'', J_Str (sq_name p)), (''kind'', J_Str (kind_text (sq_kind p))), (''values'', J_Arr ws)]"
    using j by (auto simp: search_payload_def)
  have "list_all2 (\<lambda>w v. decoded_value (sq_kind p) w = Inr v) ws (sq_values p)"
    using k w f stored_decoded unfolding res_map_Inr_iff list_all2_conv_all_nth list_all_length by metis
  then have d: "res_map (decoded_value (sq_kind p)) ws = Inr (sq_values p)" by (simp add: res_map_Inr_iff)
  have p: "\<lparr>sq_name = sq_name p, sq_kind = sq_kind p, sq_values = sq_values p\<rparr> = p" by (cases p) simp
  show ?thesis
    using d v safe_token_nonempty [OF n]
    by (simp add: p jw decode_search_entry_def json_mapping_def json_sequence_def has_exactly_def required_str_def Let_def insert_commute)
qed

lemma entries_round_trip:
  assumes "res_map f xs = Inr js" and "\<And>x j. x \<in> set xs \<Longrightarrow> f x = Inr j \<Longrightarrow> g j = Inr x"
  shows "res_map g js = Inr xs"
  using assms by (auto simp: res_map_Inr_iff list_all2_conv_all_nth)

lemma document_read_back:
  assumes doc: "to_document H s = Inr doc" and fin: "finite_space s"
  shows "decode_document H doc = Inr s"
proof -
  obtain n payload where v: "validate_search_space s = Inr n"
    and p: "space_payload (space_projection s) (ss_fixed s) (ss_search s) (ss_schema_version s) (ss_cardinality s)
      (ss_max_combinations s) = Inr payload"
    and i: "verify_space_identity H s payload = Inr ()"
    and d: "doc = J_Obj [(''search_space'', payload), (''checksum'', J_Str (ss_checksum s)), (''search_space_id'', J_Str (ss_id s))]"
    using doc unfolding to_document_def res_bind_Inr_iff by (elim exE conjE) simp
  note V = validate_search_space_Inr [OF v]
  obtain fs qs where fs: "res_map fixed_payload (ss_fixed s) = Inr fs" and qs: "res_map search_payload (ss_search s) = Inr qs"
    and pl: "payload = J_Obj [(''schema_version'', J_Int 1),
       (''plugin'', J_Obj [(''name'', J_Str (ss_plugin_name s)), (''version'', J_Str (ss_plugin_version s)),
          (''schema_version'', J_Int (ss_plugin_schema_version s)), (''lifecycle_version'', J_Int (ss_plugin_lifecycle_version s))]),
       (''combination_policy'', J_Str ''REJECT_SPACE''), (''max_combinations'', J_Int (ss_max_combinations s)),
       (''cardinality'', J_Int (ss_cardinality s)), (''fixed_parameters'', J_Arr fs), (''search_parameters'', J_Arr qs)]"
    using p V(9) by (auto simp: space_payload_def space_projection_def)
  have f: "res_map decode_fixed_entry fs = Inr (ss_fixed s)"
    using V(7) fin by (intro entries_round_trip [OF fs]) (auto simp: finite_space_def list_all_iff intro: fixed_entry_round_trip)
  have q: "res_map decode_search_entry qs = Inr (ss_search s)"
    using V(6) fin by (intro entries_round_trip [OF qs]) (auto simp: finite_space_def list_all_iff intro: search_entry_round_trip)
  have s: "\<lparr>ss_plugin_name = ss_plugin_name s, ss_plugin_version = ss_plugin_version s,
      ss_plugin_schema_version = ss_plugin_schema_version s, ss_plugin_lifecycle_version = ss_plugin_lifecycle_version s,
      ss_fixed = ss_fixed s, ss_search = ss_search s, ss_cardinality = ss_cardinality s, ss_max_combinations = ss_max_combinations s,
      ss_checksum = ss_checksum s, ss_id = ss_id s, ss_schema_version = 1\<rparr> = s"
    using V(9) by (cases s) simp
  obtain members where m: "payload = J_Obj members" using pl by blast
  have env: "parse_envelope doc = Inr (members, ss_checksum s, ss_id s)"
    using pl m by (auto simp: d parse_envelope_def json_mapping_def has_exactly_def)
  have id: "document_checksum H (J_Obj members) = ss_checksum s"
    "deterministic_id H ''adt-parameter-search-space-v1'' (J_Obj members) = ss_id s"
    using i m by (simp_all add: verify_space_identity_def)
  have mem: "json_get ''schema_version'' members = J_Int 1" "json_get ''combination_policy'' members = J_Str ''REJECT_SPACE''"
    "json_get ''plugin'' members = J_Obj [(''name'', J_Str (ss_plugin_name s)), (''version'', J_Str (ss_plugin_version s)),
          (''schema_version'', J_Int (ss_plugin_schema_version s)), (''lifecycle_version'', J_Int (ss_plugin_lifecycle_version s))]"
    "json_get ''fixed_parameters'' members = J_Arr fs" "json_get ''search_parameters'' members = J_Arr qs"
    "json_get ''cardinality'' members = J_Int (ss_cardinality s)" "json_get ''max_combinations'' members = J_Int (ss_max_combinations s)"
    using pl m by auto
  have names: "ss_plugin_name s \<noteq> []" "ss_plugin_version s \<noteq> []" using V(10,11) safe_token_nonempty by blast+
  show ?thesis
    using v i names
    by (simp add: decode_document_def env id mem m json_mapping_def json_sequence_def has_exactly_def required_str_def
        required_int_def f q s make_search_space_def insert_commute)
qed

section \<open>Created spaces\<close>

lemma expand_build:
  "expand_space H descriptor build s = res_bind (to_document H s) (\<lambda>_. res_map (\<lambda>(i, raw). build s i raw)
     (zip (map int [0 ..< length (raw_combinations s)]) (raw_combinations s)))"
  if "descriptor = Inr desc" and "pd_identity desc = space_projection s"
  using that by (auto simp: expand_space_def to_document_def space_projection_def res_bind_def require_def split: sum.splits)

lemma created_space:
  assumes "create_space H descriptor build raw_search raw_fixed maximum = Inr s"
  obtains desc doc cs where "descriptor = Inr desc" and "pd_identity desc = space_projection s" and "to_document H s = Inr doc"
    and "res_map (\<lambda>(i, raw). build s i raw) (zip (map int [0 ..< length (raw_combinations s)]) (raw_combinations s)) = Inr cs"
proof -
  obtain desc fixed searchable cardinality payload cs where desc: "descriptor = Inr desc"
    and p: "space_payload (pd_identity desc) fixed searchable 1 cardinality maximum = Inr payload"
    and s: "s = \<lparr>ss_plugin_name = pg_name (pd_identity desc), ss_plugin_version = pg_version (pd_identity desc),
         ss_plugin_schema_version = pg_schema_version (pd_identity desc),
         ss_plugin_lifecycle_version = pg_lifecycle_version (pd_identity desc), ss_fixed = fixed, ss_search = searchable,
         ss_cardinality = cardinality, ss_max_combinations = maximum, ss_checksum = document_checksum H payload,
         ss_id = deterministic_id H ''adt-parameter-search-space-v1'' payload, ss_schema_version = 1\<rparr>"
    and v: "validate_search_space s = Inr cardinality"
    and b: "res_map (\<lambda>(i, raw). build s i raw) (zip (map int [0 ..< length (raw_combinations s)]) (raw_combinations s)) = Inr cs"
    using assms validate_search_space_Inr(1) unfolding create_space_def make_search_space_def res_bind_Inr_iff require_Inr_iff
    by (elim exE conjE) (hypsubst, fastforce)
  have pr: "space_projection s = pd_identity desc" by (cases "pd_identity desc") (simp add: space_projection_def s)
  have "to_document H s = Inr (J_Obj [(''search_space'', payload), (''checksum'', J_Str (ss_checksum s)), (''search_space_id'', J_Str (ss_id s))])"
    using v p by (simp add: to_document_def pr verify_space_identity_def) (simp add: s verify_space_identity_def)
  then show thesis using that [OF desc _ _ b] pr by simp
qed


text \<open>C21: creating a parameter space does not depend on how the request is written: two requests that list the same
values for the same parameters, in whatever order, give the same space with the same checksum and identifier, or are
refused with the same error.\<close>
theorem space_order_independent:
  assumes "\<And>k. rel_option (\<lambda>vs ws. mset vs = mset ws) (map_of raw k) (map_of raw' k)"
  shows "create_space H descriptor build raw raw_fixed maximum = create_space H descriptor build raw' raw_fixed maximum"
  using normalize_search_mset [OF assms] by (simp add: create_space_def)

text \<open>C14: a created parameter space survives its document: the document exists, decoding it verifies checksum and
identifier and gives the space back, and expanding the space succeeds again with one combination per index.\<close>
theorem space_document_round_trip:
  assumes "create_space H descriptor build raw raw_fixed maximum = Inr s" and "finite_space s"
  shows "(\<exists>doc. to_document H s = Inr doc \<and> decode_document H doc = Inr s) \<and>
      (\<exists>cs. expand_space H descriptor build s = Inr cs \<and> int (length cs) = ss_cardinality s)"
proof (rule created_space [OF assms(1)])
  fix desc doc cs
  assume h: "descriptor = Inr desc" "pd_identity desc = space_projection s" "to_document H s = Inr doc"
    and b: "res_map (\<lambda>(i, raw). build s i raw) (zip (map int [0 ..< length (raw_combinations s)]) (raw_combinations s)) = Inr cs"
  obtain n where v: "validate_search_space s = Inr n" using h(3) by (auto simp: to_document_def)
  note V = validate_search_space_Inr [OF v]
  have "length (raw_combinations s) = length (product_lists (map sq_values (ss_search s)))"
    by (simp add: raw_combinations_def Let_def)
  then have "int (length (raw_combinations s)) = ss_cardinality s" using length_product V(1-3) by simp
  then have "int (length cs) = ss_cardinality s" using b by (auto simp: res_map_Inr_iff dest: list_all2_lengthD)
  then show ?thesis
    using document_read_back [OF h(3) assms(2)] h expand_build [OF h(1,2), of H build] b by auto
qed

text \<open>A moving-average plugin with an integer period, a decimal ratio and a fixed mode.\<close>

definition example_sha :: sha where
  "example_sha = \<lparr>sha_json = (\<lambda>j. replicate 64 CHR ''c''), sha_named = (\<lambda>n j. replicate 64 CHR ''d'')\<rparr>"

definition example_descriptor :: plugin_descriptor where
  "example_descriptor = \<lparr>pd_identity = \<lparr>pg_name = ''sma'', pg_version = ''1.0'', pg_schema_version = 1, pg_lifecycle_version = 2\<rparr>,
     pd_parameters = [\<lparr>ps_name = ''mode'', ps_kind = STRING, ps_minimum = None, ps_maximum = None\<rparr>,
       \<lparr>ps_name = ''period'', ps_kind = INTEGER, ps_minimum = Some 2, ps_maximum = Some 200\<rparr>,
       \<lparr>ps_name = ''ratio'', ps_kind = DECIMAL, ps_minimum = Some 0, ps_maximum = None\<rparr>]\<rparr>"

definition example_build :: "search_space \<Rightarrow> int \<Rightarrow> (string \<times> scalar) list \<Rightarrow> (string \<times> scalar) list result" where
  "example_build s i raw = Inr raw"

definition example_request :: "scalar option list \<Rightarrow> (string \<times> scalar option list) list" where
  "example_request ratios = [(''ratio'', ratios), (''period'', [Some (Int_value 5), Some (Int_value 20), Some (Int_value 10)])]"

definition example_space :: search_space where
  "example_space = \<lparr>ss_plugin_name = ''sma'', ss_plugin_version = ''1.0'', ss_plugin_schema_version = 1, ss_plugin_lifecycle_version = 2,
     ss_fixed = [\<lparr>fx_name = ''mode'', fx_kind = STRING, fx_value = Str_value ''close''\<rparr>],
     ss_search = [\<lparr>sq_name = ''period'', sq_kind = INTEGER, sq_values = [Int_value 10, Int_value 20, Int_value 5]\<rparr>,
       \<lparr>sq_name = ''ratio'', sq_kind = DECIMAL, sq_values = [Dec_value (1 / 4), Dec_value (1 / 2)]\<rparr>],
     ss_cardinality = 6, ss_max_combinations = 10, ss_checksum = replicate 64 CHR ''c'', ss_id = replicate 64 CHR ''d'', ss_schema_version = 1\<rparr>"

lemma example_space_created:
  "create_space example_sha (Inr example_descriptor) example_build
     (example_request [Some (Dec_value (1 / 2)), Some (Dec_value (1 / 4))]) [(''mode'', Some (Str_value '' close ''))] 10 = Inr example_space"
  by code_simp

lemma example_space_values:
  "ss_cardinality example_space = 6"
  "list_all (\<lambda>p. finite_scalar (fx_value p)) (ss_fixed example_space)"
  "map sq_values (ss_search example_space) = [[Int_value 10, Int_value 20, Int_value 5], [Dec_value (1 / 4), Dec_value (1 / 2)]]"
  by (simp_all add: example_space_def finite_scalar_def)

lemma example_space_valid: "validate_search_space example_space = Inr 6"
proof (rule created_space [OF example_space_created])
  fix doc
  assume "to_document example_sha example_space = Inr doc"
  then obtain n where "validate_search_space example_space = Inr n" by (auto simp: to_document_def)
  then show ?thesis using validate_search_space_Inr(1) example_space_values(1) by simp
qed


theorem space_order_independent_witness:
  "create_space example_sha (Inr example_descriptor) example_build
     (rev (example_request [Some (Dec_value (1 / 4)), Some (Dec_value (1 / 2))])) [(''mode'', Some (Str_value '' close ''))] 10 = Inr example_space"
proof -
  have "rel_option (\<lambda>vs ws. mset vs = mset ws)
      (map_of (rev (example_request [Some (Dec_value (1 / 4)), Some (Dec_value (1 / 2))])) k)
      (map_of (example_request [Some (Dec_value (1 / 2)), Some (Dec_value (1 / 4))]) k)" for k
    by (simp add: example_request_def)
  then show ?thesis using space_order_independent example_space_created by metis
qed

theorem space_document_round_trip_witness:
  "(\<exists>doc. to_document example_sha example_space = Inr doc \<and> decode_document example_sha doc = Inr example_space) \<and>
   (\<exists>cs. expand_space example_sha (Inr example_descriptor) example_build example_space = Inr cs \<and> length cs = 6)"
proof -
  have "finite_decimal (1 / 4)" "finite_decimal (1 / 2)"
    unfolding finite_decimal_def by (rule exI [of _ 25], rule exI [of _ 2], simp) (rule exI [of _ 5], rule exI [of _ 1], simp)
  then have "finite_space example_space" by (simp add: finite_space_def finite_scalar_def example_space_def)
  then show ?thesis using space_document_round_trip [OF example_space_created] example_space_values by auto
qed

end
