(* ===== verification/Segmentation.thy ===== *)
theory Segmentation
  imports Resampling Planning Backtest_Domain
begin

text \<open>
  Temporal segmentation of \<^verbatim>\<open>app/optimization/temporal_domain.py\<close> and \<^verbatim>\<open>temporal_segmentation.py\<close>: an
  aligned coverage, the reference to an immutable snapshot, the TRAIN, VALIDATION and TEST segments
  with their retrospective warmup, the validation of a plan and the service that builds one.  The
  digests over canonical JSON are parameters on the values the payload is made of.
\<close>

section \<open>Coverages\<close>

definition MAX_SEGMENT_CANDLES :: int where
  "MAX_SEGMENT_CANDLES = 10000000"

definition MAX_TEMPORAL_COVERAGE_CANDLES :: int where
  "MAX_TEMPORAL_COVERAGE_CANDLES = MAX_SEGMENT_CANDLES * 3"

definition MAX_WARMUP_CANDLES :: int where
  "MAX_WARMUP_CANDLES = 10000000"

datatype temporal_role = TRAIN | VALIDATION | TEST

definition CANONICAL_TEMPORAL_ROLES :: "temporal_role list" where
  "CANONICAL_TEMPORAL_ROLES = [TRAIN, VALIDATION, TEST]"

record coverage =
  cv_range :: data_range
  cv_timeframe :: string
  cv_count :: int

definition cv_start :: "coverage \<Rightarrow> instant" where
  "cv_start cv = dr_start (cv_range cv)"

definition cv_end :: "coverage \<Rightarrow> instant" where
  "cv_end cv = dr_end (cv_range cv)"

text \<open>The instants of years 1 to 9999; arithmetic that leaves them raises \<^verbatim>\<open>OverflowError\<close>.\<close>

definition datetime_ok :: "instant \<Rightarrow> bool" where
  "datetime_ok t \<longleftrightarrow> -62135596800000000 \<le> t \<and> t \<le> 253402300799999999"

definition datetime_add :: "instant \<Rightarrow> duration \<Rightarrow> instant result" where
  "datetime_add t d = require (datetime_ok (t + d)) OverflowError (Inr (t + d))"

definition resolve_timeframe :: "string \<Rightarrow> timeframe result" where
  "resolve_timeframe code = catch_as InvalidTemporalTimeframe (get_timeframe code)"

definition validate_temporal_coverage :: "coverage \<Rightarrow> unit result" where
  "validate_temporal_coverage cv =
     require (\<not> cv_end cv \<le> cv_start cv) InvalidTemporalCoverage (
     res_bind (resolve_timeframe (cv_timeframe cv)) (\<lambda>tf.
     require (validate_open_time tf (cv_start cv) \<and> validate_open_time tf (cv_end cv)) MisalignedTemporalBoundary (
     require (\<not> (cv_count cv < 1 \<or> MAX_TEMPORAL_COVERAGE_CANDLES < cv_count cv)) InvalidTemporalCandleCount (
     require ((cv_end cv - cv_start cv) mod tf_duration tf = 0) MisalignedTemporalBoundary (
     require ((cv_end cv - cv_start cv) div tf_duration tf = cv_count cv) TemporalCandleCountMismatch (Inr ()))))))"

text \<open>The constructor \<^verbatim>\<open>TemporalCoverage\<close>.\<close>

definition make_coverage :: "data_range \<Rightarrow> string \<Rightarrow> int \<Rightarrow> coverage result" where
  "make_coverage r code n =
     (let cv = \<lparr>cv_range = r, cv_timeframe = code, cv_count = n\<rparr>
      in res_bind (validate_temporal_coverage cv) (\<lambda>_. Inr cv))"

text \<open>\<^verbatim>\<open>_coverage\<close> of the service.\<close>

definition coverage_of :: "data_range \<Rightarrow> string \<Rightarrow> coverage result" where
  "coverage_of r code =
     require (\<not> dr_end r \<le> dr_start r) InvalidTemporalCoverage (
     res_bind (catch_as InvalidTemporalTimeframe (get_timeframe code)) (\<lambda>tf.
     require (validate_open_time tf (dr_start r) \<and> validate_open_time tf (dr_end r)) MisalignedTemporalBoundary (
     let quotient = (dr_end r - dr_start r) div tf_duration tf;
         remainder = (dr_end r - dr_start r) mod tf_duration tf
     in require (remainder = 0) MisalignedTemporalBoundary (
        require (\<not> (quotient < 1 \<or> MAX_TEMPORAL_COVERAGE_CANDLES < quotient)) InvalidTemporalCoverage (
        make_coverage r (tf_code tf) quotient)))))"

section \<open>The snapshot reference\<close>

record snapshot_reference =
  sr_id :: string
  sr_checksum :: string
  sr_dataset_key :: string
  sr_dataset_version :: string
  sr_identity :: dataset_identity
  sr_gap_policy :: gap_policy
  sr_available :: coverage

fun dataset_kind_text :: "dataset_kind \<Rightarrow> string" where
  "dataset_kind_text RAW = ''raw''"
| "dataset_kind_text DERIVED = ''derived''"

text \<open>\<^verbatim>\<open>DatasetIdentity.key\<close>\<close>

definition identity_key :: "dataset_identity \<Rightarrow> string" where
  "identity_key i = dataset_kind_text (di_kind i) @ '':'' @ exchange_value (di_exchange i) @ '':''
     @ market_type_value (di_market_type i) @ '':'' @ di_symbol i @ '':'' @ di_timeframe i @ '':'' @ di_source i
     @ '':'' @ di_construction_policy i @ '':v'' @ show_int (di_schema_version i)"

definition nonempty_text :: "nat \<Rightarrow> string \<Rightarrow> bool" where
  "nonempty_text n s \<longleftrightarrow> s \<noteq> [] \<and> s = strip s \<and> length s \<le> n"

text \<open>\<^verbatim>\<open>_required_text\<close> of \<^verbatim>\<open>snapshots.py\<close>\<close>

definition required_text :: "string \<Rightarrow> string result" where
  "required_text s = require (s \<noteq> [] \<and> s = strip s) MarketDataInconsistency (Inr s)"

section \<open>Segments and plans\<close>

record segment_payload =
  sp_role :: temporal_role
  sp_index :: int
  sp_evaluation :: coverage
  sp_context_start :: instant
  sp_warmup :: int

record temporal_segment = segment_payload +
  sg_plan_id :: string
  sg_checksum :: string
  sg_id :: string

record 'e plan_payload =
  pl_schema_version :: int
  pl_snapshot :: snapshot_reference
  pl_selected :: coverage
  pl_train :: int
  pl_validation :: int
  pl_test :: int
  pl_warmup :: int
  pl_segments :: "'e list"

record digests =
  dg_snapshot_id :: "string \<Rightarrow> string \<Rightarrow> string \<Rightarrow> data_range \<Rightarrow> string"
  dg_segment :: "segment_payload \<Rightarrow> string"
  dg_segment_id :: "string \<Rightarrow> string \<Rightarrow> segment_payload \<Rightarrow> string"
  dg_plan_id :: "(segment_payload \<times> string) plan_payload \<Rightarrow> string"
  dg_plan :: "(segment_payload \<times> string \<times> string) plan_payload \<Rightarrow> string"

record temporal_plan =
  tp_snapshot :: snapshot_reference
  tp_selected :: coverage
  tp_train :: int
  tp_validation :: int
  tp_test :: int
  tp_warmup :: int
  tp_segments :: "temporal_segment list"
  tp_checksum :: string
  tp_plan_id :: string
  tp_schema_version :: int

text \<open>\<^verbatim>\<open>temporal_segment_payload\<close>, the two payloads of a plan.\<close>

definition segment_payload_of :: "temporal_segment \<Rightarrow> segment_payload" where
  "segment_payload_of g = \<lparr>sp_role = sp_role g, sp_index = sp_index g, sp_evaluation = sp_evaluation g,
     sp_context_start = sp_context_start g, sp_warmup = sp_warmup g\<rparr>"

definition plan_values_payload ::
    "int \<Rightarrow> snapshot_reference \<Rightarrow> coverage \<Rightarrow> int \<Rightarrow> int \<Rightarrow> int \<Rightarrow> int \<Rightarrow> 'e list \<Rightarrow> 'e plan_payload" where
  "plan_values_payload schema snapshot selected train validation test warmup segments =
     \<lparr>pl_schema_version = schema, pl_snapshot = snapshot, pl_selected = selected, pl_train = train,
      pl_validation = validation, pl_test = test, pl_warmup = warmup, pl_segments = segments\<rparr>"

definition plan_identity_payload :: "temporal_plan \<Rightarrow> (segment_payload \<times> string) plan_payload" where
  "plan_identity_payload p = plan_values_payload (tp_schema_version p) (tp_snapshot p) (tp_selected p) (tp_train p)
     (tp_validation p) (tp_test p) (tp_warmup p) (map (\<lambda>g. (segment_payload_of g, sg_checksum g)) (tp_segments p))"

definition segment_envelope :: "temporal_segment \<Rightarrow> segment_payload \<times> string \<times> string" where
  "segment_envelope g = (segment_payload_of g, sg_checksum g, sg_id g)"

definition plan_payload_of :: "temporal_plan \<Rightarrow> (segment_payload \<times> string \<times> string) plan_payload" where
  "plan_payload_of p = plan_values_payload (tp_schema_version p) (tp_snapshot p) (tp_selected p) (tp_train p)
     (tp_validation p) (tp_test p) (tp_warmup p) (map segment_envelope (tp_segments p))"

definition validate_snapshot_identity ::
    "digests \<Rightarrow> string \<Rightarrow> string \<Rightarrow> string \<Rightarrow> string \<Rightarrow> data_range \<Rightarrow> unit result" where
  "validate_snapshot_identity D sid key version checksum r =
     res_bind (required_text sid) (\<lambda>_. res_bind (required_text key) (\<lambda>_.
     res_bind (required_text version) (\<lambda>_. res_bind (required_text checksum) (\<lambda>_.
     require (\<not> dr_end r \<le> dr_start r) MarketDataInconsistency (
     require (sid = dg_snapshot_id D key version checksum r) MarketDataInconsistency (Inr ()))))))"

definition validate_snapshot_reference :: "digests \<Rightarrow> snapshot_reference \<Rightarrow> unit result" where
  "validate_snapshot_reference D s =
     require (nonempty_text 128 (sr_id s)) IncompatibleTemporalSnapshot (
     require (is_sha256 (sr_checksum s)) TemporalChecksum (
     require (nonempty_text 512 (sr_dataset_key s)) IncompatibleTemporalSnapshot (
     require (nonempty_text 256 (sr_dataset_version s)) IncompatibleTemporalSnapshot (
     require (di_kind (sr_identity s) = DERIVED) IncompatibleTemporalSnapshot (
     require (nonempty_text 65 (di_symbol (sr_identity s))) IncompatibleTemporalSnapshot (
     res_bind (catch_as IncompatibleTemporalSnapshot (parse_trading_pair (di_symbol (sr_identity s)))) (\<lambda>pair.
     require (pair_symbol pair = di_symbol (sr_identity s)) IncompatibleTemporalSnapshot (
     res_bind (resolve_timeframe (di_timeframe (sr_identity s))) (\<lambda>_.
     require (nonempty_text 128 (di_source (sr_identity s))) IncompatibleTemporalSnapshot (
     require (nonempty_text 256 (di_construction_policy (sr_identity s))) IncompatibleTemporalSnapshot (
     require (\<not> di_schema_version (sr_identity s) < 1) IncompatibleTemporalSnapshot (
     require (identity_key (sr_identity s) = sr_dataset_key s) IncompatibleTemporalSnapshot (
     require (sr_gap_policy s = STRICT) IncompatibleTemporalSnapshot (
     res_bind (validate_temporal_coverage (sr_available s)) (\<lambda>_.
     require (di_timeframe (sr_identity s) = cv_timeframe (sr_available s)) IncompatibleTemporalSnapshot (
     catch_as IncompatibleTemporalSnapshot (validate_snapshot_identity D (sr_id s) (sr_dataset_key s)
       (sr_dataset_version s) (sr_checksum s) (cv_range (sr_available s)))))))))))))))))))"

definition validate_positive_count :: "int \<Rightarrow> unit result" where
  "validate_positive_count n = require (\<not> (n < 1 \<or> MAX_SEGMENT_CANDLES < n)) InvalidTemporalCandleCount (Inr ())"

definition validate_warmup :: "int \<Rightarrow> unit result" where
  "validate_warmup n = require (\<not> (n < 0 \<or> MAX_WARMUP_CANDLES < n)) InvalidTemporalWarmup (Inr ())"

definition validate_temporal_segment :: "digests \<Rightarrow> temporal_segment \<Rightarrow> unit result" where
  "validate_temporal_segment D g =
     require (\<not> (sp_index g < 0 \<or> 2 < sp_index g)) TemporalSegmentOrder (
     require (CANONICAL_TEMPORAL_ROLES ! nat (sp_index g) = sp_role g) TemporalSegmentOrder (
     res_bind (validate_temporal_coverage (sp_evaluation g)) (\<lambda>_.
     res_bind (validate_positive_count (cv_count (sp_evaluation g))) (\<lambda>_.
     res_bind (validate_warmup (sp_warmup g)) (\<lambda>_.
     res_bind (resolve_timeframe (cv_timeframe (sp_evaluation g))) (\<lambda>tf.
     require (validate_open_time tf (sp_context_start g)) MisalignedTemporalBoundary (
     res_bind (catch_as InvalidTemporalWarmup
         (datetime_add (cv_start (sp_evaluation g)) (- (tf_duration tf * sp_warmup g)))) (\<lambda>expected.
     require (sp_context_start g = expected) InvalidTemporalWarmup (
     require (\<not> cv_start (sp_evaluation g) < sp_context_start g) InvalidTemporalWarmup (
     require (is_sha256 (sg_plan_id g)) TemporalIdentifier (
     require (sg_checksum g = dg_segment D (segment_payload_of g)) TemporalChecksum (
     require (sg_id g = dg_segment_id D (sg_plan_id g) (sg_checksum g) (segment_payload_of g)) TemporalIdentifier
       (Inr ())))))))))))))"

text \<open>The loop over the three segments: the state is the start expected next.\<close>

definition check_plan_segment ::
    "digests \<Rightarrow> temporal_plan \<Rightarrow> int \<times> temporal_segment \<times> temporal_role \<times> int \<Rightarrow> instant \<Rightarrow> instant result" where
  "check_plan_segment D p item expected_start = (case item of (index, g, role, n) \<Rightarrow>
     res_bind (validate_temporal_segment D g) (\<lambda>_.
     require (\<not> (sp_role g \<noteq> role \<or> sp_index g \<noteq> index)) TemporalSegmentOrder (
     require (sg_plan_id g = tp_plan_id p) TemporalIdentifier (
     require (cv_timeframe (sp_evaluation g) = cv_timeframe (tp_selected p)) InvalidTemporalTimeframe (
     require (cv_count (sp_evaluation g) = n) TemporalCandleCountMismatch (
     require (sp_warmup g = tp_warmup p) InvalidTemporalWarmup (
     require (\<not> cv_start (sp_evaluation g) < expected_start) TemporalSegmentOverlap (
     require (\<not> expected_start < cv_start (sp_evaluation g)) TemporalSegmentGap (
     require (\<not> sp_context_start g < cv_start (sr_available (tp_snapshot p))) TemporalWarmupUnavailable (
     Inr (cv_end (sp_evaluation g))))))))))))"

definition plan_counts :: "temporal_plan \<Rightarrow> int list" where
  "plan_counts p = [tp_train p, tp_validation p, tp_test p]"

definition plan_items :: "temporal_plan \<Rightarrow> (int \<times> temporal_segment \<times> temporal_role \<times> int) list" where
  "plan_items p = zip [0, 1, 2] (zip (tp_segments p) (zip CANONICAL_TEMPORAL_ROLES (plan_counts p)))"

definition validate_temporal_plan :: "digests \<Rightarrow> temporal_plan \<Rightarrow> unit result" where
  "validate_temporal_plan D p =
     require (tp_schema_version p = 1) UnsupportedTemporalSchema (
     res_bind (validate_snapshot_reference D (tp_snapshot p)) (\<lambda>_.
     res_bind (validate_temporal_coverage (tp_selected p)) (\<lambda>_.
     require (cv_timeframe (tp_selected p) = di_timeframe (sr_identity (tp_snapshot p))) InvalidTemporalTimeframe (
     require (\<not> (cv_start (tp_selected p) < cv_start (sr_available (tp_snapshot p))
         \<or> cv_end (sr_available (tp_snapshot p)) < cv_end (tp_selected p))) InsufficientTemporalCoverage (
     res_bind (res_fold (\<lambda>n _. validate_positive_count n) (plan_counts p) ()) (\<lambda>_.
     res_bind (validate_warmup (tp_warmup p)) (\<lambda>_.
     require (sum_list (plan_counts p) = cv_count (tp_selected p)) TemporalCandleCountMismatch (
     require (length (tp_segments p) = 3) TemporalSegmentOrder (
     res_bind (res_fold (check_plan_segment D p) (plan_items p) (cv_start (tp_selected p))) (\<lambda>final.
     require (final = cv_end (tp_selected p))
       (if final < cv_end (tp_selected p) then TemporalSegmentGap else TemporalSegmentOverlap) (
     require (is_sha256 (tp_plan_id p)) TemporalIdentifier (
     require (tp_plan_id p = dg_plan_id D (plan_identity_payload p)) TemporalIdentifier (
     require (tp_checksum p = dg_plan D (plan_payload_of p)) TemporalChecksum (Inr ()))))))))))))))"

text \<open>The constructor \<^verbatim>\<open>TemporalSegmentationPlan\<close>.\<close>

definition make_plan :: "digests \<Rightarrow> temporal_plan \<Rightarrow> temporal_plan result" where
  "make_plan D p = res_bind (validate_temporal_plan D p) (\<lambda>_. Inr p)"

section \<open>The service\<close>

text \<open>The segments from the cursor on: role, index, evaluation and context start of each.\<close>

definition segment_step ::
    "string \<Rightarrow> timeframe \<Rightarrow> int \<Rightarrow> int \<times> temporal_role \<times> int \<Rightarrow> segment_payload list \<times> instant
     \<Rightarrow> (segment_payload list \<times> instant) result" where
  "segment_step code tf warmup item s = (case item of (index, role, n) \<Rightarrow> case s of (built, cursor) \<Rightarrow>
     res_bind (catch_as InvalidTemporalCoverage (datetime_add cursor (tf_duration tf * n))) (\<lambda>finish.
     res_bind (catch_as InvalidTemporalCoverage (datetime_add cursor (- (tf_duration tf * warmup)))) (\<lambda>context_start.
     res_bind (data_range_of cursor finish) (\<lambda>r.
     res_bind (make_coverage r code n) (\<lambda>evaluation.
     Inr (built @ [\<lparr>sp_role = role, sp_index = index, sp_evaluation = evaluation,
       sp_context_start = context_start, sp_warmup = warmup\<rparr>], finish))))))"

definition make_segment :: "digests \<Rightarrow> string \<Rightarrow> segment_payload \<Rightarrow> temporal_segment result" where
  "make_segment D plan_id sp =
     (let checksum = dg_segment D sp;
          g = segment_payload.extend sp \<lparr>sg_plan_id = plan_id, sg_checksum = checksum,
                sg_id = dg_segment_id D plan_id checksum sp\<rparr>
      in res_bind (validate_temporal_segment D g) (\<lambda>_. Inr g))"

text \<open>\<^verbatim>\<open>reference\<close> is what \<^verbatim>\<open>_snapshot_reference(snapshot, manifest)\<close> answered.\<close>

definition create_segmentation ::
    "digests \<Rightarrow> snapshot_reference result \<Rightarrow> data_range \<Rightarrow> int \<Rightarrow> int \<Rightarrow> int \<Rightarrow> int \<Rightarrow> temporal_plan result" where
  "create_segmentation D reference selected_range train validation test warmup =
     res_bind reference (\<lambda>snapshot.
     res_bind (coverage_of selected_range (di_timeframe (sr_identity snapshot))) (\<lambda>selected.
     res_bind (res_fold (\<lambda>n _. validate_positive_count n) [train, validation, test] ()) (\<lambda>_.
     res_bind (validate_warmup warmup) (\<lambda>_.
     require (\<not> (cv_start selected < cv_start (sr_available snapshot)
         \<or> cv_end (sr_available snapshot) < cv_end selected)) InsufficientTemporalCoverage (
     require (sum_list [train, validation, test] = cv_count selected) TemporalCandleCountMismatch (
     res_bind (get_timeframe (di_timeframe (sr_identity snapshot))) (\<lambda>tf.
     res_bind (catch_as InvalidTemporalWarmup (datetime_add (cv_start selected) (- (tf_duration tf * warmup)))) (\<lambda>first_context.
     require (\<not> first_context < cv_start (sr_available snapshot)) TemporalWarmupUnavailable (
     res_bind (res_fold (segment_step (di_timeframe (sr_identity snapshot)) tf warmup)
         (zip [0, 1, 2] (zip CANONICAL_TEMPORAL_ROLES [train, validation, test])) ([], cv_start selected))
       (\<lambda>(payloads, cursor).
     require (cursor = cv_end selected) TemporalCandleCountMismatch (
     let plan_id = dg_plan_id D (plan_values_payload 1 snapshot selected train validation test warmup
           (map (\<lambda>sp. (sp, dg_segment D sp)) payloads))
     in res_bind (res_fold (\<lambda>sp gs. res_bind (make_segment D plan_id sp) (\<lambda>g. Inr (gs @ [g]))) payloads []) (\<lambda>segments.
        make_plan D \<lparr>tp_snapshot = snapshot, tp_selected = selected, tp_train = train, tp_validation = validation,
          tp_test = test, tp_warmup = warmup, tp_segments = segments,
          tp_checksum = dg_plan D (plan_values_payload 1 snapshot selected train validation test warmup
            (map segment_envelope segments)),
          tp_plan_id = plan_id, tp_schema_version = 1\<rparr>))))))))))))"

definition validate_for_snapshot :: "digests \<Rightarrow> temporal_plan \<Rightarrow> snapshot_reference result \<Rightarrow> temporal_plan result" where
  "validate_for_snapshot D p reference =
     res_bind (validate_temporal_plan D p) (\<lambda>_.
     res_bind reference (\<lambda>current.
     require (current = tp_snapshot p) IncompatibleTemporalSnapshot (Inr p)))"

end
