(* ===== verification/Temporal_Plans.thy ===== *)
theory Temporal_Plans
  imports Segmentation
begin

text \<open>
  What a temporal plan guarantees and when one exists: a validated plan cuts its coverage into three
  adjacent evaluations whose context stays inside the snapshot, and the service builds a plan exactly
  when the requested counts fit the requested range and the snapshot.
\<close>

section \<open>Coverages\<close>

lemma registry_ok:
  assumes "get_timeframe code = Inr tf"
  shows "timeframe_ok tf" and "tf_code tf = code" and "0 < tf_duration tf"
proof -
  have "list_all (\<lambda>(c, t). timeframe_ok t \<and> tf_code t = c) TIMEFRAMES" by code_simp
  moreover have "(code, tf) \<in> set TIMEFRAMES"
    using assms by (auto simp: get_timeframe_def split: option.splits dest: map_of_SomeD)
  ultimately show "timeframe_ok tf" "tf_code tf = code" by (auto simp: list_all_iff)
  then show "0 < tf_duration tf" by (simp add: timeframe_ok_def)
qed

lemma resolve_timeframe_Inr [simp]: "resolve_timeframe code = Inr tf \<longleftrightarrow> get_timeframe code = Inr tf"
  by (simp add: resolve_timeframe_def)

text \<open>\<open>n\<close> candles of a timeframe from an aligned instant on.\<close>

definition covers :: "coverage \<Rightarrow> timeframe \<Rightarrow> bool" where
  "covers cv tf \<longleftrightarrow> get_timeframe (cv_timeframe cv) = Inr tf \<and> validate_open_time tf (cv_start cv) \<and>
     1 \<le> cv_count cv \<and> cv_count cv \<le> MAX_TEMPORAL_COVERAGE_CANDLES \<and>
     cv_end cv = cv_start cv + cv_count cv * tf_duration tf"

lemma exact_count:
  fixes d :: int
  assumes "0 < d"
  shows "(b - a) mod d = 0 \<and> (b - a) div d = n \<longleftrightarrow> b = a + n * d"
proof
  assume h: "(b - a) mod d = 0 \<and> (b - a) div d = n"
  then have "b - a = n * d" using div_mult_mod_eq [of "b - a" d] by simp
  then show "b = a + n * d" by simp
qed (use assms in simp)

lemma validate_coverage_iff: "validate_temporal_coverage cv = Inr u \<longleftrightarrow> (\<exists>tf. covers cv tf)"
proof -
  have step: "\<not> cv_end cv \<le> cv_start cv \<and> validate_open_time tf (cv_start cv) \<and> validate_open_time tf (cv_end cv) \<and>
      \<not> (cv_count cv < 1 \<or> MAX_TEMPORAL_COVERAGE_CANDLES < cv_count cv) \<and>
      (cv_end cv - cv_start cv) mod tf_duration tf = 0 \<and> (cv_end cv - cv_start cv) div tf_duration tf = cv_count cv
      \<longleftrightarrow> covers cv tf"
    if tf: "get_timeframe (cv_timeframe cv) = Inr tf" for tf
  proof -
    have "cv_start cv < cv_start cv + cv_count cv * tf_duration tf" if "1 \<le> cv_count cv"
      using that registry_ok(3) [OF tf] by simp
    then show ?thesis
      using exact_count [OF registry_ok(3) [OF tf], of "cv_end cv" "cv_start cv" "cv_count cv"]
        aligned_add [of tf "cv_start cv" "cv_count cv"] tf
      by (auto simp: covers_def not_less)
  qed
  show ?thesis
  proof
    assume "validate_temporal_coverage cv = Inr u"
    then obtain tf where tf: "get_timeframe (cv_timeframe cv) = Inr tf" and f: "\<not> cv_end cv \<le> cv_start cv"
      "validate_open_time tf (cv_start cv)" "validate_open_time tf (cv_end cv)"
      "\<not> (cv_count cv < 1 \<or> MAX_TEMPORAL_COVERAGE_CANDLES < cv_count cv)" "(cv_end cv - cv_start cv) mod tf_duration tf = 0"
      "(cv_end cv - cv_start cv) div tf_duration tf = cv_count cv"
      by (auto simp: validate_temporal_coverage_def simp del: not_le not_less)
    have "covers cv tf" by (subst step [OF tf, symmetric]) (intro conjI f)
    then show "\<exists>tf. covers cv tf" by blast
  next
    assume "\<exists>tf. covers cv tf"
    then obtain tf where c: "covers cv tf" by blast
    then have tf: "get_timeframe (cv_timeframe cv) = Inr tf" by (simp add: covers_def)
    show "validate_temporal_coverage cv = Inr u"
      using step [OF tf] c tf by (simp add: validate_temporal_coverage_def del: not_le not_less)
  qed
qed

lemma covers_unique: "covers cv tf \<Longrightarrow> covers cv tf' \<Longrightarrow> tf = tf'"
  by (simp add: covers_def)

lemma coversD:
  assumes "covers cv tf"
  shows "0 < tf_duration tf" and "cv_start cv < cv_end cv" and "validate_open_time tf (cv_end cv)"
proof -
  show d: "0 < tf_duration tf" using assms registry_ok(3) [of "cv_timeframe cv" tf] by (simp add: covers_def)
  then show "cv_start cv < cv_end cv" using assms by (simp add: covers_def)
  show "validate_open_time tf (cv_end cv)" using assms aligned_add by (simp add: covers_def)
qed

lemma make_coverage_Inr:
  "make_coverage r code n = Inr cv \<longleftrightarrow> cv = \<lparr>cv_range = r, cv_timeframe = code, cv_count = n\<rparr> \<and> (\<exists>tf. covers cv tf)"
  by (auto simp: make_coverage_def Let_def validate_coverage_iff)

lemma coverage_of_Inr:
  "coverage_of r code = Inr cv \<longleftrightarrow> cv_range cv = r \<and> cv_timeframe cv = code \<and> (\<exists>tf. covers cv tf)"
proof
  assume "coverage_of r code = Inr cv"
  then obtain tf n where "get_timeframe code = Inr tf" "make_coverage r (tf_code tf) n = Inr cv"
    by (auto simp: coverage_of_def Let_def)
  then show "cv_range cv = r \<and> cv_timeframe cv = code \<and> (\<exists>tf. covers cv tf)"
    using registry_ok(2) by (auto simp: make_coverage_Inr)
next
  assume h: "cv_range cv = r \<and> cv_timeframe cv = code \<and> (\<exists>tf. covers cv tf)"
  then obtain tf where c: "covers cv tf" by blast
  have tf: "get_timeframe code = Inr tf" "tf_code tf = code" using c h registry_ok(2) by (auto simp: covers_def)
  have r: "dr_start r = cv_start cv" "dr_end r = cv_end cv" using h by (simp_all add: cv_start_def cv_end_def)
  have n: "(cv_end cv - cv_start cv) mod tf_duration tf = 0" "(cv_end cv - cv_start cv) div tf_duration tf = cv_count cv"
    using exact_count [OF coversD(1) [OF c], of "cv_end cv" "cv_start cv" "cv_count cv"] c by (auto simp: covers_def)
  have "make_coverage r code (cv_count cv) = Inr cv" using h by (auto simp: make_coverage_Inr)
  then show "coverage_of r code = Inr cv"
    using c coversD [OF c] tf n unfolding coverage_of_def r by (simp add: covers_def Let_def not_less not_le)
qed

section \<open>Validated plans\<close>

lemma validate_segment_iff:
  "validate_temporal_segment D g = Inr u \<longleftrightarrow>
     0 \<le> sp_index g \<and> sp_index g \<le> 2 \<and> CANONICAL_TEMPORAL_ROLES ! nat (sp_index g) = sp_role g \<and>
     cv_count (sp_evaluation g) \<le> MAX_SEGMENT_CANDLES \<and> 0 \<le> sp_warmup g \<and> sp_warmup g \<le> MAX_WARMUP_CANDLES \<and>
     (\<exists>tf. covers (sp_evaluation g) tf \<and> sp_context_start g = cv_start (sp_evaluation g) - sp_warmup g * tf_duration tf) \<and>
     datetime_ok (sp_context_start g) \<and> is_sha256 (sg_plan_id g) \<and> sg_checksum g = dg_segment D (segment_payload_of g) \<and>
     sg_id g = dg_segment_id D (sg_plan_id g) (sg_checksum g) (segment_payload_of g)"
  (is "?l \<longleftrightarrow> ?r")
proof -
  have neg: "cv_start (sp_evaluation g) + - (tf_duration tf * sp_warmup g) = cv_start (sp_evaluation g) - sp_warmup g * tf_duration tf" for tf
    by (simp add: mult.commute)
  show ?thesis
  proof
    assume ?l
    then obtain tf tf' where f: "covers (sp_evaluation g) tf'" "get_timeframe (cv_timeframe (sp_evaluation g)) = Inr tf"
      and rest: "\<not> (sp_index g < 0 \<or> 2 < sp_index g)" "CANONICAL_TEMPORAL_ROLES ! nat (sp_index g) = sp_role g"
      "cv_count (sp_evaluation g) \<le> MAX_SEGMENT_CANDLES" "0 \<le> sp_warmup g" "sp_warmup g \<le> MAX_WARMUP_CANDLES"
      "datetime_ok (cv_start (sp_evaluation g) - sp_warmup g * tf_duration tf)"
      "sp_context_start g = cv_start (sp_evaluation g) - sp_warmup g * tf_duration tf"
      "is_sha256 (sg_plan_id g)" "sg_checksum g = dg_segment D (segment_payload_of g)"
      "sg_id g = dg_segment_id D (sg_plan_id g) (sg_checksum g) (segment_payload_of g)"
      unfolding validate_temporal_segment_def datetime_add_def neg
      by (auto simp: validate_coverage_iff validate_positive_count_def validate_warmup_def not_less)
    have "tf' = tf" using f by (simp add: covers_def)
    with f rest show ?r by (auto simp: not_less)
  next
    assume r: ?r
    then obtain tf where c: "covers (sp_evaluation g) tf" "sp_context_start g = cv_start (sp_evaluation g) - sp_warmup g * tf_duration tf"
      by blast
    have tf: "get_timeframe (cv_timeframe (sp_evaluation g)) = Inr tf" using c(1) by (simp add: covers_def)
    have al: "validate_open_time tf (sp_context_start g)"
      using aligned_add [of tf "cv_start (sp_evaluation g)" "- sp_warmup g"] c by (simp add: covers_def)
    have le: "\<not> cv_start (sp_evaluation g) < sp_context_start g"
      using r mult_nonneg_nonneg [of "sp_warmup g" "tf_duration tf"] coversD(1) [OF c(1)] by (simp add: c(2) not_less)
    have v: "validate_temporal_coverage (sp_evaluation g) = Inr ()" using c(1) by (auto simp: validate_coverage_iff)
    have n: "1 \<le> cv_count (sp_evaluation g)" using c(1) by (simp add: covers_def)
    show ?l
      unfolding validate_temporal_segment_def datetime_add_def neg
      using r al le tf n v c(2) by (simp add: validate_positive_count_def validate_warmup_def not_less resolve_timeframe_def)
  qed
qed

definition seg_start :: "temporal_segment \<Rightarrow> instant" where
  "seg_start g = cv_start (sp_evaluation g)"

definition seg_end :: "temporal_segment \<Rightarrow> instant" where
  "seg_end g = cv_end (sp_evaluation g)"

text \<open>A segment of \<open>n\<close> candles in its plan, with its context inside the snapshot.\<close>

definition segment_fits :: "temporal_plan \<Rightarrow> timeframe \<Rightarrow> int \<Rightarrow> temporal_segment \<Rightarrow> bool" where
  "segment_fits p tf n g \<longleftrightarrow> 1 \<le> n \<and> cv_count (sp_evaluation g) = n \<and> seg_end g = seg_start g + n * tf_duration tf \<and>
     validate_open_time tf (seg_start g) \<and> sp_context_start g = seg_start g - tp_warmup p * tf_duration tf \<and>
     cv_start (sr_available (tp_snapshot p)) \<le> sp_context_start g \<and> sp_context_start g \<le> seg_start g \<and>
     sg_plan_id g = tp_plan_id p"

lemma check_segment_InrD:
  assumes "check_plan_segment D p (i, g, role, n) start = Inr finish" and sel: "covers (tp_selected p) tf"
  shows "sp_role g = role \<and> sp_index g = i \<and> seg_start g = start \<and> finish = seg_end g \<and> segment_fits p tf n g"
proof -
  have h: "validate_temporal_segment D g = Inr ()" "sp_role g = role" "sp_index g = i" "sg_plan_id g = tp_plan_id p"
    "cv_timeframe (sp_evaluation g) = cv_timeframe (tp_selected p)" "cv_count (sp_evaluation g) = n"
    "sp_warmup g = tp_warmup p" "cv_start (sp_evaluation g) = start"
    "cv_start (sr_available (tp_snapshot p)) \<le> sp_context_start g" "finish = cv_end (sp_evaluation g)"
    using assms(1) by (auto simp: check_plan_segment_def)
  obtain tf' where c: "covers (sp_evaluation g) tf'" "sp_context_start g = cv_start (sp_evaluation g) - sp_warmup g * tf_duration tf'"
    and w: "0 \<le> sp_warmup g"
    using h(1) by (auto simp: validate_segment_iff)
  have "tf' = tf" using c(1) sel h(5) by (simp add: covers_def)
  moreover have "0 \<le> sp_warmup g * tf_duration tf" using w coversD(1) [OF sel] by simp
  ultimately show ?thesis
    using h c by (simp add: segment_fits_def seg_start_def seg_end_def covers_def)
qed

lemma validated_plan:
  assumes "validate_temporal_plan D p = Inr u"
  obtains a b c tf where "tp_segments p = [a, b, c]" and "covers (tp_selected p) tf"
    and "sp_role a = TRAIN" and "sp_role b = VALIDATION" and "sp_role c = TEST"
    and "seg_start a = cv_start (tp_selected p)" and "seg_start b = seg_end a" and "seg_start c = seg_end b"
    and "seg_end c = cv_end (tp_selected p)"
    and "segment_fits p tf (tp_train p) a" and "segment_fits p tf (tp_validation p) b" and "segment_fits p tf (tp_test p) c"
    and "cv_end (tp_selected p) \<le> cv_end (sr_available (tp_snapshot p))"
proof -
  have h: "validate_temporal_coverage (tp_selected p) = Inr ()" "length (tp_segments p) = 3"
    "\<not> cv_end (sr_available (tp_snapshot p)) < cv_end (tp_selected p)"
    "res_fold (check_plan_segment D p) (plan_items p) (cv_start (tp_selected p)) = Inr (cv_end (tp_selected p))"
    using assms by (auto simp: validate_temporal_plan_def)
  obtain a b c where abc: "tp_segments p = [a, b, c]" using h(2) by (auto simp: numeral_3_eq_3 length_Suc_conv)
  obtain tf where tf: "covers (tp_selected p) tf" using h(1) by (auto simp: validate_coverage_iff)
  obtain m1 m2 where l: "check_plan_segment D p (0, a, TRAIN, tp_train p) (cv_start (tp_selected p)) = Inr m1"
    "check_plan_segment D p (1, b, VALIDATION, tp_validation p) m1 = Inr m2"
    "check_plan_segment D p (2, c, TEST, tp_test p) m2 = Inr (cv_end (tp_selected p))"
    using h(4) by (auto simp: plan_items_def abc CANONICAL_TEMPORAL_ROLES_def plan_counts_def)
  show thesis
    using that [OF abc tf] l [THEN check_segment_InrD [OF _ tf]] h(3) by (simp add: not_less)
qed

section \<open>When a plan exists\<close>

text \<open>The requested counts fill the requested range, and the range with its warmup lies in the snapshot.\<close>

definition request_fits :: "snapshot_reference \<Rightarrow> data_range \<Rightarrow> int \<Rightarrow> int \<Rightarrow> int \<Rightarrow> int \<Rightarrow> timeframe \<Rightarrow> bool" where
  "request_fits s r train validation test warmup tf \<longleftrightarrow>
     get_timeframe (di_timeframe (sr_identity s)) = Inr tf \<and> validate_open_time tf (dr_start r) \<and>
     dr_end r = dr_start r + (train + validation + test) * tf_duration tf \<and>
     1 \<le> train \<and> train \<le> MAX_SEGMENT_CANDLES \<and> 1 \<le> validation \<and> validation \<le> MAX_SEGMENT_CANDLES \<and>
     1 \<le> test \<and> test \<le> MAX_SEGMENT_CANDLES \<and> 0 \<le> warmup \<and> warmup \<le> MAX_WARMUP_CANDLES \<and>
     cv_start (sr_available s) \<le> dr_start r - warmup * tf_duration tf \<and> dr_end r \<le> cv_end (sr_available s)"

text \<open>A reference as its constructor leaves it, over datetimes, with digests that are SHA-256 texts.\<close>

definition reference_ok :: "digests \<Rightarrow> snapshot_reference \<Rightarrow> bool" where
  "reference_ok D s \<longleftrightarrow> validate_snapshot_reference D s = Inr () \<and> datetime_ok (cv_start (sr_available s)) \<and>
     datetime_ok (cv_end (sr_available s))"

definition payload_at :: "string \<Rightarrow> timeframe \<Rightarrow> int \<Rightarrow> int \<Rightarrow> temporal_role \<Rightarrow> instant \<Rightarrow> int \<Rightarrow> segment_payload" where
  "payload_at code tf warmup i role start n =
     \<lparr>sp_role = role, sp_index = i,
      sp_evaluation = \<lparr>cv_range = \<lparr>dr_start = start, dr_end = start + n * tf_duration tf\<rparr>, cv_timeframe = code, cv_count = n\<rparr>,
      sp_context_start = start - warmup * tf_duration tf, sp_warmup = warmup\<rparr>"

lemma datetime_between: "datetime_ok a \<Longrightarrow> datetime_ok b \<Longrightarrow> a \<le> t \<Longrightarrow> t \<le> b \<Longrightarrow> datetime_ok t"
  by (simp add: datetime_ok_def)

lemma coverage_at:
  assumes "get_timeframe code = Inr tf" and "validate_open_time tf start" and "1 \<le> n" and "n \<le> MAX_TEMPORAL_COVERAGE_CANDLES"
  shows "covers \<lparr>cv_range = \<lparr>dr_start = start, dr_end = start + n * tf_duration tf\<rparr>, cv_timeframe = code, cv_count = n\<rparr> tf"
  using assms by (simp add: covers_def cv_start_def cv_end_def)

lemma segment_limit: "n \<le> MAX_SEGMENT_CANDLES \<Longrightarrow> n \<le> MAX_TEMPORAL_COVERAGE_CANDLES"
  by (simp add: MAX_TEMPORAL_COVERAGE_CANDLES_def MAX_SEGMENT_CANDLES_def)

lemma segment_step_eq:
  assumes tf: "get_timeframe code = Inr tf" and "validate_open_time tf start" and n: "1 \<le> n" "n \<le> MAX_SEGMENT_CANDLES"
    and dt: "datetime_ok (start + n * tf_duration tf)" "datetime_ok (start - warmup * tf_duration tf)"
  shows "segment_step code tf warmup (i, role, n) (ps, start)
    = Inr (ps @ [payload_at code tf warmup i role start n], start + n * tf_duration tf)"
proof -
  have d: "start < start + n * tf_duration tf" using registry_ok(3) [OF tf] n(1) by simp
  have a: "datetime_add start (tf_duration tf * n) = Inr (start + n * tf_duration tf)"
    "datetime_add start (- (tf_duration tf * warmup)) = Inr (start - warmup * tf_duration tf)"
    using dt by (simp_all add: datetime_add_def mult.commute)
  have r: "data_range_of start (start + n * tf_duration tf) = Inr \<lparr>dr_start = start, dr_end = start + n * tf_duration tf\<rparr>"
    using d by (simp add: data_range_of_eq)
  have c: "make_coverage \<lparr>dr_start = start, dr_end = start + n * tf_duration tf\<rparr> code n
      = Inr \<lparr>cv_range = \<lparr>dr_start = start, dr_end = start + n * tf_duration tf\<rparr>, cv_timeframe = code, cv_count = n\<rparr>"
    using coverage_at [OF tf assms(2) n(1) segment_limit [OF n(2)]] by (auto simp: make_coverage_Inr)
  show ?thesis by (simp add: segment_step_def a r c payload_at_def)
qed

lemma extend_payload [simp]:
  "sp_role (segment_payload.extend sp x) = sp_role sp" "sp_index (segment_payload.extend sp x) = sp_index sp"
  "sp_evaluation (segment_payload.extend sp x) = sp_evaluation sp" "sp_context_start (segment_payload.extend sp x) = sp_context_start sp"
  "sp_warmup (segment_payload.extend sp x) = sp_warmup sp"
  by (simp_all add: segment_payload.extend_def)

lemma payload_of_extend [simp]: "segment_payload_of (segment_payload.extend sp x) = sp"
  by (simp add: segment_payload_of_def)

definition segment_at :: "digests \<Rightarrow> string \<Rightarrow> segment_payload \<Rightarrow> temporal_segment" where
  "segment_at D plan_id sp = segment_payload.extend sp \<lparr>sg_plan_id = plan_id, sg_checksum = dg_segment D sp,
     sg_id = dg_segment_id D plan_id (dg_segment D sp) sp\<rparr>"

lemma segment_at_simps [simp]:
  "sg_plan_id (segment_at D pid sp) = pid" "sg_checksum (segment_at D pid sp) = dg_segment D sp"
  "sg_id (segment_at D pid sp) = dg_segment_id D pid (dg_segment D sp) sp"
  "sp_role (segment_at D pid sp) = sp_role sp" "sp_index (segment_at D pid sp) = sp_index sp"
  "sp_evaluation (segment_at D pid sp) = sp_evaluation sp" "sp_context_start (segment_at D pid sp) = sp_context_start sp"
  "sp_warmup (segment_at D pid sp) = sp_warmup sp" "segment_payload_of (segment_at D pid sp) = sp"
  by (simp_all add: segment_at_def segment_payload.extend_def segment_payload_of_def)

lemma segment_at_valid:
  assumes tf: "get_timeframe code = Inr tf" and "validate_open_time tf start" and n: "1 \<le> n" "n \<le> MAX_SEGMENT_CANDLES"
    and "datetime_ok (start - warmup * tf_duration tf)" and "0 \<le> warmup" and "warmup \<le> MAX_WARMUP_CANDLES"
    and "i \<in> {0, 1, 2}" and "role = CANONICAL_TEMPORAL_ROLES ! nat i" and "is_sha256 pid"
  shows "validate_temporal_segment D (segment_at D pid (payload_at code tf warmup i role start n)) = Inr ()"
  unfolding validate_segment_iff
  using assms coverage_at [OF tf assms(2) n(1) segment_limit [OF n(2)]]
  by (auto simp: payload_at_def cv_start_def)

lemma make_segment_eq:
  "validate_temporal_segment D (segment_at D pid sp) = Inr () \<Longrightarrow> make_segment D pid sp = Inr (segment_at D pid sp)"
  by (simp add: make_segment_def segment_at_def Let_def)

text \<open>The plan the service builds for a request that fits.\<close>

definition request_payloads :: "string \<Rightarrow> timeframe \<Rightarrow> int \<Rightarrow> instant \<Rightarrow> int \<Rightarrow> int \<Rightarrow> int \<Rightarrow> segment_payload list" where
  "request_payloads code tf warmup t train validation test =
     [payload_at code tf warmup 0 TRAIN t train,
      payload_at code tf warmup 1 VALIDATION (t + train * tf_duration tf) validation,
      payload_at code tf warmup 2 TEST (t + train * tf_duration tf + validation * tf_duration tf) test]"

lemma positive_counts: "res_fold (\<lambda>n _. validate_positive_count n) ns () = Inr () \<longleftrightarrow> (\<forall>n\<in>set ns. 1 \<le> n \<and> n \<le> MAX_SEGMENT_CANDLES)"
  by (induction ns) (auto simp: validate_positive_count_def)

lemma request_times:
  assumes fit: "request_fits s r train validation test w tf" and ok: "reference_ok D s"
    and t: "t \<in> {dr_start r, dr_start r + train * tf_duration tf, dr_start r + train * tf_duration tf + validation * tf_duration tf}"
  shows "datetime_ok (t - w * tf_duration tf)" and "validate_open_time tf t"
    and "cv_start (sr_available s) \<le> t - w * tf_duration tf"
    and "datetime_ok (dr_start r + train * tf_duration tf)" and "datetime_ok (dr_start r + train * tf_duration tf + validation * tf_duration tf)"
    and "datetime_ok (dr_end r)"
proof -
  let ?d = "tf_duration tf"
  note f = fit [unfolded request_fits_def]
  have d: "0 < ?d" using registry_ok(3) f by blast
  have pos: "0 \<le> train * ?d" "0 \<le> validation * ?d" "0 \<le> test * ?d" "0 \<le> w * ?d" using d f by simp_all
  have e: "dr_end r = dr_start r + train * ?d + validation * ?d + test * ?d" using f by (simp add: algebra_simps)
  have t': "dr_start r \<le> t" "t \<le> dr_end r" using t pos e by auto
  show a: "cv_start (sr_available s) \<le> t - w * ?d" using t' f by linarith
  note between = datetime_between [of "cv_start (sr_available s)" "cv_end (sr_available s)"]
  have dt: "datetime_ok (cv_start (sr_available s))" "datetime_ok (cv_end (sr_available s))" using ok by (simp_all add: reference_ok_def)
  show "datetime_ok (t - w * ?d)" using between [OF dt a] t' pos f by linarith
  have lo: "cv_start (sr_available s) \<le> dr_start r" "dr_end r \<le> cv_end (sr_available s)" using f pos by linarith+
  show "datetime_ok (dr_start r + train * ?d)" "datetime_ok (dr_start r + train * ?d + validation * ?d)" "datetime_ok (dr_end r)"
    using lo pos e by (auto intro!: between [OF dt])
  have al: "validate_open_time tf (dr_start r)" using f by blast
  show "validate_open_time tf t" using t aligned_add [OF al] aligned_add [OF aligned_add [OF al]] al by auto
qed

lemma create_fits:
  assumes ok: "reference_ok D s" and sha: "\<And>x. is_sha256 (dg_plan_id D x)" and fit: "request_fits s r train validation test w tf"
  shows "\<exists>p. create_segmentation D (Inr s) r train validation test w = Inr p"
proof -
  let ?d = "tf_duration tf" and ?code = "di_timeframe (sr_identity s)"
  let ?t1 = "dr_start r + train * ?d" and ?t2 = "dr_start r + train * ?d + validation * ?d"
  let ?ps = "request_payloads ?code tf w (dr_start r) train validation test"
  note f = fit [unfolded request_fits_def]
  note t0 = request_times(1-3) [OF fit ok, of "dr_start r", simplified] and t1 = request_times(1-3) [OF fit ok, of ?t1, simplified]
    and t2 = request_times(1-3) [OF fit ok, of ?t2, simplified] and ends_ok = request_times(4-6) [OF fit ok, of "dr_start r", simplified]
  have tf: "get_timeframe ?code = Inr tf" using f by blast
  have e: "?t2 + test * ?d = dr_end r" using f by (simp add: algebra_simps)
  define selected where "selected = \<lparr>cv_range = r, cv_timeframe = ?code, cv_count = train + validation + test\<rparr>"
  have cov: "covers selected tf"
    using f by (simp add: selected_def covers_def cv_start_def cv_end_def MAX_TEMPORAL_COVERAGE_CANDLES_def)
  have sel: "coverage_of r ?code = Inr selected" using cov by (auto simp: coverage_of_Inr selected_def)
  have ends: "cv_start selected = dr_start r" "cv_end selected = dr_end r" by (simp_all add: selected_def cv_start_def cv_end_def)
  have pos: "0 \<le> w * ?d" using f registry_ok(3) [OF tf] by simp
  have inside: "\<not> (cv_start selected < cv_start (sr_available s) \<or> cv_end (sr_available s) < cv_end selected)"
    using f pos by (simp add: ends)
  have first: "datetime_add (cv_start selected) (- (?d * w)) = Inr (dr_start r - w * ?d)"
    using t0(1) by (simp add: datetime_add_def ends mult.commute)
  have s0: "segment_step ?code tf w (0, TRAIN, train) (ps, dr_start r) = Inr (ps @ [payload_at ?code tf w 0 TRAIN (dr_start r) train], ?t1)" for ps
    by (rule segment_step_eq [OF tf]) (use f t0 ends_ok in simp_all)
  have s1: "segment_step ?code tf w (1, VALIDATION, validation) (ps, ?t1) = Inr (ps @ [payload_at ?code tf w 1 VALIDATION ?t1 validation], ?t2)" for ps
    by (rule segment_step_eq [OF tf]) (use f t1 ends_ok in simp_all)
  have s2: "segment_step ?code tf w (2, TEST, test) (ps, ?t2) = Inr (ps @ [payload_at ?code tf w 2 TEST ?t2 test], dr_end r)" for ps
    unfolding e [symmetric] by (rule segment_step_eq [OF tf]) (use f t2 ends_ok e in \<open>simp_all only:\<close>)
  have steps: "res_fold (segment_step ?code tf w) (zip [0, 1, 2] (zip CANONICAL_TEMPORAL_ROLES [train, validation, test]))
      ([], cv_start selected) = Inr (?ps, dr_end r)"
    by (simp only: CANONICAL_TEMPORAL_ROLES_def zip_Cons_Cons zip_Nil res_fold.simps ends s0 s1 s2 res_bind_simps request_payloads_def append.simps)
  define pid where "pid = dg_plan_id D (plan_values_payload 1 s selected train validation test w (map (\<lambda>sp. (sp, dg_segment D sp)) ?ps))"
  have seg: "validate_temporal_segment D (segment_at D pid sp) = Inr ()" if "sp \<in> set ?ps" for sp
    using that t0 t1 t2 f sha
    by (auto simp: request_payloads_def CANONICAL_TEMPORAL_ROLES_def pid_def numeral_2_eq_2 intro!: segment_at_valid [OF tf])
  have segs: "res_fold (\<lambda>sp gs. res_bind (make_segment D pid sp) (\<lambda>g. Inr (gs @ [g]))) sps gs = Inr (gs @ map (segment_at D pid) sps)"
    if "set sps \<subseteq> set ?ps" for sps gs
    using that by (induction sps arbitrary: gs) (simp_all add: make_segment_eq [OF seg])
  define plan where "plan = \<lparr>tp_snapshot = s, tp_selected = selected, tp_train = train, tp_validation = validation,
    tp_test = test, tp_warmup = w, tp_segments = map (segment_at D pid) ?ps,
    tp_checksum = dg_plan D (plan_values_payload 1 s selected train validation test w (map segment_envelope (map (segment_at D pid) ?ps))),
    tp_plan_id = pid, tp_schema_version = 1\<rparr>"
  have fields: "tp_snapshot plan = s" "tp_selected plan = selected" "tp_train plan = train" "tp_validation plan = validation"
    "tp_test plan = test" "tp_warmup plan = w" "tp_segments plan = map (segment_at D pid) ?ps" "tp_plan_id plan = pid"
    "tp_schema_version plan = 1"
    by (simp_all add: plan_def)
  have sf: "cv_timeframe selected = ?code" "cv_count selected = train + validation + test" by (simp_all add: selected_def)
  have items: "plan_items plan = [(0, segment_at D pid (payload_at ?code tf w 0 TRAIN (dr_start r) train), TRAIN, train),
      (1, segment_at D pid (payload_at ?code tf w 1 VALIDATION ?t1 validation), VALIDATION, validation),
      (2, segment_at D pid (payload_at ?code tf w 2 TEST ?t2 test), TEST, test)]"
    by (simp add: plan_items_def fields CANONICAL_TEMPORAL_ROLES_def plan_counts_def request_payloads_def)
  have check: "check_plan_segment D plan (i, segment_at D pid (payload_at ?code tf w i role t n), role, n) t = Inr (t + n * ?d)"
    if "payload_at ?code tf w i role t n \<in> set ?ps" "cv_start (sr_available s) \<le> t - w * ?d" for i role t n
    using seg [OF that(1)] that(2) by (simp add: check_plan_segment_def fields sf payload_at_def cv_start_def cv_end_def)
  have valid: "validate_temporal_plan D plan = Inr ()"
  proof -
    have pid: "tp_plan_id plan = dg_plan_id D (plan_identity_payload plan)"
      unfolding plan_identity_payload_def fields by (simp add: pid_def comp_def)
    have sum_ok: "tp_checksum plan = dg_plan D (plan_payload_of plan)"
      unfolding plan_payload_of_def fields by (simp add: plan_def)
    have fold: "res_fold (check_plan_segment D plan) (plan_items plan) (cv_start selected) = Inr (cv_end selected)"
      unfolding items ends by (simp add: check request_payloads_def t0(3) t1(3) t2(3) del: e) (simp add: e [symmetric])
    have cv: "validate_temporal_coverage selected = Inr ()" using cov by (auto simp: validate_coverage_iff)
    have counts: "res_fold (\<lambda>n _. validate_positive_count n) (plan_counts plan) () = Inr ()"
      using f by (simp add: positive_counts plan_counts_def fields del: res_fold.simps)
    have sum: "sum_list (plan_counts plan) = cv_count selected" by (simp add: plan_counts_def fields sf)
    have wv: "validate_warmup w = Inr ()" using f by (simp add: validate_warmup_def)
    have pv: "is_sha256 pid" using sha by (simp add: pid_def)
    show ?thesis
      using ok inside unfolding validate_temporal_plan_def
      by (simp only: fields res_bind_simps require_True cv fold counts sum wv pv sf reference_ok_def length_map)
        (simp add: request_payloads_def sum_ok pid [symmetric, unfolded fields])
  qed
  have "create_segmentation D (Inr s) r train validation test w = Inr plan"
    using sel inside first steps tf f segs [of ?ps "[]"] positive_counts [of "[train, validation, test]"] valid
    unfolding create_segmentation_def make_plan_def
    by (simp only: res_bind_simps catch_as_Inr case_prod_conv Let_def pid_def [symmetric] append_Nil plan_def [symmetric] order_refl)
      (simp add: validate_warmup_def sf ends del: res_fold.simps)
  then show ?thesis by blast
qed

lemma create_requires:
  assumes "create_segmentation D reference r train validation test w = Inr p"
  obtains s tf where "reference = Inr s" and "request_fits s r train validation test w tf" and "tp_snapshot p = s"
    and "validate_temporal_plan D p = Inr ()" and "cv_range (tp_selected p) = r" and "tp_warmup p = w"
    and "plan_counts p = [train, validation, test]"
proof -
  obtain s where s: "reference = Inr s" using assms by (auto simp: create_segmentation_def)
  note c = assms [unfolded create_segmentation_def s res_bind_simps]
  obtain selected where sel: "coverage_of r (di_timeframe (sr_identity s)) = Inr selected"
    using c by (auto simp del: res_fold.simps)
  note c1 = c [unfolded sel res_bind_simps]
  obtain tf where tf: "get_timeframe (di_timeframe (sr_identity s)) = Inr tf" and n: "\<forall>n\<in>set [train, validation, test]. 1 \<le> n \<and> n \<le> MAX_SEGMENT_CANDLES"
    and wv: "validate_warmup w = Inr ()" and i: "\<not> (cv_start selected < cv_start (sr_available s) \<or> cv_end (sr_available s) < cv_end selected)"
    and sum: "sum_list [train, validation, test] = cv_count selected"
    using c1 by (auto simp: positive_counts simp del: res_fold.simps)
  have rest: "\<exists>first_context. datetime_add (cv_start selected) (- (tf_duration tf * w)) = Inr first_context \<and> \<not> first_context < cv_start (sr_available s)"
    using c1 tf by (auto simp: positive_counts simp del: res_fold.simps)
  have cv: "cv_range selected = r" "cv_timeframe selected = di_timeframe (sr_identity s)" "\<exists>t. covers selected t"
    using sel by (simp_all add: coverage_of_Inr)
  have cov: "covers selected tf" using cv tf by (auto simp: covers_def)
  have ends: "cv_start selected = dr_start r" "cv_end selected = dr_end r" using cv(1) by (simp_all add: cv_start_def cv_end_def)
  have fit: "request_fits s r train validation test w tf"
    using tf n wv i sum rest cov
    by (auto simp: request_fits_def ends covers_def validate_warmup_def datetime_add_def not_less mult.commute)
  obtain gs ck pid where "make_plan D \<lparr>tp_snapshot = s, tp_selected = selected, tp_train = train, tp_validation = validation,
      tp_test = test, tp_warmup = w, tp_segments = gs, tp_checksum = ck, tp_plan_id = pid, tp_schema_version = 1\<rparr> = Inr p"
    using c1 by (auto simp: Let_def simp del: res_fold.simps)
  then have p: "validate_temporal_plan D p = Inr ()" "tp_snapshot p = s" "tp_selected p = selected" "tp_warmup p = w"
    "plan_counts p = [train, validation, test]"
    by (auto simp: make_plan_def plan_counts_def)
  show thesis by (rule that [OF s fit]) (use p cv in simp_all)
qed

section \<open>Properties\<close>

text \<open>C9: a temporal plan that passes its validation cuts the selected coverage into a TRAIN, a VALIDATION and a TEST
segment of exactly the declared numbers of candles, adjacent and in that order: the evaluation ranges start where the
coverage starts, end where it ends, and every instant of the coverage lies in exactly one of them.  The retrospective
warmup of every segment is the declared number of candles before it and stays inside the snapshot.\<close>
theorem plan_tiles_coverage:
  assumes "validate_temporal_plan D p = Inr ()"
  shows "\<exists>a b c tf. tp_segments p = [a, b, c] \<and> get_timeframe (cv_timeframe (tp_selected p)) = Inr tf \<and>
      map sp_role [a, b, c] = [TRAIN, VALIDATION, TEST] \<and>
      map seg_end [a, b, c] = [seg_start b, seg_start c, cv_end (tp_selected p)] \<and> seg_start a = cv_start (tp_selected p) \<and>
      map (\<lambda>g. seg_end g - seg_start g) [a, b, c] = map (\<lambda>n. n * tf_duration tf) (plan_counts p) \<and>
      (\<forall>t. cv_start (tp_selected p) \<le> t \<and> t < cv_end (tp_selected p)
         \<longleftrightarrow> length (filter (\<lambda>g. seg_start g \<le> t \<and> t < seg_end g) [a, b, c]) = 1) \<and>
      list_all (\<lambda>g. sp_context_start g = seg_start g - tp_warmup p * tf_duration tf \<and> sp_context_start g \<le> seg_start g \<and>
        cv_start (sr_available (tp_snapshot p)) \<le> sp_context_start g \<and> seg_end g \<le> cv_end (sr_available (tp_snapshot p))) [a, b, c]"
proof (rule validated_plan [OF assms], intro exI conjI)
  fix a b c tf
  assume h: "tp_segments p = [a, b, c]" "covers (tp_selected p) tf" "sp_role a = TRAIN" "sp_role b = VALIDATION" "sp_role c = TEST"
    "seg_start a = cv_start (tp_selected p)" "seg_start b = seg_end a" "seg_start c = seg_end b" "seg_end c = cv_end (tp_selected p)"
    "segment_fits p tf (tp_train p) a" "segment_fits p tf (tp_validation p) b" "segment_fits p tf (tp_test p) c"
    "cv_end (tp_selected p) \<le> cv_end (sr_available (tp_snapshot p))"
  have d: "0 < tf_duration tf" using coversD(1) [OF h(2)] .
  have lt: "seg_start a < seg_end a" "seg_start b < seg_end b" "seg_start c < seg_end c"
    using h(10-12) d by (simp_all add: segment_fits_def)
  show "tp_segments p = [a, b, c]" "get_timeframe (cv_timeframe (tp_selected p)) = Inr tf"
    "map sp_role [a, b, c] = [TRAIN, VALIDATION, TEST]" "map seg_end [a, b, c] = [seg_start b, seg_start c, cv_end (tp_selected p)]"
    "seg_start a = cv_start (tp_selected p)"
    using h by (simp_all add: covers_def)
  show "map (\<lambda>g. seg_end g - seg_start g) [a, b, c] = map (\<lambda>n. n * tf_duration tf) (plan_counts p)"
    using h(10-12) by (simp add: segment_fits_def plan_counts_def)
  show "\<forall>t. cv_start (tp_selected p) \<le> t \<and> t < cv_end (tp_selected p)
      \<longleftrightarrow> length (filter (\<lambda>g. seg_start g \<le> t \<and> t < seg_end g) [a, b, c]) = 1"
    using h(6-9) lt by auto
  show "list_all (\<lambda>g. sp_context_start g = seg_start g - tp_warmup p * tf_duration tf \<and> sp_context_start g \<le> seg_start g \<and>
      cv_start (sr_available (tp_snapshot p)) \<le> sp_context_start g \<and> seg_end g \<le> cv_end (sr_available (tp_snapshot p))) [a, b, c]"
    using h lt by (simp add: segment_fits_def)
qed

text \<open>C19: for a valid snapshot reference and plan digests that are SHA-256 texts, creating a temporal segmentation
succeeds exactly when the three counts (each between 1 and the limit) fill the requested range in candles of the
snapshot's timeframe, the range is aligned, its end lies in the snapshot and its start is far enough from the start of
the snapshot for the requested warmup; every other request is refused.\<close>
theorem segmentation_succeeds_iff:
  assumes "reference_ok D s" and "\<And>x. is_sha256 (dg_plan_id D x)"
  shows "(\<exists>p. create_segmentation D (Inr s) r train validation test w = Inr p)
    \<longleftrightarrow> (\<exists>tf. request_fits s r train validation test w tf)"
  using create_fits [OF assms] create_requires by (metis Inr_inject)

text \<open>A plan the service created is accepted again for the reference it was created from, names that
snapshot, the requested range, counts and warmup, and is refused for every other snapshot.\<close>
theorem created_plan_bound_to_snapshot:
  assumes "create_segmentation D reference r train validation test w = Inr p"
  shows "validate_for_snapshot D p reference = Inr p \<and> reference = Inr (tp_snapshot p) \<and> cv_range (tp_selected p) = r \<and>
      plan_counts p = [train, validation, test] \<and> tp_warmup p = w \<and>
      (\<forall>s'. validate_for_snapshot D p (Inr s') = (if s' = tp_snapshot p then Inr p else Inl IncompatibleTemporalSnapshot))"
proof (rule create_requires [OF assms])
  fix s tf
  assume h: "reference = Inr s" "tp_snapshot p = s" "validate_temporal_plan D p = Inr ()" "cv_range (tp_selected p) = r"
    "tp_warmup p = w" "plan_counts p = [train, validation, test]"
  have v: "validate_for_snapshot D p (Inr s') = (if s' = tp_snapshot p then Inr p else Inl IncompatibleTemporalSnapshot)" for s'
    by (simp add: validate_for_snapshot_def h(3) require_def)
  show ?thesis using h v by simp
qed

text \<open>A quarter-hour snapshot of forty candles, cut into ten, five and five with two candles of warmup.\<close>

definition witness_digests :: digests where
  "witness_digests = \<lparr>dg_snapshot_id = (\<lambda>key version checksum r. ''snapshot''), dg_segment = (\<lambda>sp. ''segment''),
     dg_segment_id = (\<lambda>pid ck sp. ''segment''), dg_plan_id = (\<lambda>pl. replicate 64 CHR ''a''), dg_plan = (\<lambda>pl. ''plan'')\<rparr>"

definition witness_identity :: dataset_identity where
  "witness_identity = \<lparr>di_exchange = BINANCE, di_market_type = SPOT, di_symbol = ''BTC/USDT'',
     di_timeframe = ''15m'', di_kind = DERIVED, di_source = ''rest'', di_construction_policy = ''resample'', di_schema_version = 1\<rparr>"

definition witness_reference :: snapshot_reference where
  "witness_reference = \<lparr>sr_id = ''snapshot'', sr_checksum = replicate 64 CHR ''b'', sr_dataset_key = identity_key witness_identity,
     sr_dataset_version = ''v1'', sr_identity = witness_identity, sr_gap_policy = STRICT,
     sr_available = \<lparr>cv_range = \<lparr>dr_start = 0, dr_end = 36000000000\<rparr>, cv_timeframe = ''15m'', cv_count = 40\<rparr>\<rparr>"

lemma witness_reference_ok: "reference_ok witness_digests witness_reference"
  by code_simp

lemma witness_sha: "is_sha256 (dg_plan_id witness_digests x)"
proof -
  have "is_sha256 (replicate 64 CHR ''a'')" by code_simp
  then show ?thesis by (simp add: witness_digests_def)
qed

definition witness_range :: data_range where
  "witness_range = \<lparr>dr_start = 1800000000, dr_end = 19800000000\<rparr>"

definition witness_plan :: temporal_plan where
  "witness_plan = (case create_segmentation witness_digests (Inr witness_reference) witness_range 10 5 5 2 of Inr p \<Rightarrow> p)"

lemma witness_plan_created:
  "create_segmentation witness_digests (Inr witness_reference) witness_range 10 5 5 2 = Inr witness_plan"
proof -
  have "case create_segmentation witness_digests (Inr witness_reference) witness_range 10 5 5 2 of Inl _ \<Rightarrow> False | Inr _ \<Rightarrow> True"
    by code_simp
  then show ?thesis by (simp add: witness_plan_def split: sum.splits)
qed

lemma witness_plan_valid: "validate_temporal_plan witness_digests witness_plan = Inr ()"
  by (rule create_requires [OF witness_plan_created]) simp

theorem plan_tiles_coverage_witness:
  "validate_temporal_plan witness_digests witness_plan = Inr () \<and>
   map sp_role (tp_segments witness_plan) = [TRAIN, VALIDATION, TEST]"
proof -
  have "\<exists>a b c. tp_segments witness_plan = [a, b, c] \<and> map sp_role [a, b, c] = [TRAIN, VALIDATION, TEST]"
    using plan_tiles_coverage [OF witness_plan_valid] by (elim exE conjE) (intro exI conjI)
  then show ?thesis using witness_plan_valid by (elim exE conjE) simp
qed

theorem segmentation_succeeds_iff_witness:
  "(\<exists>tf. request_fits witness_reference witness_range 10 5 5 2 tf) \<and>
   \<not> (\<exists>p. create_segmentation witness_digests (Inr witness_reference) witness_range 10 5 6 2 = Inr p)"
proof -
  have "\<not> request_fits witness_reference witness_range 10 5 6 2 tf" for tf
  proof -
    have "get_timeframe (di_timeframe (sr_identity witness_reference)) = Inr (registry_timeframe ''15m'' (minutes 15) ''15m'' 0)"
      by code_simp
    then show ?thesis by (auto simp: request_fits_def witness_range_def registry_timeframe_def minutes_def)
  qed
  then show ?thesis
    using segmentation_succeeds_iff [OF witness_reference_ok witness_sha] witness_plan_created by blast
qed

theorem created_plan_bound_to_snapshot_witness:
  "validate_for_snapshot witness_digests witness_plan (Inr witness_reference) = Inr witness_plan \<and>
   plan_counts witness_plan = [10, 5, 5] \<and>
   validate_for_snapshot witness_digests witness_plan (Inr (witness_reference\<lparr>sr_dataset_version := ''v2''\<rparr>))
     = Inl IncompatibleTemporalSnapshot"
proof -
  have s: "witness_reference\<lparr>sr_dataset_version := ''v2''\<rparr> \<noteq> witness_reference"
    by (simp add: witness_reference_def)
  show ?thesis using created_plan_bound_to_snapshot [OF witness_plan_created] s by auto
qed

end
