(* ===== verification/Walk_Forward.thy ===== *)
theory Walk_Forward
  imports Temporal_Plans Search_Space
begin

text \<open>
  Rolling walk-forward plans of \<^verbatim>\<open>app/optimization/walk_forward_domain.py\<close> and \<^verbatim>\<open>walk_forward_planning.py\<close>: the
  window policy, the number of complete folds a snapshot holds, the folds with their temporal plans, and
  the validation of a plan.  Experiment plans are opaque beyond the fields a fold compares; what the
  experiment planner answers, the digests and the sizes of documents are parameters.
\<close>

section \<open>Policies\<close>

definition ABSOLUTE_MAX_FOLDS :: int where
  "ABSOLUTE_MAX_FOLDS = 1000"

definition ABSOLUTE_MAX_TOTAL_SPECS :: int where
  "ABSOLUTE_MAX_TOTAL_SPECS = 300000"

definition MAX_WALK_FORWARD_MANIFEST_BYTES :: int where
  "MAX_WALK_FORWARD_MANIFEST_BYTES = 16 * 1024 * 1024"

record window_policy =
  wp_train :: int
  wp_validation :: int
  wp_test :: int
  wp_warmup :: int
  wp_max_folds :: int
  wp_schema_version :: int

datatype comparison_metric = TOTAL_RETURN | CAGR | SHARPE_RATIO | SORTINO_RATIO | MAXIMUM_DRAWDOWN_PCT | NET_PROFIT | PROFIT_FACTOR

datatype selection_direction = MAXIMIZE | MINIMIZE

record selection_policy =
  sn_metric :: comparison_metric
  sn_direction :: selection_direction
  sn_schema_version :: int

definition exact_int :: "int \<Rightarrow> int \<Rightarrow> int \<Rightarrow> unit result" where
  "exact_int v minimum maximum =
     require (minimum \<le> v \<and> v \<le> maximum) (WalkForwardError InvalidWalkForwardWindowPolicy) (Inr ())"

definition validate_window_policy :: "window_policy \<Rightarrow> unit result" where
  "validate_window_policy p =
     res_bind (exact_int (wp_schema_version p) 1 1) (\<lambda>_.
     res_bind (res_fold (\<lambda>v _. exact_int v 1 10000000) [wp_train p, wp_validation p, wp_test p] ()) (\<lambda>_.
     res_bind (exact_int (wp_warmup p) 0 10000000) (\<lambda>_.
     exact_int (wp_max_folds p) 2 ABSOLUTE_MAX_FOLDS)))"

definition validate_selection_policy :: "selection_policy \<Rightarrow> unit result" where
  "validate_selection_policy p = exact_int (sn_schema_version p) 1 1"

section \<open>Folds and plans\<close>

record ('c, 'x) experiment_plan =
  ep_snapshot :: snapshot_reference
  ep_temporal :: temporal_plan
  ep_search_space :: search_space
  ep_plugin :: plugin_identity
  ep_configuration :: 'c
  ep_content :: 'x

record ('c, 'x) fold_plan =
  fd_index :: int
  fd_selected :: coverage
  fd_temporal :: temporal_plan
  fd_experiment :: "('c, 'x) experiment_plan"
  fd_checksum :: string
  fd_id :: string

record ('c, 'x) walk_forward_plan =
  wf_snapshot :: snapshot_reference
  wf_window :: window_policy
  wf_selection :: selection_policy
  wf_search_space :: search_space
  wf_plugin :: plugin_identity
  wf_configuration :: 'c
  wf_folds :: "('c, 'x) fold_plan list"
  wf_fold_count :: int
  wf_combination_count :: int
  wf_specs_per_fold :: int
  wf_total_specs :: int
  wf_trailing :: int
  wf_max_total_specs :: int
  wf_checksum :: string
  wf_id :: string
  wf_schema_version :: int

text \<open>The code the plans call but that is not modelled: validation of experiment plans and of the plugin
  and configuration they bind, digests of the fold and plan payloads, and the size of documents.\<close>

record ('c, 'x) walk_env =
  we_digests :: digests
  we_validate_experiment :: "('c, 'x) experiment_plan \<Rightarrow> unit result"
  we_validate_plugin :: "plugin_identity \<Rightarrow> unit result"
  we_validate_configuration :: "'c \<Rightarrow> unit result"
  we_fold_checksum :: "('c, 'x) fold_plan \<Rightarrow> string"
  we_fold_id :: "('c, 'x) fold_plan \<Rightarrow> string"
  we_plan_checksum :: "('c, 'x) walk_forward_plan \<Rightarrow> string"
  we_plan_id :: "('c, 'x) walk_forward_plan \<Rightarrow> string"
  we_search_bytes :: "search_space \<Rightarrow> int"
  we_plan_bytes :: "('c, 'x) walk_forward_plan \<Rightarrow> int"

text \<open>The payloads hold every field but the digests.\<close>

definition fold_plan_payload :: "('c, 'x) fold_plan \<Rightarrow> ('c, 'x) fold_plan" where
  "fold_plan_payload f = f\<lparr>fd_checksum := [], fd_id := []\<rparr>"

definition walk_forward_plan_payload :: "('c, 'x) walk_forward_plan \<Rightarrow> ('c, 'x) walk_forward_plan" where
  "walk_forward_plan_payload p = p\<lparr>wf_checksum := [], wf_id := []\<rparr>"

definition validate_fold_plan :: "('c, 'x) walk_env \<Rightarrow> ('c, 'x) fold_plan \<Rightarrow> unit result" where
  "validate_fold_plan W f =
     res_bind (exact_int (fd_index f) 0 (ABSOLUTE_MAX_FOLDS - 1)) (\<lambda>_.
     res_bind (validate_temporal_coverage (fd_selected f)) (\<lambda>_.
     res_bind (validate_temporal_plan (we_digests W) (fd_temporal f)) (\<lambda>_.
     require (tp_selected (fd_temporal f) = fd_selected f) (WalkForwardError IncompatibleWalkForwardFold) (
     res_bind (we_validate_experiment W (fd_experiment f)) (\<lambda>_.
     require (ep_temporal (fd_experiment f) = fd_temporal f) (WalkForwardError IncompatibleWalkForwardFold) (
     require (fd_checksum f = we_fold_checksum W (fold_plan_payload f)) (WalkForwardError WalkForwardChecksum) (
     require (fd_id f = we_fold_id W (fold_plan_payload f)) (WalkForwardError WalkForwardIdentifier) (Inr ()))))))))"

section \<open>The number of folds\<close>

definition window_candles :: "window_policy \<Rightarrow> int" where
  "window_candles p = wp_train p + wp_validation p + wp_test p"

definition complete_folds :: "window_policy \<Rightarrow> int \<Rightarrow> int" where
  "complete_folds p usable =
     (if usable < window_candles p then 0 else 1 + (usable - window_candles p) div wp_test p)"

definition slot_count :: "data_range \<Rightarrow> duration \<Rightarrow> int result" where
  "slot_count r d = require ((dr_end r - dr_start r) mod d = 0) (WalkForwardError IncompatibleWalkForwardPlan)
     (Inr ((dr_end r - dr_start r) div d))"

section \<open>Validation of a plan\<close>

text \<open>The third segment, TEST.\<close>

definition test_segment :: "('c, 'x) fold_plan \<Rightarrow> temporal_segment" where
  "test_segment f = tp_segments (fd_temporal f) ! 2"

text \<open>The body of the loop over the folds: the state is the index and the end of the previous TEST segment.\<close>

definition check_fold ::
    "('c, 'x) walk_env \<Rightarrow> ('c, 'x) walk_forward_plan \<Rightarrow> duration \<Rightarrow> instant \<Rightarrow> ('c, 'x) fold_plan
     \<Rightarrow> int \<times> instant \<Rightarrow> (int \<times> instant) result" where
  "check_fold W p d first_start f s = (case s of (index, previous_end) \<Rightarrow>
     let policy = wf_window p; bad = WalkForwardError IncompatibleWalkForwardFold
     in
     res_bind (validate_fold_plan W f) (\<lambda>_.
     require (fd_index f = index) bad (
     require (tp_snapshot (fd_temporal f) = wf_snapshot p) bad (
     require (ep_search_space (fd_experiment f) = wf_search_space p) bad (
     require (ep_plugin (fd_experiment f) = wf_plugin p) bad (
     require (ep_configuration (fd_experiment f) = wf_configuration p) bad (
     require (\<not> (tp_train (fd_temporal f) \<noteq> wp_train policy \<or> tp_validation (fd_temporal f) \<noteq> wp_validation policy
         \<or> tp_test (fd_temporal f) \<noteq> wp_test policy \<or> tp_warmup (fd_temporal f) \<noteq> wp_warmup policy)) bad (
     res_bind (datetime_add first_start (d * (index * wp_test policy))) (\<lambda>expected_start.
     res_bind (datetime_add expected_start (d * window_candles policy)) (\<lambda>expected_end.
     require (\<not> (cv_start (fd_selected f) \<noteq> expected_start \<or> cv_end (fd_selected f) \<noteq> expected_end
         \<or> cv_count (fd_selected f) \<noteq> window_candles policy)) bad (
     res_bind (datetime_add expected_start (d * (wp_train policy + wp_validation policy))) (\<lambda>expected_test_start.
     res_bind (datetime_add expected_test_start (d * wp_test policy)) (\<lambda>expected_test_end.
     require (\<not> (seg_start (test_segment f) \<noteq> expected_test_start \<or> seg_end (test_segment f) \<noteq> expected_test_end)) bad (
     require (\<not> (index \<noteq> 0 \<and> previous_end \<noteq> seg_start (test_segment f))) bad (
     Inr (index + 1, seg_end (test_segment f)))))))))))))))))"

definition validate_walk_forward_plan :: "('c, 'x) walk_env \<Rightarrow> ('c, 'x) walk_forward_plan \<Rightarrow> unit result" where
  "validate_walk_forward_plan W p =
     res_bind (exact_int (wf_schema_version p) 1 1) (\<lambda>_.
     res_bind (validate_snapshot_reference (we_digests W) (wf_snapshot p)) (\<lambda>_.
     res_bind (validate_window_policy (wf_window p)) (\<lambda>_.
     res_bind (validate_selection_policy (wf_selection p)) (\<lambda>_.
     res_bind (validate_search_space (wf_search_space p)) (\<lambda>_.
     res_bind (we_validate_plugin W (wf_plugin p)) (\<lambda>_.
     res_bind (we_validate_configuration W (wf_configuration p)) (\<lambda>_.
     require (\<not> length (wf_folds p) < 2) (WalkForwardError IncompatibleWalkForwardPlan) (
     require (\<not> wp_max_folds (wf_window p) < int (length (wf_folds p))) (WalkForwardError WalkForwardLimitExceeded) (
     res_bind (catch_as (WalkForwardError IncompatibleWalkForwardPlan)
         (get_timeframe (di_timeframe (sr_identity (wf_snapshot p))))) (\<lambda>tf.
     let d = tf_duration tf; available = sr_available (wf_snapshot p); policy = wf_window p;
         total_duration = cv_end available - cv_start available
     in require (total_duration mod d = 0) (WalkForwardError IncompatibleWalkForwardPlan) (
     let usable = total_duration div d - wp_warmup policy;
         expected_fold_count = complete_folds policy usable;
         expected_trailing = (if expected_fold_count \<noteq> 0
           then usable - (window_candles policy + (expected_fold_count - 1) * wp_test policy) else usable)
     in res_bind (datetime_add (cv_start available) (d * wp_warmup policy)) (\<lambda>first_start.
     res_bind (res_fold (check_fold W p d first_start) (wf_folds p) (0, 0)) (\<lambda>_.
     require (wf_fold_count p = expected_fold_count) (WalkForwardError IncompatibleWalkForwardPlan) (
     require (wf_combination_count p = ss_cardinality (wf_search_space p)) (WalkForwardError IncompatibleWalkForwardPlan) (
     require (wf_specs_per_fold p = wf_combination_count p * 3) (WalkForwardError IncompatibleWalkForwardPlan) (
     require (wf_total_specs p = int (length (wf_folds p)) * (wf_combination_count p * 3)) (WalkForwardError IncompatibleWalkForwardPlan) (
     res_bind (exact_int (wf_trailing p) 0 10000000) (\<lambda>_.
     require (wf_trailing p = expected_trailing) (WalkForwardError IncompatibleWalkForwardPlan) (
     res_bind (datetime_add (cv_end (fd_selected (last (wf_folds p)))) (d * wf_trailing p)) (\<lambda>consumed_end.
     require (consumed_end = cv_end available) (WalkForwardError IncompatibleWalkForwardPlan) (
     res_bind (exact_int (wf_max_total_specs p) 1 ABSOLUTE_MAX_TOTAL_SPECS) (\<lambda>_.
     require (\<not> wf_max_total_specs p < wf_total_specs p) (WalkForwardError WalkForwardLimitExceeded) (
     require (wf_checksum p = we_plan_checksum W (walk_forward_plan_payload p)) (WalkForwardError WalkForwardChecksum) (
     require (wf_id p = we_plan_id W (walk_forward_plan_payload p)) (WalkForwardError WalkForwardIdentifier)
       (Inr ())))))))))))))))))))))))))"

section \<open>Planning\<close>

text \<open>\<^verbatim>\<open>_preflight_count\<close> and the conservative document sizes.\<close>

definition preflight_count :: "int \<Rightarrow> unit result" where
  "preflight_count n = require (\<not> n < 1) (WalkForwardError WalkForwardLimitExceeded) (Inr ())"

definition maximum_plan_bytes :: "('c, 'x) walk_env \<Rightarrow> search_space \<Rightarrow> int \<Rightarrow> int \<Rightarrow> int result" where
  "maximum_plan_bytes W space fold_count total_specs =
     res_bind (validate_search_space space) (\<lambda>_. res_bind (preflight_count fold_count) (\<lambda>_.
     res_bind (preflight_count total_specs) (\<lambda>_.
     let search_bytes = we_search_bytes W space
     in Inr (65536 + search_bytes + fold_count * (65536 + search_bytes) + total_specs * (16384 + search_bytes)))))"

definition maximum_execution_bytes :: "('c, 'x) walk_env \<Rightarrow> search_space \<Rightarrow> int \<Rightarrow> int \<Rightarrow> int result" where
  "maximum_execution_bytes W space fold_count combination_count =
     res_bind (validate_search_space space) (\<lambda>_. res_bind (preflight_count fold_count) (\<lambda>_.
     res_bind (preflight_count combination_count) (\<lambda>_.
     let search_bytes = we_search_bytes W space; candidates = fold_count * combination_count
     in Inr (65536 + fold_count * 131072 + candidates * (4096 + 2 * search_bytes)))))"

definition within_manifest :: "int result \<Rightarrow> 'a result \<Rightarrow> 'a result" where
  "within_manifest bytes k = res_bind bytes (\<lambda>n.
     require (\<not> MAX_WALK_FORWARD_MANIFEST_BYTES < n) (WalkForwardError WalkForwardLimitExceeded) k)"

definition validate_total_limit :: "int \<Rightarrow> unit result" where
  "validate_total_limit n = require (1 \<le> n \<and> n \<le> ABSOLUTE_MAX_TOTAL_SPECS) (WalkForwardError WalkForwardLimitExceeded) (Inr ())"

text \<open>One fold: its temporal plan, its experiment plan (\<open>experiments\<close>) and its digests.\<close>

definition build_fold ::
    "('c, 'x) walk_env \<Rightarrow> snapshot_reference result \<Rightarrow> (temporal_plan \<Rightarrow> int \<Rightarrow> ('c, 'x) experiment_plan result)
     \<Rightarrow> window_policy \<Rightarrow> duration \<Rightarrow> instant \<Rightarrow> int \<Rightarrow> int \<Rightarrow> ('c, 'x) fold_plan result" where
  "build_fold W reference experiments policy d first_start specs i =
     res_bind (datetime_add first_start (d * (i * wp_test policy))) (\<lambda>selected_start.
     res_bind (datetime_add selected_start (d * window_candles policy)) (\<lambda>selected_end.
     res_bind (data_range_of selected_start selected_end) (\<lambda>selected.
     res_bind (create_segmentation (we_digests W) reference selected (wp_train policy) (wp_validation policy)
       (wp_test policy) (wp_warmup policy)) (\<lambda>temporal.
     res_bind (experiments temporal specs) (\<lambda>experiment.
     let payload = \<lparr>fd_index = i, fd_selected = tp_selected temporal, fd_temporal = temporal, fd_experiment = experiment,
           fd_checksum = [], fd_id = []\<rparr>;
         f = payload\<lparr>fd_checksum := we_fold_checksum W payload, fd_id := we_fold_id W payload\<rparr>
     in res_bind (validate_fold_plan W f) (\<lambda>_. Inr f))))))"

text \<open>\<open>contract\<close> is the answer of \<^verbatim>\<open>validate_snapshot_contract(snapshot, manifest)\<close>, \<open>reference\<close> that of
  \<^verbatim>\<open>_snapshot_reference(snapshot, manifest)\<close>; \<open>code\<close> and \<open>available\<close> are the timeframe of the manifest and the
  range of the snapshot.\<close>

definition create_walk_forward ::
    "('c, 'x) walk_env \<Rightarrow> unit result \<Rightarrow> snapshot_reference result \<Rightarrow> string \<Rightarrow> data_range
     \<Rightarrow> (temporal_plan \<Rightarrow> int \<Rightarrow> ('c, 'x) experiment_plan result) \<Rightarrow> search_space \<Rightarrow> 'c \<Rightarrow> window_policy \<Rightarrow> selection_policy
     \<Rightarrow> int \<Rightarrow> ('c, 'x) walk_forward_plan result" where
  "create_walk_forward W contract reference code available experiments space configuration policy selection max_total =
     res_bind (catch_as (WalkForwardError IncompatibleWalkForwardPlan) contract) (\<lambda>_.
     res_bind (validate_window_policy policy) (\<lambda>_.
     res_bind (validate_selection_policy selection) (\<lambda>_.
     res_bind (validate_search_space space) (\<lambda>combination_count.
     res_bind (validate_total_limit max_total) (\<lambda>_.
     res_bind (get_timeframe code) (\<lambda>tf.
     let d = tf_duration tf in
     res_bind (slot_count available d) (\<lambda>total.
     let usable = total - wp_warmup policy; fold_count = complete_folds policy usable;
         specs_per_fold = combination_count * 3; total_specs = fold_count * specs_per_fold in
     require (\<not> fold_count < 2) (WalkForwardError InsufficientWalkForwardFolds) (
     require (\<not> wp_max_folds policy < fold_count) (WalkForwardError WalkForwardLimitExceeded) (
     require (\<not> max_total < total_specs) (WalkForwardError WalkForwardLimitExceeded) (
     within_manifest (maximum_plan_bytes W space fold_count total_specs) (
     within_manifest (maximum_execution_bytes W space fold_count combination_count) (
     res_bind (datetime_add (dr_start available) (d * wp_warmup policy)) (\<lambda>first_start.
     res_bind (res_map (build_fold W reference experiments policy d first_start specs_per_fold)
       (map int [0 ..< nat fold_count])) (\<lambda>folds.
     let payload = \<lparr>wf_snapshot = ep_snapshot (fd_experiment (hd folds)), wf_window = policy, wf_selection = selection,
           wf_search_space = space, wf_plugin = ep_plugin (fd_experiment (hd folds)), wf_configuration = configuration,
           wf_folds = folds, wf_fold_count = fold_count, wf_combination_count = combination_count,
           wf_specs_per_fold = specs_per_fold, wf_total_specs = total_specs,
           wf_trailing = usable - (window_candles policy + (fold_count - 1) * wp_test policy),
           wf_max_total_specs = max_total, wf_checksum = [], wf_id = [], wf_schema_version = 1\<rparr>;
         p = payload\<lparr>wf_checksum := we_plan_checksum W payload, wf_id := we_plan_id W payload\<rparr>
     in require (\<not> MAX_WALK_FORWARD_MANIFEST_BYTES < we_plan_bytes W payload) (WalkForwardError WalkForwardLimitExceeded) (
        res_bind (validate_walk_forward_plan W p) (\<lambda>_. Inr p))))))))))))))))"

section \<open>Folds of a validated plan\<close>

definition test_start :: "window_policy \<Rightarrow> duration \<Rightarrow> instant \<Rightarrow> int \<Rightarrow> instant" where
  "test_start policy d first_start i = first_start + d * (i * wp_test policy + wp_train policy + wp_validation policy)"

definition fold_at ::
    "('c, 'x) walk_env \<Rightarrow> ('c, 'x) walk_forward_plan \<Rightarrow> duration \<Rightarrow> instant \<Rightarrow> int \<Rightarrow> ('c, 'x) fold_plan \<Rightarrow> bool" where
  "fold_at W p d first_start i f \<longleftrightarrow>
     validate_temporal_plan (we_digests W) (fd_temporal f) = Inr () \<and> tp_snapshot (fd_temporal f) = wf_snapshot p \<and>
     tp_selected (fd_temporal f) = fd_selected f \<and>
     cv_start (fd_selected f) = first_start + d * (i * wp_test (wf_window p)) \<and>
     cv_end (fd_selected f) = test_start (wf_window p) d first_start (i + 1) \<and>
     seg_start (test_segment f) = test_start (wf_window p) d first_start i \<and>
     seg_end (test_segment f) = test_start (wf_window p) d first_start (i + 1)"

lemma check_fold_InrD:
  assumes "check_fold W p d first_start f (i, e) = Inr r"
  shows "fold_at W p d first_start i f" and "r = (i + 1, seg_end (test_segment f))"
proof -
  note c = assms [unfolded check_fold_def prod.case Let_def res_bind_Inr_iff require_Inr_iff]
  show "fold_at W p d first_start i f"
    using c by (elim exE conjE)
      (auto simp: fold_at_def validate_fold_plan_def datetime_add_def test_start_def window_candles_def algebra_simps)
  show "r = (i + 1, seg_end (test_segment f))" using c by (elim exE conjE) simp
qed

lemma check_folds_InrD:
  assumes "res_fold (check_fold W p d first_start) fs (k, e) = Inr r" and "i < length fs"
  shows "fold_at W p d first_start (k + int i) (fs ! i)"
  using assms
proof (induction fs arbitrary: k e i)
  case (Cons f fs)
  obtain s where s: "check_fold W p d first_start f (k, e) = Inr s" "res_fold (check_fold W p d first_start) fs s = Inr r"
    using Cons.prems(1) by auto
  note f = check_fold_InrD [OF s(1)]
  show ?case
  proof (cases i)
    case 0
    then show ?thesis using f(1) by simp
  next
    case (Suc j)
    then have "fold_at W p d first_start (k + 1 + int j) (fs ! j)" using Cons.IH [of "k + 1" _ j] s(2) f(2) Cons.prems(2) by simp
    moreover have "k + 1 + int j = k + int i" using Suc by simp
    ultimately show ?thesis using Suc by simp
  qed
qed simp

text \<open>Adjacent ranges: every instant between the first start and the last end is in exactly one of them.\<close>

lemma adjacent_ranges_cover:
  fixes g :: "nat \<Rightarrow> int"
  assumes "\<And>i. i < n \<Longrightarrow> g i < g (Suc i)"
  shows "length (filter (\<lambda>i. g i \<le> t \<and> t < g (Suc i)) [0 ..< n]) = (if g 0 \<le> t \<and> t < g n then 1 else 0) \<and> g 0 \<le> g n"
  using assms
proof (induction n)
  case (Suc n)
  have l: "g n < g (Suc n)" using Suc.prems by simp
  have IH: "length (filter (\<lambda>i. g i \<le> t \<and> t < g (Suc i)) [0 ..< n]) = (if g 0 \<le> t \<and> t < g n then 1 else 0)" "g 0 \<le> g n"
    using Suc by simp_all
  then show ?case using l by (auto simp: upt_Suc_append)
qed simp

lemma complete_folds_max:
  assumes "1 \<le> wp_test policy" and "complete_folds policy usable \<noteq> 0"
  shows "0 \<le> usable - (window_candles policy + (complete_folds policy usable - 1) * wp_test policy)"
    and "usable - (window_candles policy + (complete_folds policy usable - 1) * wp_test policy) < wp_test policy"
proof -
  have "usable - (window_candles policy + (complete_folds policy usable - 1) * wp_test policy)
      = (usable - window_candles policy) mod wp_test policy"
    using assms(2) by (simp add: complete_folds_def minus_div_mult_eq_mod [symmetric] split: if_splits)
  moreover have "0 \<le> (usable - window_candles policy) mod wp_test policy" "(usable - window_candles policy) mod wp_test policy < wp_test policy"
    using assms(1) by simp_all
  ultimately show "0 \<le> usable - (window_candles policy + (complete_folds policy usable - 1) * wp_test policy)"
    "usable - (window_candles policy + (complete_folds policy usable - 1) * wp_test policy) < wp_test policy" by simp_all
qed

lemma window_policy_ok:
  assumes "validate_window_policy p = Inr u"
  shows "1 \<le> wp_train p" and "1 \<le> wp_validation p" and "1 \<le> wp_test p" and "0 \<le> wp_warmup p"
    and "wp_train p \<le> 10000000" and "wp_validation p \<le> 10000000" and "wp_test p \<le> 10000000" and "wp_warmup p \<le> 10000000"
    and "wp_max_folds p \<le> ABSOLUTE_MAX_FOLDS"
  using assms by (auto simp: validate_window_policy_def exact_int_def)

lemma validated_walk:
  assumes "validate_walk_forward_plan W p = Inr u"
  obtains tf first_start where "get_timeframe (di_timeframe (sr_identity (wf_snapshot p))) = Inr tf" and "0 < tf_duration tf"
    and "first_start = cv_start (sr_available (wf_snapshot p)) + tf_duration tf * wp_warmup (wf_window p)"
    and "\<And>i. i < length (wf_folds p) \<Longrightarrow> fold_at W p (tf_duration tf) first_start (int i) (wf_folds p ! i)"
    and "validate_window_policy (wf_window p) = Inr ()" and "2 \<le> length (wf_folds p)"
    and "int (length (wf_folds p)) \<le> wp_max_folds (wf_window p)" and "int (length (wf_folds p)) = wf_fold_count p"
    and "0 \<le> wf_trailing p" and "wf_trailing p < wp_test (wf_window p)"
    and "cv_end (fd_selected (last (wf_folds p))) + tf_duration tf * wf_trailing p = cv_end (sr_available (wf_snapshot p))"
proof -
  define av where "av = sr_available (wf_snapshot p)"
  define policy where "policy = wf_window p"
  define fs where "fs = wf_folds p"
  note c = assms [unfolded validate_walk_forward_plan_def Let_def res_bind_Inr_iff require_Inr_iff catch_as_Inr_iff,
      folded av_def policy_def fs_def]
  obtain tf first_start r u' x where tf: "get_timeframe (di_timeframe (sr_identity (wf_snapshot p))) = Inr tf"
    and w': "validate_window_policy policy = Inr u'" and len': "\<not> length fs < 2" "\<not> wp_max_folds policy < int (length fs)"
    and m: "(cv_end av - cv_start av) mod tf_duration tf = 0"
    and fst_start: "datetime_add (cv_start av) (tf_duration tf * wp_warmup policy) = Inr first_start"
    and folds: "res_fold (check_fold W p (tf_duration tf) first_start) fs (0, 0) = Inr r"
    and count: "wf_fold_count p = complete_folds policy ((cv_end av - cv_start av) div tf_duration tf - wp_warmup policy)"
    and trail: "wf_trailing p = (if complete_folds policy ((cv_end av - cv_start av) div tf_duration tf - wp_warmup policy) \<noteq> 0
        then (cv_end av - cv_start av) div tf_duration tf - wp_warmup policy - (window_candles policy
          + (complete_folds policy ((cv_end av - cv_start av) div tf_duration tf - wp_warmup policy) - 1) * wp_test policy)
        else (cv_end av - cv_start av) div tf_duration tf - wp_warmup policy)"
    and consumed': "datetime_add (cv_end (fd_selected (last fs))) (tf_duration tf * wf_trailing p) = Inr x" "x = cv_end av"
    using c by (elim exE conjE) (rule that, assumption+)
  have consumed: "datetime_add (cv_end (fd_selected (last fs))) (tf_duration tf * wf_trailing p) = Inr (cv_end av)"
    using consumed' by simp
  have w: "validate_window_policy policy = Inr ()" and len: "2 \<le> length fs" "int (length fs) \<le> wp_max_folds policy"
    using w' len' by simp_all
  define d where "d = tf_duration tf"
  define total where "total = (cv_end av - cv_start av) div d"
  have d: "0 < d" unfolding d_def by (rule registry_ok(3) [OF tf])
  have end_total: "cv_end av = cv_start av + d * total"
    using m div_mult_mod_eq [of "cv_end av - cv_start av" d] by (simp add: total_def d_def mult.commute)
  have first_eq: "first_start = cv_start av + d * wp_warmup policy" using fst_start by (simp add: datetime_add_def d_def)
  have at: "fold_at W p d first_start (int i) (fs ! i)" if "i < length fs" for i
    using check_folds_InrD [OF folds that] by (simp add: d_def)
  have cons: "cv_end (fd_selected (last fs)) + d * wf_trailing p = cv_end av" using consumed by (simp add: datetime_add_def d_def)
  note P = window_policy_ok [OF w]
  let ?n = "int (length fs)" and ?fc = "complete_folds policy (total - wp_warmup policy)"
  have last: "cv_end (fd_selected (last fs)) = first_start + d * (?n * wp_test policy + wp_train policy + wp_validation policy)"
  proof -
    have "last fs = fs ! (length fs - 1)" using len by (metis last_conv_nth list.size(3) not_numeral_le_zero)
    moreover have "int (length fs - 1) + 1 = ?n" using len by simp
    ultimately show ?thesis using at [of "length fs - 1"] len by (simp add: fold_at_def test_start_def policy_def)
  qed
  have "d * (wp_warmup policy + ?n * wp_test policy + wp_train policy + wp_validation policy + wf_trailing p) = d * total"
    using cons last first_eq end_total by (simp add: algebra_simps)
  then have sum: "wp_warmup policy + ?n * wp_test policy + wp_train policy + wp_validation policy + wf_trailing p = total"
    using d by simp
  have nonneg: "0 \<le> ?n * wp_test policy" using P by simp
  have fc: "?fc \<noteq> 0"
  proof
    assume z: "?fc = 0"
    then have "wf_trailing p = total - wp_warmup policy" using trail by (simp add: total_def d_def)
    then show False using sum nonneg P by linarith
  qed
  have tr: "wf_trailing p = total - wp_warmup policy - (window_candles policy + (?fc - 1) * wp_test policy)"
    using trail fc by (simp add: total_def d_def)
  have "?n * wp_test policy = ?fc * wp_test policy" using sum tr by (simp add: window_candles_def algebra_simps)
  then have n: "?n = ?fc" using P by simp
  show thesis
    by (rule that [of tf first_start])
      (use tf d first_eq at w len cons n count complete_folds_max [OF P(3) fc] tr in
        \<open>simp_all add: av_def policy_def fs_def d_def total_def\<close>)
qed

end
