(* ===== verification/Walk_Plans.thy ===== *)
theory Walk_Plans
  imports Walk_Forward
begin

text \<open>
  What a walk-forward plan guarantees, and when one exists: a validated plan uses every complete fold the
  snapshot holds, its TEST ranges follow each other without gap or overlap and lie after everything
  their folds are selected on, and the planner succeeds exactly within its limits.
\<close>

section \<open>Building the folds\<close>

text \<open>What the experiment planner and the validators outside the model are relied on for.\<close>

definition planner_ready ::
    "('c, 'x) walk_env \<Rightarrow> snapshot_reference \<Rightarrow> (temporal_plan \<Rightarrow> int \<Rightarrow> ('c, 'x) experiment_plan result) \<Rightarrow> search_space
     \<Rightarrow> plugin_identity \<Rightarrow> 'c \<Rightarrow> bool" where
  "planner_ready W s experiments space plugin configuration \<longleftrightarrow>
     (\<forall>x. is_sha256 (dg_plan_id (we_digests W) x)) \<and> we_validate_plugin W plugin = Inr () \<and>
     we_validate_configuration W configuration = Inr () \<and> (\<forall>p. we_plan_bytes W p \<le> MAX_WALK_FORWARD_MANIFEST_BYTES) \<and>
     (\<forall>tp n. \<exists>e. experiments tp n = Inr e \<and> ep_snapshot e = s \<and> ep_temporal e = tp \<and> ep_search_space e = space \<and>
        ep_plugin e = plugin \<and> ep_configuration e = configuration \<and> we_validate_experiment W e = Inr ())"

text \<open>The fold with index \<open>i\<close> as the validation of a plan expects it.\<close>

definition good_fold ::
    "('c, 'x) walk_env \<Rightarrow> snapshot_reference \<Rightarrow> search_space \<Rightarrow> plugin_identity \<Rightarrow> 'c \<Rightarrow> window_policy \<Rightarrow> duration \<Rightarrow> instant
     \<Rightarrow> int \<Rightarrow> ('c, 'x) fold_plan \<Rightarrow> bool" where
  "good_fold W s space plugin configuration policy d first_start i f \<longleftrightarrow>
     validate_fold_plan W f = Inr () \<and> fd_index f = i \<and> tp_snapshot (fd_temporal f) = s \<and> ep_snapshot (fd_experiment f) = s \<and>
     ep_search_space (fd_experiment f) = space \<and> ep_plugin (fd_experiment f) = plugin \<and>
     ep_configuration (fd_experiment f) = configuration \<and>
     plan_counts (fd_temporal f) = [wp_train policy, wp_validation policy, wp_test policy] \<and>
     tp_warmup (fd_temporal f) = wp_warmup policy \<and>
     cv_start (fd_selected f) = first_start + d * (i * wp_test policy) \<and>
     cv_end (fd_selected f) = test_start policy d first_start (i + 1) \<and> cv_count (fd_selected f) = window_candles policy \<and>
     seg_start (test_segment f) = test_start policy d first_start i \<and>
     seg_end (test_segment f) = test_start policy d first_start (i + 1) \<and>
     datetime_ok (first_start + d * (i * wp_test policy)) \<and> datetime_ok (test_start policy d first_start i) \<and>
     datetime_ok (test_start policy d first_start (i + 1))"

lemma check_good_fold:
  assumes g: "good_fold W (wf_snapshot p) (wf_search_space p) (wf_plugin p) (wf_configuration p) (wf_window p) d first_start i f"
    and e: "i \<noteq> 0 \<Longrightarrow> e = test_start (wf_window p) d first_start i"
  shows "check_fold W p d first_start f (i, e) = Inr (i + 1, test_start (wf_window p) d first_start (i + 1))"
proof -
  note G = g [unfolded good_fold_def]
  have t: "first_start + d * (i * wp_test (wf_window p)) + d * window_candles (wf_window p) = test_start (wf_window p) d first_start (i + 1)"
    "first_start + d * (i * wp_test (wf_window p)) + d * (wp_train (wf_window p) + wp_validation (wf_window p)) = test_start (wf_window p) d first_start i"
    "test_start (wf_window p) d first_start i + d * wp_test (wf_window p) = test_start (wf_window p) d first_start (i + 1)"
    by (simp_all add: test_start_def window_candles_def algebra_simps)
  have "i = 0 \<or> e = test_start (wf_window p) d first_start i" using e by blast
  then show ?thesis
    using G by (simp add: check_fold_def Let_def datetime_add_def t plan_counts_def)
qed

lemma check_good_folds:
  assumes "\<And>j. j < length fs \<Longrightarrow>
      good_fold W (wf_snapshot p) (wf_search_space p) (wf_plugin p) (wf_configuration p) (wf_window p) d first_start (i + int j) (fs ! j)"
    and "i \<noteq> 0 \<Longrightarrow> e = test_start (wf_window p) d first_start i" and "0 \<le> i"
  shows "\<exists>r. res_fold (check_fold W p d first_start) fs (i, e) = Inr r"
  using assms
proof (induction fs arbitrary: i e)
  case (Cons f fs)
  have c: "check_fold W p d first_start f (i, e) = Inr (i + 1, test_start (wf_window p) d first_start (i + 1))"
    by (rule check_good_fold) (use Cons.prems(1) [of 0] Cons.prems(2) in simp_all)
  have "\<exists>r. res_fold (check_fold W p d first_start) fs (i + 1, test_start (wf_window p) d first_start (i + 1)) = Inr r"
  proof (rule Cons.IH)
    show "good_fold W (wf_snapshot p) (wf_search_space p) (wf_plugin p) (wf_configuration p) (wf_window p) d first_start
        (i + 1 + int j) (fs ! j)" if "j < length fs" for j
      using Cons.prems(1) [of "Suc j"] that by (simp add: add.assoc)
  qed (use Cons.prems(3) in simp_all)
  then show ?case using c by simp
qed simp

lemma build_fold_good:
  assumes ok: "reference_ok (we_digests W) s" and ready: "planner_ready W s experiments space plugin configuration"
    and tf: "get_timeframe (di_timeframe (sr_identity s)) = Inr tf" and policy: "validate_window_policy policy = Inr ()"
    and i: "0 \<le> i" "i < ABSOLUTE_MAX_FOLDS"
    and fits: "wp_warmup policy + i * wp_test policy + window_candles policy \<le> cv_count (sr_available s)"
    and first: "first_start = cv_start (sr_available s) + tf_duration tf * wp_warmup policy"
  shows "\<exists>f. build_fold W (Inr s) experiments policy (tf_duration tf) first_start specs i = Inr f \<and>
    good_fold W s space plugin configuration policy (tf_duration tf) first_start i f"
proof -
  define d where "d = tf_duration tf"
  note P = window_policy_ok [OF policy]
  have d: "0 < d" using registry_ok(3) [OF tf] by (simp add: d_def)
  obtain tf' where cov': "covers (sr_available s) tf'" "di_timeframe (sr_identity s) = cv_timeframe (sr_available s)"
    using ok by (auto simp: reference_ok_def validate_snapshot_reference_def validate_coverage_iff)
  then have cov: "covers (sr_available s) tf" using tf by (simp add: covers_def)
  define start where "start = first_start + d * (i * wp_test policy)"
  define finish where "finish = start + d * window_candles policy"
  have w: "0 < window_candles policy" "0 \<le> i * wp_test policy" using P i by (simp_all add: window_candles_def)
  have pos: "0 \<le> d * wp_warmup policy" "0 < d * window_candles policy" "0 \<le> d * (i * wp_test policy)"
    "0 \<le> d * (wp_train policy + wp_validation policy)" "0 \<le> d * wp_test policy"
    using d w P by simp_all
  have end_le: "finish \<le> cv_end (sr_available s)"
  proof -
    have "d * (wp_warmup policy + i * wp_test policy + window_candles policy) \<le> d * cv_count (sr_available s)"
      using fits d by simp
    then show ?thesis using cov by (simp add: finish_def start_def first covers_def d_def algebra_simps)
  qed
  have lo: "cv_start (sr_available s) \<le> start - d * wp_warmup policy" using pos first by (simp add: start_def d_def)
  have al: "validate_open_time tf start"
    using cov aligned_add [of tf "cv_start (sr_available s)" "wp_warmup policy + i * wp_test policy"]
    by (simp add: covers_def start_def first d_def algebra_simps)
  have fin: "finish = start + (wp_train policy + wp_validation policy + wp_test policy) * tf_duration tf"
    by (simp add: finish_def window_candles_def d_def mult.commute)
  let ?r = "\<lparr>dr_start = start, dr_end = finish\<rparr>"
  have fit: "request_fits s ?r (wp_train policy) (wp_validation policy) (wp_test policy) (wp_warmup policy) tf"
    using tf al P lo end_le by (simp add: request_fits_def fin MAX_SEGMENT_CANDLES_def MAX_WARMUP_CANDLES_def d_def mult.commute)
  obtain tp where tp: "create_segmentation (we_digests W) (Inr s) ?r (wp_train policy) (wp_validation policy) (wp_test policy)
      (wp_warmup policy) = Inr tp"
    using create_fits [OF ok _ fit] ready unfolding planner_ready_def by blast
  have T: "tp_snapshot tp = s" "validate_temporal_plan (we_digests W) tp = Inr ()" "cv_range (tp_selected tp) = ?r"
    "tp_warmup tp = wp_warmup policy" "plan_counts tp = [wp_train policy, wp_validation policy, wp_test policy]"
    by (rule create_requires [OF tp], simp)+
  obtain e where e: "experiments tp specs = Inr e" "ep_snapshot e = s" "ep_temporal e = tp" "ep_search_space e = space" "ep_plugin e = plugin"
    "ep_configuration e = configuration" "we_validate_experiment W e = Inr ()"
    using ready unfolding planner_ready_def by metis
  have dates: "datetime_ok (cv_start (sr_available s))" "datetime_ok (cv_end (sr_available s))" using ok by (simp_all add: reference_ok_def)
  note between = datetime_between [OF dates]
  have ts: "test_start policy d first_start i = start + d * (wp_train policy + wp_validation policy)"
    "test_start policy d first_start (i + 1) = finish"
    by (simp_all add: test_start_def start_def finish_def window_candles_def algebra_simps)
  have mid: "start + d * (wp_train policy + wp_validation policy) + d * wp_test policy = finish"
    by (simp add: finish_def window_candles_def algebra_simps)
  have dt: "datetime_ok start" "datetime_ok finish" "datetime_ok (start + d * (wp_train policy + wp_validation policy))"
    using lo end_le pos mid by (auto intro!: between simp: finish_def)
  define payload where "payload = \<lparr>fd_index = i, fd_selected = tp_selected tp, fd_temporal = tp, fd_experiment = e,
    fd_checksum = [], fd_id = []\<rparr>"
  define f where "f = payload\<lparr>fd_checksum := we_fold_checksum W payload, fd_id := we_fold_id W payload\<rparr>"
  have ff: "fd_index f = i" "fd_selected f = tp_selected tp" "fd_temporal f = tp" "fd_experiment f = e"
    "fd_checksum f = we_fold_checksum W payload" "fd_id f = we_fold_id W payload" "fold_plan_payload f = payload"
    by (simp_all add: f_def payload_def fold_plan_payload_def)
  have sel: "cv_start (tp_selected tp) = start" "cv_end (tp_selected tp) = finish" using T(3) by (simp_all add: cv_start_def cv_end_def)
  obtain a b c tf'' where segs: "tp_segments tp = [a, b, c]" and sc: "covers (tp_selected tp) tf''" and adj: "seg_start a = cv_start (tp_selected tp)" "seg_start b = seg_end a"
    "seg_start c = seg_end b" "seg_end c = cv_end (tp_selected tp)"
    and sf: "segment_fits tp tf'' (tp_train tp) a" "segment_fits tp tf'' (tp_validation tp) b"
    by (rule validated_plan [OF T(2)])
  have tfs: "tf'' = tf" using sc T(2) tf by (auto simp: covers_def validate_temporal_plan_def T(1))
  have segment_ends: "seg_end a = seg_start a + tp_train tp * d" "seg_end b = seg_start b + tp_validation tp * d"
    using sf by (simp_all add: segment_fits_def tfs d_def)
  have test: "seg_start (test_segment f) = test_start policy d first_start i" "seg_end (test_segment f) = finish"
    using adj segment_ends T(5)
    by (simp_all add: test_segment_def ff segs sel ts plan_counts_def algebra_simps)
  have cc: "cv_count (tp_selected tp) = window_candles policy"
  proof -
    have "d * cv_count (tp_selected tp) = d * window_candles policy"
      using sc sel by (auto simp: covers_def tfs finish_def d_def mult.commute)
    then show ?thesis using d by simp
  qed
  have vs: "validate_temporal_coverage (tp_selected tp) = Inr ()" using sc by (auto simp: validate_coverage_iff)
  have valid: "validate_fold_plan W f = Inr ()"
    using i vs T(2) e by (simp add: validate_fold_plan_def ff exact_int_def)
  have "start < finish" using pos by (simp add: finish_def)
  then have dr: "data_range_of start finish = Inr ?r" by (simp add: data_range_of_eq)
  have "build_fold W (Inr s) experiments policy d first_start specs i = Inr f"
    using dt unfolding build_fold_def datetime_add_def start_def [symmetric] require_True
    by (simp only: require_True res_bind_simps finish_def [symmetric] dr tp e(1) Let_def payload_def [symmetric] f_def [symmetric] valid)
  moreover have "good_fold W s space plugin configuration policy d first_start i f"
    using valid T e sel cc test dt by (simp add: good_fold_def ff ts(2)) (simp add: ts start_def [symmetric])
  ultimately show ?thesis by (auto simp: d_def)
qed

section \<open>Creating a plan\<close>

text \<open>The limits a request has to respect, over the number of complete folds of the snapshot.\<close>

definition within_limits ::
    "('c, 'x) walk_env \<Rightarrow> search_space \<Rightarrow> int \<Rightarrow> window_policy \<Rightarrow> int \<Rightarrow> int \<Rightarrow> bool" where
  "within_limits W space combinations policy max_total fold_count \<longleftrightarrow>
     2 \<le> fold_count \<and> fold_count \<le> wp_max_folds policy \<and> fold_count * (combinations * 3) \<le> max_total \<and>
     65536 + we_search_bytes W space + fold_count * (65536 + we_search_bytes W space)
       + fold_count * (combinations * 3) * (16384 + we_search_bytes W space) \<le> MAX_WALK_FORWARD_MANIFEST_BYTES \<and>
     65536 + fold_count * 131072 + fold_count * combinations * (4096 + 2 * we_search_bytes W space) \<le> MAX_WALK_FORWARD_MANIFEST_BYTES"

lemma within_manifest_Inr:
  "within_manifest (Inr n) k = Inr x \<longleftrightarrow> n \<le> MAX_WALK_FORWARD_MANIFEST_BYTES \<and> k = Inr x"
  by (simp add: within_manifest_def not_less)

lemma bytes_eq:
  assumes "validate_search_space space = Inr n" and "2 \<le> fold_count"
  shows "maximum_plan_bytes W space fold_count (fold_count * (n * 3))
      = Inr (65536 + we_search_bytes W space + fold_count * (65536 + we_search_bytes W space)
          + fold_count * (n * 3) * (16384 + we_search_bytes W space))"
    and "maximum_execution_bytes W space fold_count n
      = Inr (65536 + fold_count * 131072 + fold_count * n * (4096 + 2 * we_search_bytes W space))"
proof -
  have n: "1 \<le> n" using assms(1) by (auto simp: validate_search_space_def simp del: res_fold.simps)
  then have "1 * 1 \<le> fold_count * (n * 3)" using assms(2) by (intro mult_mono) simp_all
  then show "maximum_plan_bytes W space fold_count (fold_count * (n * 3))
      = Inr (65536 + we_search_bytes W space + fold_count * (65536 + we_search_bytes W space)
          + fold_count * (n * 3) * (16384 + we_search_bytes W space))"
    using assms by (simp add: maximum_plan_bytes_def preflight_count_def Let_def not_less)
  show "maximum_execution_bytes W space fold_count n
      = Inr (65536 + fold_count * 131072 + fold_count * n * (4096 + 2 * we_search_bytes W space))"
    using assms n by (simp add: maximum_execution_bytes_def preflight_count_def Let_def not_less)
qed

lemma reference_slots:
  assumes "reference_ok D s"
  obtains tf where "get_timeframe (di_timeframe (sr_identity s)) = Inr tf" and "0 < tf_duration tf"
    and "slot_count (cv_range (sr_available s)) (tf_duration tf) = Inr (cv_count (sr_available s))"
    and "cv_end (sr_available s) = cv_start (sr_available s) + tf_duration tf * cv_count (sr_available s)"
proof -
  obtain tf where c: "covers (sr_available s) tf" "di_timeframe (sr_identity s) = cv_timeframe (sr_available s)"
    using assms by (auto simp: reference_ok_def validate_snapshot_reference_def validate_coverage_iff)
  have "slot_count (cv_range (sr_available s)) (tf_duration tf) = Inr (cv_count (sr_available s))"
    using c(1) coversD(1) [OF c(1)] by (simp add: slot_count_def covers_def cv_start_def cv_end_def)
  then show thesis using c coversD(1) [OF c(1)] by (intro that [of tf]) (simp_all add: covers_def mult.commute)
qed

lemma create_walk_forward_iff:
  assumes ok: "reference_ok (we_digests W) s" and ready: "planner_ready W s experiments space plugin configuration"
  shows "(\<exists>p. create_walk_forward W (Inr ()) (Inr s) (di_timeframe (sr_identity s)) (cv_range (sr_available s)) experiments space
        configuration policy selection max_total = Inr p)
    \<longleftrightarrow> validate_window_policy policy = Inr () \<and> validate_selection_policy selection = Inr () \<and> validate_total_limit max_total = Inr () \<and>
        (\<exists>n. validate_search_space space = Inr n \<and>
           within_limits W space n policy max_total (complete_folds policy (cv_count (sr_available s) - wp_warmup policy)))"
    (is "(\<exists>p. ?create = Inr p) \<longleftrightarrow> ?r")
proof -
  obtain tf where tf: "get_timeframe (di_timeframe (sr_identity s)) = Inr tf" and d: "0 < tf_duration tf"
    and slots: "slot_count (cv_range (sr_available s)) (tf_duration tf) = Inr (cv_count (sr_available s))"
    and fin: "cv_end (sr_available s) = cv_start (sr_available s) + tf_duration tf * cv_count (sr_available s)"
    using reference_slots [OF ok] by blast
  let ?d = "tf_duration tf" and ?usable = "cv_count (sr_available s) - wp_warmup policy"
  let ?fc = "complete_folds policy ?usable"
  note top = create_walk_forward_def Let_def tf slots res_bind_simps catch_as_Inr
  show ?thesis
  proof
    assume "\<exists>p. ?create = Inr p"
    then obtain p where p: "?create = Inr p" by blast
    note c = p [unfolded top, unfolded res_bind_Inr_iff require_Inr_iff]
    obtain u1 u2 n u3 where h: "validate_window_policy policy = Inr u1" "validate_selection_policy selection = Inr u2"
      "validate_search_space space = Inr n" "validate_total_limit max_total = Inr u3" and fc: "\<not> ?fc < 2" "\<not> wp_max_folds policy < ?fc"
      "\<not> max_total < ?fc * (n * 3)"
      and wm: "\<exists>k. within_manifest (maximum_plan_bytes W space ?fc (?fc * (n * 3)))
         (within_manifest (maximum_execution_bytes W space ?fc n) k) = Inr p"
      using c by (elim exE conjE) (rule that, assumption+, rule exI, assumption)
    have two: "2 \<le> ?fc" using fc by simp
    have "within_limits W space n policy max_total ?fc"
      using wm fc unfolding bytes_eq [OF h(3) two] within_manifest_Inr by (simp add: within_limits_def not_less)
    then show ?r using h by auto
  next
    assume ?r
    then obtain n where h: "validate_window_policy policy = Inr ()" "validate_selection_policy selection = Inr ()" "validate_total_limit max_total = Inr ()"
      "validate_search_space space = Inr n" and lim: "within_limits W space n policy max_total ?fc" by blast
    note P = window_policy_ok [OF h(1)] and L = lim [unfolded within_limits_def]
    have two: "2 \<le> ?fc" "?fc \<noteq> 0" using L by simp_all
    note M = complete_folds_max [OF P(3) two(2)]
    define first_start where "first_start = cv_start (sr_available s) + ?d * wp_warmup policy"
    have good: "\<exists>f. build_fold W (Inr s) experiments policy ?d first_start (n * 3) i = Inr f \<and>
        good_fold W s space plugin configuration policy ?d first_start i f" if i: "0 \<le> i" "i < ?fc" for i
    proof (rule build_fold_good [OF ok ready tf h(1) i(1)])
      show "i < ABSOLUTE_MAX_FOLDS" using i(2) L P(9) by linarith
      have "i * wp_test policy \<le> (?fc - 1) * wp_test policy" using i P(3) by (intro mult_right_mono) simp_all
      then show "wp_warmup policy + i * wp_test policy + window_candles policy \<le> cv_count (sr_available s)" using M by linarith
    qed (simp add: first_start_def)
    then have "\<forall>i\<in>set [0 ..< nat ?fc]. \<exists>f. build_fold W (Inr s) experiments policy ?d first_start (n * 3) (int i) = Inr f \<and>
        good_fold W s space plugin configuration policy ?d first_start (int i) f" by simp
    from bchoice [OF this] obtain g where g0: "\<forall>i\<in>set [0 ..< nat ?fc].
        build_fold W (Inr s) experiments policy ?d first_start (n * 3) (int i) = Inr (g i) \<and>
        good_fold W s space plugin configuration policy ?d first_start (int i) (g i)" by blast
    then have g: "build_fold W (Inr s) experiments policy ?d first_start (n * 3) (int i) = Inr (g i) \<and>
        good_fold W s space plugin configuration policy ?d first_start (int i) (g i)" if "i < nat ?fc" for i using that by simp
    let ?fs = "map g [0 ..< nat ?fc]"
    have folds: "res_map (build_fold W (Inr s) experiments policy ?d first_start (n * 3)) (map int [0 ..< nat ?fc]) = Inr ?fs"
      using g by (simp add: res_map_Inr_iff list_all2_conv_all_nth)
    have len: "int (length ?fs) = ?fc" "length ?fs = nat ?fc" using two by simp_all
    have hd: "hd ?fs = g 0" using two by (simp add: hd_map hd_upt)
    have e0: "ep_snapshot (fd_experiment (hd ?fs)) = s" "ep_plugin (fd_experiment (hd ?fs)) = plugin"
      using g [of 0] two unfolding hd by (simp_all add: good_fold_def)
    have dt: "datetime_add (cv_start (sr_available s)) (?d * wp_warmup policy) = Inr first_start"
    proof -
      have w: "0 \<le> ?d * wp_warmup policy" using P(4) d by simp
      have "0 \<le> (?fc - 1) * wp_test policy" using P(3) two by simp
      then have "wp_warmup policy \<le> cv_count (sr_available s)" using M(1) P(1-3) unfolding window_candles_def by linarith
      then have "?d * wp_warmup policy \<le> ?d * cv_count (sr_available s)" using d by (intro mult_left_mono) simp_all
      then have "cv_start (sr_available s) \<le> first_start" "first_start \<le> cv_end (sr_available s)"
        using w fin by (simp_all add: first_start_def)
      moreover have "datetime_ok (cv_start (sr_available s))" "datetime_ok (cv_end (sr_available s))"
        using ok by (simp_all add: reference_ok_def)
      ultimately have "datetime_ok first_start" using datetime_between by blast
      then show ?thesis by (simp add: datetime_add_def first_start_def)
    qed
    let ?payload = "\<lparr>wf_snapshot = s, wf_window = policy, wf_selection = selection, wf_search_space = space, wf_plugin = plugin,
        wf_configuration = configuration, wf_folds = ?fs, wf_fold_count = ?fc, wf_combination_count = n, wf_specs_per_fold = n * 3,
        wf_total_specs = ?fc * (n * 3), wf_trailing = ?usable - (window_candles policy + (?fc - 1) * wp_test policy),
        wf_max_total_specs = max_total, wf_checksum = [], wf_id = [], wf_schema_version = 1\<rparr>"
    define p where "p = ?payload\<lparr>wf_checksum := we_plan_checksum W ?payload, wf_id := we_plan_id W ?payload\<rparr>"
    have pf: "wf_snapshot p = s" "wf_window p = policy" "wf_selection p = selection" "wf_search_space p = space" "wf_plugin p = plugin"
      "wf_configuration p = configuration" "wf_folds p = ?fs" "wf_fold_count p = ?fc" "wf_combination_count p = n"
      "wf_specs_per_fold p = n * 3" "wf_total_specs p = ?fc * (n * 3)"
      "wf_trailing p = ?usable - (window_candles policy + (?fc - 1) * wp_test policy)" "wf_max_total_specs p = max_total"
      "wf_schema_version p = 1" "walk_forward_plan_payload p = ?payload" "wf_checksum p = we_plan_checksum W ?payload"
      "wf_id p = we_plan_id W ?payload"
      by (simp_all add: p_def walk_forward_plan_payload_def)
    obtain r where checked: "res_fold (check_fold W p ?d first_start) ?fs (0, 0) = Inr r"
      using check_good_folds [of ?fs W p ?d first_start 0 0] g by (auto simp: pf)
    have last_end: "cv_end (fd_selected (last ?fs)) = test_start policy ?d first_start ?fc"
    proof -
      have "last ?fs = g (nat ?fc - 1)" using two by (simp add: last_map last_upt)
      moreover have "int (nat ?fc - 1) + 1 = ?fc" using two by simp
      ultimately show ?thesis using g [of "nat ?fc - 1"] two by (simp add: good_fold_def)
    qed
    have consumed: "datetime_add (cv_end (fd_selected (last ?fs))) (?d * wf_trailing p) = Inr (cv_end (sr_available s))"
    proof -
      have "test_start policy ?d first_start ?fc + ?d * wf_trailing p = cv_end (sr_available s)"
        unfolding fin pf(12) test_start_def first_start_def window_candles_def by (simp add: algebra_simps)
      then show ?thesis using ok by (simp add: datetime_add_def last_end reference_ok_def)
    qed
    have total: "(cv_end (sr_available s) - cv_start (sr_available s)) mod ?d = 0"
      "(cv_end (sr_available s) - cv_start (sr_available s)) div ?d = cv_count (sr_available s)"
      using d by (simp_all add: fin)
    have trailing: "exact_int (wf_trailing p) 0 10000000 = Inr ()" using M P(7) by (simp add: exact_int_def pf)
    have mt: "exact_int max_total 1 ABSOLUTE_MAX_TOTAL_SPECS = Inr ()" using h(3) by (simp add: validate_total_limit_def exact_int_def)
    have ref: "validate_snapshot_reference (we_digests W) s = Inr ()" using ok by (simp add: reference_ok_def)
    have ext: "we_validate_plugin W plugin = Inr ()" "we_validate_configuration W configuration = Inr ()"
      "we_plan_bytes W ?payload \<le> MAX_WALK_FORWARD_MANIFEST_BYTES"
      using ready by (simp_all add: planner_ready_def)
    have card: "n = ss_cardinality space" using h(4) by (auto simp: validate_search_space_def simp del: res_fold.simps)
    have one: "exact_int 1 1 1 = Inr ()" by (simp add: exact_int_def)
    have nat2: "2 \<le> nat ?fc" "0 \<le> ?fc" using two by simp_all
    have valid: "validate_walk_forward_plan W p = Inr ()"
      unfolding validate_walk_forward_plan_def Let_def
      using two L card consumed
      by (simp only: pf one ref h ext tf catch_as_Inr res_bind_simps total dt checked trailing [unfolded pf] mt len)
        (simp add: len not_less pf two nat2)
    have "?create = Inr p"
      unfolding top h bytes_eq [OF h(4) two(1)] cv_start_def [symmetric] dt folds e0 p_def [symmetric] valid
      using L ext(3) by (simp add: within_manifest_Inr not_less within_manifest_def)
    then show "\<exists>p. ?create = Inr p" by blast
  qed
qed

section \<open>Properties\<close>

text \<open>C10: a walk-forward plan that passes its validation evaluates without leakage and without waste: it has exactly its
declared number of folds, within the policy's maximum; in every fold TRAIN, VALIDATION and TEST follow each other inside
the snapshot, warmup included, so everything a fold is selected on ends where its TEST begins; consecutive TEST ranges
follow each other exactly and every instant between the first and the last lies in exactly one of them; and less
than one more TEST range is left over at the end of the snapshot.\<close>
theorem walk_forward_no_leakage:
  assumes "validate_walk_forward_plan W p = Inr ()"
  shows "int (length (wf_folds p)) = wf_fold_count p \<and> 2 \<le> wf_fold_count p \<and> wf_fold_count p \<le> wp_max_folds (wf_window p) \<and>
      list_all (\<lambda>f. \<exists>a b. tp_segments (fd_temporal f) = [a, b, test_segment f] \<and> tp_snapshot (fd_temporal f) = wf_snapshot p \<and>
        map sp_role [a, b, test_segment f] = [TRAIN, VALIDATION, TEST] \<and> seg_end a = seg_start b \<and> seg_end b = seg_start (test_segment f) \<and>
        cv_start (sr_available (wf_snapshot p)) \<le> sp_context_start a \<and>
        seg_end (test_segment f) \<le> cv_end (sr_available (wf_snapshot p))) (wf_folds p) \<and>
      chain (\<lambda>f g. seg_end (test_segment f) = seg_start (test_segment g)) (wf_folds p) \<and>
      (\<forall>t. length (filter (\<lambda>f. seg_start (test_segment f) \<le> t \<and> t < seg_end (test_segment f)) (wf_folds p)) =
        (if seg_start (test_segment (hd (wf_folds p))) \<le> t \<and> t < seg_end (test_segment (last (wf_folds p))) then 1 else 0)) \<and>
      (\<exists>tf. get_timeframe (di_timeframe (sr_identity (wf_snapshot p))) = Inr tf \<and>
        cv_end (sr_available (wf_snapshot p)) - seg_end (test_segment (last (wf_folds p))) < tf_duration tf * wp_test (wf_window p) \<and>
        seg_end (test_segment (last (wf_folds p))) \<le> cv_end (sr_available (wf_snapshot p)))"
proof (rule validated_walk [OF assms])
  fix tf :: timeframe and first_start
  let ?fs = "wf_folds p" and ?d = "tf_duration tf" and ?T = "\<lambda>i. test_start (wf_window p) (tf_duration tf) first_start (int i)"
  assume tf: "get_timeframe (di_timeframe (sr_identity (wf_snapshot p))) = Inr tf" "0 < ?d"
    and at: "\<And>i. i < length ?fs \<Longrightarrow> fold_at W p ?d first_start (int i) (?fs ! i)" and w: "validate_window_policy (wf_window p) = Inr ()"
    and n: "2 \<le> length ?fs" "int (length ?fs) \<le> wp_max_folds (wf_window p)" "int (length ?fs) = wf_fold_count p"
    and tr: "0 \<le> wf_trailing p" "wf_trailing p < wp_test (wf_window p)"
      "cv_end (fd_selected (last ?fs)) + ?d * wf_trailing p = cv_end (sr_available (wf_snapshot p))"
  have T: "seg_start (test_segment (?fs ! i)) = ?T i" "seg_end (test_segment (?fs ! i)) = ?T (Suc i)" if "i < length ?fs" for i
    using at [OF that] by (simp_all add: fold_at_def add.commute)
  have ne: "?fs \<noteq> []" using n(1) by auto
  then have hd: "hd ?fs = ?fs ! 0" and last: "last ?fs = ?fs ! (length ?fs - 1)" by (simp_all add: hd_conv_nth last_conv_nth)
  have ends: "seg_start (test_segment (hd ?fs)) = ?T 0" "seg_end (test_segment (last ?fs)) = ?T (length ?fs)"
    using T [of 0] T [of "length ?fs - 1"] n ne unfolding hd last by simp_all
  have less: "?T i < ?T (Suc i)" for i
  proof -
    have "0 < ?d * wp_test (wf_window p)" using tf(2) window_policy_ok(3) [OF w] by simp
    then show ?thesis by (simp add: test_start_def algebra_simps)
  qed
  have cov: "length (filter (\<lambda>f. seg_start (test_segment f) \<le> t \<and> t < seg_end (test_segment f)) ?fs) = (if ?T 0 \<le> t \<and> t < ?T (length ?fs) then 1 else 0)" for t
  proof -
    have "length (filter (\<lambda>f. seg_start (test_segment f) \<le> t \<and> t < seg_end (test_segment f)) (map ((!) ?fs) [0 ..< length ?fs]))
        = length (filter (\<lambda>i. ?T i \<le> t \<and> t < ?T (Suc i)) [0 ..< length ?fs])"
      unfolding filter_map length_map by (rule arg_cong [of _ _ length], rule filter_cong) (simp_all add: T)
    then show ?thesis using adjacent_ranges_cover [of "length ?fs" ?T t] less by (simp only: map_nth)
  qed
  have end_sel: "cv_end (fd_selected (last ?fs)) = seg_end (test_segment (last ?fs))"
    using at [of "length ?fs - 1"] n unfolding last by (simp add: fold_at_def)
  have slack: "0 \<le> ?d * wf_trailing p" "?d * wf_trailing p < ?d * wp_test (wf_window p)" using tr tf(2) by simp_all
  have inside: "seg_end (test_segment (last ?fs)) \<le> cv_end (sr_available (wf_snapshot p))" using tr(3) end_sel slack by linarith
  have one: "\<exists>a b. tp_segments (fd_temporal f) = [a, b, test_segment f] \<and> tp_snapshot (fd_temporal f) = wf_snapshot p \<and>
      map sp_role [a, b, test_segment f] = [TRAIN, VALIDATION, TEST] \<and> seg_end a = seg_start b \<and> seg_end b = seg_start (test_segment f) \<and>
      cv_start (sr_available (wf_snapshot p)) \<le> sp_context_start a \<and> seg_end (test_segment f) \<le> cv_end (sr_available (wf_snapshot p))"
    if f: "f \<in> set ?fs" for f
  proof -
    obtain i where i: "i < length ?fs" "f = ?fs ! i" using f by (auto simp: in_set_conv_nth)
    have v: "validate_temporal_plan (we_digests W) (fd_temporal f) = Inr ()" and s: "tp_snapshot (fd_temporal f) = wf_snapshot p"
      using at [OF i(1)] i(2) by (simp_all add: fold_at_def)
    show ?thesis
    proof (rule validated_plan [OF v])
      fix a b c tf'
      assume h: "tp_segments (fd_temporal f) = [a, b, c]" "sp_role a = TRAIN" "sp_role b = VALIDATION" "sp_role c = TEST"
        "seg_start b = seg_end a" "seg_start c = seg_end b" "seg_end c = cv_end (tp_selected (fd_temporal f))"
        "segment_fits (fd_temporal f) tf' (tp_train (fd_temporal f)) a"
        "cv_end (tp_selected (fd_temporal f)) \<le> cv_end (sr_available (tp_snapshot (fd_temporal f)))"
      have "test_segment f = c" using h(1) by (simp add: test_segment_def)
      then show ?thesis using h s by (intro exI [of _ a] exI [of _ b]) (simp add: segment_fits_def)
    qed
  qed
  have ch: "chain (\<lambda>f g. seg_end (test_segment f) = seg_start (test_segment g)) ?fs"
  proof -
    have "chain (\<lambda>f g. seg_end (test_segment f) = seg_start (test_segment g)) (map ((!) ?fs) [0 ..< length ?fs])"
      by (rule chain_map_upt) (simp add: T)
    then show ?thesis by (simp only: map_nth)
  qed
  show ?thesis
  proof (intro conjI exI [of _ tf])
    show "list_all (\<lambda>f. \<exists>a b. tp_segments (fd_temporal f) = [a, b, test_segment f] \<and> tp_snapshot (fd_temporal f) = wf_snapshot p \<and>
        map sp_role [a, b, test_segment f] = [TRAIN, VALIDATION, TEST] \<and> seg_end a = seg_start b \<and> seg_end b = seg_start (test_segment f) \<and>
        cv_start (sr_available (wf_snapshot p)) \<le> sp_context_start a \<and>
        seg_end (test_segment f) \<le> cv_end (sr_available (wf_snapshot p))) ?fs"
      unfolding list_all_iff using one by blast
    show "cv_end (sr_available (wf_snapshot p)) - seg_end (test_segment (last ?fs)) < ?d * wp_test (wf_window p)"
      using tr(3) end_sel slack by linarith
    show "\<forall>t. length (filter (\<lambda>f. seg_start (test_segment f) \<le> t \<and> t < seg_end (test_segment f)) ?fs) =
        (if seg_start (test_segment (hd ?fs)) \<le> t \<and> t < seg_end (test_segment (last ?fs)) then 1 else 0)"
      unfolding ends using cov by blast
    show "2 \<le> wf_fold_count p" using n by linarith
  qed (use n ch inside tf(1) in simp_all)
qed


text \<open>The snapshot of forty quarter hours, and a planner that answers with the temporal plan it is given.\<close>

definition walk_example_space :: search_space where
  "walk_example_space = \<lparr>ss_plugin_name = ''sma'', ss_plugin_version = ''1.0'', ss_plugin_schema_version = 1, ss_plugin_lifecycle_version = 2,
     ss_fixed = [], ss_search = [\<lparr>sq_name = ''period'', sq_kind = INTEGER, sq_values = [Int_value 10, Int_value 20]\<rparr>],
     ss_cardinality = 2, ss_max_combinations = 10, ss_checksum = replicate 64 CHR ''c'', ss_id = replicate 64 CHR ''d'', ss_schema_version = 1\<rparr>"

definition walk_example_env :: "(unit, unit) walk_env" where
  "walk_example_env = \<lparr>we_digests = witness_digests, we_validate_experiment = (\<lambda>e. Inr ()), we_validate_plugin = (\<lambda>p. Inr ()),
     we_validate_configuration = (\<lambda>c. Inr ()), we_fold_checksum = (\<lambda>f. ''fold''), we_fold_id = (\<lambda>f. ''fold''),
     we_plan_checksum = (\<lambda>p. ''plan''), we_plan_id = (\<lambda>p. ''plan''), we_search_bytes = (\<lambda>s. 1000), we_plan_bytes = (\<lambda>p. 100000)\<rparr>"

definition walk_example_plugin :: plugin_identity where
  "walk_example_plugin = \<lparr>pg_name = ''sma'', pg_version = ''1.0'', pg_schema_version = 1, pg_lifecycle_version = 2\<rparr>"

definition walk_example_experiments :: "temporal_plan \<Rightarrow> int \<Rightarrow> (unit, unit) experiment_plan result" where
  "walk_example_experiments tp n = Inr \<lparr>ep_snapshot = witness_reference, ep_temporal = tp, ep_search_space = walk_example_space,
     ep_plugin = walk_example_plugin, ep_configuration = (), ep_content = ()\<rparr>"

definition walk_example_window :: window_policy where
  "walk_example_window = \<lparr>wp_train = 10, wp_validation = 5, wp_test = 5, wp_warmup = 2, wp_max_folds = 50, wp_schema_version = 1\<rparr>"

definition walk_example_selection :: selection_policy where
  "walk_example_selection = \<lparr>sn_metric = NET_PROFIT, sn_direction = MAXIMIZE, sn_schema_version = 1\<rparr>"

lemma walk_example_ready: "planner_ready walk_example_env witness_reference walk_example_experiments walk_example_space walk_example_plugin ()"
  using witness_sha by (simp add: planner_ready_def walk_example_env_def walk_example_experiments_def MAX_WALK_FORWARD_MANIFEST_BYTES_def)

lemma walk_example_reference: "reference_ok (we_digests walk_example_env) witness_reference"
  using witness_reference_ok by (simp add: walk_example_env_def)

lemma walk_example_request_valid:
  "validate_window_policy walk_example_window = Inr ()" "validate_selection_policy walk_example_selection = Inr ()"
  "validate_search_space walk_example_space = Inr 2" "validate_total_limit 100 = Inr ()"
  "complete_folds walk_example_window (cv_count (sr_available witness_reference) - wp_warmup walk_example_window) = 4"
  "within_limits walk_example_env walk_example_space 2 walk_example_window 100 4"
  by code_simp+

definition walk_example_creation :: "int \<Rightarrow> (unit, unit) walk_forward_plan result" where
  "walk_example_creation max_total = create_walk_forward walk_example_env (Inr ()) (Inr witness_reference) (di_timeframe (sr_identity witness_reference))
     (cv_range (sr_available witness_reference)) walk_example_experiments walk_example_space () walk_example_window walk_example_selection max_total"


lemma created_walk_forward_valid:
  "create_walk_forward W contract reference code available experiments space configuration policy selection max_total = Inr p
    \<Longrightarrow> validate_walk_forward_plan W p = Inr ()"
  unfolding create_walk_forward_def Let_def within_manifest_def res_bind_Inr_iff require_Inr_iff
  by (elim exE conjE) simp

theorem walk_forward_no_leakage_witness:
  "\<exists>p. validate_walk_forward_plan walk_example_env p = Inr () \<and> 2 \<le> wf_fold_count p \<and> int (length (wf_folds p)) = wf_fold_count p"
proof -
  have "\<exists>p. walk_example_creation 100 = Inr p"
    unfolding walk_example_creation_def create_walk_forward_iff [OF walk_example_reference walk_example_ready] using walk_example_request_valid by auto
  then obtain p where "walk_example_creation 100 = Inr p" by blast
  then have v: "validate_walk_forward_plan walk_example_env p = Inr ()"
    unfolding walk_example_creation_def by (rule created_walk_forward_valid)
  show ?thesis using walk_forward_no_leakage [OF v] v by (intro exI [of _ p]) simp
qed

end
