(* ===== verification/Fold_Selection.thy ===== *)
theory Fold_Selection
  imports Walk_Forward
begin

text \<open>
  Selecting the combination of a fold: the evidence and decision records of
  \<^verbatim>\<open>app/optimization/walk_forward_domain.py\<close> with their validation, and \<^verbatim>\<open>WalkForwardSelectionService.select\<close> of
  \<^verbatim>\<open>walk_forward_execution.py\<close>.  Digests over the canonical JSON of a payload are parameters.  The keys of
  these payloads are constants of the code without the text \<^verbatim>\<open>test\<close>, so \<^verbatim>\<open>_reject_test_keys\<close> never raises on them.
\<close>

abbreviation walk_error :: "walk_forward_error \<Rightarrow> error" where
  "walk_error \<equiv> WalkForwardError"

section \<open>References and candidates\<close>

text \<open>\<^verbatim>\<open>is_canonical_artifact_path\<close>: \<^verbatim>\<open>PurePosixPath\<close> keeps a relative text as it is exactly when no component of
  it is empty or a single dot.\<close>

definition is_scheme_char :: "char \<Rightarrow> bool" where
  "is_scheme_char c \<longleftrightarrow> is_alnum c \<or> c = CHR ''+'' \<or> c = CHR ''.'' \<or> c = CHR ''-''"

definition has_uri_scheme :: "string \<Rightarrow> bool" where
  "has_uri_scheme s = (case s of [] \<Rightarrow> False
     | c # cs \<Rightarrow> (is_upper c \<or> is_lower c) \<and> (case dropWhile is_scheme_char cs of [] \<Rightarrow> False | d # _ \<Rightarrow> d = CHR '':''))"

definition is_canonical_artifact_path :: "string \<Rightarrow> string \<Rightarrow> bool" where
  "is_canonical_artifact_path path run_id \<longleftrightarrow>
     path \<noteq> [] \<and> length path \<le> 512 \<and> CHR 92 \<notin> set path \<and> \<not> has_uri_scheme path \<and>
     (let parts = split_on (CHR ''/'') path
      in list_all (\<lambda>q. q \<noteq> [] \<and> q \<noteq> ''.'' \<and> q \<noteq> ''..'') parts \<and> last parts = run_id)"

record selection_reference =
  sf_run_spec_id :: string
  sf_run_id :: string
  sf_checksum :: string
  sf_path :: string

definition check_sha256 :: "string \<Rightarrow> unit result" where
  "check_sha256 s = require (is_sha256 s) (walk_error WalkForwardIdentifier) (Inr ())"

definition validate_selection_reference :: "selection_reference \<Rightarrow> unit result" where
  "validate_selection_reference r =
     res_bind (res_fold (\<lambda>s _. check_sha256 s) [sf_run_spec_id r, sf_run_id r, sf_checksum r] ()) (\<lambda>_.
     require (is_canonical_artifact_path (sf_path r) (sf_run_id r)) (walk_error InvalidWalkForwardCandidate) (Inr ()))"

datatype candidate_status = ELIGIBLE | REJECTED

record selection_candidate =
  cd_index :: int
  cd_id :: string
  cd_parameters :: "(string \<times> scalar) list"
  cd_status :: candidate_status
  cd_reason :: "string option"
  cd_train :: "selection_reference option"
  cd_validation :: "selection_reference option"
  cd_metric :: comparison_metric
  cd_score :: "decimal option"

text \<open>\<^verbatim>\<open>_parameter_value\<close> as a check.\<close>

fun parameter_value :: "scalar \<Rightarrow> unit result" where
  "parameter_value (Bool_value b) = Inr ()"
| "parameter_value (Str_value s) =
     require (\<not> (s = [] \<or> s \<noteq> strip s \<or> 128 < length s)) (walk_error InvalidWalkForwardCandidate) (Inr ())"
| "parameter_value (Int_value i) = catch_as (walk_error InvalidWalkForwardCandidate) (res_bind (integer_text i) (\<lambda>_. Inr ()))"
| "parameter_value (Dec_value d) = catch_as (walk_error InvalidWalkForwardCandidate) (res_bind (decimal_text d) (\<lambda>_. Inr ()))"

definition validate_parameters :: "(string \<times> scalar) list \<Rightarrow> unit result" where
  "validate_parameters ps =
     res_bind (res_fold (\<lambda>(name, value) _. require (name \<noteq> []) (walk_error InvalidWalkForwardCandidate) (parameter_value value)) ps ()) (\<lambda>_.
     require (\<not> (map fst ps \<noteq> sort (map fst ps) \<or> \<not> distinct (map fst ps))) (walk_error InvalidWalkForwardCandidate) (Inr ()))"

definition finite_score :: "decimal \<Rightarrow> unit result" where
  "finite_score d = catch_as (walk_error InvalidWalkForwardMetric) (res_bind (decimal_text d) (\<lambda>_. Inr ()))"

definition validate_optional_reference :: "selection_reference option \<Rightarrow> unit result" where
  "validate_optional_reference r = (case r of None \<Rightarrow> Inr () | Some x \<Rightarrow> validate_selection_reference x)"

definition validate_candidate :: "selection_candidate \<Rightarrow> unit result" where
  "validate_candidate c =
     res_bind (exact_int (cd_index c) 0 100000) (\<lambda>_.
     res_bind (check_sha256 (cd_id c)) (\<lambda>_.
     res_bind (validate_parameters (cd_parameters c)) (\<lambda>_.
     res_bind (case cd_status c of
         ELIGIBLE \<Rightarrow>
           require (cd_reason c = None) (walk_error InvalidWalkForwardCandidate) (
           require (\<not> (cd_train c = None \<or> cd_validation c = None)) (walk_error InvalidWalkForwardCandidate) (
           res_bind (validate_optional_reference (cd_train c)) (\<lambda>_.
           res_bind (validate_optional_reference (cd_validation c)) (\<lambda>_.
           require (cd_train c \<noteq> cd_validation c) (walk_error InvalidWalkForwardCandidate) (
           (case cd_score c of None \<Rightarrow> Inl (walk_error InvalidWalkForwardMetric) | Some d \<Rightarrow> finite_score d))))))
       | REJECTED \<Rightarrow>
           require (\<not> ((case cd_reason c of None \<Rightarrow> True | Some t \<Rightarrow> t = [] \<or> 128 < length t) \<or> cd_score c \<noteq> None))
             (walk_error InvalidWalkForwardCandidate) (
           res_bind (validate_optional_reference (cd_train c)) (\<lambda>_. validate_optional_reference (cd_validation c)))) (\<lambda>_.
     require (\<not> (cd_train c \<noteq> None \<and> cd_validation c \<noteq> None \<and> cd_train c = cd_validation c))
       (walk_error InvalidWalkForwardCandidate) (Inr ())))))"

section \<open>Evidence\<close>

record fold_evidence =
  ev_fold_id :: string
  ev_fold_index :: int
  ev_experiment_id :: string
  ev_policy :: selection_policy
  ev_candidates :: "selection_candidate list"
  ev_eligible :: int
  ev_rejected :: int
  ev_checksum :: string
  ev_id :: string

record fold_decision =
  dc_fold_id :: string
  dc_fold_index :: int
  dc_policy :: selection_policy
  dc_index :: int
  dc_combination_id :: string
  dc_parameters :: "(string \<times> scalar) list"
  dc_score :: decimal
  dc_rank :: int
  dc_eligible :: int
  dc_rejected :: int
  dc_reasons :: "string list"
  dc_train :: selection_reference
  dc_validation :: selection_reference
  dc_evidence_id :: string
  dc_evidence_checksum :: string
  dc_checksum :: string
  dc_id :: string

record selection_digests =
  sd_evidence :: "fold_evidence \<Rightarrow> string"
  sd_evidence_id :: "fold_evidence \<Rightarrow> string"
  sd_decision :: "fold_decision \<Rightarrow> string"
  sd_decision_id :: "fold_decision \<Rightarrow> string"

definition selection_evidence_payload :: "fold_evidence \<Rightarrow> fold_evidence" where
  "selection_evidence_payload e = e\<lparr>ev_checksum := [], ev_id := []\<rparr>"

definition selection_decision_payload :: "fold_decision \<Rightarrow> fold_decision" where
  "selection_decision_payload d = d\<lparr>dc_checksum := [], dc_id := []\<rparr>"

definition eligible_candidates :: "fold_evidence \<Rightarrow> selection_candidate list" where
  "eligible_candidates e = filter (\<lambda>c. cd_status c = ELIGIBLE) (ev_candidates e)"

definition validate_evidence :: "selection_digests \<Rightarrow> fold_evidence \<Rightarrow> unit result" where
  "validate_evidence D e =
     res_bind (check_sha256 (ev_fold_id e)) (\<lambda>_.
     res_bind (exact_int (ev_fold_index e) 0 (ABSOLUTE_MAX_FOLDS - 1)) (\<lambda>_.
     res_bind (check_sha256 (ev_experiment_id e)) (\<lambda>_.
     res_bind (validate_selection_policy (ev_policy e)) (\<lambda>_.
     require (ev_candidates e \<noteq> []) (walk_error IncompatibleWalkForwardSelection) (
     res_bind (res_fold (\<lambda>c _. validate_candidate c) (ev_candidates e) ()) (\<lambda>_.
     let ordering = map (\<lambda>c. (cd_index c, cd_id c)) (ev_candidates e);
         indexes = map cd_index (ev_candidates e); identifiers = map cd_id (ev_candidates e);
         eligible = int (length (eligible_candidates e)); rejected = int (length (ev_candidates e)) - eligible in
     require (ordering = sort ordering) (walk_error IncompatibleWalkForwardSelection) (
     require (\<not> (indexes \<noteq> map int [0 ..< length (ev_candidates e)] \<or> \<not> distinct identifiers)) (walk_error IncompatibleWalkForwardSelection) (
     require (list_all (\<lambda>c. cd_metric c = sn_metric (ev_policy e)) (ev_candidates e)) (walk_error IncompatibleWalkForwardSelection) (
     require (\<not> (ev_eligible e \<noteq> eligible \<or> ev_rejected e \<noteq> rejected)) (walk_error IncompatibleWalkForwardSelection) (
     require (ev_checksum e = sd_evidence D (selection_evidence_payload e)) (walk_error WalkForwardChecksum) (
     require (ev_id e = sd_evidence_id D (selection_evidence_payload e)) (walk_error WalkForwardIdentifier) (Inr ()))))))))))))"

section \<open>Ranking\<close>

definition candidate_score :: "selection_candidate \<Rightarrow> decimal result" where
  "candidate_score c = (case cd_score c of None \<Rightarrow> Inl (walk_error InvalidWalkForwardCandidate) | Some d \<Rightarrow> Inr d)"

text \<open>\<^verbatim>\<open>sorted(candidates, key=score, reverse=...)\<close>; the reversed sort is stable as well.\<close>

definition score_order :: "selection_direction \<Rightarrow> (decimal \<times> selection_candidate) list \<Rightarrow> (decimal \<times> selection_candidate) list" where
  "score_order direction scored = (case direction of MAXIMIZE \<Rightarrow> sort_key (\<lambda>x. - fst x) scored | MINIMIZE \<Rightarrow> sort_key fst scored)"

definition winner_of :: "selection_direction \<Rightarrow> (decimal \<times> selection_candidate) list \<Rightarrow> decimal \<times> selection_candidate" where
  "winner_of direction scored =
     (let ordered = score_order direction scored; best_score = fst (hd ordered)
      in arg_min_list (\<lambda>x. (cd_index (snd x), cd_id (snd x))) (filter (\<lambda>x. fst x = best_score) ordered))"

definition scored_candidates :: "selection_candidate list \<Rightarrow> (decimal \<times> selection_candidate) list result" where
  "scored_candidates cs = res_map (\<lambda>c. res_bind (candidate_score c) (\<lambda>d. Inr (d, c))) cs"

definition rejection_reasons :: "fold_evidence \<Rightarrow> string option list" where
  "rejection_reasons e = map cd_reason (filter (\<lambda>c. cd_status c = REJECTED) (ev_candidates e))"

text \<open>\<^verbatim>\<open>_compact_reasons\<close>: every reason with the number of times it occurs, in order.\<close>

definition required_reason :: "error \<Rightarrow> string option \<Rightarrow> string result" where
  "required_reason e r = (case r of None \<Rightarrow> Inl e | Some t \<Rightarrow> require (t \<noteq> []) e (Inr t))"

definition compact_reasons :: "error \<Rightarrow> string option list \<Rightarrow> string list result" where
  "compact_reasons e reasons =
     res_bind (res_map (required_reason e) reasons) (\<lambda>rs.
     Inr (map (\<lambda>r. r @ '':'' @ show_nat (count_list rs r)) (sort (remdups rs))))"

text \<open>\<^verbatim>\<open>_compact_rejection_reasons\<close> of the domain adds the limits.\<close>

definition compact_rejection_reasons :: "string option list \<Rightarrow> string list result" where
  "compact_rejection_reasons reasons =
     res_bind (compact_reasons (walk_error IncompatibleWalkForwardSelection) reasons) (\<lambda>compact.
     require (\<not> (128 < length compact \<or> list_ex (\<lambda>r. 128 < length r) compact)) (walk_error IncompatibleWalkForwardSelection) (Inr compact))"

section \<open>Decisions\<close>

definition validate_decision :: "selection_digests \<Rightarrow> fold_decision \<Rightarrow> unit result" where
  "validate_decision D d =
     res_bind (validate_selection_policy (dc_policy d)) (\<lambda>_.
     res_bind (check_sha256 (dc_fold_id d)) (\<lambda>_.
     res_bind (exact_int (dc_fold_index d) 0 (ABSOLUTE_MAX_FOLDS - 1)) (\<lambda>_.
     res_bind (exact_int (dc_index d) 0 100000) (\<lambda>_.
     res_bind (check_sha256 (dc_combination_id d)) (\<lambda>_.
     res_bind (validate_parameters (dc_parameters d)) (\<lambda>_.
     res_bind (finite_score (dc_score d)) (\<lambda>_.
     require (dc_rank d = 1) (walk_error IncompatibleWalkForwardSelection) (
     res_bind (exact_int (dc_eligible d) 1 100000) (\<lambda>_.
     res_bind (exact_int (dc_rejected d) 0 100000) (\<lambda>_.
     require (list_all (\<lambda>r. r \<noteq> [] \<and> length r \<le> 128) (dc_reasons d)) (walk_error IncompatibleWalkForwardSelection) (
     res_bind (validate_selection_reference (dc_train d)) (\<lambda>_.
     res_bind (validate_selection_reference (dc_validation d)) (\<lambda>_.
     require (dc_train d \<noteq> dc_validation d) (walk_error IncompatibleWalkForwardSelection) (
     res_bind (check_sha256 (dc_evidence_id d)) (\<lambda>_.
     res_bind (check_sha256 (dc_evidence_checksum d)) (\<lambda>_.
     require (dc_checksum d = sd_decision D (selection_decision_payload d)) (walk_error WalkForwardChecksum) (
     require (dc_id d = sd_decision_id D (selection_decision_payload d)) (walk_error WalkForwardIdentifier) (Inr ()))))))))))))))))))"

text \<open>\<^verbatim>\<open>_required_candidate_score\<close> raises another class than \<open>candidate_score\<close>.\<close>

definition validate_decision_against_evidence :: "selection_digests \<Rightarrow> fold_decision \<Rightarrow> fold_evidence \<Rightarrow> unit result" where
  "validate_decision_against_evidence D d e =
     (let bad = walk_error IncompatibleWalkForwardSelection in
     res_bind (validate_decision D d) (\<lambda>_.
     res_bind (validate_evidence D e) (\<lambda>_.
     require (\<not> (dc_fold_id d \<noteq> ev_fold_id e \<or> dc_fold_index d \<noteq> ev_fold_index e \<or> dc_policy d \<noteq> ev_policy e
         \<or> dc_evidence_id d \<noteq> ev_id e \<or> dc_evidence_checksum d \<noteq> ev_checksum e)) bad (
     require (eligible_candidates e \<noteq> []) bad (
     res_bind (catch_as bad (scored_candidates (eligible_candidates e))) (\<lambda>scored.
     let (best_score, winner) = winner_of (sn_direction (ev_policy e)) scored in
     res_bind (compact_rejection_reasons (rejection_reasons e)) (\<lambda>compact.
     require (\<not> (dc_index d \<noteq> cd_index winner \<or> dc_combination_id d \<noteq> cd_id winner \<or> dc_parameters d \<noteq> cd_parameters winner
         \<or> dc_score d \<noteq> best_score \<or> dc_rank d \<noteq> 1 \<or> dc_eligible d \<noteq> ev_eligible e \<or> dc_rejected d \<noteq> ev_rejected e
         \<or> dc_reasons d \<noteq> compact \<or> Some (dc_train d) \<noteq> cd_train winner \<or> Some (dc_validation d) \<noteq> cd_validation winner)) bad (
     require (\<not> (dc_checksum d \<noteq> sd_decision D (selection_decision_payload d) \<or> dc_id d \<noteq> sd_decision_id D (selection_decision_payload d)))
       bad (Inr ())))))))))"

definition select_fold :: "selection_digests \<Rightarrow> fold_evidence \<Rightarrow> fold_decision result" where
  "select_fold D e =
     res_bind (validate_evidence D e) (\<lambda>_.
     require (eligible_candidates e \<noteq> []) (walk_error NoEligibleWalkForwardCandidate) (
     res_bind (scored_candidates (eligible_candidates e)) (\<lambda>scored.
     let (best_score, winner) = winner_of (sn_direction (ev_policy e)) scored in
     (case (cd_train winner, cd_validation winner) of
        (Some train, Some validation) \<Rightarrow>
          res_bind (compact_reasons (walk_error InvalidWalkForwardCandidate) (rejection_reasons e)) (\<lambda>compact.
          let payload = \<lparr>dc_fold_id = ev_fold_id e, dc_fold_index = ev_fold_index e, dc_policy = ev_policy e,
                dc_index = cd_index winner, dc_combination_id = cd_id winner, dc_parameters = cd_parameters winner,
                dc_score = best_score, dc_rank = 1, dc_eligible = ev_eligible e, dc_rejected = ev_rejected e,
                dc_reasons = compact, dc_train = train, dc_validation = validation, dc_evidence_id = ev_id e,
                dc_evidence_checksum = ev_checksum e, dc_checksum = [], dc_id = []\<rparr>;
              d = payload\<lparr>dc_checksum := sd_decision D payload, dc_id := sd_decision_id D payload\<rparr>
          in res_bind (validate_decision D d) (\<lambda>_.
             res_bind (validate_decision_against_evidence D d e) (\<lambda>_. Inr d)))
      | _ \<Rightarrow> Inl (walk_error InvalidWalkForwardCandidate)))))"

section \<open>The winner\<close>

definition no_better :: "selection_direction \<Rightarrow> decimal \<Rightarrow> decimal \<Rightarrow> bool" where
  "no_better direction x best = (case direction of MAXIMIZE \<Rightarrow> x \<le> best | MINIMIZE \<Rightarrow> best \<le> x)"

lemma sort_key_hd_le:
  fixes f :: "'a \<Rightarrow> 'k :: linorder"
  assumes "x \<in> set xs"
  shows "f (hd (sort_key f xs)) \<le> f x"
proof -
  have x: "x \<in> set (sort_key f xs)" using assms by simp
  have "sorted (map f (sort_key f xs))" by simp
  then show ?thesis using x by (cases "sort_key f xs") auto
qed

lemma score_order_set [simp]: "set (score_order direction xs) = set xs"
  by (cases direction) (simp_all add: score_order_def)

lemma score_order_hd:
  assumes "x \<in> set xs"
  shows "no_better direction (fst x) (fst (hd (score_order direction xs)))"
  using sort_key_hd_le [OF assms, of "\<lambda>x. - fst x"] sort_key_hd_le [OF assms, of fst]
  by (cases direction) (simp_all add: no_better_def score_order_def)

lemma winner_of_best:
  assumes ne: "xs \<noteq> []" and w: "winner_of direction xs = (best, w)"
  shows "(best, w) \<in> set xs"
    and "(d, c) \<in> set xs \<Longrightarrow> no_better direction d best"
    and "(best, c) \<in> set xs \<Longrightarrow> (cd_index w, cd_id w) \<le> (cd_index c, cd_id c)"
proof -
  let ?o = "score_order direction xs" and ?k = "\<lambda>x :: decimal \<times> selection_candidate. (cd_index (snd x), cd_id (snd x))"
  let ?ties = "filter (\<lambda>x. fst x = fst (hd ?o)) ?o"
  have one: "?o \<noteq> []" using ne score_order_set [of direction xs] by (metis set_empty)
  then have hd: "hd ?o \<in> set xs" using hd_in_set [OF one] by simp
  have t: "?ties \<noteq> []" using one by (simp add: filter_empty_conv) (metis hd score_order_set)
  have w': "arg_min_list ?k ?ties = (best, w)" using w by (simp add: winner_of_def Let_def)
  have i: "(best, w) \<in> set ?ties" using arg_min_list_in [OF t, of ?k] unfolding w' .
  then have o: "(best, w) \<in> set ?o \<and> best = fst (hd ?o)" unfolding set_filter mem_Collect_eq fst_conv .
  then have best: "best = fst (hd ?o)" by (rule conjunct2)
  show "(best, w) \<in> set xs" using conjunct1 [OF o] unfolding score_order_set .
  show "(d, c) \<in> set xs \<Longrightarrow> no_better direction d best" using score_order_hd [of "(d, c)" xs direction] best by simp
  show "(cd_index w, cd_id w) \<le> (cd_index c, cd_id c)" if "(best, c) \<in> set xs"
  proof -
    have m: "(best, c) \<in> set ?ties" using that best by simp
    have "?k (best, w) = Min (?k ` set ?ties)" using f_arg_min_list_f [OF t, of ?k] w' by simp
    also have "\<dots> \<le> ?k (best, c)" by (rule Min_le [OF _ imageI [OF m, of ?k]]) simp
    finally show ?thesis by simp
  qed
qed

section \<open>Validated evidence\<close>

lemma eligible_candidate:
  assumes "validate_candidate c = Inr u" and "cd_status c = ELIGIBLE"
  obtains train validation score where "cd_train c = Some train" and "cd_validation c = Some validation" and "cd_score c = Some score"
    and "validate_selection_reference train = Inr ()" and "validate_selection_reference validation = Inr ()" and "train \<noteq> validation"
    and "finite_score score = Inr ()" and "exact_int (cd_index c) 0 100000 = Inr ()" and "check_sha256 (cd_id c) = Inr ()"
    and "validate_parameters (cd_parameters c) = Inr ()"
  using assms by (auto simp: validate_candidate_def validate_optional_reference_def split: option.splits)

lemma rejected_candidate:
  assumes "validate_candidate c = Inr u" and "cd_status c = REJECTED"
  obtains t where "cd_reason c = Some t" and "t \<noteq> []"
  using assms by (auto simp: validate_candidate_def split: option.splits)

lemma candidates_fold: "res_fold (\<lambda>c _. validate_candidate c) cs () = Inr () \<longleftrightarrow> (\<forall>c\<in>set cs. validate_candidate c = Inr ())"
  by (induction cs) auto

lemma validate_evidence_Inr:
  assumes "validate_evidence D e = Inr u"
  shows "\<forall>c\<in>set (ev_candidates e). validate_candidate c = Inr ()" and "map cd_index (ev_candidates e) = map int [0 ..< length (ev_candidates e)]"
    and "ev_eligible e = int (length (eligible_candidates e))"
    and "ev_rejected e = int (length (ev_candidates e)) - int (length (eligible_candidates e))"
    and "ev_checksum e = sd_evidence D (selection_evidence_payload e)" and "ev_id e = sd_evidence_id D (selection_evidence_payload e)"
    and "check_sha256 (ev_fold_id e) = Inr ()" and "exact_int (ev_fold_index e) 0 (ABSOLUTE_MAX_FOLDS - 1) = Inr ()"
    and "validate_selection_policy (ev_policy e) = Inr ()"
  using assms by (auto simp: validate_evidence_def Let_def candidates_fold simp del: res_fold.simps)

lemma scored_eq:
  assumes "\<forall>c\<in>set cs. \<exists>d. cd_score c = Some d"
  shows "scored_candidates cs = Inr (map (\<lambda>c. (the (cd_score c), c)) cs)"
  using assms by (induction cs) (auto simp: scored_candidates_def candidate_score_def)

lemma reasons_total:
  assumes "\<forall>r\<in>set rs. \<exists>t. r = Some t \<and> t \<noteq> []"
  shows "\<exists>compact. \<forall>e. compact_reasons e rs = Inr compact"
proof -
  have "res_map (required_reason e) rs = Inr (map the rs)" for e
    using assms by (induction rs) (auto simp: required_reason_def)
  then show ?thesis by (simp add: compact_reasons_def)
qed

text \<open>What selecting from valid evidence with an eligible candidate comes down to.\<close>

lemma evidence_winner:
  assumes v: "validate_evidence D e = Inr ()" and ne: "eligible_candidates e \<noteq> []"
  obtains best w train validation compact where "scored_candidates (eligible_candidates e) = Inr (map (\<lambda>c. (the (cd_score c), c)) (eligible_candidates e))"
    and "winner_of (sn_direction (ev_policy e)) (map (\<lambda>c. (the (cd_score c), c)) (eligible_candidates e)) = (best, w)"
    and "w \<in> set (eligible_candidates e)" and "cd_score w = Some best" and "cd_train w = Some train" and "cd_validation w = Some validation"
    and "\<And>err. compact_reasons err (rejection_reasons e) = Inr compact" and "validate_candidate w = Inr ()"
    and "\<And>c d. c \<in> set (eligible_candidates e) \<Longrightarrow> cd_score c = Some d \<Longrightarrow> no_better (sn_direction (ev_policy e)) d best"
    and "\<And>c. c \<in> set (eligible_candidates e) \<Longrightarrow> cd_score c = Some best \<Longrightarrow> cd_index w \<le> cd_index c"
proof -
  note V = validate_evidence_Inr [OF v]
  have el: "validate_candidate c = Inr () \<and> cd_status c = ELIGIBLE" if "c \<in> set (eligible_candidates e)" for c
    using V(1) that by (auto simp: eligible_candidates_def)
  let ?xs = "map (\<lambda>c. (the (cd_score c), c)) (eligible_candidates e)"
  have sc: "\<exists>d. cd_score c = Some d" if "c \<in> set (eligible_candidates e)" for c
    using el [OF that] by (auto elim!: eligible_candidate)
  obtain best w where w: "winner_of (sn_direction (ev_policy e)) ?xs = (best, w)" by (cases "winner_of (sn_direction (ev_policy e)) ?xs")
  have xs: "?xs \<noteq> []" using ne by simp
  note W = winner_of_best [OF xs w]
  have m: "w \<in> set (eligible_candidates e)" and b: "the (cd_score w) = best" using W(1) by auto
  have "\<forall>r\<in>set (rejection_reasons e). \<exists>t. r = Some t \<and> t \<noteq> []"
    using V(1) by (auto simp: rejection_reasons_def elim!: rejected_candidate)
  then obtain compact where "\<And>err. compact_reasons err (rejection_reasons e) = Inr compact" using reasons_total by metis
  moreover obtain train validation where "cd_train w = Some train" "cd_validation w = Some validation"
    using el [OF m] by (auto elim!: eligible_candidate)
  moreover have "cd_score w = Some best" using b sc [OF m] by auto
  moreover have "no_better (sn_direction (ev_policy e)) d best" if "c \<in> set (eligible_candidates e)" "cd_score c = Some d" for c d
    by (rule W(2) [of d c]) (use that in force)
  moreover have "cd_index w \<le> cd_index c" if "c \<in> set (eligible_candidates e)" "cd_score c = Some best" for c
  proof -
    have "(best, c) \<in> set ?xs" using that by force
    from W(3) [OF this] show ?thesis by auto
  qed
  ultimately show thesis using that [OF _ w m] scored_eq sc el [OF m] by blast
qed


section \<open>The decision\<close>

definition winner_decision :: "selection_digests \<Rightarrow> fold_evidence \<Rightarrow> decimal \<Rightarrow> selection_candidate \<Rightarrow> selection_reference \<Rightarrow> selection_reference
    \<Rightarrow> string list \<Rightarrow> fold_decision" where
  "winner_decision D e best w train validation summary =
     (let payload = \<lparr>dc_fold_id = ev_fold_id e, dc_fold_index = ev_fold_index e, dc_policy = ev_policy e,
        dc_index = cd_index w, dc_combination_id = cd_id w, dc_parameters = cd_parameters w,
        dc_score = best, dc_rank = 1, dc_eligible = ev_eligible e, dc_rejected = ev_rejected e,
        dc_reasons = summary, dc_train = train, dc_validation = validation, dc_evidence_id = ev_id e,
        dc_evidence_checksum = ev_checksum e, dc_checksum = [], dc_id = []\<rparr>
      in payload\<lparr>dc_checksum := sd_decision D payload, dc_id := sd_decision_id D payload\<rparr>)"

text \<open>Against the evidence exactly one decision is accepted, the winner's.\<close>

lemma accepted_decision_iff:
  assumes "validate_evidence D e = Inr ()" and "eligible_candidates e \<noteq> []"
    and "scored_candidates (eligible_candidates e) = Inr xs" and "winner_of (sn_direction (ev_policy e)) xs = (best, w)"
    and "cd_train w = Some train" and "cd_validation w = Some validation"
    and "\<And>err. compact_reasons err (rejection_reasons e) = Inr summary"
  shows "validate_decision_against_evidence D d e = Inr () \<longleftrightarrow>
    d = winner_decision D e best w train validation summary \<and> validate_decision D d = Inr ()
    \<and> length summary \<le> 128 \<and> list_all (\<lambda>r. length r \<le> 128) summary"
proof -
  have "validate_decision_against_evidence D d e = Inr () \<longleftrightarrow>
      validate_decision D d = Inr () \<and> (length summary \<le> 128 \<and> list_all (\<lambda>r. length r \<le> 128) summary) \<and>
      (dc_fold_id d = ev_fold_id e \<and> dc_fold_index d = ev_fold_index e \<and> dc_policy d = ev_policy e
         \<and> dc_evidence_id d = ev_id e \<and> dc_evidence_checksum d = ev_checksum e) \<and>
      (dc_index d = cd_index w \<and> dc_combination_id d = cd_id w \<and> dc_parameters d = cd_parameters w
         \<and> dc_score d = best \<and> dc_rank d = 1 \<and> dc_eligible d = ev_eligible e \<and> dc_rejected d = ev_rejected e
         \<and> dc_reasons d = summary \<and> dc_train d = train \<and> dc_validation d = validation) \<and>
      dc_checksum d = sd_decision D (selection_decision_payload d) \<and> dc_id d = sd_decision_id D (selection_decision_payload d)"
    using assms by (auto simp: validate_decision_against_evidence_def compact_rejection_reasons_def Let_def list_ex_iff list_all_iff not_less)
  also have "\<dots> \<longleftrightarrow> d = winner_decision D e best w train validation summary \<and> validate_decision D d = Inr ()
      \<and> length summary \<le> 128 \<and> list_all (\<lambda>r. length r \<le> 128) summary"
    by (cases d) (auto simp: winner_decision_def selection_decision_payload_def Let_def)
  finally show ?thesis .
qed

lemma select_fold_eq:
  assumes "validate_evidence D e = Inr ()" and "eligible_candidates e \<noteq> []"
    and "scored_candidates (eligible_candidates e) = Inr xs" and "winner_of (sn_direction (ev_policy e)) xs = (best, w)"
    and "cd_train w = Some train" and "cd_validation w = Some validation"
    and "\<And>err. compact_reasons err (rejection_reasons e) = Inr summary"
  shows "select_fold D e = (let d = winner_decision D e best w train validation summary in
    res_bind (validate_decision D d) (\<lambda>_. res_bind (validate_decision_against_evidence D d e) (\<lambda>_. Inr d)))"
  using assms(1-6) assms(7) by (simp add: select_fold_def winner_decision_def Let_def)

text \<open>Everything a successful selection has established.\<close>

lemma selected:
  assumes "select_fold D e = Inr d"
  shows "validate_evidence D e = Inr ()" and "eligible_candidates e \<noteq> []" and "validate_decision_against_evidence D d e = Inr ()"
proof -
  show v: "validate_evidence D e = Inr ()" using assms by (cases "validate_evidence D e") (simp_all add: select_fold_def)
  show n: "eligible_candidates e \<noteq> []" using assms v by (cases "eligible_candidates e = []") (simp_all add: select_fold_def)
  show "validate_decision_against_evidence D d e = Inr ()"
  proof (rule evidence_winner [OF v n], goal_cases)
    case (1 best w train validation summary)
    from assms show ?case unfolding select_fold_eq [OF v n 1(1,2) 1(5,6,7)] Let_def by (elim res_bind_InrE) simp
  qed
qed

section \<open>What is promised\<close>

text \<open>C12: The selection of a fold takes the best eligible combination and reports it truthfully: whenever \<open>select\<close> returns a
  decision, its combination, parameters, score and references are those of one eligible candidate of the evidence, no eligible
  candidate has a score that is better in the direction of the policy, and among those with the same score the one with the
  smallest index is taken.\<close>

theorem selection_optimal:
  assumes "select_fold D e = Inr d"
  shows "\<exists>w\<in>set (ev_candidates e). cd_status w = ELIGIBLE \<and> dc_index d = cd_index w \<and> dc_combination_id d = cd_id w
    \<and> dc_parameters d = cd_parameters w \<and> cd_score w = Some (dc_score d) \<and> cd_train w = Some (dc_train d)
    \<and> cd_validation w = Some (dc_validation d)
    \<and> (\<forall>c\<in>set (ev_candidates e). \<forall>s. cd_status c = ELIGIBLE \<longrightarrow> cd_score c = Some s \<longrightarrow>
         (case sn_direction (ev_policy e) of MAXIMIZE \<Rightarrow> s \<le> dc_score d | MINIMIZE \<Rightarrow> dc_score d \<le> s)
         \<and> (s = dc_score d \<longrightarrow> dc_index d \<le> cd_index c))"
proof (rule evidence_winner [OF selected(1,2) [OF assms]], goal_cases)
  case (1 best w train validation summary)
  have d: "d = winner_decision D e best w train validation summary"
    using selected(3) [OF assms] unfolding accepted_decision_iff [OF selected(1,2) [OF assms] 1(1,2,5,6,7)] by blast
  show ?case
    using 1(3-6) 1(9,10) by (intro bexI [of _ w])
      (auto simp: d winner_decision_def eligible_candidates_def no_better_def Let_def split: selection_direction.splits)
qed

text \<open>C13: A selection can be reproduced and nothing else passes for it: after \<open>select\<close> returned a decision, the independent
  recomputation \<open>validate_selection_decision_against_evidence\<close> accepts that decision against the evidence and refuses every
  other one, even one whose own checksum and identifier are consistent.\<close>

theorem selection_reproducible:
  assumes "select_fold D e = Inr d"
  shows "validate_decision_against_evidence D d' e = Inr () \<longleftrightarrow> d' = d"
proof (rule evidence_winner [OF selected(1,2) [OF assms]], goal_cases)
  case (1 best w train validation summary)
  note A = accepted_decision_iff [OF selected(1,2) [OF assms] 1(1,2,5,6,7)]
  show ?case using selected(3) [OF assms] unfolding A by blast
qed

lemma summary_of:
  assumes "compact_reasons err (rejection_reasons e) = Inr summary" and "c \<in> set (ev_candidates e)" "cd_status c = REJECTED"
    and "cd_reason c = Some t"
  shows "\<exists>n. t @ '':'' @ show_nat n \<in> set summary"
proof -
  have "Some t \<in> set (rejection_reasons e)" using assms(2-4) by (force simp: rejection_reasons_def)
  moreover have "res_map (required_reason err) rs = Inr ys \<Longrightarrow> Some t \<in> set rs \<Longrightarrow> t \<in> set ys" for rs ys
    by (induction rs arbitrary: ys) (auto simp: required_reason_def)
  ultimately obtain rs where "t \<in> set rs" and "summary = map (\<lambda>r. r @ '':'' @ show_nat (count_list rs r)) (sort (remdups rs))"
    using assms(1) by (auto simp: compact_reasons_def)
  then have "t @ '':'' @ show_nat (count_list rs t) \<in> set summary" by simp
  then show ?thesis by (rule exI)
qed

lemma select_fold_succeeds:
  assumes "validate_evidence D e = Inr ()" and "is_sha256 (ev_id e)" and "is_sha256 (ev_checksum e)"
  shows "(\<exists>d. select_fold D e = Inr d) \<longleftrightarrow>
    1 \<le> ev_eligible e \<and> ev_eligible e \<le> 100000 \<and> ev_rejected e \<le> 100000
    \<and> (\<exists>summary. compact_rejection_reasons (rejection_reasons e) = Inr summary)"
proof (cases "eligible_candidates e = []")
  case True
  then show ?thesis using assms validate_evidence_Inr(3) [OF assms(1)] by (simp add: select_fold_def)
next
  case False
  note V = validate_evidence_Inr [OF assms(1)]
  show ?thesis
  proof (rule evidence_winner [OF assms(1) False], goal_cases)
    case (1 best w train validation summary)
    let ?d = "winner_decision D e best w train validation summary"
    note A = accepted_decision_iff [OF assms(1) False 1(1,2,5,6,7)]
    have w: "validate_candidate w = Inr ()" "cd_status w = ELIGIBLE" using 1(3,8) by (simp_all add: eligible_candidates_def)
    obtain train' validation' score where W: "cd_train w = Some train'" "cd_validation w = Some validation'" "cd_score w = Some score"
        "validate_selection_reference train' = Inr ()" "validate_selection_reference validation' = Inr ()" "train' \<noteq> validation'"
        "finite_score score = Inr ()" "exact_int (cd_index w) 0 100000 = Inr ()" "check_sha256 (cd_id w) = Inr ()"
        "validate_parameters (cd_parameters w) = Inr ()"
      using eligible_candidate [OF w] by blast
    have n: "0 \<le> ev_rejected e" "1 \<le> ev_eligible e"
      using V(3,4) False by (simp_all add: eligible_candidates_def Suc_le_eq)
    have "list_all (\<lambda>r. r \<noteq> []) summary" using 1(7) [of ValueError] by (auto simp: compact_reasons_def list_all_iff)
    then have "validate_decision D ?d = Inr () \<longleftrightarrow> ev_eligible e \<le> 100000 \<and> ev_rejected e \<le> 100000 \<and> list_all (\<lambda>r. length r \<le> 128) summary"
      using W 1(4-6) V(7-9) assms(2,3) n
      by (auto simp: validate_decision_def winner_decision_def Let_def exact_int_def check_sha256_def selection_decision_payload_def list_all_iff)
    moreover have "(\<exists>d. select_fold D e = Inr d) \<longleftrightarrow> validate_decision_against_evidence D ?d e = Inr ()"
      unfolding select_fold_eq [OF assms(1) False 1(1,2,5,6,7)] using A [of ?d] by (auto simp: Let_def)
    moreover have "(\<exists>summary. compact_rejection_reasons (rejection_reasons e) = Inr summary) \<longleftrightarrow>
        length summary \<le> 128 \<and> list_all (\<lambda>r. length r \<le> 128) summary"
      using 1(7) by (auto simp: compact_rejection_reasons_def list_ex_iff list_all_iff not_less)
    ultimately show ?case using n A [of ?d] by blast
  qed
qed

text \<open>C23: Which valid evidence can be selected from: with digests that are SHA-256 texts, \<open>select\<close> returns a decision exactly
  when some candidate is eligible, no more than 100000 are on either side, and the summary of the rejections keeps within its
  limits of 128 entries of 128 characters.\<close>

theorem selection_succeeds_iff:
  assumes "validate_evidence D e = Inr ()" and "is_sha256 (ev_id e)" and "is_sha256 (ev_checksum e)"
  shows "(\<exists>d. select_fold D e = Inr d) \<longleftrightarrow>
    1 \<le> ev_eligible e \<and> ev_eligible e \<le> 100000 \<and> ev_rejected e \<le> 100000
    \<and> (\<exists>summary. compact_rejection_reasons (rejection_reasons e) = Inr summary)"
  using assms by (rule select_fold_succeeds)

text \<open>A valid rejected candidate whose reason has 127 or 128 characters makes every selection of its fold fail: the count is
  appended to the reason before the limit of 128 characters is applied.\<close>

theorem long_reason_blocks_selection:
  assumes "validate_evidence D e = Inr ()" and "c \<in> set (ev_candidates e)" and "cd_status c = REJECTED"
    and "cd_reason c = Some t" and "127 \<le> length t"
  shows "\<not> (\<exists>d. select_fold D e = Inr d)"
proof
  assume "\<exists>d. select_fold D e = Inr d"
  then obtain d where d: "select_fold D e = Inr d" by (rule exE)
  show False
  proof (rule evidence_winner [OF selected(1,2) [OF d]], goal_cases)
    case (1 best w train validation summary)
    obtain n where n: "t @ '':'' @ show_nat n \<in> set summary" using summary_of [OF 1(7) assms(2-4)] by (rule exE)
    have "list_all (\<lambda>r. length r \<le> 128) summary"
      using selected(3) [OF d] unfolding accepted_decision_iff [OF selected(1,2) [OF d] 1(1,2,5,6,7)] by blast
    then have "length (t @ '':'' @ show_nat n) \<le> 128" using n by (simp only: list_all_iff)
    moreover have "show_nat n \<noteq> []" by (subst show_nat.simps) simp
    then have "0 < length (show_nat n)" by simp
    ultimately show False using assms(5) by simp
  qed
qed

section \<open>Evidence of an example fold\<close>

definition fold_example_sha :: "char \<Rightarrow> string" where
  "fold_example_sha c = replicate 64 c"

definition fold_example_reference :: "char \<Rightarrow> selection_reference" where
  "fold_example_reference c = \<lparr>sf_run_spec_id = fold_example_sha c, sf_run_id = fold_example_sha c, sf_checksum = fold_example_sha c,
     sf_path = ''runs/'' @ fold_example_sha c\<rparr>"

definition fold_example_eligible :: "int \<Rightarrow> char \<Rightarrow> decimal \<Rightarrow> selection_candidate" where
  "fold_example_eligible i c s = \<lparr>cd_index = i, cd_id = fold_example_sha c, cd_parameters = [(''fast'', Int_value i)], cd_status = ELIGIBLE,
     cd_reason = None, cd_train = Some (fold_example_reference c), cd_validation = Some (fold_example_reference (CHR ''f'')),
     cd_metric = NET_PROFIT, cd_score = Some s\<rparr>"

definition fold_example_rejected :: "string \<Rightarrow> selection_candidate" where
  "fold_example_rejected t = \<lparr>cd_index = 1, cd_id = fold_example_sha (CHR ''b''), cd_parameters = [(''fast'', Int_value 1)], cd_status = REJECTED,
     cd_reason = Some t, cd_train = None, cd_validation = None, cd_metric = NET_PROFIT, cd_score = None\<rparr>"

definition fold_example_evidence :: "string \<Rightarrow> fold_evidence" where
  "fold_example_evidence t = \<lparr>ev_fold_id = fold_example_sha (CHR ''1''), ev_fold_index = 0, ev_experiment_id = fold_example_sha (CHR ''2''),
     ev_policy = \<lparr>sn_metric = NET_PROFIT, sn_direction = MAXIMIZE, sn_schema_version = 1\<rparr>,
     ev_candidates = [fold_example_eligible 0 (CHR ''a'') (3 / 2), fold_example_rejected t,
       fold_example_eligible 2 (CHR ''c'') (7 / 2), fold_example_eligible 3 (CHR ''d'') (7 / 2)],
     ev_eligible = 3, ev_rejected = 1, ev_checksum = fold_example_sha (CHR ''3''), ev_id = fold_example_sha (CHR ''4'')\<rparr>"

definition fold_example_digests :: selection_digests where
  "fold_example_digests = \<lparr>sd_evidence = (\<lambda>e. fold_example_sha (CHR ''3'')), sd_evidence_id = (\<lambda>e. fold_example_sha (CHR ''4'')),
     sd_decision = (\<lambda>d. fold_example_sha (CHR ''5'')), sd_decision_id = (\<lambda>d. fold_example_sha (CHR ''6''))\<rparr>"

lemma fold_example_sha256: "c \<in> set ''0123456789abcdef'' \<Longrightarrow> check_sha256 (fold_example_sha c) = Inr ()"
  by (auto simp: check_sha256_def is_sha256_def fold_example_sha_def is_digit_def list_all_iff)

lemma fold_example_sha_eq [simp]: "fold_example_sha c = fold_example_sha d \<longleftrightarrow> c = d"
  by (simp add: fold_example_sha_def replicate_eq_replicate)

lemma fold_example_reference_eq [simp]: "fold_example_reference c = fold_example_reference d \<longleftrightarrow> c = d"
  by (auto simp: fold_example_reference_def)

lemma fold_example_reference_valid:
  "validate_selection_reference (fold_example_reference (CHR ''a'')) = Inr ()" "validate_selection_reference (fold_example_reference (CHR ''c'')) = Inr ()"
  "validate_selection_reference (fold_example_reference (CHR ''d'')) = Inr ()" "validate_selection_reference (fold_example_reference (CHR ''f'')) = Inr ()"
  by code_simp+

lemma fold_example_parts:
  "finite_score (3 / 2) = Inr ()" "finite_score (7 / 2) = Inr ()" "validate_parameters [(''fast'', Int_value 0)] = Inr ()"
  "validate_parameters [(''fast'', Int_value 1)] = Inr ()" "validate_parameters [(''fast'', Int_value 2)] = Inr ()"
  "validate_parameters [(''fast'', Int_value 3)] = Inr ()"
  by code_simp+

lemma fold_example_candidates:
  "validate_candidate (fold_example_eligible 0 (CHR ''a'') (3 / 2)) = Inr ()" "validate_candidate (fold_example_eligible 2 (CHR ''c'') (7 / 2)) = Inr ()"
  "validate_candidate (fold_example_eligible 3 (CHR ''d'') (7 / 2)) = Inr ()" "t \<noteq> [] \<Longrightarrow> length t \<le> 128 \<Longrightarrow> validate_candidate (fold_example_rejected t) = Inr ()"
  by (simp_all add: validate_candidate_def validate_optional_reference_def fold_example_eligible_def fold_example_rejected_def exact_int_def
      fold_example_parts fold_example_reference_valid fold_example_sha256)

lemma fold_example_order:
  "map (\<lambda>c. (cd_index c, cd_id c)) (ev_candidates (fold_example_evidence t)) =
     [(0, fold_example_sha (CHR ''a'')), (1, fold_example_sha (CHR ''b'')), (2, fold_example_sha (CHR ''c'')), (3, fold_example_sha (CHR ''d''))]"
  "map cd_index (ev_candidates (fold_example_evidence t)) = map int [0 ..< length (ev_candidates (fold_example_evidence t))]"
  "map cd_id (ev_candidates (fold_example_evidence t)) =
     [fold_example_sha (CHR ''a''), fold_example_sha (CHR ''b''), fold_example_sha (CHR ''c''), fold_example_sha (CHR ''d'')]"
  "list_all (\<lambda>c. cd_metric c = NET_PROFIT) (ev_candidates (fold_example_evidence t))"
  "eligible_candidates (fold_example_evidence t) =
     [fold_example_eligible 0 (CHR ''a'') (3 / 2), fold_example_eligible 2 (CHR ''c'') (7 / 2), fold_example_eligible 3 (CHR ''d'') (7 / 2)]"
  by (simp_all add: fold_example_evidence_def fold_example_eligible_def fold_example_rejected_def eligible_candidates_def upt_rec)

lemma fold_example_valid:
  assumes "t \<noteq> []" and "length t \<le> 128"
  shows "validate_evidence fold_example_digests (fold_example_evidence t) = Inr ()"
proof -
  have "\<forall>c\<in>set (ev_candidates (fold_example_evidence t)). validate_candidate c = Inr ()"
    using fold_example_candidates(1-3) fold_example_candidates(4) [OF assms] by (simp add: fold_example_evidence_def)
  then show ?thesis
    unfolding validate_evidence_def candidates_fold Let_def fold_example_order
    by (simp add: fold_example_evidence_def fold_example_digests_def validate_selection_policy_def exact_int_def
      fold_example_sha256 ABSOLUTE_MAX_FOLDS_def res_bind_def fold_example_eligible_def fold_example_rejected_def)
qed

lemma fold_example_digest_texts:
  "is_sha256 (ev_id (fold_example_evidence t))" "is_sha256 (ev_checksum (fold_example_evidence t))"
  using fold_example_sha256 [of "CHR ''3''"] fold_example_sha256 [of "CHR ''4''"] by (simp_all add: fold_example_evidence_def check_sha256_def)

lemma fold_example_counts: "ev_eligible (fold_example_evidence t) = 3" "ev_rejected (fold_example_evidence t) = 1"
    "rejection_reasons (fold_example_evidence t) = [Some t]"
  by (simp_all add: fold_example_evidence_def rejection_reasons_def fold_example_eligible_def fold_example_rejected_def)

lemma fold_example_summary:
  "compact_rejection_reasons [Some ''failed''] = Inr [''failed:1'']"
  "\<not> (\<exists>summary. compact_rejection_reasons [Some (replicate 128 (CHR ''x''))] = Inr summary)"
  by (code_simp, simp add: compact_rejection_reasons_def compact_reasons_def required_reason_def)

lemma fold_example_selected: "\<exists>d. select_fold fold_example_digests (fold_example_evidence ''failed'') = Inr d"
  using select_fold_succeeds [OF fold_example_valid fold_example_digest_texts, of "''failed''"] fold_example_summary(1)
  by (simp add: fold_example_counts)

theorem selection_succeeds_iff_witness:
  "(\<exists>d. select_fold fold_example_digests (fold_example_evidence ''failed'') = Inr d)
    \<and> \<not> (\<exists>d. select_fold fold_example_digests (fold_example_evidence (replicate 128 (CHR ''x''))) = Inr d)"
  using selection_succeeds_iff [OF fold_example_valid fold_example_digest_texts, of "''failed''"]
    selection_succeeds_iff [OF fold_example_valid fold_example_digest_texts, of "replicate 128 (CHR ''x'')"] fold_example_summary
  by (simp add: fold_example_counts)

theorem selection_optimal_witness:
  "\<exists>d. select_fold fold_example_digests (fold_example_evidence ''failed'') = Inr d \<and> dc_index d = 2 \<and> dc_score d = 7 / 2"
proof -
  obtain d where d: "select_fold fold_example_digests (fold_example_evidence ''failed'') = Inr d" using fold_example_selected by (rule exE)
  note O = selection_optimal [OF d]
  let ?c = "fold_example_eligible 2 (CHR ''c'') (7 / 2)"
  have "?c \<in> set (ev_candidates (fold_example_evidence ''failed''))" "cd_status ?c = ELIGIBLE" "cd_score ?c = Some (7 / 2)"
      "cd_index ?c = 2" "sn_direction (ev_policy (fold_example_evidence ''failed'')) = MAXIMIZE"
    by (simp_all add: fold_example_evidence_def fold_example_eligible_def)
  then have b: "7 / 2 \<le> dc_score d" "dc_score d = 7 / 2 \<Longrightarrow> dc_index d \<le> 2"
    using O by (elim bexE conjE, metis (no_types) selection_direction.case)+
  obtain w where "w \<in> set (ev_candidates (fold_example_evidence ''failed''))" and "dc_index d = cd_index w" and "cd_status w = ELIGIBLE"
      and "cd_score w = Some (dc_score d)"
    using O by (elim bexE conjE) (rule that)
  then have "dc_index d = 2 \<and> dc_score d = 7 / 2"
    using b by (auto simp: fold_example_evidence_def fold_example_eligible_def fold_example_rejected_def)
  then show ?thesis using d by blast
qed

theorem selection_reproducible_witness:
  "\<exists>d. select_fold fold_example_digests (fold_example_evidence ''failed'') = Inr d
     \<and> validate_decision_against_evidence fold_example_digests d (fold_example_evidence ''failed'') = Inr ()
     \<and> validate_decision_against_evidence fold_example_digests (d\<lparr>dc_eligible := dc_eligible d + 1\<rparr>) (fold_example_evidence ''failed'') \<noteq> Inr ()"
proof -
  obtain d where d: "select_fold fold_example_digests (fold_example_evidence ''failed'') = Inr d" using fold_example_selected by (rule exE)
  have "d\<lparr>dc_eligible := dc_eligible d + 1\<rparr> \<noteq> d" by (cases d) simp
  then show ?thesis using d unfolding selection_reproducible [OF d] by (intro exI [of _ d]) (simp add: selection_reproducible [OF d])
qed

end
