(* ===== verification/Spec2Isabelle.thy ===== *)
theory Spec2Isabelle
  imports Planning Resampling Jobs Indicators Regime Backtest_Run Candle_Guarantees Search_Guarantees Walk_Plans Fold_Selection
begin

text \<open>
  A verification development for the Python backend of this repository, \<^verbatim>\<open>src/services/backend/app\<close>.

  The program collects OHLCV candles of an exchange, stores them, derives larger timeframes,
  computes technical indicators, and runs deterministic backtests of trading strategies on them.

  Theories, in dependency order.

  \<^item> \<open>Prelude\<close>: exceptions as values (\<open>error\<close>, \<open>res_bind\<close>, \<open>require\<close>), loops that may raise
    (\<open>res_fold\<close>), adjacent-pair checks (\<open>chain\<close>), characters and identifiers.
  \<^item> \<open>Decimal\<close>: Python's \<^verbatim>\<open>decimal\<close>: values as rationals, context rounding half to even at 28 and 50
    digits, and the contract \<open>decimal_context\<close> the other theories use.
  \<^item> \<open>Market_Domain\<close>: \<^verbatim>\<open>market_data/domain.py\<close>, \<^verbatim>\<open>timeframes.py\<close>, \<^verbatim>\<open>calendars.py\<close>: instants, pairs,
    timeframes, candles and their constructors; the contract \<open>grid_floor\<close> of rounding to open times.
  \<^item> \<open>Civil\<close>: the Gregorian calendar the monthly partitions need.  \<open>Candle_Store\<close>, \<open>Candle_Plan\<close>,
    \<open>Candle_Upsert\<close>, \<open>Candle_Guarantees\<close>: \<^verbatim>\<open>market_data/storage.py\<close>: a store is an association list from paths to
    the rows of a partition file; reading, planning a merge, writing it with file-system calls that may fail
    at any point, rollback and commit, and the store as an interpretation of the locale \<open>merge_store\<close>.
  \<^item> \<open>Planning\<close>: \<^verbatim>\<open>market_data/planning.py\<close>: gaps and bounded backfill plans.
  \<^item> \<open>Resampling\<close>: \<^verbatim>\<open>market_data/resampling.py\<close>: one aggregated candle per complete group.
  \<^item> \<open>Segmentation\<close>, \<open>Temporal_Plans\<close>: \<^verbatim>\<open>optimization/temporal_domain.py\<close>, \<^verbatim>\<open>temporal_segmentation.py\<close>: TRAIN,
    VALIDATION and TEST ranges of a snapshot, their validation and when a plan exists.
  \<^item> \<open>Canonical\<close>, \<open>Search_Space\<close>, \<open>Search_Guarantees\<close>: \<^verbatim>\<open>optimization/canonical.py\<close>, \<^verbatim>\<open>domain.py\<close>,
    \<^verbatim>\<open>documents.py\<close>, \<^verbatim>\<open>parameter_search.py\<close>: canonical texts of decimals, finite parameter spaces, their exact
    Cartesian expansion and their documents.  What the plugin registry resolves and whether the factory of a
    strategy accepts a combination are arguments.
  \<^item> \<open>Walk_Forward\<close>, \<open>Walk_Plans\<close>: \<^verbatim>\<open>optimization/walk_forward_domain.py\<close>, \<^verbatim>\<open>walk_forward_planning.py\<close>: rolling
    folds over a snapshot, their validation and when a plan exists.  The experiment planner, the digests and the
    document sizes are the fields of \<open>walk_env\<close>.
  \<^item> \<open>Fold_Selection\<close>: the selection evidence of a fold and \<^verbatim>\<open>WalkForwardSelectionService.select\<close> of
    \<^verbatim>\<open>walk_forward_execution.py\<close>, with the independent recomputation of its decision.
  \<^item> \<open>Jobs\<close>: \<^verbatim>\<open>market_data/jobs.py\<close>: durable job checkpoints as a step relation on catalogs.
  \<^item> \<open>Indicators\<close>: \<^verbatim>\<open>app/indicators\<close>: EMA, RSI, ATR, MACD as instances of \<open>smoothed_indicator\<close>.
  \<^item> \<open>Regime\<close>: batch and streaming regime classification, proved equal.
  \<^item> \<open>Backtest_Domain\<close>: \<^verbatim>\<open>backtesting/domain.py\<close>: configuration, intents, orders, fills, portfolio and equity
    records with their constructors as checks.
  \<^item> \<open>Portfolio\<close>: \<^verbatim>\<open>portfolio.py\<close>: fills and marks on an average-cost position; when a fill is accepted, how far
    rounding moves the books, and the partial sale that rounding refuses.
  \<^item> \<open>Lifecycle\<close>: locales for status machines; \<open>Execution\<close>: \<^verbatim>\<open>execution.py\<close>: order transitions (an
    interpretation of them), quotes of market, limit and stop orders, truncation to exchange steps.
  \<^item> \<open>Risk\<close>: \<^verbatim>\<open>sizing.py\<close>, \<^verbatim>\<open>risk.py\<close>, \<^verbatim>\<open>stop_loss.py\<close>: sizes, limits and protective stops.
  \<^item> \<open>Ledger\<close>: \<^verbatim>\<open>ledger.py\<close>: the hash-linked event log; SHA-256 over the canonical JSON of an entry is a
    parameter, and what needs it not to collide says so.
  \<^item> \<open>Strategy\<close>, \<open>Engine\<close>: \<^verbatim>\<open>strategy.py\<close>, \<^verbatim>\<open>engine.py\<close>: the lists that \<^verbatim>\<open>run\<close> mutates are the record
    \<open>engine\<close>, each block of its loop body is one definition, and \<open>run_backtest\<close> composes them.
    The snapshot reader and the strategy are arguments.
  \<^item> \<open>Engine_Invariant\<close>: one lemma per block: orders only move forward, fills belong to filled orders,
    ledger and portfolio agree, at most one protective stop is open.
  \<^item> \<open>Backtest_Run\<close>: the properties of a whole run, and a complete example run.

  Bounds.  Decimal precision is the program's own (28 and 50 digits).  Every loop is structural or
  has a measure; there is no fuel.

  Not modelled: file formats, databases, HTTP, threads and locks (their effects on the modelled
  state are parameters), exception messages, non-finite decimals and decimal exponent limits.
\<close>

end
